(* ===== verification/Cap_Prelude.thy ===== *)
theory Cap_Prelude
  imports Main "HOL-Library.Word"
begin

text \<open>
  Shared vocabulary of the development: truncating casts of the C source, the sentinel
  that ends every index-linked list of \<^verbatim>\<open>kernel/cap.c\<close>, singly linked chains through a
  \<open>next\<close> array, and the interface \<open>index_freelist\<close> that the three free lists of the
  capability layer (table slots, holder nodes, payload buffers) implement.
\<close>

unbundle bit_operations_syntax

section \<open>Automation collections\<close>

named_theorems limits \<open>numeric values of the compile-time limits\<close>
named_theorems word_fields \<open>reading back the fields of a packed capability word\<close>
named_theorems frame \<open>state components an operation leaves untouched\<close>

section \<open>Casts\<close>

text \<open>\<^verbatim>\<open>(uint8_t)x\<close>, \<^verbatim>\<open>(uint16_t)x\<close> and \<^verbatim>\<open>(uint32_t)x\<close> on values held as \<open>nat\<close>.\<close>

definition u8 :: "nat \<Rightarrow> nat" where
  "u8 x = x mod 256"

definition u16 :: "nat \<Rightarrow> nat" where
  "u16 x = x mod 65536"

definition u32 :: "nat \<Rightarrow> nat" where
  "u32 x = x mod 4294967296"

lemma u8_small [simp]: "x < 256 \<Longrightarrow> u8 x = x"
  by (simp add: u8_def)

lemma u16_small [simp]: "x < 65536 \<Longrightarrow> u16 x = x"
  by (simp add: u16_def)

lemma u32_small [simp]: "x < 4294967296 \<Longrightarrow> u32 x = x"
  by (simp add: u32_def)

lemma u16_bound [simp]: "u16 x < 65536"
  by (simp add: u16_def)

text \<open>
  A free-running 32-bit cursor reduced modulo a power of two: the wrap of the counter
  is invisible because the modulus divides \<open>2 ^ 32\<close>.
\<close>

lemma u32_mod_16 [simp]: "u32 x mod 16 = x mod 16"
  by (simp add: u32_def mod_mod_cancel)

lemma u32_mod_8 [simp]: "u32 x mod 8 = x mod 8"
  by (simp add: u32_def mod_mod_cancel)

lemma u32_add: "u32 (u32 a + b) = u32 (a + b)"
  by (simp add: u32_def mod_simps)

definition u64 :: "nat \<Rightarrow> nat" where
  "u64 n = n mod 2 ^ 64"

lemma u64_small [simp]: "n < 2 ^ 64 \<Longrightarrow> u64 n = n"
  by (simp add: u64_def)

text \<open>The slot behind a ring's last message is none of the occupied ones.\<close>

lemma slot_new:
  assumes "k < n" "n < d"
  shows "(h + k) mod d \<noteq> (h + n :: nat) mod d"
proof
  assume "(h + k) mod d = (h + n) mod d"
  then have "d dvd (h + n) - (h + k)"
    by (metis mod_eq_dvd_iff_nat assms(1) add_le_cancel_left less_imp_le_nat)
  then have "d dvd n - k"
    by simp
  with assms show False
    by (auto dest: dvd_imp_le)
qed

section \<open>Chains through a next array\<close>

text \<open>\<^verbatim>\<open>#define CAP_FREELIST_END 0xFFFF\<close>: the end marker of every index-linked list.\<close>

abbreviation (input) CAP_FREELIST_END :: nat where
  "CAP_FREELIST_END \<equiv> 65535"

fun chain :: "(nat \<Rightarrow> nat) \<Rightarrow> nat \<Rightarrow> nat list \<Rightarrow> bool" where
  "chain nxt h [] \<longleftrightarrow> h = CAP_FREELIST_END"
| "chain nxt h (x # xs) \<longleftrightarrow> h = x \<and> x \<noteq> CAP_FREELIST_END \<and> chain nxt (nxt x) xs"

lemma chain_END [simp]: "chain nxt CAP_FREELIST_END xs \<longleftrightarrow> xs = []"
  by (cases xs) auto

lemma chain_not_END:
  "h \<noteq> CAP_FREELIST_END \<Longrightarrow> chain nxt h xs \<longleftrightarrow> (\<exists>ys. xs = h # ys \<and> chain nxt (nxt h) ys)"
  by (cases xs) auto

lemma chain_cong:
  "(\<And>x. x \<in> set xs \<Longrightarrow> nxt x = nxt' x) \<Longrightarrow> chain nxt h xs \<longleftrightarrow> chain nxt' h xs"
  by (induction xs arbitrary: h) auto

lemma chain_upd [simp]: "x \<notin> set xs \<Longrightarrow> chain (nxt(x := y)) h xs \<longleftrightarrow> chain nxt h xs"
  by (rule chain_cong) auto

lemma chain_unique: "chain nxt h xs \<Longrightarrow> chain nxt h ys \<Longrightarrow> xs = ys"
proof (induction xs arbitrary: h ys)
  case Nil
  then show ?case by simp
next
  case (Cons x xs)
  then show ?case by (cases ys) auto
qed

text \<open>A chain that reaches the end marker never visits an index twice.\<close>

lemma chain_suffix: "chain nxt h (xs @ y # ys) \<Longrightarrow> chain nxt y (y # ys)"
  by (induction xs arbitrary: h) auto

lemma chain_distinct: "chain nxt h xs \<Longrightarrow> distinct xs"
proof (induction xs arbitrary: h)
  case Nil
  then show ?case by simp
next
  case (Cons x xs)
  have "x \<notin> set xs"
  proof
    assume "x \<in> set xs"
    then obtain us vs where xs: "xs = us @ x # vs"
      by (auto simp: in_set_conv_decomp)
    from Cons.prems have "chain nxt x (x # xs)" and "chain nxt (nxt x) xs"
      by auto
    moreover from \<open>chain nxt (nxt x) xs\<close> have "chain nxt x (x # vs)"
      unfolding xs by (rule chain_suffix)
    ultimately have "x # xs = x # vs"
      using chain_unique by blast
    then show False
      by (simp add: xs)
  qed
  with Cons show ?case by auto
qed

lemma chain_length:
  assumes "chain nxt h xs" and "set xs \<subseteq> {..<n}"
  shows "length xs \<le> n"
proof -
  from assms(1) have "length xs = card (set xs)"
    by (simp add: chain_distinct distinct_card)
  also from assms(2) have "\<dots> \<le> n"
    using card_mono [of "{..<n}" "set xs"] by simp
  finally show ?thesis .
qed

lemma chain_upt:
  assumes "n < CAP_FREELIST_END" and "\<And>i. i < n \<Longrightarrow> nxt i = (if Suc i = n then CAP_FREELIST_END else Suc i)"
    and "m < n"
  shows "chain nxt m [m..<n]"
  using assms(3)
proof (induction "n - m" arbitrary: m)
  case 0
  then show ?case by simp
next
  case (Suc k)
  then show ?case
    using assms(1,2) by (cases "Suc m = n") (auto simp: upt_conv_Cons)
qed

section \<open>The free-list interface\<close>

text \<open>
  What the allocation paths of \<^verbatim>\<open>cap.c\<close> rely on: a head index, a link per index, a pop
  that hands out the head and a push that puts an index in front. \<open>cap\<close> is the number
  of indices the pool has. The laws say what one pop or push does to head and links; the
  lemmas below turn them into the list view the clients use.
\<close>

locale index_freelist =
  fixes head :: "'s \<Rightarrow> nat"
    and link :: "'s \<Rightarrow> nat \<Rightarrow> nat"
    and pop :: "'s \<Rightarrow> (nat \<times> 's) option"
    and push :: "nat \<Rightarrow> 's \<Rightarrow> 's"
    and cap :: nat
  assumes cap_bound: "cap \<le> CAP_FREELIST_END"
    and pop_empty: "head s = CAP_FREELIST_END \<Longrightarrow> pop s = None"
    and pop_head: "head s \<noteq> CAP_FREELIST_END \<Longrightarrow>
      \<exists>s'. pop s = Some (head s, s') \<and> head s' = link s (head s) \<and>
           (\<forall>j. j \<noteq> head s \<longrightarrow> link s' j = link s j)"
    and push_head: "x < cap \<Longrightarrow> head (push x s) = x"
    and push_link: "x < cap \<Longrightarrow> head s \<le> CAP_FREELIST_END \<Longrightarrow> link (push x s) x = head s"
    and push_other: "x < cap \<Longrightarrow> j \<noteq> x \<Longrightarrow> link (push x s) j = link s j"
begin

definition freelist :: "'s \<Rightarrow> nat list \<Rightarrow> bool" where
  "freelist s xs \<longleftrightarrow> chain (link s) (head s) xs \<and> set xs \<subseteq> {..<cap}"

lemma freelist_distinct: "freelist s xs \<Longrightarrow> distinct xs"
  by (auto simp: freelist_def dest: chain_distinct)

lemma freelist_unique: "freelist s xs \<Longrightarrow> freelist s ys \<Longrightarrow> xs = ys"
  by (auto simp: freelist_def dest: chain_unique)

lemma freelist_length: "freelist s xs \<Longrightarrow> length xs \<le> cap"
  by (auto simp: freelist_def dest: chain_length)

lemma freelist_head: "freelist s xs \<Longrightarrow> head s \<le> CAP_FREELIST_END"
  using cap_bound by (cases xs) (auto simp: freelist_def)

lemma pop_None_iff: "freelist s xs \<Longrightarrow> pop s = None \<longleftrightarrow> xs = []"
  using pop_empty [of s] pop_head [of s] by (cases xs) (auto simp: freelist_def)

lemma pop_Cons:
  assumes "freelist s (x # xs)"
  shows "\<exists>s'. pop s = Some (x, s') \<and> freelist s' xs"
proof -
  from assms have h: "head s = x" "head s \<noteq> CAP_FREELIST_END" "chain (link s) (link s x) xs"
    "set xs \<subseteq> {..<cap}" and d: "x \<notin> set xs"
    using freelist_distinct [OF assms] by (auto simp: freelist_def)
  from pop_head [OF h(2)] obtain s' where s': "pop s = Some (x, s')" "head s' = link s x"
    "\<forall>j. j \<noteq> x \<longrightarrow> link s' j = link s j"
    by (auto simp: h(1))
  have "chain (link s') (head s') xs"
    using h(3) s'(2,3) d by (metis chain_cong)
  with s'(1) h(4) show ?thesis
    by (auto simp: freelist_def)
qed

lemma pop_Some:
  assumes "freelist s xs" and "pop s = Some (x, s')"
  shows "\<exists>ys. xs = x # ys \<and> freelist s' ys"
  using assms pop_None_iff [of s xs] pop_Cons [of s] by (cases xs) auto

lemma push_Cons:
  assumes "freelist s xs" and "x < cap" and "x \<notin> set xs"
  shows "freelist (push x s) (x # xs)"
proof -
  have "chain (link (push x s)) (head s) xs \<longleftrightarrow> chain (link s) (head s) xs"
    using assms(2,3) by (intro chain_cong push_other) auto
  then show ?thesis
    using assms cap_bound freelist_head [OF assms(1)]
    by (auto simp: freelist_def push_head push_link)
qed

lemma pop_push:
  assumes "freelist s xs" and "x < cap" and "x \<notin> set xs"
  shows "\<exists>s'. pop (push x s) = Some (x, s') \<and> freelist s' xs"
  using pop_Cons [OF push_Cons [OF assms]] .

text \<open>Popping repeatedly hands out the list front to back, each index at most once.\<close>

fun pops :: "nat \<Rightarrow> 's \<Rightarrow> nat list" where
  "pops 0 s = []"
| "pops (Suc n) s = (case pop s of None \<Rightarrow> [] | Some (x, s') \<Rightarrow> x # pops n s')"

lemma pops_take: "freelist s xs \<Longrightarrow> pops n s = take n xs"
proof (induction n arbitrary: s xs)
  case 0
  then show ?case by simp
next
  case (Suc n)
  show ?case
  proof (cases xs)
    case Nil
    with Suc.prems pop_None_iff [of s xs] show ?thesis by simp
  next
    case (Cons y ys)
    with Suc.prems obtain s' where "pop s = Some (y, s')" and "freelist s' ys"
      using pop_Cons by blast
    with Cons Suc.IH show ?thesis by simp
  qed
qed

lemma pops_no_double_allocation: "freelist s xs \<Longrightarrow> distinct (pops n s)"
  by (simp add: pops_take freelist_distinct)

end

section \<open>Searches over index ranges\<close>

lemma find_upt_step: "List.find P [i..<j] = (if i < j then if P i then Some i else List.find P [Suc i..<j] else None)"
  by (simp add: upt_rec)

lemma find_upt_Some: "List.find P [0..<n] = Some i \<longleftrightarrow> i < n \<and> P i \<and> (\<forall>j < i. \<not> P j)"
  unfolding find_Some_iff by auto

end
