(* ===== verification/Cap_Word.thy ===== *)
theory Cap_Word
  imports Cap_Prelude
begin

text \<open>
  The 64-bit capability word of \<^verbatim>\<open>kernel/cap.h\<close>: its bit layout, the packing function
  \<^verbatim>\<open>cap_word_make\<close>, the validity (forgery) check \<^verbatim>\<open>cap_word_valid\<close> and the revocation
  stamp of \<^verbatim>\<open>kernel/cap.c\<close>. The lemmas say which field each accessor reads back and
  that a stamped word is never valid again while it still names the same object.
\<close>

section \<open>Layout\<close>

abbreviation (input) CAP_TYPE_NONE :: nat where "CAP_TYPE_NONE \<equiv> 0"
abbreviation (input) CAP_TYPE_MEM :: nat where "CAP_TYPE_MEM \<equiv> 1"
abbreviation (input) CAP_TYPE_CHAN_R :: nat where "CAP_TYPE_CHAN_R \<equiv> 2"
abbreviation (input) CAP_TYPE_CHAN_W :: nat where "CAP_TYPE_CHAN_W \<equiv> 3"
abbreviation (input) CAP_TYPE_TRAMP :: nat where "CAP_TYPE_TRAMP \<equiv> 4"
abbreviation (input) CAP_TYPE_DEV :: nat where "CAP_TYPE_DEV \<equiv> 5"
abbreviation (input) CAP_TYPE_IO :: nat where "CAP_TYPE_IO \<equiv> 6"
abbreviation (input) CAP_TYPE_IRQ :: nat where "CAP_TYPE_IRQ \<equiv> 7"

abbreviation (input) CAP_STATE_VALID :: nat where "CAP_STATE_VALID \<equiv> 0"
abbreviation (input) CAP_STATE_IN_TRANSIT :: nat where "CAP_STATE_IN_TRANSIT \<equiv> 1"
abbreviation (input) CAP_STATE_REVOKED :: nat where "CAP_STATE_REVOKED \<equiv> 2"

abbreviation (input) CAP_PERM_R :: "32 word" where "CAP_PERM_R \<equiv> 0x01"
abbreviation (input) CAP_PERM_W :: "32 word" where "CAP_PERM_W \<equiv> 0x02"
abbreviation (input) CAP_PERM_X :: "32 word" where "CAP_PERM_X \<equiv> 0x04"
abbreviation (input) CAP_PERM_MAP :: "32 word" where "CAP_PERM_MAP \<equiv> 0x08"
abbreviation (input) CAP_PERM_SEND :: "32 word" where "CAP_PERM_SEND \<equiv> 0x01"
abbreviation (input) CAP_PERM_RECV :: "32 word" where "CAP_PERM_RECV \<equiv> 0x02"
abbreviation (input) CAP_PERM_BIND :: "32 word" where "CAP_PERM_BIND \<equiv> 0x01"

text \<open>\<^verbatim>\<open>(w >> CAP_x_SHIFT) & CAP_x_MASK\<close>, one accessor per field.\<close>

definition cap_word_type :: "64 word \<Rightarrow> nat" where
  "cap_word_type w = unat (drop_bit 61 w AND 0x7)"

definition cap_word_state :: "64 word \<Rightarrow> nat" where
  "cap_word_state w = unat (drop_bit 57 w AND 0xF)"

definition cap_word_obj :: "64 word \<Rightarrow> nat" where
  "cap_word_obj w = unat (drop_bit 40 w AND 0x1FFFF)"

definition cap_word_perms :: "64 word \<Rightarrow> 32 word" where
  "cap_word_perms w = ucast (drop_bit 32 w AND 0xFF)"

definition cap_word_off :: "64 word \<Rightarrow> nat" where
  "cap_word_off w = unat (drop_bit 16 w AND 0xFFFF)"

definition cap_word_len :: "64 word \<Rightarrow> nat" where
  "cap_word_len w = unat (drop_bit 4 w AND 0xFFF)"

definition cap_word_rsvd :: "64 word \<Rightarrow> 64 word" where
  "cap_word_rsvd w = w AND 0xF"

definition cap_word_make :: "nat \<Rightarrow> nat \<Rightarrow> 32 word \<Rightarrow> nat \<Rightarrow> nat \<Rightarrow> 64 word" where
  "cap_word_make type obj perms off len =
     push_bit 61 (of_nat type AND 0x7) OR
     push_bit 40 (of_nat obj AND 0x1FFFF) OR
     push_bit 32 (ucast perms AND 0xFF) OR
     push_bit 16 (of_nat off AND 0xFFFF) OR
     push_bit 4 (of_nat len AND 0xFFF)"

definition cap_word_valid :: "64 word \<Rightarrow> bool" where
  "cap_word_valid w \<longleftrightarrow>
     (if cap_word_type w = CAP_TYPE_NONE then False
      else if cap_word_state w \<noteq> CAP_STATE_VALID then False
      else if cap_word_rsvd w \<noteq> 0 then False
      else True)"

definition cap_word_stamp_revoked :: "64 word \<Rightarrow> 64 word" where
  "cap_word_stamp_revoked w =
     (w AND NOT (push_bit 57 0xF)) OR push_bit 57 (of_nat CAP_STATE_REVOKED)"

text \<open>A free slot's word: type NONE, the link to the next free slot in the object field.\<close>

definition free_slot_word :: "nat \<Rightarrow> 64 word" where
  "free_slot_word nxt = push_bit 40 (of_nat nxt)"

section \<open>Reading back fields\<close>

lemma masks64:
  "(0x7::64 word) = mask 3" "(0xF::64 word) = mask 4" "(0xFF::64 word) = mask 8"
  "(0xFFF::64 word) = mask 12" "(0xFFFF::64 word) = mask 16" "(0x1FFFF::64 word) = mask 17"
  by (simp_all add: mask_eq_exp_minus_1)

lemma unat_of_nat_mask:
  assumes k: "k \<le> 64"
  shows "unat ((of_nat n :: 64 word) AND mask k) = n mod 2 ^ k"
proof -
  have "unat ((of_nat n :: 64 word) AND mask k) = take_bit k (unat (of_nat n :: 64 word))"
    by (simp only: unsigned_take_bit_eq flip: take_bit_eq_mask)
  also have "\<dots> = take_bit k n"
    using k by (simp add: unsigned_of_nat min_def)
  finally show ?thesis
    by (simp only: take_bit_eq_mod)
qed

lemma unat_and_mask_less: "unat ((w :: 64 word) AND mask k) < 2 ^ k"
proof -
  have "unat (w AND mask k) = take_bit k (unat w)"
    by (simp only: unsigned_take_bit_eq flip: take_bit_eq_mask)
  then show ?thesis
    by (simp only: take_bit_nat_less_exp)
qed

lemma make_field_words:
  "drop_bit 61 (cap_word_make t ob p off len) AND 0x7 = of_nat t AND 0x7"
  "drop_bit 57 (cap_word_make t ob p off len) AND 0xF = 0"
  "drop_bit 40 (cap_word_make t ob p off len) AND 0x1FFFF = of_nat ob AND 0x1FFFF"
  "drop_bit 32 (cap_word_make t ob p off len) AND 0xFF = ucast p AND 0xFF"
  "drop_bit 16 (cap_word_make t ob p off len) AND 0xFFFF = of_nat off AND 0xFFFF"
  "drop_bit 4 (cap_word_make t ob p off len) AND 0xFFF = of_nat len AND 0xFFF"
  "cap_word_make t ob p off len AND 0xF = 0"
  unfolding cap_word_make_def masks64
  subgoal by (rule bit_word_eqI, rename_tac n, case_tac "n < 3") (simp_all add: bit_simps)
  subgoal by (rule bit_word_eqI, rename_tac n, case_tac "n < 4") (simp_all add: bit_simps)
  subgoal by (rule bit_word_eqI, rename_tac n, case_tac "n < 17") (simp_all add: bit_simps)
  subgoal by (rule bit_word_eqI, rename_tac n, case_tac "n < 8") (simp_all add: bit_simps)
  subgoal by (rule bit_word_eqI, rename_tac n, case_tac "n < 16") (simp_all add: bit_simps)
  subgoal by (rule bit_word_eqI, rename_tac n, case_tac "n < 12") (simp_all add: bit_simps)
  subgoal by (rule bit_word_eqI, rename_tac n, case_tac "n < 4") (simp_all add: bit_simps)
  done

lemma cap_word_type_make [word_fields]: "cap_word_type (cap_word_make t ob p off len) = t mod 8"
  unfolding cap_word_type_def make_field_words unfolding masks64
  using unat_of_nat_mask [of 3 t] by simp

lemma cap_word_state_make [word_fields]: "cap_word_state (cap_word_make t ob p off len) = 0"
  by (simp only: cap_word_state_def make_field_words) simp

lemma cap_word_obj_make [word_fields]: "cap_word_obj (cap_word_make t ob p off len) = ob mod 131072"
  unfolding cap_word_obj_def make_field_words unfolding masks64
  using unat_of_nat_mask [of 17 ob] by simp

lemma cap_word_off_make [word_fields]: "cap_word_off (cap_word_make t ob p off len) = off mod 65536"
  unfolding cap_word_off_def make_field_words unfolding masks64
  using unat_of_nat_mask [of 16 off] by simp

lemma cap_word_len_make [word_fields]: "cap_word_len (cap_word_make t ob p off len) = len mod 4096"
  unfolding cap_word_len_def make_field_words unfolding masks64
  using unat_of_nat_mask [of 12 len] by simp

lemma cap_word_perms_make [word_fields]: "cap_word_perms (cap_word_make t ob p off len) = p AND 0xFF"
proof -
  have *: "(0xFF :: 32 word) = mask 8"
    by (simp add: mask_eq_exp_minus_1)
  show ?thesis
    unfolding cap_word_perms_def make_field_words unfolding masks64 *
    by (rule bit_word_eqI) (auto simp: bit_simps)
qed

lemma cap_word_rsvd_make [word_fields]: "cap_word_rsvd (cap_word_make t ob p off len) = 0"
  by (simp add: cap_word_rsvd_def make_field_words)

lemma cap_word_valid_make [word_fields]:
  "cap_word_valid (cap_word_make t ob p off len) \<longleftrightarrow> t mod 8 \<noteq> 0"
  by (simp add: cap_word_valid_def word_fields)

lemma cap_word_type_bound: "cap_word_type w < 8"
  unfolding cap_word_type_def masks64 using unat_and_mask_less [of "drop_bit 61 w" 3] by simp

lemma cap_word_obj_bound: "cap_word_obj w < 131072"
  unfolding cap_word_obj_def masks64 using unat_and_mask_less [of "drop_bit 40 w" 17] by simp

lemma cap_word_len_bound: "cap_word_len w < 4096"
  unfolding cap_word_len_def masks64 using unat_and_mask_less [of "drop_bit 4 w" 12] by simp

lemma cap_word_off_bound: "cap_word_off w < 65536"
  unfolding cap_word_off_def masks64 using unat_and_mask_less [of "drop_bit 16 w" 16] by simp

section \<open>Free slots and the zero word\<close>

lemma free_slot_word_fields [word_fields]:
  assumes "n \<le> CAP_FREELIST_END"
  shows "cap_word_type (free_slot_word n) = 0" and "cap_word_obj (free_slot_word n) = n"
    and "cap_word_valid (free_slot_word n) = False"
proof -
  have eq: "free_slot_word n = cap_word_make 0 n 0 0 0"
  proof -
    have "unat ((of_nat n :: 64 word) AND 0x1FFFF) = unat (of_nat n :: 64 word)"
      unfolding masks64 unat_of_nat_mask [of 17 n, simplified]
      using assms by (simp add: unsigned_of_nat take_bit_nat_eq_self)
    then have "(of_nat n :: 64 word) AND 0x1FFFF = of_nat n"
      by (simp only: word_unat_eq_iff)
    then show ?thesis
      by (simp add: free_slot_word_def cap_word_make_def)
  qed
  from assms show "cap_word_type (free_slot_word n) = 0" "cap_word_obj (free_slot_word n) = n"
    "cap_word_valid (free_slot_word n) = False"
    by (simp_all add: eq word_fields)
qed

lemma cap_word_zero [simp]:
  "cap_word_type 0 = 0" "cap_word_obj 0 = 0" "cap_word_valid 0 = False"
  by (simp_all add: cap_word_type_def cap_word_obj_def cap_word_valid_def)

section \<open>The revocation stamp\<close>

lemma bit_stamp_revoked:
  "bit (cap_word_stamp_revoked w) n \<longleftrightarrow> (if 57 \<le> n \<and> n < 61 then n = 58 else bit w n)"
proof -
  have "n - 57 = 1 \<longleftrightarrow> n = 58"
    by arith
  then show ?thesis
    unfolding cap_word_stamp_revoked_def masks64 of_nat_numeral
    by (simp only: bit_or_iff bit_and_iff bit_not_iff bit_push_bit_iff bit_2_iff bit_mask_iff)
      (auto dest: bit_imp_possible_bit)
qed

lemma stamp_field_words:
  "drop_bit 61 (cap_word_stamp_revoked w) AND 0x7 = drop_bit 61 w AND 0x7"
  "drop_bit 57 (cap_word_stamp_revoked w) AND 0xF = 2"
  "drop_bit 40 (cap_word_stamp_revoked w) AND 0x1FFFF = drop_bit 40 w AND 0x1FFFF"
  "drop_bit 32 (cap_word_stamp_revoked w) AND 0xFF = drop_bit 32 w AND 0xFF"
  "drop_bit 16 (cap_word_stamp_revoked w) AND 0xFFFF = drop_bit 16 w AND 0xFFFF"
  "drop_bit 4 (cap_word_stamp_revoked w) AND 0xFFF = drop_bit 4 w AND 0xFFF"
  "cap_word_stamp_revoked w AND 0xF = w AND 0xF"
  unfolding masks64
  subgoal by (rule bit_word_eqI, rename_tac n, case_tac "n < 3") (simp_all add: bit_simps bit_stamp_revoked bit_2_iff)
  subgoal by (rule bit_word_eqI, rename_tac n, case_tac "n < 4") (simp_all add: bit_simps bit_stamp_revoked bit_2_iff)
  subgoal by (rule bit_word_eqI, rename_tac n, case_tac "n < 17") (simp_all add: bit_simps bit_stamp_revoked bit_2_iff)
  subgoal by (rule bit_word_eqI, rename_tac n, case_tac "n < 8") (simp_all add: bit_simps bit_stamp_revoked bit_2_iff)
  subgoal by (rule bit_word_eqI, rename_tac n, case_tac "n < 16") (simp_all add: bit_simps bit_stamp_revoked bit_2_iff)
  subgoal by (rule bit_word_eqI, rename_tac n, case_tac "n < 12") (simp_all add: bit_simps bit_stamp_revoked bit_2_iff)
  subgoal by (rule bit_word_eqI, rename_tac n, case_tac "n < 4") (simp_all add: bit_simps bit_stamp_revoked bit_2_iff)
  done

lemma cap_word_stamp_fields [word_fields]:
  "cap_word_type (cap_word_stamp_revoked w) = cap_word_type w"
  "cap_word_state (cap_word_stamp_revoked w) = CAP_STATE_REVOKED"
  "cap_word_obj (cap_word_stamp_revoked w) = cap_word_obj w"
  "cap_word_perms (cap_word_stamp_revoked w) = cap_word_perms w"
  "cap_word_off (cap_word_stamp_revoked w) = cap_word_off w"
  "cap_word_len (cap_word_stamp_revoked w) = cap_word_len w"
  "cap_word_valid (cap_word_stamp_revoked w) = False"
  by (simp_all add: cap_word_type_def cap_word_state_def cap_word_obj_def cap_word_perms_def
      cap_word_off_def cap_word_len_def cap_word_valid_def stamp_field_words)

section \<open>A valid word is determined by its fields\<close>

lemma perms_inj: "cap_word_perms v = cap_word_perms w \<longleftrightarrow> drop_bit 32 v AND 0xFF = drop_bit 32 w AND 0xFF"
proof
  assume eq: "cap_word_perms v = cap_word_perms w"
  show "drop_bit 32 v AND 0xFF = drop_bit 32 w AND 0xFF"
    unfolding masks64
  proof (rule bit_word_eqI)
    fix n assume "n < LENGTH(64)"
    show "bit (drop_bit 32 v AND mask 8) n = bit (drop_bit 32 w AND mask 8) n"
      using arg_cong [OF eq, of "\<lambda>x. bit x n"]
      unfolding cap_word_perms_def masks64 by (cases "n < 8") (auto simp: bit_simps)
  qed
qed (simp add: cap_word_perms_def)

lemma cap_word_eqI:
  assumes "cap_word_type v = cap_word_type w" and "cap_word_state v = cap_word_state w"
    and "cap_word_obj v = cap_word_obj w" and "cap_word_perms v = cap_word_perms w"
    and "cap_word_off v = cap_word_off w" and "cap_word_len v = cap_word_len w"
    and "cap_word_rsvd v = cap_word_rsvd w"
  shows "v = w"
proof (rule bit_word_eqI)
  have field: "bit v n = bit w n"
    if "unat (drop_bit k v AND mask l) = unat (drop_bit k w AND mask l)" "k \<le> n" "n < k + l" "n < 64"
    for k l n
  proof -
    from that(1) have "drop_bit k v AND mask l = drop_bit k w AND mask l"
      by (simp only: word_unat_eq_iff)
    from arg_cong [OF this, of "\<lambda>x. bit x (n - k)"] that(2-4) show ?thesis
      by (auto simp: bit_simps)
  qed
  have perms: "unat (drop_bit 32 v AND 0xFF) = unat (drop_bit 32 w AND 0xFF)"
    using assms(4) by (simp only: perms_inj)
  have rsvd: "unat (drop_bit 0 v AND 0xF) = unat (drop_bit 0 w AND 0xF)"
    using assms(7) by (simp add: cap_word_rsvd_def)
  note eqs = assms(1-3,5,6) [unfolded cap_word_type_def cap_word_state_def cap_word_obj_def
      cap_word_off_def cap_word_len_def masks64] perms [unfolded masks64] rsvd [unfolded masks64]
  fix n assume "n < LENGTH(64)"
  then have "n < 64"
    by simp
  then consider "n < 4" | "4 \<le> n" "n < 4 + 12" | "16 \<le> n" "n < 16 + 16" | "32 \<le> n" "n < 32 + 8"
    | "40 \<le> n" "n < 40 + 17" | "57 \<le> n" "n < 57 + 4" | "61 \<le> n" "n < 61 + 3"
    by arith
  then show "bit v n = bit w n"
    using \<open>n < 64\<close>
    by cases (simp_all add: eqs [THEN field])
qed

text \<open>Packing the fields of a valid word gives the word back.\<close>

lemma cap_word_make_fields:
  assumes "cap_word_valid w"
  shows "cap_word_make (cap_word_type w) (cap_word_obj w) (cap_word_perms w) (cap_word_off w)
           (cap_word_len w) = w"
proof (rule cap_word_eqI)
  have "cap_word_perms w AND 0xFF = cap_word_perms w"
  proof -
    have *: "(0xFF :: 32 word) = mask 8"
      by (simp add: mask_eq_exp_minus_1)
    show ?thesis
      unfolding cap_word_perms_def masks64 * by (rule bit_word_eqI) (auto simp: bit_simps)
  qed
  then show "cap_word_perms (cap_word_make (cap_word_type w) (cap_word_obj w) (cap_word_perms w)
      (cap_word_off w) (cap_word_len w)) = cap_word_perms w"
    by (simp add: word_fields)
qed (use assms cap_word_type_bound [of w] cap_word_obj_bound [of w] cap_word_off_bound [of w]
    cap_word_len_bound [of w] in \<open>auto simp: word_fields cap_word_valid_def split: if_splits\<close>)

end
