(* ===== verification/Cap_State.thy ===== *)
theory Cap_State
  imports Cap_Word
begin

text \<open>
  The static state of \<^verbatim>\<open>kernel/cap.c\<close> as one record, built from one record per C struct of
  \<^verbatim>\<open>kernel/cap.h\<close>. Fixed-size arrays are total functions on \<open>nat\<close>; every index the
  code computes itself stays below the array's limit by the invariants of the component
  theories, and an index that comes from the caller and is used without a check is the
  outcome \<open>Oob\<close> of the result type below. Spinlocks are left out: each operation runs
  to completion with its locks held, so the model takes it as one atomic step. Serial
  logging is left out as well.
\<close>

section \<open>Limits\<close>

definition CAP_TABLE_MAX :: nat where [limits]: "CAP_TABLE_MAX = 16"
definition CAP_TABLE_ENTRIES :: nat where [limits]: "CAP_TABLE_ENTRIES = 512"
definition CAP_MAP_MAX :: nat where [limits]: "CAP_MAP_MAX = 64"
definition CAP_OBJECT_MAX :: nat where [limits]: "CAP_OBJECT_MAX = 1024"
definition CAP_HOLDER_MAX :: nat where [limits]: "CAP_HOLDER_MAX = 8192"
definition CAP_CHAN_MAX :: nat where [limits]: "CAP_CHAN_MAX = 64"
definition CHAN_QUEUE_DEPTH :: nat where [limits]: "CHAN_QUEUE_DEPTH = 16"
definition CAP_MSG_MAX_CAPS :: nat where [limits]: "CAP_MSG_MAX_CAPS = 4"
definition CAP_MSG_MAX_PAYLOAD :: nat where [limits]: "CAP_MSG_MAX_PAYLOAD = 4096"
definition CAP_MSG_PAYLOAD_POOL :: nat where [limits]: "CAP_MSG_PAYLOAD_POOL = 32"
definition CAP_ARENA_FRAMES :: nat where [limits]: "CAP_ARENA_FRAMES = 16384"
definition CAP_VIEW_MAX_PAGES :: nat where [limits]: "CAP_VIEW_MAX_PAGES = 4096"
definition CAP_IRQ_VECTORS :: nat where [limits]: "CAP_IRQ_VECTORS = 256"

abbreviation (input) CAP_NONE :: nat where "CAP_NONE \<equiv> 65535"
abbreviation (input) CAP_OBJ_CHAN_NONE :: nat where "CAP_OBJ_CHAN_NONE \<equiv> 65535"

definition CAP_ARENA_SIZE :: "64 word" where "CAP_ARENA_SIZE = 67108864"

section \<open>Results\<close>

text \<open>
  The negative \<^verbatim>\<open>CAP_E*\<close> codes. \<open>ARCH r\<close> is a negative code that \<^verbatim>\<open>cap_map\<close> passes
  through from the architecture hook.
\<close>

datatype cap_err =
    EINVAL | EBADF | EAGAIN | ETABLEFULL | ECAPREVOKED | EALREADY | ENOMEM | ENOSPC
  | ERANGE | ENOSYS | ECONFLICT | EPERM | ARCH int

fun cap_errno :: "cap_err \<Rightarrow> int" where
  "cap_errno EINVAL = -1"
| "cap_errno EBADF = -2"
| "cap_errno EAGAIN = -3"
| "cap_errno ETABLEFULL = -4"
| "cap_errno ECAPREVOKED = -5"
| "cap_errno EALREADY = -6"
| "cap_errno ENOMEM = -7"
| "cap_errno ENOSPC = -8"
| "cap_errno ERANGE = -9"
| "cap_errno ENOSYS = -10"
| "cap_errno ECONFLICT = -11"
| "cap_errno EPERM = -12"
| "cap_errno (ARCH r) = r"

text \<open>
  \<open>Ok\<close> is return code 0 with the out-parameters, \<open>Err\<close> a negative code. \<open>Oob\<close> marks
  an access past the end of \<^verbatim>\<open>slots[]\<close>, which C leaves undefined: the model stops there.
\<close>

datatype 'a res = Ok 'a | Err cap_err | Oob

section \<open>Structs\<close>

datatype holder_kind = HOLDER_SLOT | HOLDER_QUEUE

datatype obj_kind = KIND_NONE | KIND_MEM | KIND_CHAN | KIND_DEV

record ChanMsg =
  m_cookie :: "64 word"
  m_payload_len :: nat
  m_n_caps :: nat
  m_flags :: nat
  m_payload_idx :: nat
  m_cap_word :: "nat \<Rightarrow> 64 word"
  m_cap_off :: "nat \<Rightarrow> nat"
  m_cap_len :: "nat \<Rightarrow> nat"
  m_cap_rights :: "nat \<Rightarrow> nat"
  m_cap_flags :: "nat \<Rightarrow> nat"

record CapChannel =
  c_end0_pid :: nat
  c_end1_pid :: nat
  c_qhead :: "nat \<Rightarrow> nat"
  c_qtail :: "nat \<Rightarrow> nat"
  c_qdepth :: "nat \<Rightarrow> nat"
  c_q :: "nat \<Rightarrow> nat \<Rightarrow> ChanMsg"
  c_closed :: "nat \<Rightarrow> bool"
  c_close_evt :: "nat \<Rightarrow> bool"
  c_close_reason :: "nat \<Rightarrow> nat"
  c_close_detail :: "nat \<Rightarrow> nat"
  c_active :: bool

record CapHolder =
  h_obj_id :: nat
  h_next :: nat
  h_prev :: nat
  h_pid :: nat
  h_ref :: nat
  h_kind :: holder_kind
  h_qdir :: nat
  h_active :: bool

record CapObject =
  o_id :: nat
  o_kind :: obj_kind
  o_revoking :: bool
  o_active :: bool
  o_holder_head :: nat
  o_refcount :: nat
  o_max_perms :: "32 word"
  o_phys_base :: "64 word"
  o_npages :: nat
  o_chan_id :: nat

record CapMap =
  mp_obj_id :: nat
  mp_cap_slot :: nat
  mp_npages :: nat
  mp_vaddr :: "64 word"
  mp_active :: bool

record CapTable =
  t_pid :: nat
  t_freelist_head :: nat
  t_slots :: "nat \<Rightarrow> 64 word"
  t_maps :: "nat \<Rightarrow> CapMap"

text \<open>The shared-memory arena: bitmap, owner per frame and the free counter.\<close>

record CapArena =
  ar_base :: "64 word"
  ar_bitmap :: "nat \<Rightarrow> 8 word"
  ar_owner :: "nat \<Rightarrow> nat"
  ar_free_count :: "32 word"

text \<open>The message payload staging pool.\<close>

record PayloadPool =
  pp_data :: "nat \<Rightarrow> nat \<Rightarrow> 8 word"
  pp_next :: "nat \<Rightarrow> nat"
  pp_free_head :: nat

text \<open>
  Calls that leave the capability layer: page-table edits, wake-ups and interrupt-line
  edits go to hooks that \<^verbatim>\<open>process.c\<close> and the architecture code override at link time. The
  model records them in order (latest first), so what an operation asks of the hooks is
  part of its result.
\<close>

datatype hook =
    ArchMapPage "64 word" "64 word" "64 word" "32 word"
  | ArchUnmapPage "64 word" "64 word"
  | ArchTlbFlush
  | ArchIdentityMapUser "64 word" "64 word" nat nat
  | WaitChan nat
  | WakeChan nat
  | MaybeHandoff
  | ReleasePid nat
  | IrqUnmask nat
  | IrqSetMask nat bool
  | IrqEoi nat

record cap_state =
  cap_tables :: "nat \<Rightarrow> CapTable"
  cap_table_pid :: "nat \<Rightarrow> nat"
  cap_objects :: "nat \<Rightarrow> CapObject"
  cap_obj_next :: nat
  cap_holders :: "nat \<Rightarrow> CapHolder"
  cap_holder_free_head :: nat
  cap_channels :: "nat \<Rightarrow> CapChannel"
  cap_chan_next :: nat
  cap_chan_recycled :: "nat \<Rightarrow> nat"
  cap_chan_recycled_n :: nat
  cap_arena :: CapArena
  cap_payload :: PayloadPool
  g_irq_chan :: "nat \<Rightarrow> nat"
  g_irq_budget :: "nat \<Rightarrow> nat"
  g_irq_pending :: "nat \<Rightarrow> bool"
  hook_log :: "hook list"

text \<open>
  What the hooks answer: the page-table root of a process (0 for kernel context), the
  result of mapping one page (negative on failure), the end of the kernel image and the
  base of the arena carve (0 when no contiguous run was found).
\<close>

record cap_env =
  e_proc_cr3 :: "nat \<Rightarrow> 64 word"
  e_map_page :: "64 word \<Rightarrow> 64 word \<Rightarrow> 64 word \<Rightarrow> 32 word \<Rightarrow> int"
  e_kernel_image_end :: "64 word"
  e_arena_carve :: "64 word"

section \<open>Field updates\<close>

text \<open>Shorthand for writing through the pointers the C code takes into its arrays.\<close>

definition upd_table :: "nat \<Rightarrow> (CapTable \<Rightarrow> CapTable) \<Rightarrow> cap_state \<Rightarrow> cap_state" where
  "upd_table ti f s = s\<lparr>cap_tables := (cap_tables s)(ti := f (cap_tables s ti))\<rparr>"

definition upd_object :: "nat \<Rightarrow> (CapObject \<Rightarrow> CapObject) \<Rightarrow> cap_state \<Rightarrow> cap_state" where
  "upd_object i f s = s\<lparr>cap_objects := (cap_objects s)(i := f (cap_objects s i))\<rparr>"

definition upd_holder :: "nat \<Rightarrow> (CapHolder \<Rightarrow> CapHolder) \<Rightarrow> cap_state \<Rightarrow> cap_state" where
  "upd_holder h f s = s\<lparr>cap_holders := (cap_holders s)(h := f (cap_holders s h))\<rparr>"

definition upd_channel :: "nat \<Rightarrow> (CapChannel \<Rightarrow> CapChannel) \<Rightarrow> cap_state \<Rightarrow> cap_state" where
  "upd_channel c f s = s\<lparr>cap_channels := (cap_channels s)(c := f (cap_channels s c))\<rparr>"

definition upd_msg :: "nat \<Rightarrow> nat \<Rightarrow> nat \<Rightarrow> (ChanMsg \<Rightarrow> ChanMsg) \<Rightarrow> cap_state \<Rightarrow> cap_state" where
  "upd_msg c d e f = upd_channel c (\<lambda>ch. ch\<lparr>c_q := (c_q ch)(d := (c_q ch d)(e := f (c_q ch d e)))\<rparr>)"

definition set_slot :: "nat \<Rightarrow> nat \<Rightarrow> 64 word \<Rightarrow> cap_state \<Rightarrow> cap_state" where
  "set_slot ti idx w = upd_table ti (\<lambda>t. t\<lparr>t_slots := (t_slots t)(idx := w)\<rparr>)"

definition log_hook :: "hook \<Rightarrow> cap_state \<Rightarrow> cap_state" where
  "log_hook x s = s\<lparr>hook_log := x # hook_log s\<rparr>"

abbreviation slot_word :: "cap_state \<Rightarrow> nat \<Rightarrow> nat \<Rightarrow> 64 word" where
  "slot_word s ti idx \<equiv> t_slots (cap_tables s ti) idx"

abbreviation msg_at :: "cap_state \<Rightarrow> nat \<Rightarrow> nat \<Rightarrow> nat \<Rightarrow> ChanMsg" where
  "msg_at s c d e \<equiv> c_q (cap_channels s c) d e"

lemmas state_upd_defs = upd_table_def upd_object_def upd_holder_def upd_channel_def upd_msg_def
  set_slot_def log_hook_def

end
