(* ===== verification/Cap_Table.thy ===== *)
theory Cap_Table
  imports Cap_State
begin

text \<open>
  Per-process capability tables: the lazy pid-to-table binding and the slot free list,
  which is threaded through the object field of free words (\<^verbatim>\<open>cap_table_index\<close>,
  \<^verbatim>\<open>cap_table_find\<close>, \<^verbatim>\<open>cap_table_freelist_init\<close>, \<^verbatim>\<open>cap_slot_push\<close>, \<^verbatim>\<open>cap_slot_pop\<close>).
  The slot allocator implements \<open>index_freelist\<close>; \<open>table_wf\<close> says that the free
  list holds exactly the slots whose word has type NONE.
\<close>

section \<open>Binding\<close>

definition cap_table_find :: "nat \<Rightarrow> cap_state \<Rightarrow> nat option" where
  "cap_table_find pid s =
     (if pid = 0 then Some 0
      else List.find (\<lambda>i. cap_table_pid s i = pid) [0..<CAP_TABLE_MAX])"

definition cap_table_index :: "nat \<Rightarrow> cap_state \<Rightarrow> nat option \<times> cap_state" where
  "cap_table_index pid s =
     (if pid = 0 then (Some 0, s)
      else case List.find (\<lambda>i. cap_table_pid s i = pid) [0..<CAP_TABLE_MAX] of
        Some i \<Rightarrow> (Some i, s)
      | None \<Rightarrow>
          (case List.find (\<lambda>i. cap_table_pid s i = 0) [1..<CAP_TABLE_MAX] of
             Some i \<Rightarrow> (Some i, upd_table i (\<lambda>t. t\<lparr>t_pid := pid\<rparr>)
                                (s\<lparr>cap_table_pid := (cap_table_pid s)(i := pid)\<rparr>))
           | None \<Rightarrow> (None, s)))"

section \<open>Slot free list\<close>

definition slot_push :: "nat \<Rightarrow> CapTable \<Rightarrow> CapTable" where
  "slot_push idx t =
     t\<lparr>t_slots := (t_slots t)(idx := free_slot_word
          (if t_freelist_head t = CAP_FREELIST_END then CAP_FREELIST_END else t_freelist_head t)),
       t_freelist_head := idx\<rparr>"

definition slot_pop :: "CapTable \<Rightarrow> (nat \<times> CapTable) option" where
  "slot_pop t =
     (if t_freelist_head t = CAP_FREELIST_END then None
      else let idx = t_freelist_head t;
               nxt = cap_word_obj (t_slots t idx)
           in Some (idx, t\<lparr>t_freelist_head := (if nxt = CAP_FREELIST_END then CAP_FREELIST_END else u16 nxt),
                           t_slots := (t_slots t)(idx := 0)\<rparr>))"

definition table_freelist_init :: "CapTable \<Rightarrow> CapTable" where
  "table_freelist_init t =
     foldl (\<lambda>t i. slot_push i t) (t\<lparr>t_freelist_head := CAP_FREELIST_END\<rparr>) (rev [0..<CAP_TABLE_ENTRIES])"

definition cap_table_freelist_init :: "nat \<Rightarrow> cap_state \<Rightarrow> cap_state" where
  "cap_table_freelist_init ti = upd_table ti table_freelist_init"

definition cap_slot_push :: "nat \<Rightarrow> nat \<Rightarrow> cap_state \<Rightarrow> cap_state" where
  "cap_slot_push ti idx = upd_table ti (slot_push idx)"

definition cap_slot_pop :: "nat \<Rightarrow> cap_state \<Rightarrow> (nat \<times> cap_state) option" where
  "cap_slot_pop ti s =
     (case slot_pop (cap_tables s ti) of
        None \<Rightarrow> None
      | Some (idx, t) \<Rightarrow> Some (idx, upd_table ti (\<lambda>_. t) s))"

definition slot_link :: "CapTable \<Rightarrow> nat \<Rightarrow> nat" where
  "slot_link t i = u16 (cap_word_obj (t_slots t i))"

interpretation sf: index_freelist t_freelist_head slot_link slot_pop slot_push CAP_TABLE_ENTRIES
proof
  show "CAP_TABLE_ENTRIES \<le> CAP_FREELIST_END"
    by (simp add: limits)
  show "slot_pop t = None" if "t_freelist_head t = CAP_FREELIST_END" for t
    using that by (simp add: slot_pop_def)
  show "\<exists>t'. slot_pop t = Some (t_freelist_head t, t') \<and>
      t_freelist_head t' = slot_link t (t_freelist_head t) \<and>
      (\<forall>j. j \<noteq> t_freelist_head t \<longrightarrow> slot_link t' j = slot_link t j)"
    if "t_freelist_head t \<noteq> CAP_FREELIST_END" for t
    using that by (auto simp: slot_pop_def slot_link_def Let_def)
  show "t_freelist_head (slot_push x t) = x" for x t
    by (simp add: slot_push_def)
  show "slot_link (slot_push x t) x = t_freelist_head t"
    if "t_freelist_head t \<le> CAP_FREELIST_END" for x t
    using that by (simp add: slot_push_def slot_link_def word_fields)
  show "slot_link (slot_push x t) j = slot_link t j" if "j \<noteq> x" for x j t
    using that by (simp add: slot_push_def slot_link_def)
qed

section \<open>Well-formed tables\<close>

text \<open>
  \<open>table_rep t xs\<close>: \<open>xs\<close> is the free list, in order, and a slot is on it exactly when
  its word has type NONE.
\<close>

definition table_rep :: "CapTable \<Rightarrow> nat list \<Rightarrow> bool" where
  "table_rep t xs \<longleftrightarrow> sf.freelist t xs \<and>
     (\<forall>i < CAP_TABLE_ENTRIES. i \<in> set xs \<longleftrightarrow> cap_word_type (t_slots t i) = CAP_TYPE_NONE)"

definition table_wf :: "CapTable \<Rightarrow> bool" where
  "table_wf t \<longleftrightarrow> (\<exists>xs. table_rep t xs)"

lemma table_rep_bound: "table_rep t xs \<Longrightarrow> i \<in> set xs \<Longrightarrow> i < CAP_TABLE_ENTRIES"
  by (auto simp: table_rep_def sf.freelist_def)

lemma slot_pop_rep:
  assumes "table_rep t xs" and "slot_pop t = Some (idx, t')"
  obtains ys where "xs = idx # ys" and "sf.freelist t' ys" and "idx \<notin> set ys"
    and "idx < CAP_TABLE_ENTRIES"
    and "t_slots t' = (t_slots t)(idx := 0)" and "t_pid t' = t_pid t" and "t_maps t' = t_maps t"
    and "cap_word_type (t_slots t idx) = CAP_TYPE_NONE"
proof -
  from assms have fl: "sf.freelist t xs"
    by (simp add: table_rep_def)
  from sf.pop_Some [OF fl assms(2)] obtain ys where ys: "xs = idx # ys" "sf.freelist t' ys"
    by blast
  moreover from ys(1) fl have "idx \<notin> set ys"
    using sf.freelist_distinct by fastforce
  moreover have "idx < CAP_TABLE_ENTRIES"
    using assms(1) ys(1) by (simp add: table_rep_bound)
  moreover from this assms(1) ys(1) have "cap_word_type (t_slots t idx) = CAP_TYPE_NONE"
    by (auto simp: table_rep_def)
  moreover from assms(2) have "t_slots t' = (t_slots t)(idx := 0)" "t_pid t' = t_pid t" "t_maps t' = t_maps t"
    by (auto simp: slot_pop_def Let_def split: if_splits)
  ultimately show ?thesis
    using that by blast
qed

text \<open>Taking a slot and writing a real capability word into it.\<close>

lemma sf_freelist_slots:
  assumes "sf.freelist t xs" and "t_freelist_head t' = t_freelist_head t"
    and "\<And>i. i \<in> set xs \<Longrightarrow> t_slots t' i = t_slots t i"
  shows "sf.freelist t' xs"
proof -
  have "chain (slot_link t') (t_freelist_head t) xs \<longleftrightarrow> chain (slot_link t) (t_freelist_head t) xs"
    by (rule chain_cong) (simp add: slot_link_def assms(3))
  with assms(1,2) show ?thesis
    by (simp add: sf.freelist_def)
qed

lemma slot_install_rep:
  assumes "table_rep t xs" and "slot_pop t = Some (idx, t')" and "cap_word_type w \<noteq> CAP_TYPE_NONE"
  shows "\<exists>ys. xs = idx # ys \<and> table_rep (t'\<lparr>t_slots := (t_slots t')(idx := w)\<rparr>) ys"
proof -
  from assms(1,2) obtain ys where ys: "xs = idx # ys" "sf.freelist t' ys" "idx \<notin> set ys"
    "t_slots t' = (t_slots t)(idx := 0)"
    by (rule slot_pop_rep)
  have "sf.freelist (t'\<lparr>t_slots := (t_slots t')(idx := w)\<rparr>) ys"
    using ys(2) by (rule sf_freelist_slots) (use ys(3) in auto)
  with ys assms(1,3) show ?thesis
    by (auto simp: table_rep_def)
qed

text \<open>Taking a slot and giving it back.\<close>

lemma slot_pop_push_rep:
  assumes "table_rep t xs" and "slot_pop t = Some (idx, t')"
  shows "table_rep (slot_push idx t') xs"
proof -
  from assms obtain ys where ys: "xs = idx # ys" "sf.freelist t' ys" "idx \<notin> set ys"
    "idx < CAP_TABLE_ENTRIES" "t_slots t' = (t_slots t)(idx := 0)"
    by (rule slot_pop_rep)
  have "t_freelist_head t' \<le> CAP_FREELIST_END"
    using ys(2) by (rule sf.freelist_head)
  with ys assms(1) sf.push_Cons [OF ys(2,4,3)] show ?thesis
    by (auto simp: table_rep_def slot_push_def word_fields)
qed

text \<open>Clearing an occupied slot and putting it on the free list.\<close>

lemma slot_release_rep:
  assumes "table_rep t xs" and "idx < CAP_TABLE_ENTRIES" and "cap_word_type (t_slots t idx) \<noteq> CAP_TYPE_NONE"
  shows "table_rep (slot_push idx (t\<lparr>t_slots := (t_slots t)(idx := w)\<rparr>)) (idx # xs)"
proof -
  let ?t = "t\<lparr>t_slots := (t_slots t)(idx := w)\<rparr>"
  from assms have idx: "idx \<notin> set xs" and fl: "sf.freelist t xs"
    by (auto simp: table_rep_def)
  have fl': "sf.freelist ?t xs"
    using fl by (rule sf_freelist_slots) (use idx in auto)
  have "t_freelist_head t \<le> CAP_FREELIST_END"
    using fl by (rule sf.freelist_head)
  with assms(1) sf.push_Cons [OF fl' assms(2) idx] show ?thesis
    by (auto simp: table_rep_def slot_push_def word_fields)
qed

lemma slot_pop_None:
  "table_rep t xs \<Longrightarrow> slot_pop t = None \<longleftrightarrow> (\<forall>i < CAP_TABLE_ENTRIES. cap_word_type (t_slots t i) \<noteq> CAP_TYPE_NONE)"
proof -
  assume rep: "table_rep t xs"
  then have "slot_pop t = None \<longleftrightarrow> xs = []"
    using sf.pop_None_iff [of t xs] by (simp add: table_rep_def)
  also have "\<dots> \<longleftrightarrow> (\<forall>i < CAP_TABLE_ENTRIES. cap_word_type (t_slots t i) \<noteq> CAP_TYPE_NONE)"
    using rep table_rep_bound [OF rep] by (cases xs) (auto simp: table_rep_def)
  finally show ?thesis .
qed

section \<open>Initialisation\<close>

lemma table_freelist_init_slots:
  "foldl (\<lambda>t i. slot_push i t) t (rev [0..<n]) =
     t\<lparr>t_slots := (\<lambda>i. if i < n then free_slot_word (if Suc i = n then t_freelist_head t else Suc i)
                        else t_slots t i),
       t_freelist_head := (if n = 0 then t_freelist_head t else 0)\<rparr>"
proof (induction n arbitrary: t)
  case 0
  then show ?case by simp
next
  case (Suc n)
  then show ?case
    by (auto simp: slot_push_def fun_eq_iff intro!: arg_cong [of _ _ free_slot_word])
qed

lemma table_freelist_init_rep: "table_rep (table_freelist_init t) [0..<CAP_TABLE_ENTRIES]"
proof -
  let ?t = "table_freelist_init t"
  have slots: "t_slots ?t i = free_slot_word (if Suc i = CAP_TABLE_ENTRIES then CAP_FREELIST_END else Suc i)"
    if "i < CAP_TABLE_ENTRIES" for i
    using that by (simp add: table_freelist_init_def table_freelist_init_slots)
  have head: "t_freelist_head ?t = 0"
    by (simp add: table_freelist_init_def table_freelist_init_slots limits)
  have "slot_link ?t i = (if Suc i = CAP_TABLE_ENTRIES then CAP_FREELIST_END else Suc i)"
    if "i < CAP_TABLE_ENTRIES" for i
    using that by (simp add: slot_link_def slots word_fields limits)
  then have "chain (slot_link ?t) 0 [0..<CAP_TABLE_ENTRIES]"
    by (intro chain_upt) (simp_all add: limits)
  moreover have "cap_word_type (t_slots ?t i) = CAP_TYPE_NONE" if "i < CAP_TABLE_ENTRIES" for i
    using that by (simp add: slots word_fields limits)
  ultimately show ?thesis
    by (simp add: table_rep_def sf.freelist_def head) auto
qed

end
