(* ===== verification/Cap_Holder.thy ===== *)
theory Cap_Holder
  imports Cap_Table
begin

text \<open>
  Objects, channel ids and the holder pool of \<^verbatim>\<open>kernel/cap.c\<close>: every reference to an object is
  a node of a doubly linked list that hangs off the object, and free nodes form a singly
  linked pool. The operations are stated here with the free pool as an instance of
  \<open>index_freelist\<close>; the relation to lists of nodes and the reference counts follow in
  \<open>Cap_Refs\<close>.
\<close>

section \<open>Channel ids\<close>

definition cap_chan_id_take :: "cap_state \<Rightarrow> nat option \<times> cap_state" where
  "cap_chan_id_take s =
     (if cap_chan_recycled_n s > 0
      then (Some (cap_chan_recycled s (cap_chan_recycled_n s - 1)),
            s\<lparr>cap_chan_recycled_n := cap_chan_recycled_n s - 1\<rparr>)
      else if cap_chan_next s < CAP_CHAN_MAX
      then (Some (cap_chan_next s), s\<lparr>cap_chan_next := cap_chan_next s + 1\<rparr>)
      else (None, s))"

definition cap_chan_id_put :: "nat \<Rightarrow> cap_state \<Rightarrow> cap_state" where
  "cap_chan_id_put chan_id s =
     (if chan_id \<ge> CAP_CHAN_MAX then s
      else if cap_chan_recycled_n s < CAP_CHAN_MAX
      then s\<lparr>cap_chan_recycled := (cap_chan_recycled s)(cap_chan_recycled_n s := chan_id),
             cap_chan_recycled_n := cap_chan_recycled_n s + 1\<rparr>
      else s)"

section \<open>Objects\<close>

definition cap_object_get :: "nat \<Rightarrow> cap_state \<Rightarrow> nat option" where
  "cap_object_get obj_id s =
     (if obj_id \<ge> CAP_OBJECT_MAX then None
      else if \<not> o_active (cap_objects s obj_id) \<or> o_id (cap_objects s obj_id) \<noteq> obj_id then None
      else Some obj_id)"

definition cap_object_alloc :: "obj_kind \<Rightarrow> cap_state \<Rightarrow> (nat \<times> cap_state) option" where
  "cap_object_alloc kind s =
     (if cap_obj_next s \<ge> CAP_OBJECT_MAX then None
      else let id = cap_obj_next s
           in Some (id, upd_object id (\<lambda>ob. ob\<lparr>o_id := id, o_kind := kind, o_revoking := False,
                  o_active := True, o_holder_head := CAP_FREELIST_END, o_refcount := 0,
                  o_max_perms := 0, o_phys_base := 0, o_npages := 0,
                  o_chan_id := CAP_OBJ_CHAN_NONE\<rparr>)
                (s\<lparr>cap_obj_next := id + 1\<rparr>)))"

definition irq_unbind_chan :: "nat \<Rightarrow> cap_state \<Rightarrow> cap_state" where
  "irq_unbind_chan chan_id s =
     s\<lparr>g_irq_chan := (\<lambda>v. if v < CAP_IRQ_VECTORS \<and> g_irq_chan s v = chan_id then CAP_NONE
                          else g_irq_chan s v)\<rparr>"

definition cap_object_destroy :: "nat \<Rightarrow> cap_state \<Rightarrow> cap_state" where
  "cap_object_destroy obj_id s =
     (let ob = cap_objects s obj_id;
          s1 = (if o_active ob \<and> o_kind ob = KIND_CHAN \<and> o_chan_id ob < CAP_CHAN_MAX
                then cap_chan_id_put (o_chan_id ob) (irq_unbind_chan (o_chan_id ob) s)
                else s)
      in upd_object obj_id (\<lambda>ob. ob\<lparr>o_active := False, o_revoking := True,
             o_holder_head := CAP_FREELIST_END, o_refcount := 0\<rparr>) s1)"

section \<open>Holder pool\<close>

definition holder_pop :: "cap_state \<Rightarrow> (nat \<times> cap_state) option" where
  "holder_pop s =
     (if cap_holder_free_head s = CAP_FREELIST_END then None
      else let h = cap_holder_free_head s
           in Some (h, s\<lparr>cap_holder_free_head := h_next (cap_holders s h)\<rparr>))"

definition cap_holder_alloc ::
  "nat \<Rightarrow> holder_kind \<Rightarrow> nat \<Rightarrow> nat \<Rightarrow> nat \<Rightarrow> cap_state \<Rightarrow> (nat \<times> cap_state) option" where
  "cap_holder_alloc obj_id kind pid ref qdir s =
     (case holder_pop s of
        None \<Rightarrow> None
      | Some (h, s) \<Rightarrow>
          Some (h, upd_holder h (\<lambda>n. n\<lparr>h_obj_id := obj_id, h_kind := kind, h_pid := pid, h_ref := ref,
                 h_qdir := qdir, h_active := True, h_next := CAP_FREELIST_END,
                 h_prev := CAP_FREELIST_END\<rparr>) s))"

definition cap_holder_free :: "nat \<Rightarrow> cap_state \<Rightarrow> cap_state" where
  "cap_holder_free h s =
     (upd_holder h (\<lambda>n. n\<lparr>h_active := False, h_prev := CAP_FREELIST_END,
          h_next := cap_holder_free_head s\<rparr>) s)\<lparr>cap_holder_free_head := h\<rparr>"

definition cap_holder_link :: "nat \<Rightarrow> nat \<Rightarrow> cap_state \<Rightarrow> cap_state" where
  "cap_holder_link h obj_id s =
     (let hd0 = o_holder_head (cap_objects s obj_id);
          s1 = upd_holder h (\<lambda>n. n\<lparr>h_next := hd0\<rparr>) s;
          s2 = (if hd0 \<noteq> CAP_FREELIST_END then upd_holder hd0 (\<lambda>n. n\<lparr>h_prev := h\<rparr>) s1 else s1)
      in upd_object obj_id (\<lambda>ob. ob\<lparr>o_holder_head := h, o_refcount := o_refcount ob + 1\<rparr>) s2)"

definition cap_holder_insert ::
  "nat \<Rightarrow> holder_kind \<Rightarrow> nat \<Rightarrow> nat \<Rightarrow> nat \<Rightarrow> cap_state \<Rightarrow> cap_state option" where
  "cap_holder_insert obj_id kind pid ref qdir s =
     (case cap_holder_alloc obj_id kind pid ref qdir s of
        None \<Rightarrow> None
      | Some (h, s) \<Rightarrow> Some (cap_holder_link h obj_id s))"

text \<open>
  The search loop of \<^verbatim>\<open>cap_holder_remove\<close>. Its fuel is the number of nodes in the pool:
  \<open>holder_find_chain\<close> shows that a list that reaches the end marker is searched
  completely.
\<close>

fun holder_find :: "nat \<Rightarrow> holder_kind \<Rightarrow> nat \<Rightarrow> nat \<Rightarrow> (nat \<Rightarrow> CapHolder) \<Rightarrow> nat \<Rightarrow> nat option" where
  "holder_find 0 kind pid ref N h = None"
| "holder_find (Suc fuel) kind pid ref N h =
     (if h = CAP_FREELIST_END then None
      else if h_kind (N h) = kind \<and> h_pid (N h) = pid \<and> h_ref (N h) = ref then Some h
      else holder_find fuel kind pid ref N (h_next (N h)))"

definition holder_unlink :: "nat \<Rightarrow> nat \<Rightarrow> cap_state \<Rightarrow> cap_state" where
  "holder_unlink obj_id h s =
     (let node = cap_holders s h;
          s1 = (if h_prev node \<noteq> CAP_FREELIST_END
                then upd_holder (h_prev node) (\<lambda>n. n\<lparr>h_next := h_next node\<rparr>) s
                else upd_object obj_id (\<lambda>ob. ob\<lparr>o_holder_head := h_next node\<rparr>) s);
          node1 = cap_holders s1 h
      in if h_next node1 \<noteq> CAP_FREELIST_END
         then upd_holder (h_next node1) (\<lambda>n. n\<lparr>h_prev := h_prev node1\<rparr>) s1 else s1)"

definition cap_holder_remove ::
  "nat \<Rightarrow> holder_kind \<Rightarrow> nat \<Rightarrow> nat \<Rightarrow> cap_state \<Rightarrow> cap_state" where
  "cap_holder_remove obj_id kind pid ref s =
     (case holder_find CAP_HOLDER_MAX kind pid ref (cap_holders s) (o_holder_head (cap_objects s obj_id)) of
        None \<Rightarrow> s
      | Some h \<Rightarrow>
          upd_object obj_id (\<lambda>ob. ob\<lparr>o_refcount := (if o_refcount ob > 0 then o_refcount ob - 1
                                                     else o_refcount ob)\<rparr>)
            (cap_holder_free h (holder_unlink obj_id h s)))"

section \<open>The free pool\<close>

definition holder_link_of :: "cap_state \<Rightarrow> nat \<Rightarrow> nat" where
  "holder_link_of s h = h_next (cap_holders s h)"

interpretation hf: index_freelist cap_holder_free_head holder_link_of holder_pop cap_holder_free CAP_HOLDER_MAX
proof
  show "CAP_HOLDER_MAX \<le> CAP_FREELIST_END"
    by (simp add: limits)
qed (auto simp: holder_pop_def holder_link_of_def cap_holder_free_def upd_holder_def Let_def)

section \<open>Doubly linked holder lists\<close>

fun hseg :: "(nat \<Rightarrow> CapHolder) \<Rightarrow> nat \<Rightarrow> nat \<Rightarrow> nat list \<Rightarrow> bool" where
  "hseg N p h [] \<longleftrightarrow> h = CAP_FREELIST_END"
| "hseg N p h (x # xs) \<longleftrightarrow> h = x \<and> x \<noteq> CAP_FREELIST_END \<and> h_prev (N x) = p \<and> hseg N x (h_next (N x)) xs"

lemma hseg_chain: "hseg N p h xs \<Longrightarrow> chain (\<lambda>x. h_next (N x)) h xs"
  by (induction xs arbitrary: p h) auto

lemma hseg_distinct: "hseg N p h xs \<Longrightarrow> distinct xs"
  by (blast dest: hseg_chain chain_distinct)

lemma hseg_unique: "hseg N p h xs \<Longrightarrow> hseg N p' h ys \<Longrightarrow> xs = ys"
  by (blast dest: hseg_chain chain_unique)

lemma hseg_head: "hseg N p h xs \<Longrightarrow> h = (case xs of [] \<Rightarrow> CAP_FREELIST_END | x # _ \<Rightarrow> x)"
  by (cases xs) auto

lemma hseg_cong:
  "(\<And>x. x \<in> set xs \<Longrightarrow> h_next (N x) = h_next (N' x) \<and> h_prev (N x) = h_prev (N' x)) \<Longrightarrow>
   hseg N p h xs \<longleftrightarrow> hseg N' p h xs"
  by (induction xs arbitrary: p h) auto

lemma hseg_upd [simp]: "x \<notin> set xs \<Longrightarrow> hseg (N(x := n)) p h xs \<longleftrightarrow> hseg N p h xs"
  by (rule hseg_cong) auto

lemma hseg_not_END: "hseg N p h xs \<Longrightarrow> x \<in> set xs \<Longrightarrow> x \<noteq> CAP_FREELIST_END"
  by (induction xs arbitrary: p h) auto

text \<open>The back pointer of the first node can be redirected.\<close>

lemma hseg_reprev:
  assumes "hseg N p h xs" and "distinct xs"
  shows "hseg (if h \<noteq> CAP_FREELIST_END then N(h := (N h)\<lparr>h_prev := q\<rparr>) else N) q h xs"
  using assms by (cases xs) auto

text \<open>Unlinking a node in the middle of a list, on the node array alone.\<close>

definition unlink_nodes :: "(nat \<Rightarrow> CapHolder) \<Rightarrow> nat \<Rightarrow> nat \<Rightarrow> CapHolder" where
  "unlink_nodes N x =
     (let pv = h_prev (N x); nx = h_next (N x);
          N1 = (if pv \<noteq> CAP_FREELIST_END then N(pv := (N pv)\<lparr>h_next := nx\<rparr>) else N)
      in if nx \<noteq> CAP_FREELIST_END then N1(nx := (N1 nx)\<lparr>h_prev := pv\<rparr>) else N1)"

lemma hseg_next_in:
  "hseg N p h (xs @ x # ys) \<Longrightarrow> h_next (N x) = (case ys of [] \<Rightarrow> CAP_FREELIST_END | y # _ \<Rightarrow> y)"
  by (induction xs arbitrary: p h) (auto dest: hseg_head)

lemma hseg_prev_in:
  "hseg N p h (xs @ x # ys) \<Longrightarrow> h_prev (N x) = (if xs = [] then p else last xs)"
  by (induction xs arbitrary: p h) auto

lemma hseg_unlink_inner:
  assumes "hseg N p h (xs @ x # ys)" and "distinct (xs @ x # ys)" and "xs \<noteq> []"
  shows "hseg (unlink_nodes N x) p h (xs @ ys)"
  using assms
proof (induction xs arbitrary: p h)
  case Nil
  then show ?case by simp
next
  case (Cons a xs)
  let ?pv = "h_prev (N x)" and ?nx = "h_next (N x)"
  have nx: "?nx = (case ys of [] \<Rightarrow> CAP_FREELIST_END | y # _ \<Rightarrow> y)"
    using Cons.prems(1) by (rule hseg_next_in)
  have pv: "?pv = (if xs = [] then a else last xs)"
    using hseg_prev_in [OF Cons.prems(1)] by simp
  have a: "a \<noteq> CAP_FREELIST_END" "h = a" "h_prev (N a) = p" "hseg N a (h_next (N a)) (xs @ x # ys)"
    using Cons.prems(1) by auto
  have a_notin: "a \<notin> set xs" "a \<noteq> x" "a \<notin> set ys" "a \<noteq> ?nx"
    using Cons.prems(2) a(1) by (auto simp: nx split: list.splits)
  show ?case
  proof (cases "xs = []")
    case True
    have ys: "hseg N x ?nx ys" and x: "h_next (N a) = x" "x \<noteq> CAP_FREELIST_END"
      using a(4) True by auto
    have "hseg (unlink_nodes N x) a ?nx ys"
    proof (cases ys)
      case Nil
      with nx show ?thesis by simp
    next
      case (Cons y zs)
      with ys a_notin True pv a(1) Cons.prems(2) show ?thesis
        by (auto simp: unlink_nodes_def Let_def)
    qed
    with True a a_notin pv show ?thesis
      by (auto simp: unlink_nodes_def Let_def)
  next
    case False
    have IH: "hseg (unlink_nodes N x) a (h_next (N a)) (xs @ ys)"
      using Cons.IH [OF a(4) _ False] Cons.prems(2) by auto
    have "a \<noteq> ?pv"
      using False pv a_notin(1) by (metis last_in_set)
    with a_notin have "unlink_nodes N x a = N a"
      by (auto simp: unlink_nodes_def Let_def)
    with IH a show ?thesis
      by auto
  qed
qed

lemma hseg_unlink_first:
  assumes "hseg N CAP_FREELIST_END x (x # ys)"
  shows "hseg (unlink_nodes N x) CAP_FREELIST_END (h_next (N x)) ys"
proof -
  have "distinct (x # ys)"
    using assms by (rule hseg_distinct)
  with assms show ?thesis
    by (cases ys) (auto simp: unlink_nodes_def Let_def)
qed

lemma unlink_nodes_other:
  "y \<noteq> h_prev (N x) \<Longrightarrow> y \<noteq> h_next (N x) \<Longrightarrow> unlink_nodes N x y = N y"
  by (simp add: unlink_nodes_def Let_def)

lemma unlink_nodes_data [simp]:
  "h_obj_id (unlink_nodes N x y) = h_obj_id (N y)" "h_kind (unlink_nodes N x y) = h_kind (N y)"
  "h_pid (unlink_nodes N x y) = h_pid (N y)" "h_ref (unlink_nodes N x y) = h_ref (N y)"
  "h_qdir (unlink_nodes N x y) = h_qdir (N y)" "h_active (unlink_nodes N x y) = h_active (N y)"
  by (simp_all add: unlink_nodes_def Let_def)

text \<open>The search loop visits the whole list.\<close>

abbreviation holder_is :: "holder_kind \<Rightarrow> nat \<Rightarrow> nat \<Rightarrow> (nat \<Rightarrow> CapHolder) \<Rightarrow> nat \<Rightarrow> bool" where
  "holder_is kind pid ref N h \<equiv> h_kind (N h) = kind \<and> h_pid (N h) = pid \<and> h_ref (N h) = ref"

lemma holder_find_chain:
  assumes "hseg N p h xs" and "length xs \<le> fuel"
  shows "holder_find fuel kind pid ref N h = List.find (holder_is kind pid ref N) xs"
  using assms
proof (induction xs arbitrary: p h fuel)
  case Nil
  then show ?case by (cases fuel) auto
next
  case (Cons x xs)
  then show ?case by (cases fuel) auto
qed

end
