(* ===== verification/Cap_Refs.thy ===== *)
theory Cap_Refs
  imports Cap_Holder
begin

text \<open>
  Reference counting. \<open>holders_rep s HL FL P\<close> relates a state to the node lists it stands
  for: \<open>HL ob\<close> is the holder list of object \<open>ob\<close>, \<open>FL\<close> the free pool and \<open>P\<close> the nodes an
  operation has allocated and not yet linked. The three partition the pool, every linked
  node is active and names its object, and the refcount of an object is the length of its
  list. The lemmas below say that the holder primitives act on these lists as expected.
\<close>

section \<open>Partition of the pool\<close>

definition node_partition :: "(nat \<Rightarrow> nat list) \<Rightarrow> nat list \<Rightarrow> nat set \<Rightarrow> bool" where
  "node_partition HL FL P \<longleftrightarrow>
     distinct FL \<and> (\<forall>ob. distinct (HL ob)) \<and>
     set FL \<inter> P = {} \<and>
     (\<forall>ob. set (HL ob) \<inter> (set FL \<union> P) = {}) \<and>
     (\<forall>ob ob'. ob \<noteq> ob' \<longrightarrow> set (HL ob) \<inter> set (HL ob') = {}) \<and>
     set FL \<union> P \<union> (\<Union>ob. set (HL ob)) = {..<CAP_HOLDER_MAX}"

lemma node_partitionD:
  assumes "node_partition HL FL P"
  shows "distinct FL"
    and "distinct (HL ob)"
    and "h \<in> set (HL ob) \<Longrightarrow> h \<notin> set FL \<and> h \<notin> P \<and> h < CAP_HOLDER_MAX"
    and "h \<in> set (HL ob) \<Longrightarrow> h \<in> set (HL ob') \<Longrightarrow> ob' = ob"
    and "h \<in> P \<Longrightarrow> h \<notin> set FL \<and> h \<notin> set (HL ob) \<and> h < CAP_HOLDER_MAX"
    and "h \<in> set FL \<Longrightarrow> h \<notin> P \<and> h \<notin> set (HL ob) \<and> h < CAP_HOLDER_MAX"
    and "h < CAP_HOLDER_MAX \<Longrightarrow> h \<in> set FL \<or> h \<in> P \<or> (\<exists>ob. h \<in> set (HL ob))"
proof -
  note p = assms [unfolded node_partition_def]
  have cover: "h < CAP_HOLDER_MAX \<longleftrightarrow> h \<in> set FL \<or> h \<in> P \<or> (\<exists>ob. h \<in> set (HL ob))" for h
    using p [THEN conjunct2, THEN conjunct2, THEN conjunct2, THEN conjunct2, THEN conjunct2]
    by auto
  have FP: "set FL \<inter> P = {}" and HP: "set (HL ob) \<inter> (set FL \<union> P) = {}" for ob
    using p by simp_all
  show "distinct FL" "distinct (HL ob)"
    "h < CAP_HOLDER_MAX \<Longrightarrow> h \<in> set FL \<or> h \<in> P \<or> (\<exists>ob. h \<in> set (HL ob))"
    using p cover by simp_all
  show "h \<in> set (HL ob) \<Longrightarrow> h \<notin> set FL \<and> h \<notin> P \<and> h < CAP_HOLDER_MAX"
    "h \<in> P \<Longrightarrow> h \<notin> set FL \<and> h \<notin> set (HL ob) \<and> h < CAP_HOLDER_MAX"
    "h \<in> set FL \<Longrightarrow> h \<notin> P \<and> h \<notin> set (HL ob) \<and> h < CAP_HOLDER_MAX"
    using FP HP [of ob] cover [of h] by blast+
  have "ob \<noteq> ob' \<Longrightarrow> set (HL ob) \<inter> set (HL ob') = {}"
    using p by simp
  then show "h \<in> set (HL ob) \<Longrightarrow> h \<in> set (HL ob') \<Longrightarrow> ob' = ob"
    by blast
qed

lemma node_partition_alloc:
  "node_partition HL (h # FL) P \<Longrightarrow> node_partition HL FL (insert h P)"
  unfolding node_partition_def by auto

lemma node_partition_free:
  "node_partition HL FL P \<Longrightarrow> h \<in> P \<Longrightarrow> node_partition HL (h # FL) (P - {h})"
  unfolding node_partition_def by auto

lemma node_partition_link:
  assumes "node_partition HL FL P" and "h \<in> P"
  shows "node_partition (HL(ob := h # HL ob)) FL (P - {h})"
proof -
  have "(\<Union>x. set ((HL(ob := h # HL ob)) x)) = insert h (\<Union>x. set (HL x))"
    by (auto split: if_splits)
  moreover have "h \<notin> set (HL x)" "h \<notin> set FL" for x
    using node_partitionD(5) [OF assms(1,2)] by auto
  ultimately show ?thesis
    using assms unfolding node_partition_def by (auto split: if_splits)
qed

lemma node_partition_unlink:
  assumes "node_partition HL FL P" and "HL ob = xs @ h # ys"
  shows "node_partition (HL(ob := xs @ ys)) FL (insert h P)"
proof -
  have u: "(\<Union>x. set (HL x)) = insert h (\<Union>x. set ((HL(ob := xs @ ys)) x))"
  proof -
    have "(\<Union>x. set (HL x)) = set (HL ob) \<union> (\<Union>x \<in> - {ob}. set (HL x))"
      by auto
    moreover have "(\<Union>x. set ((HL(ob := xs @ ys)) x)) = set (xs @ ys) \<union> (\<Union>x \<in> - {ob}. set (HL x))"
      by (auto split: if_splits)
    ultimately show ?thesis
      by (simp add: assms(2))
  qed
  have d: "distinct (xs @ h # ys)"
    using node_partitionD(2) [OF assms(1), of ob] assms(2) by simp
  have h: "h \<notin> set FL" "h \<notin> P" "\<And>x. x \<noteq> ob \<Longrightarrow> h \<notin> set (HL x)"
    using node_partitionD(3) [OF assms(1), of h ob] node_partitionD(4) [OF assms(1), of h ob]
      assms(2) by auto
  have sub: "set ((HL(ob := xs @ ys)) x) \<subseteq> set (HL x)" for x
    using assms(2) by auto
  show ?thesis
    unfolding node_partition_def
  proof (intro conjI allI impI)
    show "set FL \<union> insert h P \<union> (\<Union>x. set ((HL(ob := xs @ ys)) x)) = {..<CAP_HOLDER_MAX}"
      using assms(1) u unfolding node_partition_def by auto
    show "set ((HL(ob := xs @ ys)) x) \<inter> (set FL \<union> insert h P) = {}" for x
      using node_partitionD(3) [OF assms(1), of _ x] sub [of x] h(3) [of x] d by (cases "x = ob") auto
    show "set ((HL(ob := xs @ ys)) x) \<inter> set ((HL(ob := xs @ ys)) y) = {}" if "x \<noteq> y" for x y
      using node_partitionD(4) [OF assms(1), of _ x y] sub [of x] sub [of y] that by blast
  qed (use assms(1) h d in \<open>auto simp: node_partition_def\<close>)
qed

section \<open>The representation relation\<close>

definition object_list :: "cap_state \<Rightarrow> nat \<Rightarrow> nat list \<Rightarrow> bool" where
  "object_list s ob xs \<longleftrightarrow>
     hseg (cap_holders s) CAP_FREELIST_END (o_holder_head (cap_objects s ob)) xs \<and>
     o_refcount (cap_objects s ob) = length xs \<and>
     (\<forall>h \<in> set xs. h_obj_id (cap_holders s h) = ob \<and> h_active (cap_holders s h))"

definition holders_rep ::
  "cap_state \<Rightarrow> (nat \<Rightarrow> nat list) \<Rightarrow> nat list \<Rightarrow> nat set \<Rightarrow> bool" where
  "holders_rep s HL FL P \<longleftrightarrow>
     hf.freelist s FL \<and> (\<forall>ob < cap_obj_next s. object_list s ob (HL ob)) \<and>
     (\<forall>ob \<ge> cap_obj_next s. HL ob = []) \<and> node_partition HL FL P"

lemma holders_repD:
  assumes "holders_rep s HL FL P"
  shows "hf.freelist s FL" and "node_partition HL FL P"
    and "ob < cap_obj_next s \<Longrightarrow> object_list s ob (HL ob)"
    and "ob \<ge> cap_obj_next s \<Longrightarrow> HL ob = []"
  using assms by (auto simp: holders_rep_def)

lemma object_list_cong:
  assumes "object_list s ob xs"
    and "o_holder_head (cap_objects s' ob) = o_holder_head (cap_objects s ob)"
    and "o_refcount (cap_objects s' ob) = o_refcount (cap_objects s ob)"
    and "\<And>h. h \<in> set xs \<Longrightarrow> cap_holders s' h = cap_holders s h"
  shows "object_list s' ob xs"
proof -
  have "hseg (cap_holders s') p h xs \<longleftrightarrow> hseg (cap_holders s) p h xs" for p h
    by (rule hseg_cong) (simp add: assms(4))
  with assms show ?thesis
    by (simp add: object_list_def)
qed

lemma hf_freelist_nodes:
  assumes "hf.freelist s xs" and "cap_holder_free_head s' = cap_holder_free_head s"
    and "\<And>h. h \<in> set xs \<Longrightarrow> h_next (cap_holders s' h) = h_next (cap_holders s h)"
  shows "hf.freelist s' xs"
proof -
  have "chain (holder_link_of s') (cap_holder_free_head s) xs \<longleftrightarrow>
        chain (holder_link_of s) (cap_holder_free_head s) xs"
    by (rule chain_cong) (simp add: holder_link_of_def assms(3))
  with assms(1,2) show ?thesis
    by (simp add: hf.freelist_def)
qed

text \<open>The relation reads the pool, the list heads and the refcounts only.\<close>

lemma holders_rep_cong:
  assumes "holders_rep s HL FL P" and "cap_holders s' = cap_holders s"
    and "cap_holder_free_head s' = cap_holder_free_head s" and "cap_obj_next s' = cap_obj_next s"
    and "\<And>ob. ob < cap_obj_next s \<Longrightarrow> o_holder_head (cap_objects s' ob) = o_holder_head (cap_objects s ob)"
    and "\<And>ob. ob < cap_obj_next s \<Longrightarrow> o_refcount (cap_objects s' ob) = o_refcount (cap_objects s ob)"
  shows "holders_rep s' HL FL P"
proof -
  have "hf.freelist s' FL"
    using holders_repD(1) [OF assms(1)] by (rule hf_freelist_nodes) (simp_all add: assms(2,3))
  moreover have "object_list s' ob (HL ob)" if "ob < cap_obj_next s" for ob
    using holders_repD(3) [OF assms(1) that] by (rule object_list_cong) (simp_all add: assms that)
  ultimately show ?thesis
    using holders_repD(2,4) [OF assms(1)] by (simp add: holders_rep_def assms(4))
qed

lemma object_list_unique: "object_list s ob xs \<Longrightarrow> object_list s ob ys \<Longrightarrow> xs = ys"
  by (auto simp: object_list_def dest: hseg_unique)

lemma holders_rep_unique:
  assumes "holders_rep s HL FL P" and "holders_rep s HL' FL' P'"
  shows "HL = HL'" and "FL = FL'"
proof -
  show "HL = HL'"
  proof
    fix ob
    show "HL ob = HL' ob"
      using holders_repD(3) [OF assms(1)] holders_repD(3) [OF assms(2)] object_list_unique
        holders_repD(4) [OF assms(1)] holders_repD(4) [OF assms(2)]
      by (metis not_le)
  qed
  show "FL = FL'"
    using holders_repD(1) [OF assms(1)] holders_repD(1) [OF assms(2)] by (rule hf.freelist_unique)
qed

lemma refcount_length:
  "holders_rep s HL FL P \<Longrightarrow> ob < cap_obj_next s \<Longrightarrow> o_refcount (cap_objects s ob) = length (HL ob)"
  by (auto dest: holders_repD(3) simp: object_list_def)

lemma HL_length:
  assumes "holders_rep s HL FL P"
  shows "length (HL ob) \<le> CAP_HOLDER_MAX"
proof -
  have "set (HL ob) \<subseteq> {..<CAP_HOLDER_MAX}"
    using node_partitionD(3) [OF holders_repD(2) [OF assms]] by blast
  then have "card (set (HL ob)) \<le> CAP_HOLDER_MAX"
    using card_mono [of "{..<CAP_HOLDER_MAX}" "set (HL ob)"] by simp
  then show ?thesis
    using node_partitionD(2) [OF holders_repD(2) [OF assms], of ob] by (simp add: distinct_card)
qed

text \<open>The refcount of an object never exceeds the size of the pool.\<close>

lemma refcount_bound:
  "holders_rep s HL FL P \<Longrightarrow> ob < cap_obj_next s \<Longrightarrow> o_refcount (cap_objects s ob) \<le> CAP_HOLDER_MAX"
  by (simp add: refcount_length HL_length)

section \<open>Allocation and release of nodes\<close>

lemma cap_holder_alloc_fields:
  assumes "cap_holder_alloc obj kind pid ref qdir s = Some (h, s')"
  shows "cap_holders s' = (cap_holders s)(h := (cap_holders s h)\<lparr>h_obj_id := obj, h_kind := kind,
      h_pid := pid, h_ref := ref, h_qdir := qdir, h_active := True,
      h_next := CAP_FREELIST_END, h_prev := CAP_FREELIST_END\<rparr>)"
    and "cap_objects s' = cap_objects s"
    and "s' = s\<lparr>cap_holders := cap_holders s', cap_holder_free_head := cap_holder_free_head s'\<rparr>"
  using assms by (auto simp: cap_holder_alloc_def holder_pop_def upd_holder_def Let_def split: if_splits)

lemma cap_holder_alloc_None:
  "holders_rep s HL FL P \<Longrightarrow> cap_holder_alloc obj kind pid ref qdir s = None \<longleftrightarrow> FL = []"
  using hf.pop_None_iff [of s FL] holders_repD(1) [of s HL FL P]
  by (auto simp: cap_holder_alloc_def split: option.splits)

lemma cap_holder_alloc_rep:
  assumes rep: "holders_rep s HL FL P" and al: "cap_holder_alloc obj kind pid ref qdir s = Some (h, s')"
  obtains FL' where "FL = h # FL'" and "holders_rep s' HL FL' (insert h P)" and "h \<notin> P"
    and "\<And>ob. h \<notin> set (HL ob)" and "h < CAP_HOLDER_MAX"
proof -
  note f = cap_holder_alloc_fields [OF al]
  from al obtain s1 where pop: "holder_pop s = Some (h, s1)"
    and head: "cap_holder_free_head s' = cap_holder_free_head s1" and "cap_holders s1 = cap_holders s"
    by (auto simp: cap_holder_alloc_def holder_pop_def upd_holder_def Let_def split: if_splits)
  obtain FL' where FL: "FL = h # FL'" and fl: "hf.freelist s1 FL'"
    using hf.pop_Some [OF holders_repD(1) [OF rep] pop] by blast
  note part = holders_repD(2) [OF rep]
  have h: "h \<notin> P" "\<And>ob. h \<notin> set (HL ob)" "h < CAP_HOLDER_MAX" "h \<notin> set FL'"
    using node_partitionD(6) [OF part, of h] part by (auto simp: FL node_partition_def)
  have "hf.freelist s' FL'"
    using fl head by (rule hf_freelist_nodes) (use h(4) \<open>cap_holders s1 = cap_holders s\<close> in \<open>auto simp: f(1,2)\<close>)
  moreover have "object_list s' ob (HL ob)" if "ob < cap_obj_next s" for ob
    using holders_repD(3) [OF rep that]
    by (rule object_list_cong) (use h(2) [of ob] in \<open>auto simp: f(1,2)\<close>)
  moreover have "node_partition HL FL' (insert h P)"
    using part unfolding FL by (rule node_partition_alloc)
  moreover have "cap_obj_next s' = cap_obj_next s"
    by (subst f(3)) simp
  ultimately have "holders_rep s' HL FL' (insert h P)"
    using holders_repD(4) [OF rep] by (simp add: holders_rep_def)
  with FL h that show ?thesis
    by blast
qed

lemma cap_holder_free_fields [simp]:
  "cap_objects (cap_holder_free h s) = cap_objects s"
  "cap_tables (cap_holder_free h s) = cap_tables s"
  "cap_obj_next (cap_holder_free h s) = cap_obj_next s"
  "cap_holders (cap_holder_free h s) = (cap_holders s)(h := (cap_holders s h)\<lparr>h_active := False,
      h_prev := CAP_FREELIST_END, h_next := cap_holder_free_head s\<rparr>)"
  by (simp_all add: cap_holder_free_def upd_holder_def)

lemma cap_holder_free_rep:
  assumes rep: "holders_rep s HL FL P" and h: "h \<in> P"
  shows "holders_rep (cap_holder_free h s) HL (h # FL) (P - {h})"
proof -
  note part = holders_repD(2) [OF rep]
  note h' = node_partitionD(5) [OF part h]
  have "hf.freelist (cap_holder_free h s) (h # FL)"
    using holders_repD(1) [OF rep] h' by (intro hf.push_Cons) auto
  moreover have "object_list (cap_holder_free h s) ob (HL ob)" if "ob < cap_obj_next s" for ob
    using holders_repD(3) [OF rep that] by (rule object_list_cong) (use h' [of ob] in auto)
  moreover have "node_partition HL (h # FL) (P - {h})"
    using part h by (rule node_partition_free)
  ultimately show ?thesis
    using holders_repD(4) [OF rep] by (simp add: holders_rep_def)
qed

section \<open>Linking a node\<close>

lemma cap_holder_link_fields [simp]:
  "cap_holder_free_head (cap_holder_link h ob s) = cap_holder_free_head s"
  "cap_obj_next (cap_holder_link h ob s) = cap_obj_next s"
  "cap_objects (cap_holder_link h ob s) = (cap_objects s)(ob := (cap_objects s ob)\<lparr>
      o_holder_head := h, o_refcount := o_refcount (cap_objects s ob) + 1\<rparr>)"
  by (simp_all add: cap_holder_link_def state_upd_defs Let_def)

lemma cap_holder_link_nodes:
  assumes "x \<noteq> h" and "x \<noteq> o_holder_head (cap_objects s ob)"
  shows "cap_holders (cap_holder_link h ob s) x = cap_holders s x"
  using assms by (simp add: cap_holder_link_def state_upd_defs Let_def)

lemma cap_holder_link_data:
  "h_obj_id (cap_holders (cap_holder_link h ob s) x) = h_obj_id (cap_holders s x)"
  "h_active (cap_holders (cap_holder_link h ob s) x) = h_active (cap_holders s x)"
  "h_kind (cap_holders (cap_holder_link h ob s) x) = h_kind (cap_holders s x)"
  "h_pid (cap_holders (cap_holder_link h ob s) x) = h_pid (cap_holders s x)"
  "h_ref (cap_holders (cap_holder_link h ob s) x) = h_ref (cap_holders s x)"
  "h_qdir (cap_holders (cap_holder_link h ob s) x) = h_qdir (cap_holders s x)"
  by (simp_all add: cap_holder_link_def state_upd_defs Let_def)

lemma object_list_link:
  assumes "object_list s ob xs" and "h \<notin> set xs" and "h \<noteq> CAP_FREELIST_END"
    and "h_obj_id (cap_holders s h) = ob" and "h_active (cap_holders s h)"
    and "h_prev (cap_holders s h) = CAP_FREELIST_END"
  shows "object_list (cap_holder_link h ob s) ob (h # xs)"
proof -
  let ?N = "cap_holders s" and ?hd = "o_holder_head (cap_objects s ob)"
  have seg: "hseg ?N CAP_FREELIST_END ?hd xs"
    using assms(1) by (simp add: object_list_def)
  have hd: "?hd \<noteq> h"
    using hseg_head [OF seg] assms(2,3) by (auto split: list.splits)
  have N': "cap_holders (cap_holder_link h ob s) =
      (if ?hd \<noteq> CAP_FREELIST_END then ?N(?hd := (?N ?hd)\<lparr>h_prev := h\<rparr>) else ?N)(h := (?N h)\<lparr>h_next := ?hd\<rparr>)"
    using hd by (auto simp: cap_holder_link_def state_upd_defs Let_def fun_eq_iff)
  have "hseg (cap_holders (cap_holder_link h ob s)) h ?hd xs"
    using hseg_reprev [OF seg hseg_distinct [OF seg], of h] assms(2) unfolding N' by simp
  moreover have "h_next (cap_holders (cap_holder_link h ob s) h) = ?hd"
    "h_prev (cap_holders (cap_holder_link h ob s) h) = CAP_FREELIST_END"
    using assms(6) by (simp_all add: N')
  ultimately show ?thesis
    using assms by (auto simp: object_list_def cap_holder_link_data)
qed

lemma holders_rep_not_END:
  assumes "holders_rep s HL FL P" and "h \<in> P \<union> set FL \<union> set (HL ob)"
  shows "h \<noteq> CAP_FREELIST_END"
proof -
  have "h < CAP_HOLDER_MAX"
    using assms(2) node_partitionD(3,5,6) [OF holders_repD(2) [OF assms(1)], of h] by blast
  then show ?thesis
    by (simp add: limits)
qed

lemma head_in_list:
  assumes "object_list s ob xs" and "x = o_holder_head (cap_objects s ob)" and "x \<noteq> CAP_FREELIST_END"
  shows "x \<in> set xs"
  using assms by (auto simp: object_list_def dest!: hseg_head split: list.splits)

lemma cap_holder_link_frame:
  assumes rep: "holders_rep s HL FL P" and "ob < cap_obj_next s" and "x \<noteq> h" and "x \<notin> set (HL ob)"
    and "x \<noteq> CAP_FREELIST_END"
  shows "cap_holders (cap_holder_link h ob s) x = cap_holders s x"
  using head_in_list [OF holders_repD(3) [OF rep assms(2)]] assms(3-5)
  by (intro cap_holder_link_nodes) auto

lemma cap_holder_link_rep:
  assumes rep: "holders_rep s HL FL P" and ob: "ob < cap_obj_next s" and h: "h \<in> P"
    and data: "h_obj_id (cap_holders s h) = ob" "h_active (cap_holders s h)"
      "h_prev (cap_holders s h) = CAP_FREELIST_END"
  shows "holders_rep (cap_holder_link h ob s) (HL(ob := h # HL ob)) FL (P - {h})"
proof -
  let ?s = "cap_holder_link h ob s"
  note part = holders_repD(2) [OF rep]
  note h' = node_partitionD(5) [OF part h]
  note nEND = holders_rep_not_END [OF rep]
  have "hf.freelist ?s FL"
  proof (rule hf_freelist_nodes [OF holders_repD(1) [OF rep]])
    show "h_next (cap_holders ?s x) = h_next (cap_holders s x)" if "x \<in> set FL" for x
      using cap_holder_link_frame [OF rep ob, of x h] that h' [of ob] node_partitionD(6) [OF part that, of ob] nEND [of x ob]
      by (cases "x = h") auto
  qed simp
  moreover have "object_list ?s o' ((HL(ob := h # HL ob)) o')" if "o' < cap_obj_next s" for o'
  proof (cases "o' = ob")
    case True
    then show ?thesis
      using object_list_link [OF holders_repD(3) [OF rep ob], of h] h' nEND [of h] h data by simp
  next
    case False
    have "cap_holders ?s x = cap_holders s x" if "x \<in> set (HL o')" for x
      using cap_holder_link_frame [OF rep ob, of x h] that False h' [of o']
        node_partitionD(4) [OF part, of x o' ob] nEND [of x o'] by (cases "x = h") auto
    with False have "object_list ?s o' (HL o')"
      by (intro object_list_cong [OF holders_repD(3) [OF rep that]]) auto
    with False show ?thesis
      by simp
  qed
  moreover have "node_partition (HL(ob := h # HL ob)) FL (P - {h})"
    using part h by (rule node_partition_link)
  ultimately show ?thesis
    using holders_repD(4) [OF rep] ob by (simp add: holders_rep_def)
qed

section \<open>Unlinking a node\<close>

lemma holder_unlink_fields [simp]:
  "cap_holder_free_head (holder_unlink ob h s) = cap_holder_free_head s"
  "cap_obj_next (holder_unlink ob h s) = cap_obj_next s"
  "o' \<noteq> ob \<Longrightarrow> cap_objects (holder_unlink ob h s) o' = cap_objects s o'"
  "o_refcount (cap_objects (holder_unlink ob h s) o') = o_refcount (cap_objects s o')"
  by (simp_all add: holder_unlink_def state_upd_defs Let_def)

lemma holder_unlink_nodes:
  "h_prev (cap_holders s h) \<noteq> h \<Longrightarrow> cap_holders (holder_unlink ob h s) = unlink_nodes (cap_holders s) h"
  "o_holder_head (cap_objects (holder_unlink ob h s) ob) =
     (if h_prev (cap_holders s h) = CAP_FREELIST_END then h_next (cap_holders s h)
      else o_holder_head (cap_objects s ob))"
  by (auto simp: holder_unlink_def unlink_nodes_def state_upd_defs Let_def)

lemma hseg_prev_ne:
  assumes "hseg N p h (xs @ x # ys)" and "p = CAP_FREELIST_END"
  shows "h_prev (N x) \<noteq> x"
  using hseg_prev_in [OF assms(1)] hseg_distinct [OF assms(1)] hseg_not_END [OF assms(1), of x] assms(2)
  by (auto split: if_splits)

lemma unlink_neighbours:
  assumes "hseg N CAP_FREELIST_END h (xs @ x # ys)" and "y \<notin> set (xs @ ys)" and "y \<noteq> CAP_FREELIST_END"
  shows "unlink_nodes N x y = N y"
proof (rule unlink_nodes_other)
  show "y \<noteq> h_prev (N x)"
    using hseg_prev_in [OF assms(1)] assms(2,3) by (auto split: if_splits)
  show "y \<noteq> h_next (N x)"
    using hseg_next_in [OF assms(1)] assms(2,3) by (auto split: list.splits)
qed

lemma hseg_unlink:
  assumes "hseg (cap_holders s) CAP_FREELIST_END (o_holder_head (cap_objects s ob)) (xs @ x # ys)"
  shows "hseg (cap_holders (holder_unlink ob x s)) CAP_FREELIST_END
           (o_holder_head (cap_objects (holder_unlink ob x s) ob)) (xs @ ys)"
proof -
  note pv = hseg_prev_in [OF assms] and N = holder_unlink_nodes(1) [OF hseg_prev_ne [OF assms refl]]
  show ?thesis
  proof (cases "xs = []")
    case True
    then show ?thesis
      using hseg_unlink_first [of "cap_holders s" x ys] assms pv
      by (simp add: N holder_unlink_nodes(2))
  next
    case False
    then have "last xs \<noteq> CAP_FREELIST_END"
      using hseg_not_END [OF assms, of "last xs"] by simp
    with False show ?thesis
      using hseg_unlink_inner [OF assms hseg_distinct [OF assms] False] pv
      by (simp add: N holder_unlink_nodes(2))
  qed
qed

text \<open>
  A matching node that the search finds is cut out of its list, returned to the pool and
  no longer counted.
\<close>

lemma holder_cut_rep:
  assumes rep: "holders_rep s HL FL P" and ob: "ob < cap_obj_next s" and HL: "HL ob = xs @ h # ys"
    and s': "s' = upd_object ob (\<lambda>ob. ob\<lparr>o_refcount := (if o_refcount ob > 0 then o_refcount ob - 1
                                                     else o_refcount ob)\<rparr>) (cap_holder_free h (holder_unlink ob h s))"
  shows "holders_rep s' (HL(ob := xs @ ys)) (h # FL) P"
proof -
  let ?u = "holder_unlink ob h s"
  define s1 where "s1 = upd_object ob (\<lambda>b. b\<lparr>o_refcount := length (xs @ ys)\<rparr>) ?u"
  note part = holders_repD(2) [OF rep]
  have ol: "object_list s ob (xs @ h # ys)"
    using holders_repD(3) [OF rep ob] HL by simp
  then have seg: "hseg (cap_holders s) CAP_FREELIST_END (o_holder_head (cap_objects s ob)) (xs @ h # ys)"
    by (simp add: object_list_def)
  note N = holder_unlink_nodes(1) [OF hseg_prev_ne [OF seg refl]]
  have dist: "h \<notin> set (xs @ ys)"
    using node_partitionD(2) [OF part, of ob] HL by simp
  have N1: "cap_holders s1 = unlink_nodes (cap_holders s) h"
    by (simp add: s1_def upd_object_def N)
  have same: "cap_holders s1 x = cap_holders s x" if "x \<notin> set (HL ob)" "x \<in> set FL \<union> set (HL o')" for x o'
    using that HL holders_rep_not_END [OF rep, of x o'] unlink_neighbours [OF seg, of x] by (auto simp: N1)
  have "hf.freelist s1 FL"
  proof (rule hf_freelist_nodes [OF holders_repD(1) [OF rep]])
    show "h_next (cap_holders s1 x) = h_next (cap_holders s x)" if "x \<in> set FL" for x
      using same [of x ob] that node_partitionD(6) [OF part that, of ob] by simp
  qed (simp add: s1_def upd_object_def)
  moreover have "object_list s1 o' ((HL(ob := xs @ ys)) o')" if "o' < cap_obj_next s" for o'
  proof (cases "o' = ob")
    case True
    then show ?thesis
      using hseg_unlink [OF seg] ol N
      by (auto simp: object_list_def s1_def upd_object_def)
  next
    case False
    have "cap_holders s1 x = cap_holders s x" if "x \<in> set (HL o')" for x
      using same [of x o'] that node_partitionD(4) [OF part, of x o' ob] False by auto
    with False have "object_list s1 o' (HL o')"
      by (intro object_list_cong [OF holders_repD(3) [OF rep that]]) (auto simp: s1_def upd_object_def)
    with False show ?thesis by simp
  qed
  moreover have "node_partition (HL(ob := xs @ ys)) FL (insert h P)"
    using part HL by (rule node_partition_unlink)
  moreover have "cap_obj_next s1 = cap_obj_next s"
    by (simp add: s1_def upd_object_def)
  ultimately have "holders_rep s1 (HL(ob := xs @ ys)) FL (insert h P)"
    using holders_repD(4) [OF rep] ob unfolding holders_rep_def by (auto simp del: fun_upd_apply) simp
  then have "holders_rep (cap_holder_free h s1) (HL(ob := xs @ ys)) (h # FL) (insert h P - {h})"
    by (rule cap_holder_free_rep) simp
  moreover have "cap_holder_free h s1 = s'"
    using ol by (simp add: s' s1_def cap_holder_free_def state_upd_defs object_list_def)
  moreover have "h \<notin> P"
    using node_partitionD(3) [OF part, of h ob] HL by simp
  ultimately show ?thesis
    by simp
qed

section \<open>Abstract reference lists\<close>

text \<open>
  What the clients of the pool rely on: for each object the list of its references, each
  one a kind, a process, a slot or queue entry and a queue direction. \<open>refs_rep s R P n\<close>
  hides the node indices; \<open>n\<close> is the number of free nodes.
\<close>

type_synonym href = "holder_kind \<times> nat \<times> nat \<times> nat"

definition hdata :: "CapHolder \<Rightarrow> href" where
  "hdata n = (h_kind n, h_pid n, h_ref n, h_qdir n)"

fun href_is :: "holder_kind \<Rightarrow> nat \<Rightarrow> nat \<Rightarrow> href \<Rightarrow> bool" where
  "href_is kind pid ref (k, p, r, d) \<longleftrightarrow> k = kind \<and> p = pid \<and> r = ref"

fun drop_ref :: "holder_kind \<Rightarrow> nat \<Rightarrow> nat \<Rightarrow> href list \<Rightarrow> href list" where
  "drop_ref kind pid ref [] = []"
| "drop_ref kind pid ref (x # xs) = (if href_is kind pid ref x then xs else x # drop_ref kind pid ref xs)"

definition refs_rep :: "cap_state \<Rightarrow> (nat \<Rightarrow> href list) \<Rightarrow> nat set \<Rightarrow> nat \<Rightarrow> bool" where
  "refs_rep s R P n \<longleftrightarrow>
     (\<exists>HL FL. holders_rep s HL FL P \<and> length FL = n \<and>
        R = (\<lambda>ob. map (\<lambda>h. hdata (cap_holders s h)) (HL ob)))"

text \<open>A node that was allocated for a reference and waits to be linked.\<close>

definition staged :: "cap_state \<Rightarrow> nat \<Rightarrow> nat \<Rightarrow> href \<Rightarrow> bool" where
  "staged s h ob x \<longleftrightarrow> h_obj_id (cap_holders s h) = ob \<and> h_active (cap_holders s h) \<and>
     h_prev (cap_holders s h) = CAP_FREELIST_END \<and> hdata (cap_holders s h) = x"

lemma drop_ref_none: "\<forall>x \<in> set xs. \<not> href_is k p r x \<Longrightarrow> drop_ref k p r xs = xs"
  by (induction xs) auto

lemma drop_ref_split:
  "\<forall>x \<in> set xs. \<not> href_is k p r x \<Longrightarrow> href_is k p r y \<Longrightarrow> drop_ref k p r (xs @ y # ys) = xs @ ys"
  by (induction xs) auto

lemma drop_ref_subset: "set (drop_ref k p r xs) \<subseteq> set xs"
  by (induction xs) auto

lemma drop_ref_other: "\<not> href_is k p r x \<Longrightarrow> x \<in> set (drop_ref k p r xs) \<longleftrightarrow> x \<in> set xs"
  by (induction xs) auto

lemma refs_rep_unique:
  assumes "refs_rep s R P n" and "refs_rep s R' P' n'"
  shows "R = R' \<and> n = n'"
  using assms unfolding refs_rep_def by (metis holders_rep_unique)

lemma refs_rep_refcount:
  "refs_rep s R P n \<Longrightarrow> ob < cap_obj_next s \<Longrightarrow> o_refcount (cap_objects s ob) = length (R ob)"
  by (auto simp: refs_rep_def refcount_length)

lemma refs_rep_beyond: "refs_rep s R P n \<Longrightarrow> ob \<ge> cap_obj_next s \<Longrightarrow> R ob = []"
  by (auto simp: refs_rep_def dest: holders_repD(4))

lemma refs_rep_refcount_bound:
  "refs_rep s R P n \<Longrightarrow> ob < cap_obj_next s \<Longrightarrow> o_refcount (cap_objects s ob) \<le> CAP_HOLDER_MAX"
  by (auto simp: refs_rep_def refcount_bound)

lemma refs_rep_cong:
  assumes "refs_rep s R P n" and "cap_holders s' = cap_holders s"
    and "cap_holder_free_head s' = cap_holder_free_head s" and "cap_obj_next s' = cap_obj_next s"
    and "\<And>ob. ob < cap_obj_next s \<Longrightarrow> o_holder_head (cap_objects s' ob) = o_holder_head (cap_objects s ob)"
    and "\<And>ob. ob < cap_obj_next s \<Longrightarrow> o_refcount (cap_objects s' ob) = o_refcount (cap_objects s ob)"
  shows "refs_rep s' R P n"
  using assms(1) holders_rep_cong [OF _ assms(2-6)] unfolding refs_rep_def assms(2) by blast

lemma refs_alloc_None:
  "refs_rep s R P n \<Longrightarrow> cap_holder_alloc obj kind pid ref qdir s = None \<longleftrightarrow> n = 0"
  by (auto simp: refs_rep_def cap_holder_alloc_None)

lemma refs_alloc:
  assumes "refs_rep s R P n" and al: "cap_holder_alloc obj kind pid ref qdir s = Some (h, s')"
  shows "n > 0" and "refs_rep s' R (insert h P) (n - 1)" and "h \<notin> P"
    and "staged s' h obj (kind, pid, ref, qdir)"
    and "\<And>x. x \<in> P \<Longrightarrow> staged s x ob d \<Longrightarrow> staged s' x ob d"
proof -
  from assms(1) obtain HL FL where rep: "holders_rep s HL FL P" and n: "length FL = n"
    and R: "R = (\<lambda>ob. map (\<lambda>h. hdata (cap_holders s h)) (HL ob))"
    by (auto simp: refs_rep_def)
  obtain FL' where FL: "FL = h # FL'" and rep': "holders_rep s' HL FL' (insert h P)" and h: "h \<notin> P"
    and HL: "\<And>ob. h \<notin> set (HL ob)"
    using cap_holder_alloc_rep [OF rep al] by metis
  note N = cap_holder_alloc_fields(1) [OF al]
  show "n > 0" and "h \<notin> P"
    using n FL h by auto
  have "R = (\<lambda>ob. map (\<lambda>h. hdata (cap_holders s' h)) (HL ob))"
    using HL by (auto simp: R N fun_eq_iff)
  with rep' n FL show "refs_rep s' R (insert h P) (n - 1)"
    unfolding refs_rep_def by (intro exI [of _ HL] exI [of _ FL']) auto
  show "staged s' h obj (kind, pid, ref, qdir)"
    by (simp add: staged_def N hdata_def)
  show "staged s' x ob d" if "x \<in> P" "staged s x ob d" for x
    using that h by (auto simp: staged_def N)
qed

text \<open>The same steps seen on the node lists, for callers that keep the indices.\<close>

lemma alloc_staged:
  assumes rep: "holders_rep s HL FL P" and al: "cap_holder_alloc obj kind pid ref qdir s = Some (h, s')"
  shows "staged s' h obj (kind, pid, ref, qdir)"
    and "x \<in> P \<Longrightarrow> staged s x ob d \<Longrightarrow> staged s' x ob d"
proof -
  note N = cap_holder_alloc_fields(1) [OF al]
  have h: "h \<notin> P"
    using cap_holder_alloc_rep [OF rep al] by metis
  show "staged s' h obj (kind, pid, ref, qdir)"
    by (simp add: staged_def N hdata_def)
  show "staged s' x ob d" if "x \<in> P" "staged s x ob d"
    using that h by (auto simp: staged_def N)
qed

lemma link_staged:
  assumes rep: "holders_rep s HL FL P" and "ob < cap_obj_next s" and "x \<in> P" and "x \<noteq> h" and "staged s x o' d'"
  shows "staged (cap_holder_link h ob s) x o' d'"
  using assms cap_holder_link_frame [OF rep, of ob x h] holders_rep_not_END [OF rep, of x]
    node_partitionD(5) [OF holders_repD(2) [OF rep], of x ob]
  by (auto simp: staged_def)

lemma refs_free:
  assumes "refs_rep s R P n" and "h \<in> P"
  shows "refs_rep (cap_holder_free h s) R (P - {h}) (Suc n)"
    and "\<And>x. x \<in> P - {h} \<Longrightarrow> staged s x ob d \<Longrightarrow> staged (cap_holder_free h s) x ob d"
proof -
  from assms(1) obtain HL FL where rep: "holders_rep s HL FL P" and n: "length FL = n"
    and R: "R = (\<lambda>ob. map (\<lambda>h. hdata (cap_holders s h)) (HL ob))"
    by (auto simp: refs_rep_def)
  have "R = (\<lambda>ob. map (\<lambda>x. hdata (cap_holders (cap_holder_free h s) x)) (HL ob))"
    using node_partitionD(5) [OF holders_repD(2) [OF rep] assms(2)] by (auto simp: R fun_eq_iff)
  with cap_holder_free_rep [OF rep assms(2)] n show "refs_rep (cap_holder_free h s) R (P - {h}) (Suc n)"
    unfolding refs_rep_def by (intro exI [of _ HL] exI [of _ "h # FL"]) auto
qed (auto simp: staged_def)

lemma refs_link:
  assumes "refs_rep s R P n" and h: "h \<in> P" and ob: "ob < cap_obj_next s" and st: "staged s h ob d"
  shows "refs_rep (cap_holder_link h ob s) (R(ob := d # R ob)) (P - {h}) n"
    and "\<And>x. x \<in> P - {h} \<Longrightarrow> staged s x o' d' \<Longrightarrow> staged (cap_holder_link h ob s) x o' d'"
proof -
  let ?s = "cap_holder_link h ob s"
  from assms(1) obtain HL FL where rep: "holders_rep s HL FL P" and n: "length FL = n"
    and R: "R = (\<lambda>ob. map (\<lambda>h. hdata (cap_holders s h)) (HL ob))"
    by (auto simp: refs_rep_def)
  have D: "hdata (cap_holders ?s x) = hdata (cap_holders s x)" for x
    by (simp add: hdata_def cap_holder_link_data)
  have "holders_rep ?s (HL(ob := h # HL ob)) FL (P - {h})"
    using cap_holder_link_rep [OF rep ob h] st by (simp add: staged_def)
  moreover have "R(ob := d # R ob) = (\<lambda>o'. map (\<lambda>h. hdata (cap_holders ?s h)) ((HL(ob := h # HL ob)) o'))"
    using st by (auto simp: R D staged_def fun_eq_iff)
  ultimately show "refs_rep ?s (R(ob := d # R ob)) (P - {h}) n"
    using n unfolding refs_rep_def by blast
  show "staged ?s x o' d'" if "x \<in> P - {h}" "staged s x o' d'" for x
    using that cap_holder_link_frame [OF rep ob, of x h] holders_rep_not_END [OF rep, of x]
      node_partitionD(5) [OF holders_repD(2) [OF rep], of x ob]
    by (auto simp: staged_def)
qed

lemma refs_insert_None:
  "refs_rep s R P n \<Longrightarrow> cap_holder_insert obj kind pid ref qdir s = None \<longleftrightarrow> n = 0"
  using refs_alloc_None [of s R P n obj kind pid ref qdir]
  by (auto simp: cap_holder_insert_def split: option.splits)

lemma refs_insert:
  assumes "refs_rep s R P n" and ob: "ob < cap_obj_next s"
    and ins: "cap_holder_insert ob kind pid ref qdir s = Some s'"
  shows "n > 0" and "refs_rep s' (R(ob := (kind, pid, ref, qdir) # R ob)) P (n - 1)"
    and "\<And>x. x \<in> P \<Longrightarrow> staged s x o' d' \<Longrightarrow> staged s' x o' d'"
proof -
  obtain h s1 where al: "cap_holder_alloc ob kind pid ref qdir s = Some (h, s1)"
    and s': "s' = cap_holder_link h ob s1"
    using ins by (auto simp: cap_holder_insert_def split: option.splits)
  note a = refs_alloc [OF assms(1) al]
  have ob: "ob < cap_obj_next s1"
    using ob by (subst cap_holder_alloc_fields(3) [OF al]) simp
  show "n > 0"
    by (rule a(1))
  show "refs_rep s' (R(ob := (kind, pid, ref, qdir) # R ob)) P (n - 1)"
    using refs_link(1) [OF a(2) _ ob a(4)] a(3) by (simp add: s')
  show "staged s' x o' d'" if "x \<in> P" "staged s x o' d'" for x
    using refs_link(2) [OF a(2) _ ob a(4), of x o' d'] a(5) [OF that] a(3) that(1) by (auto simp: s')
qed

lemma find_split:
  "List.find p xs = Some y \<Longrightarrow> \<exists>ys zs. xs = ys @ y # zs \<and> p y \<and> (\<forall>x \<in> set ys. \<not> p x)"
proof (induction xs)
  case (Cons x xs)
  show ?case
  proof (cases "p x")
    case True
    with Cons.prems show ?thesis
      by (intro exI [of _ "[]"] exI [of _ xs]) auto
  next
    case False
    with Cons obtain ys zs where "xs = ys @ y # zs" "p y" "\<forall>x \<in> set ys. \<not> p x"
      by auto
    with False show ?thesis
      by (intro exI [of _ "x # ys"] exI [of _ zs]) auto
  qed
qed simp

lemma holder_find_rep:
  assumes "holders_rep s HL FL P" and "ob < cap_obj_next s"
  shows "holder_find CAP_HOLDER_MAX kind pid ref (cap_holders s) (o_holder_head (cap_objects s ob)) =
         List.find (holder_is kind pid ref (cap_holders s)) (HL ob)"
  using holders_repD(3) [OF assms] HL_length [OF assms(1), of ob]
  by (auto simp: object_list_def intro: holder_find_chain)

text \<open>\<^verbatim>\<open>cap_holder_remove\<close> drops the first matching reference, and only that one.\<close>

lemma refs_remove_exact:
  assumes "refs_rep s R P n" and ob: "ob < cap_obj_next s"
  shows "refs_rep (cap_holder_remove ob kind pid ref s) (R(ob := drop_ref kind pid ref (R ob))) P
           (if \<exists>x \<in> set (R ob). href_is kind pid ref x then Suc n else n)"
proof -
  from assms(1) obtain HL FL where rep: "holders_rep s HL FL P" and n: "length FL = n"
    and R: "R = (\<lambda>ob. map (\<lambda>h. hdata (cap_holders s h)) (HL ob))"
    by (auto simp: refs_rep_def)
  have iff: "href_is kind pid ref (hdata (cap_holders s x)) \<longleftrightarrow> holder_is kind pid ref (cap_holders s) x" for x
    by (simp add: hdata_def)
  show ?thesis
  proof (cases "List.find (holder_is kind pid ref (cap_holders s)) (HL ob)")
    case None
    then have none: "\<forall>x \<in> set (R ob). \<not> href_is kind pid ref x"
      by (auto simp: R iff find_None_iff)
    then have "drop_ref kind pid ref (R ob) = R ob"
      by (rule drop_ref_none)
    with None none assms(1) show ?thesis
      by (auto simp: cap_holder_remove_def holder_find_rep [OF rep ob])
  next
    case (Some h)
    then obtain xs ys where HL: "HL ob = xs @ h # ys" and h: "holder_is kind pid ref (cap_holders s) h"
      and pre: "\<forall>x \<in> set xs. \<not> holder_is kind pid ref (cap_holders s) x"
      by (blast dest: find_split)
    let ?s = "cap_holder_remove ob kind pid ref s"
    have "holders_rep ?s (HL(ob := xs @ ys)) (h # FL) P"
      using holder_cut_rep [OF rep ob HL refl]
      by (simp add: cap_holder_remove_def holder_find_rep [OF rep ob] Some)
    moreover have "hdata (cap_holders ?s x) = hdata (cap_holders s x)" for x
      by (simp add: cap_holder_remove_def holder_find_rep [OF rep ob] Some hdata_def holder_unlink_def
          state_upd_defs Let_def)
    moreover have "drop_ref kind pid ref (R ob) = map (\<lambda>h. hdata (cap_holders s h)) (xs @ ys)"
      unfolding R HL using drop_ref_split [of "map (\<lambda>h. hdata (cap_holders s h)) xs" kind pid ref] pre h iff by simp
    ultimately have "refs_rep ?s (R(ob := drop_ref kind pid ref (R ob))) P (Suc n)"
      unfolding refs_rep_def using n
      by (intro exI [of _ "HL(ob := xs @ ys)"] exI [of _ "h # FL"]) (auto simp: R fun_eq_iff)
    moreover have "\<exists>x \<in> set (R ob). href_is kind pid ref x"
      using h iff [of h] by (auto simp: R HL)
    ultimately show ?thesis
      by simp
  qed
qed

lemma refs_remove:
  assumes "refs_rep s R P n" and "ob < cap_obj_next s"
  shows "\<exists>n'. refs_rep (cap_holder_remove ob kind pid ref s) (R(ob := drop_ref kind pid ref (R ob))) P n' \<and> n \<le> n'"
  using refs_remove_exact [OF assms, of kind pid ref] by (auto split: if_splits)

lemma remove_staged:
  assumes "refs_rep s R P n" and ob: "ob < cap_obj_next s" and x: "x \<in> P" and st: "staged s x o' d"
  shows "staged (cap_holder_remove ob kind pid ref s) x o' d"
proof -
  from assms(1) obtain HL FL where rep: "holders_rep s HL FL P"
    by (auto simp: refs_rep_def)
  note part = holders_repD(2) [OF rep]
  show ?thesis
  proof (cases "List.find (holder_is kind pid ref (cap_holders s)) (HL ob)")
    case None
    with st show ?thesis
      by (simp add: cap_holder_remove_def holder_find_rep [OF rep ob])
  next
    case (Some h)
    then obtain xs ys where HL: "HL ob = xs @ h # ys"
      by (blast dest: find_split)
    then have seg: "hseg (cap_holders s) CAP_FREELIST_END (o_holder_head (cap_objects s ob)) (xs @ h # ys)"
      using holders_repD(3) [OF rep ob] by (simp add: object_list_def)
    have "x \<notin> set (HL ob)"
      using node_partitionD(3) [OF part] node_partitionD(5) [OF part] x by blast
    then have "unlink_nodes (cap_holders s) h x = cap_holders s x" "x \<noteq> h"
      using HL x holders_rep_not_END [OF rep, of x] by (auto intro!: unlink_neighbours [OF seg])
    then have "cap_holders (cap_holder_remove ob kind pid ref s) x = cap_holders s x"
      using holder_unlink_nodes(1) [OF hseg_prev_ne [OF seg refl], of ob]
      by (simp add: cap_holder_remove_def holder_find_rep [OF rep ob] Some upd_object_def cap_holder_free_def upd_holder_def)
    with st show ?thesis
      by (simp add: staged_def)
  qed
qed

text \<open>Objects whose list is empty can be initialised or destroyed.\<close>

lemma refs_reset_object:
  assumes "refs_rep s R P n" and nil: "R ob = []" and nodes: "cap_holders s' = cap_holders s"
    and "cap_holder_free_head s' = cap_holder_free_head s"
    and objs: "cap_objects s' = (cap_objects s)(ob := x)"
    and x: "o_holder_head x = CAP_FREELIST_END" "o_refcount x = 0"
    and nx: "cap_obj_next s' = cap_obj_next s \<or> ob = cap_obj_next s \<and> cap_obj_next s' = Suc (cap_obj_next s)"
  shows "refs_rep s' R P n"
proof -
  from assms(1) obtain HL FL where rep: "holders_rep s HL FL P" and n: "length FL = n"
    and R: "R = (\<lambda>ob. map (\<lambda>h. hdata (cap_holders s h)) (HL ob))"
    by (auto simp: refs_rep_def)
  have "hf.freelist s' FL"
    using holders_repD(1) [OF rep] by (rule hf_freelist_nodes) (simp_all add: assms)
  moreover have "object_list s' o' (HL o')" if "o' < cap_obj_next s'" for o'
  proof (cases "o' = ob")
    case True
    then show ?thesis
      using nil x by (simp add: R object_list_def objs)
  next
    case False
    then have "o' < cap_obj_next s"
      using that nx by auto
    from object_list_cong [OF holders_repD(3) [OF rep this]] False show ?thesis
      by (simp add: objs nodes)
  qed
  moreover have "HL o' = []" if "o' \<ge> cap_obj_next s'" for o'
    using holders_repD(4) [OF rep, of o'] that nx by auto
  ultimately have "holders_rep s' HL FL P"
    using holders_repD(2) [OF rep] by (simp add: holders_rep_def)
  with n R nodes show ?thesis
    unfolding refs_rep_def by auto
qed

section \<open>What the pool operations leave alone\<close>

definition holder_only :: "cap_state \<Rightarrow> cap_state \<Rightarrow> bool" where
  "holder_only s s' \<longleftrightarrow>
     (\<exists>N f obs. s' = s\<lparr>cap_holders := N, cap_holder_free_head := f, cap_objects := obs\<rparr> \<and>
        (\<forall>i. \<exists>a b. obs i = (cap_objects s i)\<lparr>o_holder_head := a, o_refcount := b\<rparr>))"

lemma holder_onlyI:
  "s' = s\<lparr>cap_holders := N, cap_holder_free_head := f, cap_objects := obs\<rparr> \<Longrightarrow>
   (\<And>i. \<exists>a b. obs i = (cap_objects s i)\<lparr>o_holder_head := a, o_refcount := b\<rparr>) \<Longrightarrow> holder_only s s'"
  unfolding holder_only_def by blast

lemma holder_only_trans:
  assumes "holder_only s s'" and "holder_only s' s''"
  shows "holder_only s s''"
proof -
  obtain N f obs where 1: "s' = s\<lparr>cap_holders := N, cap_holder_free_head := f, cap_objects := obs\<rparr>"
    "\<forall>i. \<exists>a b. obs i = (cap_objects s i)\<lparr>o_holder_head := a, o_refcount := b\<rparr>"
    using assms(1) unfolding holder_only_def by blast
  obtain N' f' obs' where 2: "s'' = s'\<lparr>cap_holders := N', cap_holder_free_head := f', cap_objects := obs'\<rparr>"
    "\<forall>i. \<exists>a b. obs' i = (cap_objects s' i)\<lparr>o_holder_head := a, o_refcount := b\<rparr>"
    using assms(2) unfolding holder_only_def by blast
  show ?thesis
  proof (rule holder_onlyI)
    show "s'' = s\<lparr>cap_holders := N', cap_holder_free_head := f', cap_objects := obs'\<rparr>"
      by (simp add: 1(1) 2(1))
    fix i
    obtain a b where "obs i = (cap_objects s i)\<lparr>o_holder_head := a, o_refcount := b\<rparr>"
      using 1(2) by blast
    moreover obtain c d where "obs' i = (cap_objects s' i)\<lparr>o_holder_head := c, o_refcount := d\<rparr>"
      using 2(2) by blast
    ultimately have "obs' i = (cap_objects s i)\<lparr>o_holder_head := c, o_refcount := d\<rparr>"
      by (simp add: 1(1))
    then show "\<exists>a b. obs' i = (cap_objects s i)\<lparr>o_holder_head := a, o_refcount := b\<rparr>"
      by blast
  qed
qed

lemma holder_only_tables:
  assumes "holder_only s s'"
  shows "cap_tables s' = cap_tables s" and "cap_table_pid s' = cap_table_pid s"
    and "cap_obj_next s' = cap_obj_next s" and "cap_channels s' = cap_channels s"
    and "cap_chan_next s' = cap_chan_next s" and "cap_chan_recycled s' = cap_chan_recycled s"
    and "cap_chan_recycled_n s' = cap_chan_recycled_n s" and "cap_arena s' = cap_arena s"
    and "cap_payload s' = cap_payload s" and "g_irq_chan s' = g_irq_chan s"
    and "g_irq_budget s' = g_irq_budget s" and "g_irq_pending s' = g_irq_pending s"
    and "hook_log s' = hook_log s"
  using assms by (auto simp: holder_only_def)

lemma holder_only_objects:
  assumes "holder_only s s'"
  shows "o_id (cap_objects s' i) = o_id (cap_objects s i)"
    and "o_kind (cap_objects s' i) = o_kind (cap_objects s i)"
    and "o_revoking (cap_objects s' i) = o_revoking (cap_objects s i)"
    and "o_active (cap_objects s' i) = o_active (cap_objects s i)"
    and "o_max_perms (cap_objects s' i) = o_max_perms (cap_objects s i)"
    and "o_phys_base (cap_objects s' i) = o_phys_base (cap_objects s i)"
    and "o_npages (cap_objects s' i) = o_npages (cap_objects s i)"
    and "o_chan_id (cap_objects s' i) = o_chan_id (cap_objects s i)"
proof -
  obtain N f obs where s': "s' = s\<lparr>cap_holders := N, cap_holder_free_head := f, cap_objects := obs\<rparr>"
    and "\<forall>i. \<exists>a b. obs i = (cap_objects s i)\<lparr>o_holder_head := a, o_refcount := b\<rparr>"
    using assms unfolding holder_only_def by blast
  then obtain a b where "obs i = (cap_objects s i)\<lparr>o_holder_head := a, o_refcount := b\<rparr>"
    by blast
  with s' have "cap_objects s' i = (cap_objects s i)\<lparr>o_holder_head := a, o_refcount := b\<rparr>"
    by simp
  then show "o_id (cap_objects s' i) = o_id (cap_objects s i)"
    "o_kind (cap_objects s' i) = o_kind (cap_objects s i)"
    "o_revoking (cap_objects s' i) = o_revoking (cap_objects s i)"
    "o_active (cap_objects s' i) = o_active (cap_objects s i)"
    "o_max_perms (cap_objects s' i) = o_max_perms (cap_objects s i)"
    "o_phys_base (cap_objects s' i) = o_phys_base (cap_objects s i)"
    "o_npages (cap_objects s' i) = o_npages (cap_objects s i)"
    "o_chan_id (cap_objects s' i) = o_chan_id (cap_objects s i)"
    by simp_all
qed

lemma record_same: "\<exists>a b. (r::CapObject) = r\<lparr>o_holder_head := a, o_refcount := b\<rparr>"
  by (rule exI [of _ "o_holder_head r"], rule exI [of _ "o_refcount r"]) simp

lemma holder_only_refl: "holder_only s s"
  by (rule holder_onlyI [where obs = "cap_objects s" and N = "cap_holders s" and f = "cap_holder_free_head s"])
    (simp_all add: record_same)

lemma cap_holder_free_only: "holder_only s (cap_holder_free h s)"
  by (rule holder_onlyI [where obs = "cap_objects s"]) (simp_all add: cap_holder_free_def upd_holder_def record_same)

lemma cap_holder_alloc_only: "cap_holder_alloc obj k p r q s = Some (h, s') \<Longrightarrow> holder_only s s'"
  by (rule holder_onlyI [where obs = "cap_objects s" and N = "cap_holders s'" and f = "cap_holder_free_head s'"])
    (auto simp: cap_holder_alloc_def holder_pop_def upd_holder_def Let_def record_same split: if_splits)

lemma upd_object_only:
  assumes "\<And>x. \<exists>a b. f x = x\<lparr>o_holder_head := a, o_refcount := b\<rparr>"
  shows "holder_only s (upd_object ob f s)"
proof (rule holder_onlyI)
  show "upd_object ob f s = s\<lparr>cap_holders := cap_holders s, cap_holder_free_head := cap_holder_free_head s,
      cap_objects := (cap_objects s)(ob := f (cap_objects s ob))\<rparr>"
    by (simp add: upd_object_def)
  show "\<exists>a b. ((cap_objects s)(ob := f (cap_objects s ob))) i = (cap_objects s i)\<lparr>o_holder_head := a, o_refcount := b\<rparr>" for i
    by (cases "i = ob") (simp_all add: assms record_same)
qed

lemma upd_holder_only: "holder_only s (upd_holder h f s)"
  by (rule holder_onlyI [where obs = "cap_objects s" and f = "cap_holder_free_head s"])
    (simp_all add: upd_holder_def record_same)

lemma set_head_same: "\<exists>a b. (r::CapObject)\<lparr>o_holder_head := x\<rparr> = r\<lparr>o_holder_head := a, o_refcount := b\<rparr>"
  by (rule exI [of _ x], rule exI [of _ "o_refcount r"]) simp

lemma set_count_same: "\<exists>a b. (r::CapObject)\<lparr>o_refcount := x\<rparr> = r\<lparr>o_holder_head := a, o_refcount := b\<rparr>"
  by (rule exI [of _ "o_holder_head r"], rule exI [of _ x]) simp

lemma cap_holder_link_only: "holder_only s (cap_holder_link h ob s)"
  unfolding cap_holder_link_def Let_def
  by (auto intro!: holder_only_trans [OF _ upd_object_only] holder_only_trans [OF _ upd_holder_only] upd_holder_only)

lemma holder_unlink_only: "holder_only s (holder_unlink ob h s)"
  unfolding holder_unlink_def Let_def
  by (auto intro!: holder_only_trans [OF _ upd_holder_only] upd_holder_only upd_object_only simp: set_head_same)

lemma cap_holder_insert_only: "cap_holder_insert obj k p r q s = Some s' \<Longrightarrow> holder_only s s'"
  by (auto simp: cap_holder_insert_def split: option.splits
      intro: holder_only_trans [OF cap_holder_alloc_only cap_holder_link_only])

lemma cap_holder_remove_only: "holder_only s (cap_holder_remove ob k p r s)"
proof (cases "holder_find CAP_HOLDER_MAX k p r (cap_holders s) (o_holder_head (cap_objects s ob))")
  case None
  then show ?thesis
    by (simp add: cap_holder_remove_def holder_only_refl)
next
  case (Some h)
  have "holder_only s (cap_holder_free h (holder_unlink ob h s))"
    by (rule holder_only_trans [OF holder_unlink_only cap_holder_free_only])
  then show ?thesis
    using holder_only_trans [OF _ upd_object_only [OF set_count_same]] Some
    by (simp add: cap_holder_remove_def)
qed

lemmas holder_only_ops = cap_holder_free_only cap_holder_link_only cap_holder_remove_only

end
