(* ===== verification/Cap_Arena.thy ===== *)
theory Cap_Arena
  imports Cap_Refs
begin

text \<open>
  The shared-memory arena of \<^verbatim>\<open>kernel/cap.c\<close>: a bitmap and an owner per 4 KiB frame, the
  first-fit search for a run of free frames, and the release of everything an object owns
  when its last reference goes. The lemmas give the bitmap its set reading, show that the
  search finds the lowest run and misses none, and that allocation and release keep the
  free counter equal to the number of clear bits.
\<close>

section \<open>Frames\<close>

definition cap_arena_init :: "cap_env \<Rightarrow> CapArena \<Rightarrow> CapArena" where
  "cap_arena_init e a =
     (let a1 = a\<lparr>ar_base := e_arena_carve e\<rparr>
      in if ar_base a1 = 0 then a1 else a1\<lparr>ar_free_count := of_nat CAP_ARENA_FRAMES\<rparr>)"

definition cap_arena_frame_free :: "nat \<Rightarrow> CapArena \<Rightarrow> bool" where
  "cap_arena_frame_free f a \<longleftrightarrow> ar_bitmap a (f div 8) AND push_bit (f mod 8) 1 = 0"

definition cap_frame_in_arena :: "64 word \<Rightarrow> CapArena \<Rightarrow> bool" where
  "cap_frame_in_arena paddr a \<longleftrightarrow>
     ar_base a \<noteq> 0 \<and> paddr \<ge> ar_base a \<and> paddr < ar_base a + CAP_ARENA_SIZE"

definition cap_arena_frame_mark :: "nat \<Rightarrow> nat \<Rightarrow> CapArena \<Rightarrow> CapArena" where
  "cap_arena_frame_mark f owner a =
     a\<lparr>ar_bitmap := (ar_bitmap a)(f div 8 := ar_bitmap a (f div 8) OR push_bit (f mod 8) 1),
       ar_owner := (ar_owner a)(f := owner)\<rparr>"

definition cap_arena_frame_clear :: "nat \<Rightarrow> CapArena \<Rightarrow> CapArena" where
  "cap_arena_frame_clear f a =
     a\<lparr>ar_bitmap := (ar_bitmap a)(f div 8 := ar_bitmap a (f div 8) AND NOT (push_bit (f mod 8) 1)),
       ar_owner := (ar_owner a)(f := 0),
       ar_free_count := ar_free_count a + 1\<rparr>"

definition cap_arena_alloc_run :: "nat \<Rightarrow> nat \<Rightarrow> CapArena \<Rightarrow> (nat \<times> CapArena) option" where
  "cap_arena_alloc_run npages owner a =
     (if npages = 0 \<or> npages > CAP_ARENA_FRAMES then None
      else case List.find (\<lambda>start. list_all (\<lambda>i. cap_arena_frame_free (start + i) a) [0..<npages])
                  [0..<Suc CAP_ARENA_FRAMES - npages] of
        None \<Rightarrow> None
      | Some start \<Rightarrow>
          Some (start, (foldl (\<lambda>a i. cap_arena_frame_mark (start + i) owner a) a [0..<npages])
                 \<lparr>ar_free_count := ar_free_count a - of_nat npages\<rparr>))"

section \<open>Release of an object's resources\<close>

definition arena_free_owned :: "nat \<Rightarrow> CapArena \<Rightarrow> CapArena \<times> nat" where
  "arena_free_owned obj_id a =
     foldl (\<lambda>(a, freed) f. if ar_owner a f = obj_id then (cap_arena_frame_clear f a, freed + 1) else (a, freed))
       (a, 0) [0..<CAP_ARENA_FRAMES]"

definition cap_object_free_resources :: "nat \<Rightarrow> cap_state \<Rightarrow> cap_state \<times> nat" where
  "cap_object_free_resources obj_id s =
     (let ob = cap_objects s obj_id
      in if o_kind ob = KIND_MEM
         then (let (a, freed) = arena_free_owned obj_id (cap_arena s) in (s\<lparr>cap_arena := a\<rparr>, freed))
         else if o_kind ob = KIND_CHAN \<and> o_chan_id ob < CAP_CHAN_MAX
         then (upd_channel (o_chan_id ob) (\<lambda>ch. ch\<lparr>c_active := False\<rparr>) s, 0)
         else (s, 0))"

section \<open>The set of free frames\<close>

definition free_frames :: "CapArena \<Rightarrow> nat set" where
  "free_frames a = {f. f < CAP_ARENA_FRAMES \<and> cap_arena_frame_free f a}"

definition owned_frames :: "nat \<Rightarrow> CapArena \<Rightarrow> nat set" where
  "owned_frames ob a = {f. f < CAP_ARENA_FRAMES \<and> ar_owner a f = ob}"

lemma finite_frames [simp]: "finite (free_frames a)" "finite (owned_frames ob a)"
  by (simp_all add: free_frames_def owned_frames_def)

lemma frame_free_bit: "cap_arena_frame_free f a \<longleftrightarrow> \<not> bit (ar_bitmap a (f div 8)) (f mod 8)"
proof -
  have "f mod 8 < LENGTH(8)"
    by simp
  then show ?thesis
    by (simp add: cap_arena_frame_free_def and_exp_eq_0_iff_not_bit push_bit_of_1)
qed

lemma frame_split: "f = g \<longleftrightarrow> f div 8 = g div 8 \<and> f mod 8 = g mod 8" for f g :: nat
  by (metis div_mult_mod_eq)

lemma frame_free_mark [simp]:
  "cap_arena_frame_free f (cap_arena_frame_mark g ow a) \<longleftrightarrow> f \<noteq> g \<and> cap_arena_frame_free f a"
proof -
  have "f mod 8 < LENGTH(8)" "g mod 8 < LENGTH(8)"
    by simp_all
  then show ?thesis
    using frame_split [of f g] by (auto simp: frame_free_bit cap_arena_frame_mark_def bit_simps)
qed

lemma frame_free_clear [simp]:
  "cap_arena_frame_free f (cap_arena_frame_clear g a) \<longleftrightarrow> f = g \<or> cap_arena_frame_free f a"
proof -
  have "f mod 8 < LENGTH(8)" "g mod 8 < LENGTH(8)"
    by simp_all
  then show ?thesis
    using frame_split [of f g] by (auto simp: frame_free_bit cap_arena_frame_clear_def bit_simps)
qed

lemma mark_clear_fields [simp]:
  "ar_owner (cap_arena_frame_mark f ow a) = (ar_owner a)(f := ow)"
  "ar_base (cap_arena_frame_mark f ow a) = ar_base a"
  "ar_free_count (cap_arena_frame_mark f ow a) = ar_free_count a"
  "ar_owner (cap_arena_frame_clear f a) = (ar_owner a)(f := 0)"
  "ar_base (cap_arena_frame_clear f a) = ar_base a"
  "ar_free_count (cap_arena_frame_clear f a) = ar_free_count a + 1"
  by (simp_all add: cap_arena_frame_mark_def cap_arena_frame_clear_def)

lemma frame_free_count [simp]:
  "cap_arena_frame_free f (a\<lparr>ar_free_count := c\<rparr>) \<longleftrightarrow> cap_arena_frame_free f a"
  by (simp add: cap_arena_frame_free_def)

section \<open>Marking and clearing a run\<close>

lemma mark_run:
  fixes start n ow :: nat and a :: CapArena
  defines "a' \<equiv> foldl (\<lambda>a i. cap_arena_frame_mark (start + i) ow a) a [0..<n]"
  shows "cap_arena_frame_free f a' \<longleftrightarrow> f \<notin> {start..<start + n} \<and> cap_arena_frame_free f a"
    and "ar_owner a' f = (if f \<in> {start..<start + n} then ow else ar_owner a f)"
    and "ar_base a' = ar_base a" and "ar_free_count a' = ar_free_count a"
  unfolding a'_def by (induction n) auto

lemma all_shift: "(\<forall>i < n. Q (s + i)) \<longleftrightarrow> (\<forall>f \<in> {s..<s + n}. Q f)" for s :: nat
proof
  assume q: "\<forall>i < n. Q (s + i)"
  show "\<forall>f \<in> {s..<s + n}. Q f"
  proof
    fix f assume "f \<in> {s..<s + n}"
    then have "f - s < n" "s + (f - s) = f"
      by auto
    with q show "Q f"
      by metis
  qed
qed auto

lemma run_search:
  assumes "0 < n" and "n \<le> CAP_ARENA_FRAMES"
  shows "List.find (\<lambda>start. list_all (\<lambda>i. cap_arena_frame_free (start + i) a) [0..<n])
            [0..<Suc CAP_ARENA_FRAMES - n] = Some start \<longleftrightarrow>
         start + n \<le> CAP_ARENA_FRAMES \<and> {start..<start + n} \<subseteq> free_frames a \<and>
         (\<forall>s < start. \<not> {s..<s + n} \<subseteq> free_frames a)" (is "List.find ?p ?xs = _ \<longleftrightarrow> _")
proof -
  have p: "?p s \<longleftrightarrow> {s..<s + n} \<subseteq> free_frames a" if "s + n \<le> CAP_ARENA_FRAMES" for s
    using that all_shift [of n "\<lambda>f. cap_arena_frame_free f a" s]
    by (auto simp: list_all_iff free_frames_def)
  have "List.find ?p ?xs = Some start \<longleftrightarrow>
      start < Suc CAP_ARENA_FRAMES - n \<and> ?p start \<and> (\<forall>s < start. \<not> ?p s)"
    by (auto simp: find_Some_iff)
  also have "\<dots> \<longleftrightarrow> start + n \<le> CAP_ARENA_FRAMES \<and> {start..<start + n} \<subseteq> free_frames a \<and>
         (\<forall>s < start. \<not> {s..<s + n} \<subseteq> free_frames a)"
  proof (cases "start + n \<le> CAP_ARENA_FRAMES")
    case True
    then have "?p s \<longleftrightarrow> {s..<s + n} \<subseteq> free_frames a" if "s \<le> start" for s
      using p that by simp
    with True show ?thesis
      by (simp add: less_diff_conv)
  next
    case False
    with assms(2) show ?thesis
      by (simp add: less_diff_conv)
  qed
  finally show ?thesis .
qed

text \<open>The search loop finds the lowest run and fails only when there is none.\<close>

lemma alloc_run_None:
  "cap_arena_alloc_run n ow a = None \<longleftrightarrow>
     n = 0 \<or> (\<forall>s. s + n \<le> CAP_ARENA_FRAMES \<longrightarrow> \<not> {s..<s + n} \<subseteq> free_frames a)"
proof (cases "n = 0 \<or> n > CAP_ARENA_FRAMES")
  case True
  then show ?thesis
    by (auto simp: cap_arena_alloc_run_def)
next
  case False
  let ?f = "List.find (\<lambda>start. list_all (\<lambda>i. cap_arena_frame_free (start + i) a) [0..<n])
            [0..<Suc CAP_ARENA_FRAMES - n]"
  have *: "?f = Some s \<longleftrightarrow> s + n \<le> CAP_ARENA_FRAMES \<and> {s..<s + n} \<subseteq> free_frames a \<and>
         (\<forall>t < s. \<not> {t..<t + n} \<subseteq> free_frames a)" for s
    using run_search [of n a s] False by simp
  have "?f = None \<longleftrightarrow> (\<forall>s. s + n \<le> CAP_ARENA_FRAMES \<longrightarrow> \<not> {s..<s + n} \<subseteq> free_frames a)"
  proof
    assume none: "?f = None"
    show "\<forall>s. s + n \<le> CAP_ARENA_FRAMES \<longrightarrow> \<not> {s..<s + n} \<subseteq> free_frames a"
    proof (intro allI impI)
      fix s
      show "s + n \<le> CAP_ARENA_FRAMES \<Longrightarrow> \<not> {s..<s + n} \<subseteq> free_frames a"
      proof (induction s rule: less_induct)
        case (less s)
        then show ?case
          using * [of s] none by auto
      qed
    qed
  next
    assume "\<forall>s. s + n \<le> CAP_ARENA_FRAMES \<longrightarrow> \<not> {s..<s + n} \<subseteq> free_frames a"
    then show "?f = None"
      using * by (cases ?f) auto
  qed
  with False show ?thesis
    by (auto simp: cap_arena_alloc_run_def split: option.splits)
qed

lemma alloc_run_Some:
  assumes "cap_arena_alloc_run n ow a = Some (start, a')"
  shows "0 < n" and "start + n \<le> CAP_ARENA_FRAMES" and "{start..<start + n} \<subseteq> free_frames a"
    and "\<And>s. s < start \<Longrightarrow> \<not> {s..<s + n} \<subseteq> free_frames a"
    and "free_frames a' = free_frames a - {start..<start + n}"
    and "ar_owner a' f = (if f \<in> {start..<start + n} then ow else ar_owner a f)"
    and "ar_base a' = ar_base a" and "ar_free_count a' = ar_free_count a - of_nat n"
proof -
  have n: "0 < n" "n \<le> CAP_ARENA_FRAMES" and
    fnd: "List.find (\<lambda>start. list_all (\<lambda>i. cap_arena_frame_free (start + i) a) [0..<n])
            [0..<Suc CAP_ARENA_FRAMES - n] = Some start" and
    a': "a' = (foldl (\<lambda>a i. cap_arena_frame_mark (start + i) ow a) a [0..<n])
                 \<lparr>ar_free_count := ar_free_count a - of_nat n\<rparr>"
    using assms by (auto simp: cap_arena_alloc_run_def split: if_splits option.splits)
  show "0 < n" by (rule n)
  show "start + n \<le> CAP_ARENA_FRAMES" "{start..<start + n} \<subseteq> free_frames a"
    "\<And>s. s < start \<Longrightarrow> \<not> {s..<s + n} \<subseteq> free_frames a"
    using fnd unfolding run_search [OF n] by auto
  show "free_frames a' = free_frames a - {start..<start + n}"
    by (auto simp: free_frames_def a' mark_run)
  show "ar_owner a' f = (if f \<in> {start..<start + n} then ow else ar_owner a f)" "ar_base a' = ar_base a"
    "ar_free_count a' = ar_free_count a - of_nat n"
    by (simp_all add: a' mark_run)
qed

definition free_owned_step :: "nat \<Rightarrow> CapArena \<times> nat \<Rightarrow> nat \<Rightarrow> CapArena \<times> nat" where
  "free_owned_step ob = (\<lambda>(a, freed) f. if ar_owner a f = ob then (cap_arena_frame_clear f a, freed + 1) else (a, freed))"

lemma free_owned_upto:
  "(\<forall>f. cap_arena_frame_free f (fst (foldl (free_owned_step ob) (a, 0) [0..<n])) \<longleftrightarrow>
        (f < n \<and> ar_owner a f = ob) \<or> cap_arena_frame_free f a) \<and>
   (\<forall>f. ar_owner (fst (foldl (free_owned_step ob) (a, 0) [0..<n])) f =
        (if f < n \<and> ar_owner a f = ob then 0 else ar_owner a f)) \<and>
   ar_base (fst (foldl (free_owned_step ob) (a, 0) [0..<n])) = ar_base a \<and>
   ar_free_count (fst (foldl (free_owned_step ob) (a, 0) [0..<n])) =
     ar_free_count a + of_nat (snd (foldl (free_owned_step ob) (a, 0) [0..<n])) \<and>
   snd (foldl (free_owned_step ob) (a, 0) [0..<n]) = card {f. f < n \<and> ar_owner a f = ob}"
proof (induction n)
  case 0
  then show ?case by simp
next
  case (Suc n)
  let ?r = "foldl (free_owned_step ob) (a, 0) [0..<n]"
  have own: "ar_owner (fst ?r) n = ar_owner a n"
    using Suc by simp
  have step: "foldl (free_owned_step ob) (a, 0) [0..<Suc n] =
      (if ar_owner a n = ob then (cap_arena_frame_clear n (fst ?r), snd ?r + 1) else ?r)"
    using own by (simp add: free_owned_step_def case_prod_beta)
  have set: "{f. f < Suc n \<and> ar_owner a f = ob} =
      (if ar_owner a n = ob then insert n {f. f < n \<and> ar_owner a f = ob} else {f. f < n \<and> ar_owner a f = ob})"
    by (auto simp: less_Suc_eq)
  show ?case
    unfolding step set using Suc by (cases "ar_owner a n = ob") (auto simp: less_Suc_eq)
qed

lemma free_owned:
  assumes "arena_free_owned ob a = (a', freed)"
  shows "free_frames a' = free_frames a \<union> owned_frames ob a"
    and "ar_owner a' f = (if f \<in> owned_frames ob a then 0 else ar_owner a f)"
    and "ar_base a' = ar_base a" and "ar_free_count a' = ar_free_count a + of_nat freed"
    and "freed = card (owned_frames ob a)"
proof -
  have r: "foldl (free_owned_step ob) (a, 0) [0..<CAP_ARENA_FRAMES] = (a', freed)"
    using assms by (simp add: arena_free_owned_def free_owned_step_def)
  note u = free_owned_upto [of ob a CAP_ARENA_FRAMES, unfolded r fst_conv snd_conv]
  show "free_frames a' = free_frames a \<union> owned_frames ob a"
    using u by (auto simp: free_frames_def owned_frames_def)
  show "ar_owner a' f = (if f \<in> owned_frames ob a then 0 else ar_owner a f)" "ar_base a' = ar_base a"
    "ar_free_count a' = ar_free_count a + of_nat freed" "freed = card (owned_frames ob a)"
    using u by (simp_all add: owned_frames_def)
qed

section \<open>Consistency of the arena\<close>

text \<open>
  The free counter equals the number of clear bits, and a frame that is marked with an
  owner is not free. Object id 0 is also the owner value of a free frame.
\<close>

definition arena_wf :: "CapArena \<Rightarrow> bool" where
  "arena_wf a \<longleftrightarrow> unat (ar_free_count a) = card (free_frames a) \<and> (\<forall>f \<in> free_frames a. ar_owner a f = 0)"

lemma unat_of_nat_32: "n < 2 ^ 32 \<Longrightarrow> unat (of_nat n :: 32 word) = n"
  by (simp add: unsigned_of_nat take_bit_nat_eq_self)

lemma card_free_frames: "card (free_frames a) \<le> CAP_ARENA_FRAMES"
  using card_mono [of "{..<CAP_ARENA_FRAMES}" "free_frames a"] by (auto simp: free_frames_def)

lemma alloc_run_wf:
  assumes "arena_wf a" and "cap_arena_alloc_run n ow a = Some (start, a')"
  shows "arena_wf a'"
proof -
  note r = alloc_run_Some [OF assms(2)]
  have "card (free_frames a') = card (free_frames a) - n"
    using r(3) by (simp add: r(5) card_Diff_subset)
  moreover have le: "n \<le> card (free_frames a)"
    using card_mono [OF _ r(3)] by simp
  moreover have "unat (ar_free_count a') = card (free_frames a) - n"
  proof -
    have "n < 2 ^ 32"
      using le card_free_frames [of a] by (simp add: limits)
    then have "unat (of_nat n :: 32 word) = n"
      by (simp add: unat_of_nat_32)
    with assms(1) le show ?thesis
      by (simp add: r(8) arena_wf_def unat_sub word_le_nat_alt)
  qed
  ultimately show ?thesis
    using assms(1) r(5,6) by (auto simp: arena_wf_def)
qed

lemma free_owned_wf:
  assumes "arena_wf a" and "ob \<noteq> 0" and "arena_free_owned ob a = (a', freed)"
  shows "arena_wf a'"
proof -
  note r = free_owned [OF assms(3)]
  have disj: "free_frames a \<inter> owned_frames ob a = {}"
    using assms(1,2) by (auto simp: arena_wf_def owned_frames_def)
  then have c: "card (free_frames a') = card (free_frames a) + freed"
    by (simp add: r(1,5) card_Un_disjoint)
  have "unat (ar_free_count a') = card (free_frames a) + freed"
  proof -
    have "freed < 2 ^ 32" "card (free_frames a) + freed < 2 ^ 32"
      using c card_free_frames [of a'] by (simp_all add: limits)
    then show ?thesis
      using assms(1) by (simp add: r(4) arena_wf_def unat_word_ariths unat_of_nat_32)
  qed
  with c assms(1) show ?thesis
    using r(1,2) by (auto simp: arena_wf_def)
qed

end
