(* ===== verification/Cap_Payload.thy ===== *)
theory Cap_Payload
  imports Cap_Arena
begin

text \<open>
  The message payload staging pool of \<^verbatim>\<open>kernel/cap.c\<close>: 32 buffers on a free list whose
  head is changed by compare-and-swap. Run to completion, allocation and release implement
  the \<open>index_freelist\<close> interface. The second part models the loads, stores and
  compare-and-swaps as separate steps of several processors.
\<close>

section \<open>Sequential view\<close>

definition cap_msg_payload_init :: "PayloadPool \<Rightarrow> PayloadPool" where
  "cap_msg_payload_init p =
     p\<lparr>pp_free_head := 0,
       pp_next := (\<lambda>i. if i < CAP_MSG_PAYLOAD_POOL - 1 then u16 (i + 1)
                       else if i = CAP_MSG_PAYLOAD_POOL - 1 then CAP_FREELIST_END else pp_next p i)\<rparr>"

definition cap_msg_payload_alloc :: "PayloadPool \<Rightarrow> (nat \<times> PayloadPool) option" where
  "cap_msg_payload_alloc p =
     (if pp_free_head p = CAP_FREELIST_END then None
      else Some (pp_free_head p, p\<lparr>pp_free_head := pp_next p (pp_free_head p)\<rparr>))"

definition cap_msg_payload_free :: "nat \<Rightarrow> PayloadPool \<Rightarrow> PayloadPool" where
  "cap_msg_payload_free idx p =
     (if idx = CAP_NONE \<or> idx \<ge> CAP_MSG_PAYLOAD_POOL then p
      else p\<lparr>pp_next := (pp_next p)(idx := pp_free_head p), pp_free_head := idx\<rparr>)"

interpretation pf: index_freelist pp_free_head pp_next cap_msg_payload_alloc cap_msg_payload_free CAP_MSG_PAYLOAD_POOL
proof
  show "CAP_MSG_PAYLOAD_POOL \<le> CAP_FREELIST_END"
    by (simp add: limits)
qed (auto simp: cap_msg_payload_alloc_def cap_msg_payload_free_def limits)

lemma payload_init_freelist: "pf.freelist (cap_msg_payload_init p) [0..<CAP_MSG_PAYLOAD_POOL]"
proof -
  have "chain (pp_next (cap_msg_payload_init p)) 0 [0..<CAP_MSG_PAYLOAD_POOL]"
    by (rule chain_upt) (auto simp: cap_msg_payload_init_def limits)
  then show ?thesis
    by (simp add: pf.freelist_def cap_msg_payload_init_def) auto
qed

lemma payload_data [simp]:
  "pp_data (cap_msg_payload_free idx p) = pp_data p"
  "cap_msg_payload_alloc p = Some (i, p') \<Longrightarrow> pp_data p' = pp_data p"
  by (auto simp: cap_msg_payload_free_def cap_msg_payload_alloc_def split: if_splits)

section \<open>Several processors\<close>

text \<open>
  The program counter of one processor inside \<^verbatim>\<open>cap_msg_payload_alloc\<close> (top of the loop;
  head loaded; head and next loaded) or \<^verbatim>\<open>cap_msg_payload_free\<close> (head loaded; link of the buffer stored). A
  failed compare-and-swap reloads the head and retries.
\<close>

datatype ppc =
    PIdle
  | AStart
  | ALoaded nat
  | ANext nat nat
  | FLoaded nat nat
  | FLinked nat nat

record pool_cfg =
  pc_pool :: PayloadPool
  pc_at :: "nat \<Rightarrow> ppc"
  pc_held :: "nat \<Rightarrow> nat list"

inductive pstep :: "pool_cfg \<Rightarrow> pool_cfg \<Rightarrow> bool" where
  alloc_call:
    "pc_at c i = PIdle \<Longrightarrow> pstep c (c\<lparr>pc_at := (pc_at c)(i := AStart)\<rparr>)"
| alloc_empty:
    "pc_at c i = AStart \<Longrightarrow> pp_free_head (pc_pool c) = CAP_FREELIST_END \<Longrightarrow>
     pstep c (c\<lparr>pc_at := (pc_at c)(i := PIdle)\<rparr>)"
| alloc_load:
    "pc_at c i = AStart \<Longrightarrow> pp_free_head (pc_pool c) \<noteq> CAP_FREELIST_END \<Longrightarrow>
     pstep c (c\<lparr>pc_at := (pc_at c)(i := ALoaded (pp_free_head (pc_pool c)))\<rparr>)"
| alloc_next:
    "pc_at c i = ALoaded h \<Longrightarrow>
     pstep c (c\<lparr>pc_at := (pc_at c)(i := ANext h (pp_next (pc_pool c) h))\<rparr>)"
| alloc_cas:
    "pc_at c i = ANext h n \<Longrightarrow> pp_free_head (pc_pool c) = h \<Longrightarrow>
     pstep c (c\<lparr>pc_pool := (pc_pool c)\<lparr>pp_free_head := n\<rparr>, pc_at := (pc_at c)(i := PIdle),
                pc_held := (pc_held c)(i := h # pc_held c i)\<rparr>)"
| alloc_retry:
    "pc_at c i = ANext h n \<Longrightarrow> pp_free_head (pc_pool c) \<noteq> h \<Longrightarrow>
     pstep c (c\<lparr>pc_at := (pc_at c)(i := AStart)\<rparr>)"
| free_load:
    "pc_at c i = PIdle \<Longrightarrow> x \<in> set (pc_held c i) \<Longrightarrow>
     pstep c (c\<lparr>pc_at := (pc_at c)(i := FLoaded x (pp_free_head (pc_pool c))),
                pc_held := (pc_held c)(i := remove1 x (pc_held c i))\<rparr>)"
| free_link:
    "pc_at c i = FLoaded x h \<Longrightarrow>
     pstep c (c\<lparr>pc_pool := (pc_pool c)\<lparr>pp_next := (pp_next (pc_pool c))(x := h)\<rparr>,
                pc_at := (pc_at c)(i := FLinked x h)\<rparr>)"
| free_cas:
    "pc_at c i = FLinked x h \<Longrightarrow> pp_free_head (pc_pool c) = h \<Longrightarrow>
     pstep c (c\<lparr>pc_pool := (pc_pool c)\<lparr>pp_free_head := x\<rparr>, pc_at := (pc_at c)(i := PIdle)\<rparr>)"
| free_retry:
    "pc_at c i = FLinked x h \<Longrightarrow> pp_free_head (pc_pool c) \<noteq> h \<Longrightarrow>
     pstep c (c\<lparr>pc_at := (pc_at c)(i := FLoaded x (pp_free_head (pc_pool c)))\<rparr>)"

definition pool_start :: "PayloadPool \<Rightarrow> pool_cfg" where
  "pool_start p = \<lparr>pc_pool = cap_msg_payload_init p, pc_at = (\<lambda>_. PIdle), pc_held = (\<lambda>_. [])\<rparr>"

text \<open>
  Steps of processors that only allocate. The relation is the restriction of \<open>pstep\<close> to
  configurations where no processor is inside or about to enter the release path.
\<close>

definition allocating :: "pool_cfg \<Rightarrow> bool" where
  "allocating c \<longleftrightarrow> (\<forall>i x h. pc_at c i \<noteq> FLoaded x h \<and> pc_at c i \<noteq> FLinked x h)"

definition astep :: "pool_cfg \<Rightarrow> pool_cfg \<Rightarrow> bool" where
  "astep c c' \<longleftrightarrow> pstep c c' \<and> allocating c \<and> allocating c'"

inductive_cases pstepE: "pstep c c'"

text \<open>
  Invariant of concurrent allocation: the free list is a chain, links never change, what a
  processor has read is a current link, and the buffers handed out are distinct and off
  the free list.
\<close>

definition alloc_inv :: "(nat \<Rightarrow> nat) \<Rightarrow> pool_cfg \<Rightarrow> bool" where
  "alloc_inv nx c \<longleftrightarrow>
     pp_next (pc_pool c) = nx \<and>
     (\<exists>xs. chain nx (pp_free_head (pc_pool c)) xs \<and>
        (\<forall>i. set (pc_held c i) \<inter> set xs = {})) \<and>
     (\<forall>i h n. pc_at c i = ANext h n \<longrightarrow> n = nx h) \<and>
     (\<forall>i h n. pc_at c i = ANext h n \<or> pc_at c i = ALoaded h \<longrightarrow> h \<noteq> CAP_FREELIST_END) \<and>
     (\<forall>i. distinct (pc_held c i)) \<and>
     (\<forall>i j. i \<noteq> j \<longrightarrow> set (pc_held c i) \<inter> set (pc_held c j) = {})"

lemma alloc_inv_cas:
  assumes inv: "alloc_inv nx c" and pc: "pc_at c i = ANext h n" and hd: "pp_free_head (pc_pool c) = h"
  shows "alloc_inv nx (c\<lparr>pc_pool := (pc_pool c)\<lparr>pp_free_head := n\<rparr>, pc_at := (pc_at c)(i := PIdle),
                pc_held := (pc_held c)(i := h # pc_held c i)\<rparr>)"
proof -
  have n: "n = nx h" and h: "h \<noteq> CAP_FREELIST_END"
    using inv pc unfolding alloc_inv_def by blast+
  obtain xs where ch: "chain nx h xs" and off: "\<And>j. set (pc_held c j) \<inter> set xs = {}"
    using inv hd by (auto simp: alloc_inv_def)
  obtain ys where xs: "xs = h # ys"
    using ch h by (cases xs) auto
  have "h \<notin> set ys" "chain nx n ys"
    using chain_distinct [OF ch] ch by (auto simp: xs n)
  moreover have "h \<notin> set (pc_held c j)" for j
    using off [of j] xs by auto
  ultimately show ?thesis
    using inv off xs unfolding alloc_inv_def
    by (intro conjI exI [of _ ys]) (auto split: if_splits)
qed

lemma alloc_inv_step:
  assumes "astep c c'" and inv: "alloc_inv nx c"
  shows "alloc_inv nx c'"
proof -
  have "pstep c c'" and a: "allocating c" "allocating c'"
    using assms(1) by (auto simp: astep_def)
  from this(1) show ?thesis
  proof (cases rule: pstep.cases)
    case (alloc_cas i h n)
    then show ?thesis
      using alloc_inv_cas [OF inv] by simp
  next
    case (free_load i x)
    then show ?thesis
      using a(2) by (auto simp: allocating_def split: if_splits)
  next
    case (free_link i x h)
    then show ?thesis
      using a(1) by (auto simp: allocating_def)
  next
    case (free_cas i x h)
    then show ?thesis
      using a(1) by (auto simp: allocating_def)
  next
    case (free_retry i x h)
    then show ?thesis
      using a(1) by (auto simp: allocating_def)
  next
    case (alloc_call i)
    then show ?thesis
      using inv by (auto simp: alloc_inv_def)
  next
    case (alloc_empty i)
    then show ?thesis
      using inv by (auto simp: alloc_inv_def)
  next
    case (alloc_load i)
    then show ?thesis
      using inv by (auto simp: alloc_inv_def)
  next
    case (alloc_next i h)
    then show ?thesis
      using inv by (auto simp: alloc_inv_def)
  next
    case (alloc_retry i h n)
    then show ?thesis
      using inv by (auto simp: alloc_inv_def)
  qed
qed

lemma alloc_inv_start: "alloc_inv (pp_next (cap_msg_payload_init p)) (pool_start p)"
  using payload_init_freelist [of p] by (auto simp: alloc_inv_def pool_start_def pf.freelist_def)

lemma alloc_inv_reach: "astep\<^sup>*\<^sup>* (pool_start p) c \<Longrightarrow> alloc_inv (pp_next (cap_msg_payload_init p)) c"
  by (induction rule: rtranclp_induct) (auto simp: alloc_inv_start intro: alloc_inv_step)

section \<open>Schedules\<close>

text \<open>
  Executable schedules: \<open>Go i\<close> lets processor \<open>i\<close> take its next step, entering the
  allocation when it is idle, and \<open>Release i x\<close> lets it enter the release of \<open>x\<close>.
\<close>

datatype pact = Go nat | Release nat nat

fun pool_exec :: "pool_cfg \<Rightarrow> pact \<Rightarrow> pool_cfg option" where
  "pool_exec c (Release i x) =
     (if pc_at c i = PIdle \<and> x \<in> set (pc_held c i)
      then Some (c\<lparr>pc_at := (pc_at c)(i := FLoaded x (pp_free_head (pc_pool c))),
                   pc_held := (pc_held c)(i := remove1 x (pc_held c i))\<rparr>)
      else None)"
| "pool_exec c (Go i) =
     (case pc_at c i of
        PIdle \<Rightarrow> Some (c\<lparr>pc_at := (pc_at c)(i := AStart)\<rparr>)
      | AStart \<Rightarrow>
          if pp_free_head (pc_pool c) = CAP_FREELIST_END
          then Some (c\<lparr>pc_at := (pc_at c)(i := PIdle)\<rparr>)
          else Some (c\<lparr>pc_at := (pc_at c)(i := ALoaded (pp_free_head (pc_pool c)))\<rparr>)
      | ALoaded h \<Rightarrow> Some (c\<lparr>pc_at := (pc_at c)(i := ANext h (pp_next (pc_pool c) h))\<rparr>)
      | ANext h n \<Rightarrow>
          if pp_free_head (pc_pool c) = h
          then Some (c\<lparr>pc_pool := (pc_pool c)\<lparr>pp_free_head := n\<rparr>, pc_at := (pc_at c)(i := PIdle),
                       pc_held := (pc_held c)(i := h # pc_held c i)\<rparr>)
          else Some (c\<lparr>pc_at := (pc_at c)(i := AStart)\<rparr>)
      | FLoaded x h \<Rightarrow> Some (c\<lparr>pc_pool := (pc_pool c)\<lparr>pp_next := (pp_next (pc_pool c))(x := h)\<rparr>,
                                 pc_at := (pc_at c)(i := FLinked x h)\<rparr>)
      | FLinked x h \<Rightarrow>
          if pp_free_head (pc_pool c) = h
          then Some (c\<lparr>pc_pool := (pc_pool c)\<lparr>pp_free_head := x\<rparr>, pc_at := (pc_at c)(i := PIdle)\<rparr>)
          else Some (c\<lparr>pc_at := (pc_at c)(i := FLoaded x (pp_free_head (pc_pool c)))\<rparr>))"

fun pool_run :: "pool_cfg \<Rightarrow> pact list \<Rightarrow> pool_cfg option" where
  "pool_run c [] = Some c"
| "pool_run c (a # as) = (case pool_exec c a of None \<Rightarrow> None | Some c' \<Rightarrow> pool_run c' as)"

lemma pool_exec_step: "pool_exec c a = Some c' \<Longrightarrow> pstep c c'"
  by (cases a) (auto split: ppc.splits if_splits intro: pstep.intros)

lemma pool_run_reach: "pool_run c as = Some c' \<Longrightarrow> pstep\<^sup>*\<^sup>* c c'"
  by (induction as arbitrary: c)
    (auto split: option.splits dest: pool_exec_step intro: converse_rtranclp_into_rtranclp)

text \<open>
  Processor 0 reads head 0 and its link 1 and is overtaken by processor 1, which takes 0
  and 1 and gives 0 back. The swap of processor 0 succeeds, because the head is 0 again,
  and installs the stale link 1 while processor 1 still holds buffer 1.
\<close>

definition aba_schedule :: "pact list" where
  "aba_schedule =
     [Go 0, Go 0, Go 0, Go 1, Go 1, Go 1, Go 1, Go 1, Go 1, Go 1, Go 1, Release 1 0, Go 1, Go 1,
      Go 0, Go 0, Go 0, Go 0, Go 0]"

lemma aba_run:
  "map_option (\<lambda>c. (pc_held c 0, pc_held c 1)) (pool_run (pool_start p) aba_schedule) = Some ([1, 0], [1])"
  by (simp add: aba_schedule_def pool_start_def cap_msg_payload_init_def limits)

text \<open>Schedules without a release stay inside the allocation path.\<close>

fun is_Go :: "pact \<Rightarrow> bool" where
  "is_Go (Go i) = True"
| "is_Go (Release i x) = False"

lemma go_exec_step: "pool_exec c a = Some c' \<Longrightarrow> is_Go a \<Longrightarrow> allocating c \<Longrightarrow> allocating c'"
  by (cases a) (auto simp: allocating_def split: ppc.splits if_splits)

lemma go_run_reach:
  "list_all is_Go as \<Longrightarrow> allocating c \<Longrightarrow> pool_run c as = Some c' \<Longrightarrow> astep\<^sup>*\<^sup>* c c'"
proof (induction as arbitrary: c)
  case (Cons a as)
  then obtain c1 where ex: "pool_exec c a = Some c1" and run: "pool_run c1 as = Some c'"
    by (auto split: option.splits)
  have "allocating c1"
    using go_exec_step [OF ex] Cons.prems by simp
  with Cons ex run show ?case
    by (auto simp: astep_def intro: pool_exec_step converse_rtranclp_into_rtranclp)
qed simp

text \<open>Two processors read the same head; the one that loses the swap retries.\<close>

definition empty_pool :: PayloadPool where
  "empty_pool = \<lparr>pp_data = (\<lambda>_ _. 0), pp_next = (\<lambda>_. 0), pp_free_head = CAP_FREELIST_END\<rparr>"

definition race_schedule :: "pact list" where
  "race_schedule = [Go 0, Go 1, Go 0, Go 1, Go 0, Go 1, Go 1, Go 0, Go 0, Go 0, Go 0]"

lemma race_run:
  "map_option (\<lambda>c. (pc_held c 0, pc_held c 1)) (pool_run (pool_start p) race_schedule) = Some ([1], [0])"
  by (simp add: race_schedule_def pool_start_def cap_msg_payload_init_def limits)

section \<open>Properties\<close>

text \<open>
  C12. However the steps of several allocating processors interleave, no payload buffer is
  handed out twice: the buffers one processor holds are distinct and no two processors
  hold the same buffer.
\<close>

theorem payload_alloc_concurrent:
  assumes "astep\<^sup>*\<^sup>* (pool_start p) c"
  shows "distinct (pc_held c i) \<and> (i \<noteq> j \<longrightarrow> set (pc_held c i) \<inter> set (pc_held c j) = {})"
  using alloc_inv_reach [OF assms] by (auto simp: alloc_inv_def)

theorem payload_alloc_concurrent_witness:
  "\<exists>c. astep\<^sup>*\<^sup>* (pool_start empty_pool) c \<and> pc_held c 0 = [1] \<and> pc_held c 1 = [0] \<and>
       set (pc_held c 0) \<inter> set (pc_held c 1) = {}"
proof -
  obtain c where run: "pool_run (pool_start empty_pool) race_schedule = Some c"
    and held: "pc_held c 0 = [1]" "pc_held c 1 = [0]"
    using race_run [of empty_pool] by auto
  have "astep\<^sup>*\<^sup>* (pool_start empty_pool) c"
    using go_run_reach [OF _ _ run] by (simp add: race_schedule_def allocating_def pool_start_def)
  with payload_alloc_concurrent [of empty_pool c 0 1] held show ?thesis
    by auto
qed

text \<open>
  C25. Once a release runs concurrently with allocations the guarantee is lost: there is an
  interleaving of two processors after which both hold the same payload buffer.
\<close>

theorem payload_pool_aba:
  "\<exists>c. pstep\<^sup>*\<^sup>* (pool_start p) c \<and> 1 \<in> set (pc_held c 0) \<inter> set (pc_held c 1)"
proof -
  obtain c where run: "pool_run (pool_start p) aba_schedule = Some c"
    and held: "pc_held c 0 = [1, 0]" "pc_held c 1 = [1]"
    using aba_run [of p] by auto
  from pool_run_reach [OF run] held show ?thesis
    by auto
qed

end
