(* ===== verification/Cap_Space.thy ===== *)
theory Cap_Space
  imports Cap_Payload
begin

text \<open>
  The capability space: \<open>cap_at s p r\<close> is the capability that process \<open>p\<close> holds in slot
  \<open>r\<close>, if any. It hides which table a process is bound to and how free slots are
  threaded. The lemmas say what binding a table, and taking, filling and releasing a slot,
  do to the space, and that they keep the tables well formed.
\<close>

definition cap_at :: "cap_state \<Rightarrow> nat \<Rightarrow> nat \<Rightarrow> 64 word option" where
  "cap_at s p r =
     (case cap_table_find p s of
        None \<Rightarrow> None
      | Some ti \<Rightarrow>
          if r < CAP_TABLE_ENTRIES \<and> cap_word_type (slot_word s ti r) \<noteq> CAP_TYPE_NONE
          then Some (slot_word s ti r) else None)"

definition tabs_inv :: "cap_state \<Rightarrow> bool" where
  "tabs_inv s \<longleftrightarrow>
     cap_table_pid s 0 = 0 \<and>
     (\<forall>ti < CAP_TABLE_MAX. table_wf (cap_tables s ti) \<and> t_pid (cap_tables s ti) = cap_table_pid s ti \<and>
        cap_table_pid s ti < 65536) \<and>
     (\<forall>i < CAP_TABLE_MAX. \<forall>j < CAP_TABLE_MAX.
        cap_table_pid s i = cap_table_pid s j \<and> cap_table_pid s i \<noteq> 0 \<longrightarrow> i = j) \<and>
     (\<forall>ti. 0 < ti \<and> ti < CAP_TABLE_MAX \<and> cap_table_pid s ti = 0 \<longrightarrow>
        (\<forall>r < CAP_TABLE_ENTRIES. cap_word_type (slot_word s ti r) = CAP_TYPE_NONE))"

lemma tabs_invD:
  assumes "tabs_inv s"
  shows "cap_table_pid s 0 = 0"
    and "ti < CAP_TABLE_MAX \<Longrightarrow> table_wf (cap_tables s ti)"
    and "ti < CAP_TABLE_MAX \<Longrightarrow> t_pid (cap_tables s ti) = cap_table_pid s ti"
    and "ti < CAP_TABLE_MAX \<Longrightarrow> cap_table_pid s ti < 65536"
    and "i < CAP_TABLE_MAX \<Longrightarrow> j < CAP_TABLE_MAX \<Longrightarrow> cap_table_pid s i = cap_table_pid s j \<Longrightarrow>
      cap_table_pid s i \<noteq> 0 \<Longrightarrow> i = j"
    and "0 < ti \<Longrightarrow> ti < CAP_TABLE_MAX \<Longrightarrow> cap_table_pid s ti = 0 \<Longrightarrow> r < CAP_TABLE_ENTRIES \<Longrightarrow>
      cap_word_type (slot_word s ti r) = CAP_TYPE_NONE"
  using assms unfolding tabs_inv_def by blast+

lemma find_upt_unique:
  assumes "i < n" and "P i" and "\<And>j. j < n \<Longrightarrow> P j \<Longrightarrow> j = i"
  shows "List.find P [m..<n] = (if m \<le> i then Some i else None)"
proof (cases "List.find P [m..<n]")
  case None
  with assms(1,2) show ?thesis
    by (auto simp: find_None_iff)
next
  case (Some k)
  then obtain ys zs where "[m..<n] = ys @ k # zs" and k: "P k"
    by (blast dest: find_split)
  then have "k \<in> set [m..<n]"
    by simp
  with assms(3) [of k] Some k show ?thesis
    by auto
qed

text \<open>Which table a process is bound to.\<close>

lemma table_find_iff:
  assumes "tabs_inv s"
  shows "cap_table_find p s = Some ti \<longleftrightarrow>
     (if p = 0 then ti = 0 else ti < CAP_TABLE_MAX \<and> cap_table_pid s ti = p)"
proof (cases "p = 0")
  case True
  then show ?thesis
    by (auto simp: cap_table_find_def)
next
  case False
  show ?thesis
  proof
    assume "cap_table_find p s = Some ti"
    then show "if p = 0 then ti = 0 else ti < CAP_TABLE_MAX \<and> cap_table_pid s ti = p"
      using False by (auto simp: cap_table_find_def find_Some_iff)
  next
    assume "if p = 0 then ti = 0 else ti < CAP_TABLE_MAX \<and> cap_table_pid s ti = p"
    then have ti: "ti < CAP_TABLE_MAX" "cap_table_pid s ti = p"
      using False by auto
    have "List.find (\<lambda>i. cap_table_pid s i = p) [0..<CAP_TABLE_MAX] = (if 0 \<le> ti then Some ti else None)"
      using ti False tabs_invD(5) [OF assms] by (intro find_upt_unique) auto
    with False show "cap_table_find p s = Some ti"
      by (simp add: cap_table_find_def)
  qed
qed

lemma table_find_bound: "tabs_inv s \<Longrightarrow> cap_table_find p s = Some ti \<Longrightarrow> ti < CAP_TABLE_MAX"
  by (auto simp: table_find_iff limits split: if_splits)

lemma table_find_inj:
  "tabs_inv s \<Longrightarrow> cap_table_find p s = Some ti \<Longrightarrow> cap_table_find q s = Some ti \<Longrightarrow> p = q"
  using tabs_invD(1) [of s] by (auto simp: table_find_iff split: if_splits)

lemma table_find_pid:
  "tabs_inv s \<Longrightarrow> cap_table_find p s = Some ti \<Longrightarrow> cap_table_pid s ti = p"
  using tabs_invD(1) [of s] by (auto simp: table_find_iff split: if_splits)

section \<open>Binding a table\<close>

text \<open>
  \<^verbatim>\<open>cap_table_index\<close> binds the first free table when the process has none. A free table
  holds no capability, so the capability space does not change.
\<close>

lemma cap_table_index_None: "cap_table_index p s = (None, s') \<Longrightarrow> s' = s \<and> cap_table_find p s = None"
  by (auto simp: cap_table_index_def cap_table_find_def split: if_splits option.splits)

lemma cap_table_index_Some:
  assumes inv: "tabs_inv s" and idx: "cap_table_index p s = (Some ti, s')" and p: "p < 65536"
  shows "tabs_inv s'" and "cap_table_find p s' = Some ti" and "cap_at s' = cap_at s"
    and "s' = s\<lparr>cap_tables := cap_tables s', cap_table_pid := cap_table_pid s'\<rparr>"
proof -
  have "tabs_inv s' \<and> cap_table_find p s' = Some ti \<and> cap_at s' = cap_at s \<and>
    s' = s\<lparr>cap_tables := cap_tables s', cap_table_pid := cap_table_pid s'\<rparr>"
  proof (cases "cap_table_find p s")
    case (Some i)
    then have "s' = s" "ti = i"
      using idx by (auto simp: cap_table_index_def cap_table_find_def split: if_splits option.splits)
    with inv Some show ?thesis
      by simp
  next
    case None
    then have p0: "p \<noteq> 0" and none: "List.find (\<lambda>i. cap_table_pid s i = p) [0..<CAP_TABLE_MAX] = None"
      by (auto simp: cap_table_find_def split: if_splits)
    then have fnd: "List.find (\<lambda>i. cap_table_pid s i = 0) [1..<CAP_TABLE_MAX] = Some ti"
      and s': "s' = upd_table ti (\<lambda>t. t\<lparr>t_pid := p\<rparr>) (s\<lparr>cap_table_pid := (cap_table_pid s)(ti := p)\<rparr>)"
      using idx by (auto simp: cap_table_index_def split: option.splits)
    have ti: "0 < ti" "ti < CAP_TABLE_MAX" "cap_table_pid s ti = 0"
      using fnd by (auto simp: find_Some_iff)
    have new: "cap_table_pid s j \<noteq> p" if "j < CAP_TABLE_MAX" for j
      using none that by (auto simp: find_None_iff)
    have wf: "table_wf (cap_tables s' j)" if "j < CAP_TABLE_MAX" for j
    proof -
      have "table_rep (t\<lparr>t_pid := p\<rparr>) xs" if "table_rep t xs" for t xs
        using that sf_freelist_slots [of t xs "t\<lparr>t_pid := p\<rparr>"] by (simp add: table_rep_def)
      with tabs_invD(2) [OF inv that] show ?thesis
        by (auto simp: s' upd_table_def table_wf_def)
    qed
    have inv': "tabs_inv s'"
      unfolding tabs_inv_def
    proof (intro conjI allI impI)
      show "cap_table_pid s' 0 = 0"
        using ti tabs_invD(1) [OF inv] by (simp add: s' upd_table_def)
      show "t_pid (cap_tables s' j) = cap_table_pid s' j" "cap_table_pid s' j < 65536"
        if "j < CAP_TABLE_MAX" for j
        using tabs_invD(3,4) [OF inv that] p by (auto simp: s' upd_table_def)
      show "i = j" if "i < CAP_TABLE_MAX" "j < CAP_TABLE_MAX"
        "cap_table_pid s' i = cap_table_pid s' j \<and> cap_table_pid s' i \<noteq> 0" for i j
        using that new [of i] new [of j] tabs_invD(5) [OF inv, of i j] by (auto simp: s' upd_table_def split: if_splits)
      show "cap_word_type (slot_word s' j r) = CAP_TYPE_NONE"
        if "0 < j \<and> j < CAP_TABLE_MAX \<and> cap_table_pid s' j = 0" "r < CAP_TABLE_ENTRIES" for j r
        using that p0 tabs_invD(6) [OF inv, of j r] by (auto simp: s' upd_table_def split: if_splits)
    qed (simp add: wf)
    have pid': "cap_table_pid s' = (cap_table_pid s)(ti := p)"
      by (simp add: s' upd_table_def)
    have find': "cap_table_find q s' = (if q = p then Some ti else cap_table_find q s)" for q
    proof (cases "q = p")
      case True
      then show ?thesis
        using table_find_iff [OF inv', of p ti] p0 ti by (simp add: s' upd_table_def)
    next
      case False
      have "cap_table_find q s' = Some j \<longleftrightarrow> cap_table_find q s = Some j" for j
        using False ti by (auto simp: table_find_iff [OF inv] table_find_iff [OF inv'] pid' split: if_splits)
      then have "cap_table_find q s' = cap_table_find q s"
        by (metis not_Some_eq)
      with False show ?thesis
        by simp
    qed
    have slots: "slot_word s' j r = slot_word s j r" for j r
      by (simp add: s' upd_table_def)
    have "cap_at s' q r = cap_at s q r" for q r
      using None tabs_invD(6) [OF inv ti(1,2,3), of r]
      by (auto simp: cap_at_def find' slots split: option.splits)
    then have "cap_at s' = cap_at s"
      by (simp add: fun_eq_iff)
    with inv' find' show ?thesis
      by (simp add: s' upd_table_def)
  qed
  then show "tabs_inv s'" "cap_table_find p s' = Some ti" "cap_at s' = cap_at s"
    "s' = s\<lparr>cap_tables := cap_tables s', cap_table_pid := cap_table_pid s'\<rparr>"
    by blast+
qed

section \<open>Changing one table\<close>

lemma cap_table_find_cong: "cap_table_pid s' = cap_table_pid s \<Longrightarrow> cap_table_find p s' = cap_table_find p s"
  by (simp add: cap_table_find_def)

lemma cap_at_cong:
  "cap_tables s' = cap_tables s \<Longrightarrow> cap_table_pid s' = cap_table_pid s \<Longrightarrow> cap_at s' = cap_at s"
  by (rule ext, rule ext) (simp only: cap_at_def cap_table_find_def)

lemma tabs_inv_cong:
  "tabs_inv s \<Longrightarrow> cap_tables s' = cap_tables s \<Longrightarrow> cap_table_pid s' = cap_table_pid s \<Longrightarrow> tabs_inv s'"
  by (simp add: tabs_inv_def)

lemma tabs_inv_upd:
  assumes inv: "tabs_inv s" and fnd: "cap_table_find p s = Some ti"
    and s': "cap_tables s' = (cap_tables s)(ti := t')" "cap_table_pid s' = cap_table_pid s"
    and t': "table_wf t'" "t_pid t' = t_pid (cap_tables s ti)"
  shows "tabs_inv s'"
proof -
  have ti: "ti < CAP_TABLE_MAX" and bound: "ti = 0 \<or> cap_table_pid s ti \<noteq> 0"
    using table_find_bound [OF inv fnd] fnd by (auto simp: table_find_iff [OF inv] split: if_splits)
  show ?thesis
    unfolding tabs_inv_def
  proof (intro conjI allI impI)
    show "cap_table_pid s' 0 = 0"
      using tabs_invD(1) [OF inv] by (simp add: s')
    show "table_wf (cap_tables s' j)" "t_pid (cap_tables s' j) = cap_table_pid s' j" "cap_table_pid s' j < 65536"
      if "j < CAP_TABLE_MAX" for j
      using tabs_invD(2,3,4) [OF inv that] t' by (auto simp: s')
    show "i = j" if "i < CAP_TABLE_MAX" "j < CAP_TABLE_MAX"
        "cap_table_pid s' i = cap_table_pid s' j \<and> cap_table_pid s' i \<noteq> 0" for i j
      using that tabs_invD(5) [OF inv, of i j] by (simp add: s')
    show "cap_word_type (slot_word s' j r) = CAP_TYPE_NONE"
      if "0 < j \<and> j < CAP_TABLE_MAX \<and> cap_table_pid s' j = 0" "r < CAP_TABLE_ENTRIES" for j r
      using that bound tabs_invD(6) [OF inv, of j r] by (auto simp: s')
  qed
qed

lemma cap_at_upd:
  assumes inv: "tabs_inv s" and fnd: "cap_table_find p s = Some ti"
    and s': "cap_tables s' = (cap_tables s)(ti := t')" "cap_table_pid s' = cap_table_pid s"
    and same: "\<And>r. r < CAP_TABLE_ENTRIES \<Longrightarrow> r \<noteq> idx \<Longrightarrow> t_slots t' r = t_slots (cap_tables s ti) r"
    and idx: "idx < CAP_TABLE_ENTRIES"
  shows "cap_at s' = (cap_at s)(p := (cap_at s p)(idx :=
           (if cap_word_type (t_slots t' idx) \<noteq> CAP_TYPE_NONE then Some (t_slots t' idx) else None)))"
proof -
  have find': "cap_table_find q s' = cap_table_find q s" for q
    using s'(2) by (rule cap_table_find_cong)
  have other: "tj \<noteq> ti" if "cap_table_find q s = Some tj" "q \<noteq> p" for q tj
    using table_find_inj [OF inv fnd] that by blast
  show ?thesis
  proof (rule ext, rule ext)
    fix q r
    let ?x = "if cap_word_type (t_slots t' idx) \<noteq> CAP_TYPE_NONE then Some (t_slots t' idx) else None"
    show "cap_at s' q r = ((cap_at s)(p := (cap_at s p)(idx := ?x))) q r"
    proof (cases "q = p")
      case True
      then show ?thesis
        using fnd same [of r] idx
        by (cases "r = idx"; cases "r < CAP_TABLE_ENTRIES") (simp_all add: cap_at_def find' s'(1))
    next
      case False
      then show ?thesis
        using other [of q] by (simp add: cap_at_def find' s'(1) split: option.splits)
    qed
  qed
qed

text \<open>A slot is taken from the free list of a bound table and a capability is written to it.\<close>

lemma slot_install:
  assumes inv: "tabs_inv s" and fnd: "cap_table_find p s = Some ti"
    and pop: "cap_slot_pop ti s = Some (idx, s1)"
    and s2: "cap_tables s2 = cap_tables s1" "cap_table_pid s2 = cap_table_pid s1"
    and w: "cap_word_type w \<noteq> CAP_TYPE_NONE"
  shows "tabs_inv (set_slot ti idx w s2)"
    and "cap_at (set_slot ti idx w s2) = (cap_at s)(p := (cap_at s p)(idx := Some w))"
    and "cap_at s p idx = None" and "idx < CAP_TABLE_ENTRIES"
proof -
  obtain t' where t': "slot_pop (cap_tables s ti) = Some (idx, t')" and s1: "s1 = upd_table ti (\<lambda>_. t') s"
    using pop by (auto simp: cap_slot_pop_def split: option.splits)
  obtain xs where rep: "table_rep (cap_tables s ti) xs"
    using tabs_invD(2) [OF inv table_find_bound [OF inv fnd]] by (auto simp: table_wf_def)
  obtain ys where ys: "idx < CAP_TABLE_ENTRIES" "t_slots t' = (t_slots (cap_tables s ti))(idx := 0)"
    "t_pid t' = t_pid (cap_tables s ti)" "cap_word_type (t_slots (cap_tables s ti) idx) = CAP_TYPE_NONE"
    using slot_pop_rep [OF rep t'] by metis
  let ?t = "t'\<lparr>t_slots := (t_slots t')(idx := w)\<rparr>"
  have wf: "table_wf ?t"
    using slot_install_rep [OF rep t' w] by (auto simp: table_wf_def)
  have s': "cap_tables (set_slot ti idx w s2) = (cap_tables s)(ti := ?t)"
    "cap_table_pid (set_slot ti idx w s2) = cap_table_pid s"
    using s2 by (simp_all add: s1 set_slot_def upd_table_def)
  show "tabs_inv (set_slot ti idx w s2)"
    using inv fnd s' wf by (rule tabs_inv_upd) (simp add: ys)
  show "cap_at (set_slot ti idx w s2) = (cap_at s)(p := (cap_at s p)(idx := Some w))"
    using cap_at_upd [OF inv fnd s', of idx] ys w by simp
  show "cap_at s p idx = None"
    using ys fnd by (simp add: cap_at_def)
  show "idx < CAP_TABLE_ENTRIES"
    by (rule ys(1))
qed

text \<open>A slot is taken and put back, because a later step of the operation failed.\<close>

lemma slot_return:
  assumes inv: "tabs_inv s" and fnd: "cap_table_find p s = Some ti"
    and pop: "cap_slot_pop ti s = Some (idx, s1)"
    and s2: "cap_tables s2 = cap_tables s1" "cap_table_pid s2 = cap_table_pid s1"
  shows "tabs_inv (cap_slot_push ti idx s2)" and "cap_at (cap_slot_push ti idx s2) = cap_at s"
proof -
  obtain t' where t': "slot_pop (cap_tables s ti) = Some (idx, t')" and s1: "s1 = upd_table ti (\<lambda>_. t') s"
    using pop by (auto simp: cap_slot_pop_def split: option.splits)
  obtain xs where rep: "table_rep (cap_tables s ti) xs"
    using tabs_invD(2) [OF inv table_find_bound [OF inv fnd]] by (auto simp: table_wf_def)
  obtain ys where ys: "idx < CAP_TABLE_ENTRIES" "t_slots t' = (t_slots (cap_tables s ti))(idx := 0)"
    "t_pid t' = t_pid (cap_tables s ti)" "cap_word_type (t_slots (cap_tables s ti) idx) = CAP_TYPE_NONE"
    "sf.freelist t' ys"
    using slot_pop_rep [OF rep t'] by metis
  have s': "cap_tables (cap_slot_push ti idx s2) = (cap_tables s)(ti := slot_push idx t')"
    "cap_table_pid (cap_slot_push ti idx s2) = cap_table_pid s"
    using s2 by (simp_all add: s1 cap_slot_push_def upd_table_def)
  show "tabs_inv (cap_slot_push ti idx s2)"
    using slot_pop_push_rep [OF rep t']
    by (intro tabs_inv_upd [OF inv fnd s']) (auto simp: table_wf_def slot_push_def ys(3))
  have "cap_word_type (t_slots (slot_push idx t') idx) = CAP_TYPE_NONE"
    using sf.freelist_head [OF ys(5)] by (simp add: slot_push_def word_fields)
  moreover have "cap_at s p idx = None"
    using ys fnd by (simp add: cap_at_def)
  ultimately show "cap_at (cap_slot_push ti idx s2) = cap_at s"
    using cap_at_upd [OF inv fnd s', of idx] ys(1,2) by (simp add: slot_push_def fun_upd_idem)
qed

text \<open>A capability is taken out of its slot.\<close>

lemma slot_release:
  assumes inv: "tabs_inv s" and fnd: "cap_table_find p s = Some ti"
    and idx: "cap_at s p idx \<noteq> None"
    and s2: "cap_tables s2 = cap_tables s" "cap_table_pid s2 = cap_table_pid s"
  shows "tabs_inv (cap_slot_push ti idx (set_slot ti idx w s2))"
    and "cap_at (cap_slot_push ti idx (set_slot ti idx w s2)) = (cap_at s)(p := (cap_at s p)(idx := None))"
proof -
  let ?t = "slot_push idx ((cap_tables s ti)\<lparr>t_slots := (t_slots (cap_tables s ti))(idx := w)\<rparr>)"
  have i: "idx < CAP_TABLE_ENTRIES" "cap_word_type (slot_word s ti idx) \<noteq> CAP_TYPE_NONE"
    using idx fnd by (auto simp: cap_at_def split: if_splits)
  obtain xs where rep: "table_rep (cap_tables s ti) xs"
    using tabs_invD(2) [OF inv table_find_bound [OF inv fnd]] by (auto simp: table_wf_def)
  have s': "cap_tables (cap_slot_push ti idx (set_slot ti idx w s2)) = (cap_tables s)(ti := ?t)"
    "cap_table_pid (cap_slot_push ti idx (set_slot ti idx w s2)) = cap_table_pid s"
    using s2 by (simp_all add: cap_slot_push_def set_slot_def upd_table_def)
  show "tabs_inv (cap_slot_push ti idx (set_slot ti idx w s2))"
    using slot_release_rep [OF rep i, of w]
    by (intro tabs_inv_upd [OF inv fnd s']) (auto simp: table_wf_def slot_push_def)
  have "sf.freelist (cap_tables s ti) xs"
    using rep by (simp add: table_rep_def)
  then have "cap_word_type (t_slots ?t idx) = CAP_TYPE_NONE"
    using sf.freelist_head by (simp add: slot_push_def word_fields)
  then show "cap_at (cap_slot_push ti idx (set_slot ti idx w s2)) = (cap_at s)(p := (cap_at s p)(idx := None))"
    using cap_at_upd [OF inv fnd s', of idx] i by (simp add: slot_push_def)
qed

end
