(* ===== verification/Cap_Inv.thy ===== *)
theory Cap_Inv
  imports Cap_Space
begin

text \<open>
  The invariant of the capability layer. Every capability in a slot is a word the kernel
  minted for a live object, the holder list of an object names exactly the slots that hold
  it, a live object has a reference and a dead one has none, and every queued word is
  empty, minted or stamped revoked.
\<close>

section \<open>Minted words\<close>

text \<open>
  The words the creation paths build for an object: one MEM word with the object's own
  rights and size, or the two channel ends.
\<close>

definition minted :: "cap_state \<Rightarrow> 64 word \<Rightarrow> bool" where
  "minted s w \<longleftrightarrow>
     (let ob = cap_word_obj w; o1 = cap_objects s ob
      in ob < cap_obj_next s \<and>
         (o_kind o1 = KIND_MEM \<and> w = cap_word_make CAP_TYPE_MEM ob (o_max_perms o1) 0 (o_npages o1) \<or>
          o_kind o1 = KIND_CHAN \<and> (w = cap_word_make CAP_TYPE_CHAN_R ob CAP_PERM_RECV 0 1 \<or>
                                   w = cap_word_make CAP_TYPE_CHAN_W ob CAP_PERM_SEND 0 1)))"

definition caps_ok :: "cap_state \<Rightarrow> bool" where
  "caps_ok s \<longleftrightarrow> (\<forall>p r w. cap_at s p r = Some w \<longrightarrow> minted s w \<and> o_active (cap_objects s (cap_word_obj w)))"

section \<open>References\<close>

definition refs_match :: "(nat \<Rightarrow> nat \<Rightarrow> 64 word option) \<Rightarrow> (nat \<Rightarrow> href list) \<Rightarrow> bool" where
  "refs_match C R \<longleftrightarrow>
     (\<forall>ob p r d. count_list (R ob) (HOLDER_SLOT, p, r, d) =
        (if d = 0 \<and> (\<exists>w. C p r = Some w \<and> cap_word_obj w = ob) then 1 else 0))"

definition qrefs_ok :: "(nat \<Rightarrow> href list) \<Rightarrow> bool" where
  "qrefs_ok R \<longleftrightarrow> (\<forall>ob c r d. (HOLDER_QUEUE, c, r, d) \<in> set (R ob) \<longrightarrow>
     c < CAP_CHAN_MAX \<and> r < CHAN_QUEUE_DEPTH * CAP_MSG_MAX_CAPS \<and> d < 2)"

definition objs_ok :: "nat set \<Rightarrow> cap_state \<Rightarrow> (nat \<Rightarrow> href list) \<Rightarrow> bool" where
  "objs_ok X s R \<longleftrightarrow>
     cap_obj_next s \<le> CAP_OBJECT_MAX \<and>
     (\<forall>ob < CAP_OBJECT_MAX. if o_active (cap_objects s ob)
        then o_id (cap_objects s ob) = ob \<and> \<not> o_revoking (cap_objects s ob) \<and> ob < cap_obj_next s \<and>
             (ob \<in> X \<or> R ob \<noteq> [])
        else R ob = []) \<and>
     (\<forall>ob < cap_obj_next s. o_kind (cap_objects s ob) = KIND_CHAN \<longrightarrow> o_chan_id (cap_objects s ob) < CAP_CHAN_MAX)"

section \<open>Queues\<close>

definition qword_ok :: "cap_state \<Rightarrow> 64 word \<Rightarrow> bool" where
  "qword_ok s w \<longleftrightarrow> w = 0 \<or> minted s w \<or> cap_word_state w = CAP_STATE_REVOKED"

definition msg_ok :: "cap_state \<Rightarrow> ChanMsg \<Rightarrow> bool" where
  "msg_ok s m \<longleftrightarrow> m_n_caps m \<le> CAP_MSG_MAX_CAPS \<and> (\<forall>i < CAP_MSG_MAX_CAPS. qword_ok s (m_cap_word m i))"

definition queue_ok :: "cap_state \<Rightarrow> CapChannel \<Rightarrow> nat \<Rightarrow> bool" where
  "queue_ok s ch d \<longleftrightarrow>
     c_qdepth ch d \<le> CHAN_QUEUE_DEPTH \<and> c_qhead ch d < 2 ^ 32 \<and>
     c_qtail ch d = u32 (c_qhead ch d + c_qdepth ch d) \<and>
     (\<forall>k < c_qdepth ch d. msg_ok s (c_q ch d ((c_qhead ch d + k) mod CHAN_QUEUE_DEPTH)))"

definition chans_ok :: "cap_state \<Rightarrow> bool" where
  "chans_ok s \<longleftrightarrow> (\<forall>c < CAP_CHAN_MAX. \<forall>d < 2. queue_ok s (cap_channels s c) d)"

section \<open>Channel ids\<close>

text \<open>
  A channel id is in use by at most one live object, and an id on the recycling stack is
  in use by none.
\<close>

definition recycled_ids :: "cap_state \<Rightarrow> nat list" where
  "recycled_ids s = map (cap_chan_recycled s) [0..<cap_chan_recycled_n s]"

definition live_chan :: "cap_state \<Rightarrow> nat \<Rightarrow> nat \<Rightarrow> bool" where
  "live_chan s ob c \<longleftrightarrow> ob < cap_obj_next s \<and> o_active (cap_objects s ob) \<and> o_kind (cap_objects s ob) = KIND_CHAN \<and>
     o_chan_id (cap_objects s ob) = c"

definition chan_id_free :: "cap_state \<Rightarrow> nat \<Rightarrow> bool" where
  "chan_id_free s c \<longleftrightarrow> c < cap_chan_next s \<and> c \<notin> set (recycled_ids s) \<and> (\<forall>ob. \<not> live_chan s ob c)"

definition ids_ok :: "cap_state \<Rightarrow> bool" where
  "ids_ok s \<longleftrightarrow> cap_chan_next s \<le> CAP_CHAN_MAX \<and> distinct (recycled_ids s) \<and>
     (\<forall>c \<in> set (recycled_ids s). c < cap_chan_next s) \<and>
     (\<forall>ob c. live_chan s ob c \<longrightarrow> c < cap_chan_next s \<and> c \<notin> set (recycled_ids s)) \<and>
     (\<forall>ob ob' c. live_chan s ob c \<and> live_chan s ob' c \<longrightarrow> ob = ob')"

lemma ids_ok_cong:
  assumes "ids_ok s" and "cap_chan_next s' = cap_chan_next s" "cap_chan_recycled s' = cap_chan_recycled s"
    "cap_chan_recycled_n s' = cap_chan_recycled_n s"
    and "\<And>ob c. live_chan s' ob c = live_chan s ob c"
  shows "ids_ok s'"
  using assms by (simp add: ids_ok_def recycled_ids_def)

lemma ids_okD:
  assumes "ids_ok s"
  shows "cap_chan_next s \<le> CAP_CHAN_MAX" and "distinct (recycled_ids s)"
    and "c \<in> set (recycled_ids s) \<Longrightarrow> c < cap_chan_next s"
    and "live_chan s ob c \<Longrightarrow> c < cap_chan_next s \<and> c \<notin> set (recycled_ids s)"
    and "live_chan s ob c \<Longrightarrow> live_chan s ob' c \<Longrightarrow> ob = ob'"
  using assms unfolding ids_ok_def by blast+

lemma live_chan_cong:
  "cap_objects s' = cap_objects s \<Longrightarrow> cap_obj_next s' = cap_obj_next s \<Longrightarrow> live_chan s' ob c = live_chan s ob c"
  by (simp add: live_chan_def)

lemma live_chan_holder: "holder_only s s' \<Longrightarrow> live_chan s' ob c = live_chan s ob c"
  by (simp add: live_chan_def holder_only_tables holder_only_objects)

lemma ids_ok_holder: "ids_ok s \<Longrightarrow> holder_only s s' \<Longrightarrow> ids_ok s'"
  by (rule ids_ok_cong) (simp_all add: holder_only_tables live_chan_holder)

section \<open>The invariant\<close>

text \<open>
  \<open>X\<close> are the objects that may be unreferenced and \<open>P\<close> the nodes that are not linked
  while an operation runs; between operations both are empty.
\<close>

definition cap_rep ::
  "nat set \<Rightarrow> cap_state \<Rightarrow> (nat \<Rightarrow> href list) \<Rightarrow> nat set \<Rightarrow> nat \<Rightarrow> bool" where
  "cap_rep X s R P n \<longleftrightarrow> tabs_inv s \<and> refs_rep s R P n \<and> refs_match (cap_at s) R \<and> caps_ok s \<and>
     objs_ok X s R \<and> qrefs_ok R \<and> chans_ok s \<and> ids_ok s"

definition cap_inv :: "cap_state \<Rightarrow> bool" where
  "cap_inv s \<longleftrightarrow> (\<exists>R n. cap_rep {} s R {} n)"

lemma cap_repD:
  assumes "cap_rep X s R P n"
  shows "tabs_inv s" and "refs_rep s R P n" and "refs_match (cap_at s) R" and "caps_ok s"
    and "objs_ok X s R" and "qrefs_ok R" and "chans_ok s" and "ids_ok s"
  using assms by (simp_all add: cap_rep_def)

lemma cap_repI:
  "tabs_inv s \<Longrightarrow> refs_rep s R P n \<Longrightarrow> refs_match (cap_at s) R \<Longrightarrow> caps_ok s \<Longrightarrow> objs_ok X s R \<Longrightarrow>
   qrefs_ok R \<Longrightarrow> chans_ok s \<Longrightarrow> ids_ok s \<Longrightarrow> cap_rep X s R P n"
  by (simp add: cap_rep_def)

section \<open>Updating the space and the references together\<close>

lemma count_drop_ref_same:
  "href_is k p r x \<Longrightarrow> \<forall>y \<in> set xs. href_is k p r y \<longrightarrow> y = x \<Longrightarrow>
   count_list (drop_ref k p r xs) x = count_list xs x - 1"
proof (induction xs)
  case (Cons y ys)
  show ?case
  proof (cases "href_is k p r y")
    case True
    with Cons.prems have "y = x"
      by simp
    with True show ?thesis
      by simp
  next
    case False
    with Cons.prems have "y \<noteq> x"
      by auto
    with False Cons show ?thesis
      by simp
  qed
qed simp

lemma count_drop_ref_other: "\<not> href_is k p r x \<Longrightarrow> count_list (drop_ref k p r xs) x = count_list xs x"
  by (induction xs) auto

lemma refs_match_mem:
  "refs_match C R \<Longrightarrow> (HOLDER_SLOT, p, r, d) \<in> set (R ob) \<longleftrightarrow> d = 0 \<and> (\<exists>w. C p r = Some w \<and> cap_word_obj w = ob)"
  unfolding refs_match_def by (metis count_list_0_iff zero_neq_one)

lemma refs_match_add:
  assumes "refs_match C R" and "C p r = None" and "cap_word_obj w = ob"
  shows "refs_match (C(p := (C p)(r := Some w))) (R(ob := (HOLDER_SLOT, p, r, 0) # R ob))"
  using assms unfolding refs_match_def by (auto split: if_splits)

lemma refs_match_del:
  assumes m: "refs_match C R" and C: "C p r = Some w" and w: "cap_word_obj w = ob"
  shows "refs_match (C(p := (C p)(r := None))) (R(ob := drop_ref HOLDER_SLOT p r (R ob)))"
  unfolding refs_match_def
proof (intro allI)
  fix o' p' r' d :: nat
  let ?R = "R(ob := drop_ref HOLDER_SLOT p r (R ob))" and ?x = "(HOLDER_SLOT, p', r', d) :: href"
  have cnt: "count_list (R o') ?x = (if d = 0 \<and> (\<exists>w. C p' r' = Some w \<and> cap_word_obj w = o') then 1 else 0)"
    using m by (simp add: refs_match_def)
  have uniq: "\<forall>y \<in> set (R ob). href_is HOLDER_SLOT p r y \<longrightarrow> y = (HOLDER_SLOT, p, r, 0)"
    using refs_match_mem [OF m] by auto
  show "count_list (?R o') ?x =
      (if d = 0 \<and> (\<exists>w. (C(p := (C p)(r := None))) p' r' = Some w \<and> cap_word_obj w = o') then 1 else 0)"
  proof (cases "o' = ob \<and> p' = p \<and> r' = r")
    case True
    show ?thesis
    proof (cases "d = 0")
      case d0: True
      then have "count_list (drop_ref HOLDER_SLOT p r (R ob)) ?x = 1 - 1"
        using count_drop_ref_same [of HOLDER_SLOT p r ?x "R ob"] uniq cnt C w True by simp
      with True d0 show ?thesis by simp
    next
      case False
      then have "?x \<notin> set (R ob)"
        using refs_match_mem [OF m, of p' r' d ob] by simp
      then have "?x \<notin> set (drop_ref HOLDER_SLOT p r (R ob))"
        using drop_ref_subset [of HOLDER_SLOT p r "R ob"] by blast
      with True False show ?thesis
        by (simp add: count_notin)
    qed
  next
    case False
    then have "count_list (?R o') ?x = count_list (R o') ?x"
      using count_drop_ref_other [of HOLDER_SLOT p r ?x "R ob"] by auto
    moreover have "(\<exists>w. (C(p := (C p)(r := None))) p' r' = Some w \<and> cap_word_obj w = o') \<longleftrightarrow>
        (\<exists>w. C p' r' = Some w \<and> cap_word_obj w = o')"
      using False C w by (cases "p' = p \<and> r' = r") auto
    ultimately show ?thesis
      using cnt by simp
  qed
qed

lemma refs_match_queue:
  assumes "refs_match C R"
  shows "refs_match C (R(ob := (HOLDER_QUEUE, c, r, d) # R ob))"
    and "refs_match C (R(ob := drop_ref HOLDER_QUEUE c r (R ob)))"
  using assms count_drop_ref_other [of HOLDER_QUEUE c r] unfolding refs_match_def by auto

lemma refs_match_empty:
  "refs_match C R \<Longrightarrow> R ob = [] \<Longrightarrow> C p r = Some w \<Longrightarrow> cap_word_obj w \<noteq> ob"
  using refs_match_mem [of C R p r 0 ob] by auto

lemma qrefs_ok_drop: "qrefs_ok R \<Longrightarrow> qrefs_ok (R(ob := drop_ref k c r (R ob)))"
  using drop_ref_subset [of k c r "R ob"] unfolding qrefs_ok_def by (auto split: if_splits)

lemma qrefs_ok_add:
  "qrefs_ok R \<Longrightarrow> (k = HOLDER_QUEUE \<Longrightarrow> c < CAP_CHAN_MAX \<and> r < CHAN_QUEUE_DEPTH * CAP_MSG_MAX_CAPS \<and> d < 2) \<Longrightarrow>
   qrefs_ok (R(ob := (k, c, r, d) # R ob))"
  unfolding qrefs_ok_def by (auto split: if_splits)

section \<open>Object descriptions never change\<close>

definition objs_ext :: "cap_state \<Rightarrow> cap_state \<Rightarrow> bool" where
  "objs_ext s s' \<longleftrightarrow> cap_obj_next s \<le> cap_obj_next s' \<and>
     (\<forall>i < cap_obj_next s. o_kind (cap_objects s' i) = o_kind (cap_objects s i) \<and>
        o_max_perms (cap_objects s' i) = o_max_perms (cap_objects s i) \<and>
        o_npages (cap_objects s' i) = o_npages (cap_objects s i) \<and>
        o_phys_base (cap_objects s' i) = o_phys_base (cap_objects s i) \<and>
        o_chan_id (cap_objects s' i) = o_chan_id (cap_objects s i))"

lemma objs_ext_refl [simp]: "objs_ext s s"
  by (simp add: objs_ext_def)

lemma objs_ext_trans: "objs_ext s s' \<Longrightarrow> objs_ext s' s'' \<Longrightarrow> objs_ext s s''"
  unfolding objs_ext_def by (metis le_trans less_le_trans)

lemma objs_ext_holder: "holder_only s s' \<Longrightarrow> objs_ext s s'"
  by (simp add: objs_ext_def holder_only_tables holder_only_objects)

lemma objs_ext_same: "cap_objects s' = cap_objects s \<Longrightarrow> cap_obj_next s' = cap_obj_next s \<Longrightarrow> objs_ext s s'"
  by (simp add: objs_ext_def)

lemma minted_ext: "minted s w \<Longrightarrow> objs_ext s s' \<Longrightarrow> minted s' w"
  by (auto simp: minted_def objs_ext_def Let_def)

lemma qword_ok_ext: "qword_ok s w \<Longrightarrow> objs_ext s s' \<Longrightarrow> qword_ok s' w"
  by (auto simp: qword_ok_def intro: minted_ext)

lemma msg_ok_ext: "msg_ok s m \<Longrightarrow> objs_ext s s' \<Longrightarrow> msg_ok s' m"
  by (auto simp: msg_ok_def intro: qword_ok_ext)

lemma queue_ok_ext: "queue_ok s ch d \<Longrightarrow> objs_ext s s' \<Longrightarrow> queue_ok s' ch d"
  by (auto simp: queue_ok_def intro: msg_ok_ext)

lemma chans_ok_ext: "chans_ok s \<Longrightarrow> objs_ext s s' \<Longrightarrow> cap_channels s' = cap_channels s \<Longrightarrow> chans_ok s'"
  by (auto simp: chans_ok_def intro: queue_ok_ext)

lemma minted_fields:
  assumes "minted s w"
  shows "cap_word_valid w" and "cap_word_type w \<noteq> CAP_TYPE_NONE" and "cap_word_obj w < cap_obj_next s"
    and "cap_word_state w = CAP_STATE_VALID" and "w \<noteq> 0"
proof -
  obtain ty p l where w: "w = cap_word_make ty (cap_word_obj w) p 0 l" and ty: "ty = 1 \<or> ty = 2 \<or> ty = 3"
    and "cap_word_obj w < cap_obj_next s"
    using assms unfolding minted_def Let_def by blast
  then show "cap_word_obj w < cap_obj_next s"
    by simp
  have t: "cap_word_type w = ty" "cap_word_state w = 0" "cap_word_rsvd w = 0"
    using ty by (subst w, auto simp: word_fields)+
  then show "cap_word_type w \<noteq> CAP_TYPE_NONE" "cap_word_state w = CAP_STATE_VALID" "cap_word_valid w"
    using ty by (auto simp: cap_word_valid_def)
  show "w \<noteq> 0"
    using t(1) ty by auto
qed

section \<open>Moving through an operation\<close>

text \<open>Steps of the holder pool that add or drop references to live objects.\<close>

lemma objs_ok_refs:
  assumes ok: "objs_ok X s R" and "holder_only s s'"
    and "\<And>ob. \<not> o_active (cap_objects s ob) \<Longrightarrow> R ob = [] \<Longrightarrow> R' ob = []"
    and "\<And>ob. o_active (cap_objects s ob) \<Longrightarrow> ob \<in> X \<or> R ob \<noteq> [] \<Longrightarrow> ob \<in> X' \<or> R' ob \<noteq> []"
  shows "objs_ok X' s' R'"
  using assms by (simp add: objs_ok_def holder_only_tables holder_only_objects)

lemma objs_ok_cong:
  "objs_ok X s R \<Longrightarrow> cap_objects s' = cap_objects s \<Longrightarrow> cap_obj_next s' = cap_obj_next s \<Longrightarrow> objs_ok X s' R"
  by (simp only: objs_ok_def) blast

lemma objs_ok_weaken: "objs_ok X s R \<Longrightarrow> X \<subseteq> X' \<Longrightarrow> objs_ok X' s R"
  unfolding objs_ok_def by (metis subsetD)

lemma caps_ok_ext:
  assumes "caps_ok s" and "objs_ext s s'" and "cap_at s' = cap_at s"
    and "\<And>ob. o_active (cap_objects s' ob) = o_active (cap_objects s ob)"
  shows "caps_ok s'"
  using assms minted_ext [of s _ s'] by (auto simp: caps_ok_def)

lemma cap_at_holder: "holder_only s s' \<Longrightarrow> cap_at s' = cap_at s"
  by (rule cap_at_cong) (simp_all add: holder_only_tables)

lemma caps_ok_holder: "caps_ok s \<Longrightarrow> holder_only s s' \<Longrightarrow> caps_ok s'"
  by (rule caps_ok_ext) (simp_all add: objs_ext_holder cap_at_holder holder_only_objects)

lemma objs_okD:
  assumes "objs_ok X s R"
  shows "cap_obj_next s \<le> CAP_OBJECT_MAX"
    and "ob < CAP_OBJECT_MAX \<Longrightarrow> o_active (cap_objects s ob) \<Longrightarrow> o_id (cap_objects s ob) = ob"
    and "ob < CAP_OBJECT_MAX \<Longrightarrow> o_active (cap_objects s ob) \<Longrightarrow> \<not> o_revoking (cap_objects s ob)"
    and "ob < CAP_OBJECT_MAX \<Longrightarrow> o_active (cap_objects s ob) \<Longrightarrow> ob < cap_obj_next s"
    and "ob < CAP_OBJECT_MAX \<Longrightarrow> o_active (cap_objects s ob) \<Longrightarrow> ob \<notin> X \<Longrightarrow> R ob \<noteq> []"
    and "ob < CAP_OBJECT_MAX \<Longrightarrow> \<not> o_active (cap_objects s ob) \<Longrightarrow> R ob = []"
    and "ob < cap_obj_next s \<Longrightarrow> o_kind (cap_objects s ob) = KIND_CHAN \<Longrightarrow> o_chan_id (cap_objects s ob) < CAP_CHAN_MAX"
  using assms unfolding objs_ok_def by metis+

text \<open>\<^verbatim>\<open>cap_object_get\<close> succeeds exactly on live objects.\<close>

lemma cap_object_get_iff:
  assumes "objs_ok X s R"
  shows "cap_object_get i s = Some ob \<longleftrightarrow> i = ob \<and> ob < CAP_OBJECT_MAX \<and> o_active (cap_objects s ob)"
  using objs_okD(2) [OF assms, of i] by (auto simp: cap_object_get_def)

lemma cap_object_get_None:
  assumes "objs_ok X s R" and "i < CAP_OBJECT_MAX"
  shows "cap_object_get i s = None \<longleftrightarrow> \<not> o_active (cap_objects s i)"
  using objs_okD(2) [OF assms] assms(2) by (auto simp: cap_object_get_def)

text \<open>Steps that touch neither tables, objects nor references.\<close>

lemma cap_rep_frame:
  assumes rep: "cap_rep X s R P n" and "cap_tables s' = cap_tables s" "cap_table_pid s' = cap_table_pid s"
    and objs: "cap_objects s' = cap_objects s" "cap_obj_next s' = cap_obj_next s"
    and "cap_holders s' = cap_holders s" "cap_holder_free_head s' = cap_holder_free_head s"
    and ids: "cap_chan_next s' = cap_chan_next s" "cap_chan_recycled s' = cap_chan_recycled s"
      "cap_chan_recycled_n s' = cap_chan_recycled_n s"
    and "chans_ok s'"
  shows "cap_rep X s' R P n"
proof (rule cap_repI)
  note d = cap_repD [OF rep]
  show "tabs_inv s'"
    using d(1) assms(2,3) by (rule tabs_inv_cong)
  show "refs_rep s' R P n"
    using d(2) by (rule refs_rep_cong) (simp_all add: assms)
  have at: "cap_at s' = cap_at s"
    using assms(2,3) by (rule cap_at_cong)
  with d(3) show "refs_match (cap_at s') R"
    by simp
  show "caps_ok s'"
    using d(4) objs_ext_same [OF objs] at by (rule caps_ok_ext) (simp add: objs)
  show "objs_ok X s' R"
    using d(5) objs by (rule objs_ok_cong)
  show "ids_ok s'"
    using d(8) ids live_chan_cong [OF objs] by (rule ids_ok_cong)
qed (use assms cap_repD(6) [OF rep] in auto)

lemma cap_rep_frame_chans:
  assumes "cap_rep X s R P n" and "cap_tables s' = cap_tables s" "cap_table_pid s' = cap_table_pid s"
    and "cap_objects s' = cap_objects s" "cap_obj_next s' = cap_obj_next s"
    and "cap_holders s' = cap_holders s" "cap_holder_free_head s' = cap_holder_free_head s"
    and "cap_chan_next s' = cap_chan_next s" "cap_chan_recycled s' = cap_chan_recycled s"
      "cap_chan_recycled_n s' = cap_chan_recycled_n s"
    and "cap_channels s' = cap_channels s"
  shows "cap_rep X s' R P n"
  using assms(1-10) by (rule cap_rep_frame)
    (use chans_ok_ext [OF cap_repD(7) [OF assms(1)] objs_ext_same] assms in auto)

text \<open>Binding a table.\<close>

lemma cap_rep_bind:
  assumes rep: "cap_rep X s R P n" and idx: "cap_table_index p s = (Some ti, s')" and p: "p < 65536"
  shows "cap_rep X s' R P n" and "cap_table_find p s' = Some ti" and "cap_at s' = cap_at s"
    and "s' = s\<lparr>cap_tables := cap_tables s', cap_table_pid := cap_table_pid s'\<rparr>"
proof -
  note d = cap_repD [OF rep] and i = cap_table_index_Some [OF cap_repD(1) [OF rep] idx p]
  show "cap_table_find p s' = Some ti" "cap_at s' = cap_at s"
    "s' = s\<lparr>cap_tables := cap_tables s', cap_table_pid := cap_table_pid s'\<rparr>"
    by (rule i)+
  have same: "cap_objects s' = cap_objects s" "cap_obj_next s' = cap_obj_next s" "cap_holders s' = cap_holders s"
    "cap_holder_free_head s' = cap_holder_free_head s" "cap_channels s' = cap_channels s"
    by (subst i(4), simp)+
  show "cap_rep X s' R P n"
  proof (rule cap_repI)
    show "refs_rep s' R P n"
      using d(2) by (rule refs_rep_cong) (simp_all add: same)
    show "refs_match (cap_at s') R"
      using d(3) by (simp add: i(3))
    show "caps_ok s'"
      using d(4) objs_ext_same [OF same(1,2)] i(3) by (rule caps_ok_ext) (simp add: same)
    show "objs_ok X s' R"
      using d(5) same(1,2) by (rule objs_ok_cong)
    show "chans_ok s'"
      using d(7) objs_ext_same [OF same(1,2)] same(5) by (rule chans_ok_ext)
    show "ids_ok s'"
      using d(8) by (rule ids_ok_cong) (simp_all add: live_chan_cong [OF same(1,2)], (subst i(4), simp)+)
  qed (use i(1) d(6) in auto)
qed

text \<open>Allocating, freeing and linking a node, and dropping a queue reference.\<close>

lemma cap_rep_holder:
  assumes rep: "cap_rep X s R P n" and only: "holder_only s s'"
    and "refs_rep s' R' P' n'" and "refs_match (cap_at s) R'" and "qrefs_ok R'" and "objs_ok X' s' R'"
  shows "cap_rep X' s' R' P' n'"
proof (rule cap_repI)
  note d = cap_repD [OF rep]
  show "tabs_inv s'"
    using d(1) by (rule tabs_inv_cong) (simp_all add: holder_only_tables [OF only])
  show "refs_match (cap_at s') R'"
    using assms(4) by (simp add: cap_at_holder [OF only])
  show "caps_ok s'"
    using d(4) only by (rule caps_ok_holder)
  show "chans_ok s'"
    using d(7) objs_ext_holder [OF only] by (rule chans_ok_ext) (simp add: holder_only_tables [OF only])
  show "ids_ok s'"
    using d(8) only by (rule ids_ok_holder)
qed (use assms in auto)

lemma cap_rep_alloc:
  assumes rep: "cap_rep X s R P n" and al: "cap_holder_alloc ob kind pid ref qdir s = Some (h, s')"
  shows "cap_rep X s' R (insert h P) (n - 1)"
  using rep cap_holder_alloc_only [OF al] refs_alloc(2) [OF cap_repD(2) [OF rep] al] cap_repD(3,6) [OF rep]
  by (rule cap_rep_holder)
    (use objs_ok_refs [OF cap_repD(5) [OF rep] cap_holder_alloc_only [OF al]] in auto)

lemma cap_rep_free:
  assumes rep: "cap_rep X s R P n" and h: "h \<in> P"
  shows "cap_rep X (cap_holder_free h s) R (P - {h}) (Suc n)"
  using rep cap_holder_free_only refs_free(1) [OF cap_repD(2) [OF rep] h] cap_repD(3,6) [OF rep]
  by (rule cap_rep_holder)
    (use objs_ok_refs [OF cap_repD(5) [OF rep] cap_holder_free_only] in auto)

lemma cap_rep_link_queue:
  assumes rep: "cap_rep X s R P n" and h: "h \<in> P" and st: "staged s h ob (HOLDER_QUEUE, c, r, d)"
    and ob: "ob < cap_obj_next s" "o_active (cap_objects s ob)"
    and c: "c < CAP_CHAN_MAX" "r < CHAN_QUEUE_DEPTH * CAP_MSG_MAX_CAPS" "d < 2"
  shows "cap_rep (X - {ob}) (cap_holder_link h ob s) (R(ob := (HOLDER_QUEUE, c, r, d) # R ob)) (P - {h}) n"
proof (rule cap_rep_holder [OF rep cap_holder_link_only])
  show "refs_rep (cap_holder_link h ob s) (R(ob := (HOLDER_QUEUE, c, r, d) # R ob)) (P - {h}) n"
    by (rule refs_link(1) [OF cap_repD(2) [OF rep] h ob(1) st])
  show "refs_match (cap_at s) (R(ob := (HOLDER_QUEUE, c, r, d) # R ob))"
    by (rule refs_match_queue(1) [OF cap_repD(3) [OF rep]])
  show "qrefs_ok (R(ob := (HOLDER_QUEUE, c, r, d) # R ob))"
    using c by (intro qrefs_ok_add [OF cap_repD(6) [OF rep]]) simp
  show "objs_ok (X - {ob}) (cap_holder_link h ob s) (R(ob := (HOLDER_QUEUE, c, r, d) # R ob))"
    by (rule objs_ok_refs [OF cap_repD(5) [OF rep] cap_holder_link_only]) (use ob in auto)
qed

lemma cap_rep_drop_queue:
  assumes rep: "cap_rep X s R P n" and ob: "ob < cap_obj_next s"
  shows "\<exists>n' \<ge> n. cap_rep (insert ob X) (cap_holder_remove ob HOLDER_QUEUE c r s)
           (R(ob := drop_ref HOLDER_QUEUE c r (R ob))) P n'"
proof -
  obtain n' where "refs_rep (cap_holder_remove ob HOLDER_QUEUE c r s)
           (R(ob := drop_ref HOLDER_QUEUE c r (R ob))) P n'" and "n \<le> n'"
    using refs_remove [OF cap_repD(2) [OF rep] ob] by blast
  moreover have "objs_ok (insert ob X) (cap_holder_remove ob HOLDER_QUEUE c r s) (R(ob := drop_ref HOLDER_QUEUE c r (R ob)))"
    by (rule objs_ok_refs [OF cap_repD(5) [OF rep] cap_holder_remove_only]) auto
  ultimately show ?thesis
    using cap_rep_holder [OF rep cap_holder_remove_only _ refs_match_queue(2) [OF cap_repD(3) [OF rep]]
        qrefs_ok_drop [OF cap_repD(6) [OF rep]]] by blast
qed

section \<open>Slots\<close>

text \<open>
  A capability leaves its slot: the slot's reference is dropped, the word cleared and the
  slot returned to the free list, in that order.
\<close>

lemma cap_rep_take_slot:
  assumes rep: "cap_rep X s R P n" and fnd: "cap_table_find p s = Some ti"
    and at: "cap_at s p r = Some w" and ob: "cap_word_obj w = ob"
  defines "s' \<equiv> cap_slot_push ti r (set_slot ti r 0 (cap_holder_remove ob HOLDER_SLOT p r s))"
  shows "\<exists>n' \<ge> n. cap_rep (insert ob X) s' (R(ob := drop_ref HOLDER_SLOT p r (R ob))) P n'"
    and "cap_at s' = (cap_at s)(p := (cap_at s p)(r := None))"
proof -
  let ?s1 = "cap_holder_remove ob HOLDER_SLOT p r s" and ?R = "R(ob := drop_ref HOLDER_SLOT p r (R ob))"
  note d = cap_repD [OF rep] and only = cap_holder_remove_only [of s ob HOLDER_SLOT p r]
  have mx: "ob < cap_obj_next s"
    using d(4) at ob minted_fields(3) [of s w] by (auto simp: caps_ok_def)
  obtain n' where refs: "refs_rep ?s1 ?R P n'" and n': "n \<le> n'"
    using refs_remove [OF d(2) mx] by blast
  have tabs: "cap_tables ?s1 = cap_tables s" "cap_table_pid ?s1 = cap_table_pid s"
    by (simp_all add: holder_only_tables [OF only])
  note rel = slot_release [OF d(1) fnd _ tabs, of r 0]
  show cat: "cap_at s' = (cap_at s)(p := (cap_at s p)(r := None))"
    unfolding s'_def using rel(2) at by simp
  have same: "cap_objects s' = cap_objects ?s1" "cap_obj_next s' = cap_obj_next ?s1"
    "cap_holders s' = cap_holders ?s1" "cap_holder_free_head s' = cap_holder_free_head ?s1"
    "cap_channels s' = cap_channels ?s1"
    by (simp_all add: s'_def cap_slot_push_def set_slot_def upd_table_def)
  have ids: "cap_chan_next s' = cap_chan_next ?s1" "cap_chan_recycled s' = cap_chan_recycled ?s1"
    "cap_chan_recycled_n s' = cap_chan_recycled_n ?s1"
    by (simp_all add: s'_def cap_slot_push_def set_slot_def upd_table_def)
  have ext: "objs_ext s s'"
    using objs_ext_trans [OF objs_ext_holder [OF only] objs_ext_same [OF same(1,2)]] .
  have "cap_rep (insert ob X) s' ?R P n'"
  proof (rule cap_repI)
    show "tabs_inv s'"
      unfolding s'_def using rel(1) at by simp
    show "refs_rep s' ?R P n'"
      using refs by (rule refs_rep_cong) (simp_all add: same)
    show "refs_match (cap_at s') ?R"
      unfolding cat using d(3) at ob by (rule refs_match_del)
    show "caps_ok s'"
      using d(4) minted_ext [OF _ ext]
      by (auto simp: caps_ok_def cat same holder_only_objects [OF only] split: if_splits)
    have "objs_ok (insert ob X) ?s1 ?R"
      by (rule objs_ok_refs [OF d(5) only]) auto
    then show "objs_ok (insert ob X) s' ?R"
      using same(1,2) by (rule objs_ok_cong)
    show "qrefs_ok ?R"
      using d(6) by (rule qrefs_ok_drop)
    show "chans_ok s'"
      using d(7) ext by (rule chans_ok_ext) (simp add: same holder_only_tables [OF only])
    show "ids_ok s'"
      using ids_ok_holder [OF d(8) only] ids live_chan_cong [OF same(1,2)] by (rule ids_ok_cong)
  qed
  with n' show "\<exists>n' \<ge> n. cap_rep (insert ob X) s' ?R P n'"
    by blast
qed

text \<open>A staged slot reference is linked and its word is written to the slot taken for it.\<close>

lemma cap_rep_install:
  assumes rep: "cap_rep X s R P n" and fnd: "cap_table_find p s = Some ti"
    and pop: "cap_slot_pop ti s = Some (idx, s1)" and h: "h \<in> P"
    and st: "staged s h ob (HOLDER_SLOT, p, idx, 0)" and w: "minted s w" "cap_word_obj w = ob"
    and ob: "o_active (cap_objects s ob)"
  defines "s' \<equiv> set_slot ti idx w (cap_holder_link h ob s1)"
  shows "cap_rep (X - {ob}) s' (R(ob := (HOLDER_SLOT, p, idx, 0) # R ob)) (P - {h}) n"
    and "cap_at s' = (cap_at s)(p := (cap_at s p)(idx := Some w))" and "cap_at s p idx = None"
proof -
  let ?l = "cap_holder_link h ob s" and ?R = "R(ob := (HOLDER_SLOT, p, idx, 0) # R ob)"
  note d = cap_repD [OF rep] and only = cap_holder_link_only [of s h ob]
  have mx: "ob < cap_obj_next s"
    using minted_fields(3) [OF w(1)] w(2) by simp
  have s1: "s1 = s\<lparr>cap_tables := cap_tables s1\<rparr>"
    using pop by (auto simp: cap_slot_pop_def upd_table_def split: option.splits)
  have tabs: "cap_tables (cap_holder_link h ob s1) = cap_tables s1" "cap_table_pid (cap_holder_link h ob s1) = cap_table_pid s1"
    by (simp_all add: holder_only_tables [OF cap_holder_link_only])
  note ins = slot_install [OF d(1) fnd pop tabs minted_fields(2) [OF w(1)]]
  show cat: "cap_at s' = (cap_at s)(p := (cap_at s p)(idx := Some w))" and none: "cap_at s p idx = None"
    unfolding s'_def using ins by simp_all
  have comm: "cap_holder_link h ob s1 = ?l\<lparr>cap_tables := cap_tables s1\<rparr>"
    by (subst s1) (simp add: cap_holder_link_def state_upd_defs Let_def)
  have same: "cap_objects s' = cap_objects ?l" "cap_obj_next s' = cap_obj_next ?l"
    "cap_holders s' = cap_holders ?l" "cap_holder_free_head s' = cap_holder_free_head ?l"
    "cap_channels s' = cap_channels ?l"
    by (simp_all add: s'_def comm set_slot_def upd_table_def)
  have ids: "cap_chan_next s' = cap_chan_next ?l" "cap_chan_recycled s' = cap_chan_recycled ?l"
    "cap_chan_recycled_n s' = cap_chan_recycled_n ?l"
    by (simp_all add: s'_def comm set_slot_def upd_table_def)
  have ext: "objs_ext s s'"
    using objs_ext_trans [OF objs_ext_holder [OF only] objs_ext_same [OF same(1,2)]] .
  show "cap_rep (X - {ob}) s' ?R (P - {h}) n"
  proof (rule cap_repI)
    show "tabs_inv s'"
      unfolding s'_def by (rule ins(1))
    show "refs_rep s' ?R (P - {h}) n"
      using refs_link(1) [OF d(2) h mx st] by (rule refs_rep_cong) (simp_all only: same)
    show "refs_match (cap_at s') ?R"
      unfolding cat using d(3) none w(2) by (rule refs_match_add)
    show "caps_ok s'"
      using d(4) minted_ext [OF _ ext] w ob
      by (auto simp: caps_ok_def cat same holder_only_objects [OF only] simp del: cap_holder_link_fields split: if_splits)
    have "objs_ok (X - {ob}) ?l ?R"
      by (rule objs_ok_refs [OF d(5) only]) (use ob in auto)
    then show "objs_ok (X - {ob}) s' ?R"
      using same(1,2) by (rule objs_ok_cong)
    show "qrefs_ok ?R"
      using d(6) by (rule qrefs_ok_add) simp
    show "chans_ok s'"
      using d(7) ext by (rule chans_ok_ext) (simp add: same holder_only_tables [OF only])
    show "ids_ok s'"
      using ids_ok_holder [OF d(8) only] ids live_chan_cong [OF same(1,2)] by (rule ids_ok_cong)
  qed
qed

section \<open>Birth and death of objects\<close>

text \<open>An object id is taken and the object described; it has no reference yet.\<close>

lemma cap_rep_fresh:
  assumes rep: "cap_rep X s R P n" and nx: "cap_obj_next s < CAP_OBJECT_MAX"
    and s': "s' = s\<lparr>cap_obj_next := Suc (cap_obj_next s),
                   cap_objects := (cap_objects s)(cap_obj_next s := x)\<rparr>"
    and x: "o_id x = cap_obj_next s" "o_active x" "\<not> o_revoking x" "o_holder_head x = CAP_FREELIST_END"
      "o_refcount x = 0" "o_kind x = KIND_CHAN \<Longrightarrow> chan_id_free s (o_chan_id x)"
  shows "cap_rep (insert (cap_obj_next s) X) s' R P n" and "R (cap_obj_next s) = []" and "objs_ext s s'"
proof -
  let ?id = "cap_obj_next s"
  note d = cap_repD [OF rep]
  have dead: "\<not> o_active (cap_objects s ?id)"
    using objs_okD(4) [OF d(5) nx] by blast
  then show nil: "R ?id = []"
    using objs_okD(6) [OF d(5) nx] by blast
  show ext: "objs_ext s s'"
    by (simp add: objs_ext_def s')
  have at: "cap_at s' = cap_at s"
    by (rule cap_at_cong) (simp_all add: s')
  show "cap_rep (insert ?id X) s' R P n"
  proof (rule cap_repI)
    show "tabs_inv s'"
      using d(1) by (rule tabs_inv_cong) (simp_all add: s')
    show "refs_rep s' R P n"
      using d(2) nil by (rule refs_reset_object [where x = x]) (simp_all add: s' x)
    show "refs_match (cap_at s') R"
      using d(3) by (simp add: at)
    show "caps_ok s'"
      using d(4) minted_ext [OF _ ext] dead x(2) by (auto simp: caps_ok_def at) (auto simp: s')
    show "objs_ok (insert ?id X) s' R"
      unfolding objs_ok_def
    proof (intro conjI allI impI)
      show "cap_obj_next s' \<le> CAP_OBJECT_MAX"
        using nx by (simp add: s')
      show "if o_active (cap_objects s' ob) then o_id (cap_objects s' ob) = ob \<and> \<not> o_revoking (cap_objects s' ob) \<and>
          ob < cap_obj_next s' \<and> (ob \<in> insert ?id X \<or> R ob \<noteq> []) else R ob = []" if "ob < CAP_OBJECT_MAX" for ob
        using objs_okD(2-6) [OF d(5) that] x by (auto simp: s' less_Suc_eq)
      show "o_chan_id (cap_objects s' ob) < CAP_CHAN_MAX"
        if "ob < cap_obj_next s'" "o_kind (cap_objects s' ob) = KIND_CHAN" for ob
        using that objs_okD(7) [OF d(5), of ob] x(6) d(8)
        by (auto simp: s' less_Suc_eq chan_id_free_def ids_ok_def split: if_splits)
    qed
    show "chans_ok s'"
      using d(7) ext by (rule chans_ok_ext) (simp add: s')
    have live: "live_chan s' ob c \<longleftrightarrow> live_chan s ob c \<or> (ob = ?id \<and> o_kind x = KIND_CHAN \<and> o_chan_id x = c)" for ob c
      using dead x(2) by (auto simp: live_chan_def s' less_Suc_eq)
    have rec: "recycled_ids s' = recycled_ids s"
      by (simp add: recycled_ids_def s')
    have cn: "cap_chan_next s' = cap_chan_next s"
      by (simp add: s')
    have notlive: "\<not> live_chan s ?id c" for c
      by (simp add: live_chan_def)
    show "ids_ok s'"
      unfolding ids_ok_def rec cn
    proof (intro conjI allI impI ballI)
      show "c < cap_chan_next s" "c \<notin> set (recycled_ids s)" if "live_chan s' ob c" for ob c
        using that ids_okD(4) [OF d(8)] x(6) by (auto simp: live chan_id_free_def)
      show "ob = ob'" if "live_chan s' ob c \<and> live_chan s' ob' c" for ob ob' c
        using that ids_okD(5) [OF d(8), of ob c ob'] x(6) unfolding live chan_id_free_def by blast
    qed (use d(8) in \<open>auto simp: ids_ok_def\<close>)
  qed (rule d(6))
qed

text \<open>An object without references is destroyed. Its arena frames and channel may go first.\<close>

lemma chan_id_put_fields [simp]:
  "cap_tables (cap_chan_id_put c s) = cap_tables s" "cap_table_pid (cap_chan_id_put c s) = cap_table_pid s"
  "cap_objects (cap_chan_id_put c s) = cap_objects s" "cap_obj_next (cap_chan_id_put c s) = cap_obj_next s"
  "cap_holders (cap_chan_id_put c s) = cap_holders s"
  "cap_holder_free_head (cap_chan_id_put c s) = cap_holder_free_head s"
  "cap_channels (cap_chan_id_put c s) = cap_channels s" "cap_arena (cap_chan_id_put c s) = cap_arena s"
  "cap_payload (cap_chan_id_put c s) = cap_payload s" "cap_chan_next (cap_chan_id_put c s) = cap_chan_next s"
  "hook_log (cap_chan_id_put c s) = hook_log s"
  by (simp_all add: cap_chan_id_put_def)

lemma destroy_fields [simp]:
  "cap_tables (cap_object_destroy ob s) = cap_tables s" "cap_table_pid (cap_object_destroy ob s) = cap_table_pid s"
  "cap_objects (cap_object_destroy ob s) = (cap_objects s)(ob := (cap_objects s ob)\<lparr>o_active := False,
     o_revoking := True, o_holder_head := CAP_FREELIST_END, o_refcount := 0\<rparr>)"
  "cap_obj_next (cap_object_destroy ob s) = cap_obj_next s"
  "cap_holders (cap_object_destroy ob s) = cap_holders s"
  "cap_holder_free_head (cap_object_destroy ob s) = cap_holder_free_head s"
  "cap_channels (cap_object_destroy ob s) = cap_channels s" "cap_arena (cap_object_destroy ob s) = cap_arena s"
  "cap_payload (cap_object_destroy ob s) = cap_payload s" "cap_chan_next (cap_object_destroy ob s) = cap_chan_next s"
  "hook_log (cap_object_destroy ob s) = hook_log s"
  by (simp_all add: cap_object_destroy_def Let_def upd_object_def irq_unbind_chan_def)

lemma free_resources_fields [simp]:
  "cap_tables (fst (cap_object_free_resources ob s)) = cap_tables s"
  "cap_table_pid (fst (cap_object_free_resources ob s)) = cap_table_pid s"
  "cap_objects (fst (cap_object_free_resources ob s)) = cap_objects s"
  "cap_obj_next (fst (cap_object_free_resources ob s)) = cap_obj_next s"
  "cap_holders (fst (cap_object_free_resources ob s)) = cap_holders s"
  "cap_holder_free_head (fst (cap_object_free_resources ob s)) = cap_holder_free_head s"
  "cap_payload (fst (cap_object_free_resources ob s)) = cap_payload s"
  "hook_log (fst (cap_object_free_resources ob s)) = hook_log s"
  by (simp_all add: cap_object_free_resources_def Let_def upd_channel_def case_prod_beta)

lemma free_resources_queue [simp]:
  "c_q (cap_channels (fst (cap_object_free_resources ob s)) c) = c_q (cap_channels s c)"
  "c_qhead (cap_channels (fst (cap_object_free_resources ob s)) c) = c_qhead (cap_channels s c)"
  "c_qtail (cap_channels (fst (cap_object_free_resources ob s)) c) = c_qtail (cap_channels s c)"
  "c_qdepth (cap_channels (fst (cap_object_free_resources ob s)) c) = c_qdepth (cap_channels s c)"
  by (simp_all add: cap_object_free_resources_def Let_def upd_channel_def case_prod_beta)

lemma chans_ok_queues:
  assumes "chans_ok s" and "objs_ext s s'"
    and "\<And>c. c_q (cap_channels s' c) = c_q (cap_channels s c)"
    and "\<And>c. c_qhead (cap_channels s' c) = c_qhead (cap_channels s c)"
    and "\<And>c. c_qtail (cap_channels s' c) = c_qtail (cap_channels s c)"
    and "\<And>c. c_qdepth (cap_channels s' c) = c_qdepth (cap_channels s c)"
  shows "chans_ok s'"
  using assms msg_ok_ext [OF _ assms(2)] by (simp add: chans_ok_def queue_ok_def)

lemma cap_rep_free_resources:
  assumes rep: "cap_rep X s R P n"
  shows "cap_rep X (fst (cap_object_free_resources ob s)) R P n"
proof (rule cap_rep_frame [OF rep])
  show "chans_ok (fst (cap_object_free_resources ob s))"
    by (rule chans_ok_queues [OF cap_repD(7) [OF rep] objs_ext_same]) simp_all
qed (simp_all add: cap_object_free_resources_def Let_def upd_channel_def case_prod_beta)

text \<open>
  The recycling stack has room for every id, so the id of a destroyed channel is never
  dropped, and it is on the stack exactly once.
\<close>

lemma recycled_room:
  assumes "ids_ok s" and "live_chan s ob c"
  shows "cap_chan_recycled_n s < CAP_CHAN_MAX" and "c < CAP_CHAN_MAX"
proof -
  have "set (c # recycled_ids s) \<subseteq> {..<cap_chan_next s}" "distinct (c # recycled_ids s)"
    "cap_chan_next s \<le> CAP_CHAN_MAX"
    using assms by (auto simp: ids_ok_def)
  then show "cap_chan_recycled_n s < CAP_CHAN_MAX" "c < CAP_CHAN_MAX"
    using card_mono [of "{..<cap_chan_next s}" "set (c # recycled_ids s)"] distinct_card [of "c # recycled_ids s"]
    by (auto simp: recycled_ids_def)
qed

lemma destroy_ids:
  assumes ok: "ids_ok s" and mx: "o_active (cap_objects s ob) \<Longrightarrow> ob < cap_obj_next s"
  shows "ids_ok (cap_object_destroy ob s)"
proof -
  let ?s = "cap_object_destroy ob s"
  have live: "live_chan ?s o' c \<longleftrightarrow> o' \<noteq> ob \<and> live_chan s o' c" for o' c
    by (auto simp: live_chan_def)
  show ?thesis
  proof (cases "live_chan s ob (o_chan_id (cap_objects s ob))")
    case True
    let ?c = "o_chan_id (cap_objects s ob)"
    note room = recycled_room [OF ok True]
    have "recycled_ids ?s = recycled_ids s @ [?c]"
      using True room by (simp add: cap_object_destroy_def Let_def upd_object_def irq_unbind_chan_def
          cap_chan_id_put_def recycled_ids_def live_chan_def)
    then show ?thesis
      unfolding ids_ok_def live using ids_okD [OF ok] True by simp blast
  next
    case False
    then have "recycled_ids ?s = recycled_ids s" "\<And>c. \<not> live_chan s ob c"
      using mx by (auto simp: cap_object_destroy_def Let_def upd_object_def recycled_ids_def live_chan_def)
    then show ?thesis
      unfolding ids_ok_def live using ids_okD [OF ok] by simp blast
  qed
qed

lemma cap_rep_destroy:
  assumes rep: "cap_rep X s R P n" and nil: "R ob = []" and ob: "ob < cap_obj_next s"
  shows "cap_rep (X - {ob}) (cap_object_destroy ob s) R P n"
proof (rule cap_repI)
  let ?s = "cap_object_destroy ob s"
  note d = cap_repD [OF rep]
  have at: "cap_at ?s = cap_at s"
    by (rule cap_at_cong) simp_all
  have ext: "objs_ext s ?s"
    by (simp add: objs_ext_def)
  show "tabs_inv ?s"
    using d(1) by (rule tabs_inv_cong) simp_all
  show "refs_rep ?s R P n"
    using d(2) nil by (rule refs_reset_object [where x = "cap_objects ?s ob"]) simp_all
  show "refs_match (cap_at ?s) R"
    using d(3) by (simp add: at)
  show "caps_ok ?s"
    using d(4) minted_ext [OF _ ext] refs_match_empty [OF d(3) nil] by (auto simp: caps_ok_def at)
  show "objs_ok (X - {ob}) ?s R"
    using d(5) nil by (auto simp: objs_ok_def)
  show "chans_ok ?s"
    using d(7) ext by (rule chans_ok_ext) simp
  show "ids_ok ?s"
    using d(8) ob by (rule destroy_ids)
qed (rule cap_repD(6) [OF rep])

section \<open>Pool operations do not look at the tables\<close>

lemma holder_alloc_tables:
  "cap_holder_alloc ob k p r q (s\<lparr>cap_tables := T\<rparr>) =
   map_option (\<lambda>(h, s'). (h, s'\<lparr>cap_tables := T\<rparr>)) (cap_holder_alloc ob k p r q s)"
  by (simp add: cap_holder_alloc_def holder_pop_def upd_holder_def Let_def)

lemma holder_remove_tables:
  "cap_holder_remove ob k p r (s\<lparr>cap_tables := T\<rparr>) = (cap_holder_remove ob k p r s)\<lparr>cap_tables := T\<rparr>"
  by (simp add: cap_holder_remove_def cap_holder_free_def holder_unlink_def state_upd_defs Let_def
      split: option.splits)

lemma cap_slot_pop_state: "cap_slot_pop ti s = Some (idx, s1) \<Longrightarrow> s1 = s\<lparr>cap_tables := cap_tables s1\<rparr>"
  by (auto simp: cap_slot_pop_def upd_table_def split: option.splits)

lemma cap_slot_pop_tables:
  assumes "cap_slot_pop ti s = Some (idx, s1)" and "cap_tables s' = cap_tables s"
  shows "cap_slot_pop ti s' = Some (idx, s'\<lparr>cap_tables := cap_tables s1\<rparr>)"
  using assms by (auto simp: cap_slot_pop_def upd_table_def split: option.splits)

end
