(* ===== verification/Cap_Create.thy ===== *)
theory Cap_Create
  imports Cap_Inv
begin

text \<open>
  Boot and the creation paths of \<^verbatim>\<open>kernel/cap.c\<close>: \<^verbatim>\<open>cap_init\<close>, \<^verbatim>\<open>cap_create_mem\<close>,
  \<^verbatim>\<open>cap_arena_alloc\<close> and \<^verbatim>\<open>cap_chan_create\<close>, with every check, early return and roll-back.
  The out-pointers the C code writes are part of the \<open>Ok\<close> result; callers pass valid
  pointers, so the tests for a null out-pointer are left out.
\<close>

section \<open>Boot\<close>

text \<open>Statically allocated state is zero before \<^verbatim>\<open>cap_init\<close> runs.\<close>

definition zero_msg :: ChanMsg where
  "zero_msg = \<lparr>m_cookie = 0, m_payload_len = 0, m_n_caps = 0, m_flags = 0, m_payload_idx = 0,
     m_cap_word = (\<lambda>_. 0), m_cap_off = (\<lambda>_. 0), m_cap_len = (\<lambda>_. 0), m_cap_rights = (\<lambda>_. 0),
     m_cap_flags = (\<lambda>_. 0)\<rparr>"

definition zero_channel :: CapChannel where
  "zero_channel = \<lparr>c_end0_pid = 0, c_end1_pid = 0, c_qhead = (\<lambda>_. 0), c_qtail = (\<lambda>_. 0),
     c_qdepth = (\<lambda>_. 0), c_q = (\<lambda>_ _. zero_msg), c_closed = (\<lambda>_. False), c_close_evt = (\<lambda>_. False),
     c_close_reason = (\<lambda>_. 0), c_close_detail = (\<lambda>_. 0), c_active = False\<rparr>"

definition zero_state :: cap_state where
  "zero_state = \<lparr>
     cap_tables = (\<lambda>_. \<lparr>t_pid = 0, t_freelist_head = 0, t_slots = (\<lambda>_. 0),
       t_maps = (\<lambda>_. \<lparr>mp_obj_id = 0, mp_cap_slot = 0, mp_npages = 0, mp_vaddr = 0, mp_active = False\<rparr>)\<rparr>),
     cap_table_pid = (\<lambda>_. 0),
     cap_objects = (\<lambda>_. \<lparr>o_id = 0, o_kind = KIND_NONE, o_revoking = False, o_active = False,
       o_holder_head = 0, o_refcount = 0, o_max_perms = 0, o_phys_base = 0, o_npages = 0, o_chan_id = 0\<rparr>),
     cap_obj_next = 0,
     cap_holders = (\<lambda>_. \<lparr>h_obj_id = 0, h_next = 0, h_prev = 0, h_pid = 0, h_ref = 0, h_kind = HOLDER_SLOT,
       h_qdir = 0, h_active = False\<rparr>),
     cap_holder_free_head = CAP_FREELIST_END,
     cap_channels = (\<lambda>_. zero_channel),
     cap_chan_next = 0, cap_chan_recycled = (\<lambda>_. 0), cap_chan_recycled_n = 0,
     cap_arena = \<lparr>ar_base = 0, ar_bitmap = (\<lambda>_. 0), ar_owner = (\<lambda>_. 0), ar_free_count = 0\<rparr>,
     cap_payload = \<lparr>pp_data = (\<lambda>_ _. 0), pp_next = (\<lambda>_. 0), pp_free_head = CAP_FREELIST_END\<rparr>,
     g_irq_chan = (\<lambda>_. 0), g_irq_budget = (\<lambda>_. 0), g_irq_pending = (\<lambda>_. False), hook_log = []\<rparr>"

definition cap_init :: "cap_env \<Rightarrow> cap_state \<Rightarrow> cap_state" where
  "cap_init e s =
     (let s1 = s\<lparr>g_irq_chan := (\<lambda>v. if v < CAP_IRQ_VECTORS then CAP_NONE else g_irq_chan s v),
                 g_irq_budget := (\<lambda>v. if v < CAP_IRQ_VECTORS then 0 else g_irq_budget s v)\<rparr>;
          s2 = foldl (\<lambda>s i. cap_table_freelist_init i
                        (upd_table i (\<lambda>t. t\<lparr>t_pid := 0\<rparr>) (s\<lparr>cap_table_pid := (cap_table_pid s)(i := 0)\<rparr>)))
                 s1 [0..<CAP_TABLE_MAX];
          s3 = s2\<lparr>cap_holders := (\<lambda>i. if i < CAP_HOLDER_MAX
                     then (cap_holders s2 i)\<lparr>h_active := False,
                            h_next := (if i = CAP_HOLDER_MAX - 1 then CAP_FREELIST_END else u16 (i + 1))\<rparr>
                     else cap_holders s2 i),
                  cap_holder_free_head := 0\<rparr>
      in s3\<lparr>cap_obj_next := 0, cap_chan_next := 0, cap_chan_recycled_n := 0,
            cap_arena := cap_arena_init e (cap_arena s3),
            cap_payload := cap_msg_payload_init (cap_payload s3)\<rparr>)"

section \<open>Memory capabilities\<close>

text \<open>
  The common tail of \<^verbatim>\<open>cap_create_mem\<close> and \<^verbatim>\<open>cap_arena_alloc\<close>: take a slot, insert the holder
  and publish the word, or give the slot back.
\<close>

definition mint_slot :: "nat \<Rightarrow> nat \<Rightarrow> nat \<Rightarrow> 64 word \<Rightarrow> cap_state \<Rightarrow> nat res \<times> cap_state" where
  "mint_slot ti obj_id pid w s =
     (case cap_slot_pop ti s of
        None \<Rightarrow> (Err ETABLEFULL, s)
      | Some (idx, s) \<Rightarrow>
          (case cap_holder_insert obj_id HOLDER_SLOT (u16 pid) idx 0 s of
             None \<Rightarrow> (Err ENOMEM, cap_slot_push ti idx s)
           | Some s \<Rightarrow> (Ok idx, set_slot ti idx w s)))"

definition perm_ok :: "32 word \<Rightarrow> bool" where
  "perm_ok perm \<longleftrightarrow> perm \<noteq> 0 \<and> perm AND NOT (CAP_PERM_R OR CAP_PERM_W OR CAP_PERM_X OR CAP_PERM_MAP) = 0"

definition mem_overlap :: "64 word \<Rightarrow> 64 word \<Rightarrow> cap_state \<Rightarrow> bool" where
  "mem_overlap phys_base end_addr s \<longleftrightarrow>
     list_ex (\<lambda>i. let ob = cap_objects s i; oend = o_phys_base ob + of_nat (o_npages ob) * 4096
                  in o_active ob \<and> o_kind ob = KIND_MEM \<and> phys_base < oend \<and> end_addr > o_phys_base ob)
       [0..<CAP_OBJECT_MAX]"

text \<open>The argument checks of \<^verbatim>\<open>cap_create_mem\<close>, in order; \<open>None\<close> when all pass.\<close>

definition create_mem_check :: "cap_env \<Rightarrow> 64 word \<Rightarrow> nat \<Rightarrow> 32 word \<Rightarrow> cap_state \<Rightarrow> cap_err option" where
  "create_mem_check e phys_base npages perm s =
     (let end_addr = phys_base + of_nat npages * 4096
      in if npages = 0 \<or> npages > CAP_VIEW_MAX_PAGES then Some EINVAL
      else if \<not> perm_ok perm then Some EINVAL
      else if phys_base AND 0xFFF \<noteq> 0 then Some EINVAL
      else if end_addr \<le> phys_base \<or> end_addr > 0x100000000 then Some ERANGE
      else if phys_base < 0x100000 \<or> (phys_base < e_kernel_image_end e \<and> end_addr > 0x100000)
      then Some ECONFLICT
      else if ar_base (cap_arena s) \<noteq> 0 \<and> phys_base < ar_base (cap_arena s) + CAP_ARENA_SIZE \<and>
              end_addr > ar_base (cap_arena s)
      then Some ECONFLICT
      else if mem_overlap phys_base end_addr s then Some ECONFLICT
      else None)"

definition cap_create_mem ::
  "cap_env \<Rightarrow> nat \<Rightarrow> 64 word \<Rightarrow> nat \<Rightarrow> 32 word \<Rightarrow> cap_state \<Rightarrow> nat res \<times> cap_state" where
  "cap_create_mem e pid phys_base npages perm s =
     (case create_mem_check e phys_base npages perm s of
        Some err \<Rightarrow> (Err err, s)
      | None \<Rightarrow>
     (case cap_table_index pid s of
        (None, s) \<Rightarrow> (Err ETABLEFULL, s)
      | (Some ti, s) \<Rightarrow>
          (case cap_object_alloc KIND_MEM s of
             None \<Rightarrow> (Err ENOMEM, s)
           | Some (obj_id, s) \<Rightarrow>
               let s = upd_object obj_id (\<lambda>ob. ob\<lparr>o_max_perms := perm, o_phys_base := phys_base,
                         o_npages := npages\<rparr>) s
               in case mint_slot ti obj_id pid (cap_word_make CAP_TYPE_MEM obj_id perm 0 npages) s of
                    (Ok idx, s) \<Rightarrow> (Ok idx, s)
                  | (r, s) \<Rightarrow> (r, cap_object_destroy obj_id s))))"

definition arena_clear_run :: "nat \<Rightarrow> nat \<Rightarrow> CapArena \<Rightarrow> CapArena" where
  "arena_clear_run start npages a = foldl (\<lambda>a i. cap_arena_frame_clear (start + i) a) a [0..<npages]"

definition cap_arena_alloc :: "nat \<Rightarrow> nat \<Rightarrow> 32 word \<Rightarrow> cap_state \<Rightarrow> nat res \<times> cap_state" where
  "cap_arena_alloc pid npages perm s =
     (if npages = 0 \<or> npages > CAP_VIEW_MAX_PAGES then (Err EINVAL, s)
      else if \<not> perm_ok perm then (Err EINVAL, s)
      else if ar_base (cap_arena s) = 0 then (Err ENOMEM, s)
      else case cap_table_index pid s of
        (None, s) \<Rightarrow> (Err ETABLEFULL, s)
      | (Some ti, s) \<Rightarrow>
          (case cap_object_alloc KIND_MEM s of
             None \<Rightarrow> (Err ENOMEM, s)
           | Some (obj_id, s) \<Rightarrow>
               (case cap_arena_alloc_run npages obj_id (cap_arena s) of
                  None \<Rightarrow> (Err ENOSPC, cap_object_destroy obj_id s)
                | Some (start, a) \<Rightarrow>
                    let s = upd_object obj_id (\<lambda>ob. ob\<lparr>o_max_perms := perm,
                              o_phys_base := ar_base a + of_nat start * 4096,
                              o_npages := npages\<rparr>) (s\<lparr>cap_arena := a\<rparr>)
                    in case mint_slot ti obj_id pid (cap_word_make CAP_TYPE_MEM obj_id perm 0 npages) s of
                         (Ok idx, s) \<Rightarrow> (Ok idx, s)
                       | (r, s) \<Rightarrow>
                           (r, cap_object_destroy obj_id
                                 (s\<lparr>cap_arena := arena_clear_run start npages (cap_arena s)\<rparr>)))))"

section \<open>Minting into a slot\<close>

lemma u16_pid [simp]: "p < 65536 \<Longrightarrow> u16 p = p"
  by simp

lemma mint_slot_Ok:
  assumes rep: "cap_rep X s R {} n" and fnd: "cap_table_find p s = Some ti" and p: "p < 65536"
    and mint: "mint_slot ti ob p w s = (Ok idx, s')"
    and w: "minted s w" "cap_word_obj w = ob" and ob: "o_active (cap_objects s ob)"
  shows "cap_rep (X - {ob}) s' (R(ob := (HOLDER_SLOT, p, idx, 0) # R ob)) {} (n - 1)"
    and "cap_at s' = (cap_at s)(p := (cap_at s p)(idx := Some w))" and "cap_at s p idx = None"
    and "n > 0"
proof -
  obtain s1 h s2 where pop: "cap_slot_pop ti s = Some (idx, s1)"
    and al: "cap_holder_alloc ob HOLDER_SLOT p idx 0 s1 = Some (h, s2)"
    and s': "s' = set_slot ti idx w (cap_holder_link h ob s2)"
    using mint p by (auto simp: mint_slot_def cap_holder_insert_def split: option.splits)
  note s1 = cap_slot_pop_state [OF pop]
  from al obtain s2' where al': "cap_holder_alloc ob HOLDER_SLOT p idx 0 s = Some (h, s2')"
    and s2: "s2 = s2'\<lparr>cap_tables := cap_tables s1\<rparr>"
    by (subst (asm) s1) (auto simp: holder_alloc_tables)
  note only = cap_holder_alloc_only [OF al']
  have rep2: "cap_rep X s2' R {h} (n - 1)"
    using cap_rep_alloc [OF rep al'] by simp
  have pop2: "cap_slot_pop ti s2' = Some (idx, s2)"
    using cap_slot_pop_tables [OF pop] by (simp add: s2 holder_only_tables [OF only])
  have fnd2: "cap_table_find p s2' = Some ti"
    using fnd cap_table_find_cong [OF holder_only_tables(2) [OF only]] by simp
  have st: "staged s2' h ob (HOLDER_SLOT, p, idx, 0)"
    using refs_alloc(4) [OF cap_repD(2) [OF rep] al'] .
  have m2: "minted s2' w" and a2: "o_active (cap_objects s2' ob)"
    using minted_ext [OF w(1) objs_ext_holder [OF only]] ob holder_only_objects [OF only] by auto
  note i = cap_rep_install [OF rep2 fnd2 pop2 _ st m2 w(2) a2, folded s']
  show "cap_rep (X - {ob}) s' (R(ob := (HOLDER_SLOT, p, idx, 0) # R ob)) {} (n - 1)"
    using i(1) by simp
  show "cap_at s' = (cap_at s)(p := (cap_at s p)(idx := Some w))" "cap_at s p idx = None"
    using i(2,3) by (simp_all add: cap_at_holder [OF only])
  show "n > 0"
    by (rule refs_alloc(1) [OF cap_repD(2) [OF rep] al'])
qed

lemma mint_slot_Err:
  assumes rep: "cap_rep X s R {} n" and fnd: "cap_table_find p s = Some ti" and p: "p < 65536"
    and mint: "mint_slot ti ob p w s = (Err r, s')"
  shows "cap_rep X s' R {} n" and "cap_at s' = cap_at s" and "r = ETABLEFULL \<or> r = ENOMEM"
    and "s' = s\<lparr>cap_tables := cap_tables s'\<rparr>"
proof -
  have "(s' = s \<and> r = ETABLEFULL) \<or>
    (\<exists>idx s1. cap_slot_pop ti s = Some (idx, s1) \<and> s' = cap_slot_push ti idx s1 \<and> r = ENOMEM)"
    using mint by (auto simp: mint_slot_def split: option.splits)
  then have "cap_rep X s' R {} n \<and> cap_at s' = cap_at s \<and> (r = ETABLEFULL \<or> r = ENOMEM) \<and>
    s' = s\<lparr>cap_tables := cap_tables s'\<rparr>"
  proof (elim disjE exE conjE)
    assume "s' = s" "r = ETABLEFULL"
    with rep show ?thesis by simp
  next
    fix idx s1
    assume pop: "cap_slot_pop ti s = Some (idx, s1)" and s': "s' = cap_slot_push ti idx s1" and "r = ENOMEM"
    note d = cap_repD [OF rep] and ret = slot_return [OF cap_repD(1) [OF rep] fnd pop refl refl, folded s']
    have eq: "s' = s\<lparr>cap_tables := cap_tables s'\<rparr>"
      unfolding s' by (subst cap_slot_pop_state [OF pop]) (simp add: cap_slot_push_def upd_table_def)
    have same: "cap_objects s' = cap_objects s" "cap_obj_next s' = cap_obj_next s" "cap_holders s' = cap_holders s"
      "cap_holder_free_head s' = cap_holder_free_head s" "cap_channels s' = cap_channels s"
      by (subst eq, simp)+
    have "cap_rep X s' R {} n"
    proof (rule cap_repI)
      show "refs_rep s' R {} n"
        using d(2) by (rule refs_rep_cong) (simp_all add: same)
      show "caps_ok s'"
        using d(4) objs_ext_same [OF same(1,2)] ret(2) by (rule caps_ok_ext) (simp add: same)
      show "objs_ok X s' R"
        using d(5) same(1,2) by (rule objs_ok_cong)
      show "chans_ok s'"
        using d(7) objs_ext_same [OF same(1,2)] same(5) by (rule chans_ok_ext)
      show "ids_ok s'"
        using d(8) by (rule ids_ok_cong) (simp_all add: live_chan_cong [OF same(1,2)], (subst eq, simp)+)
    qed (use ret d in auto)
    with ret(2) eq \<open>r = ENOMEM\<close> show ?thesis
      by simp
  qed
  then show "cap_rep X s' R {} n" "cap_at s' = cap_at s" "r = ETABLEFULL \<or> r = ENOMEM"
    "s' = s\<lparr>cap_tables := cap_tables s'\<rparr>"
    by blast+
qed

lemma mint_slot_not_Oob: "mint_slot ti ob p w s \<noteq> (Oob, s')"
  by (auto simp: mint_slot_def split: option.splits)

lemma cap_object_alloc_Some:
  assumes "cap_object_alloc kind s = Some (ob, s1)"
  shows "ob = cap_obj_next s" and "cap_obj_next s < CAP_OBJECT_MAX"
    and "s1 = s\<lparr>cap_obj_next := Suc ob, cap_objects := (cap_objects s)(ob := (cap_objects s ob)\<lparr>o_id := ob,
           o_kind := kind, o_revoking := False, o_active := True, o_holder_head := CAP_FREELIST_END,
           o_refcount := 0, o_max_perms := 0, o_phys_base := 0, o_npages := 0,
           o_chan_id := CAP_OBJ_CHAN_NONE\<rparr>)\<rparr>"
  using assms by (auto simp: cap_object_alloc_def upd_object_def Let_def split: if_splits)

text \<open>
  A memory object is described and its capability minted. The arena is what the caller
  made of it; on failure the object is destroyed again.
\<close>

definition mem_object :: "nat \<Rightarrow> 32 word \<Rightarrow> 64 word \<Rightarrow> nat \<Rightarrow> CapObject \<Rightarrow> CapObject" where
  "mem_object ob perm base npages x = x\<lparr>o_id := ob, o_kind := KIND_MEM, o_revoking := False, o_active := True,
     o_holder_head := CAP_FREELIST_END, o_refcount := 0, o_chan_id := CAP_OBJ_CHAN_NONE,
     o_max_perms := perm, o_phys_base := base, o_npages := npages\<rparr>"

lemma mem_tail:
  assumes rep: "cap_rep {} s R {} n" and fnd: "cap_table_find p s = Some ti" and p: "p < 65536"
    and nx: "ob = cap_obj_next s" "ob < CAP_OBJECT_MAX"
    and s2: "s2 = s\<lparr>cap_arena := a, cap_obj_next := Suc ob,
                   cap_objects := (cap_objects s)(ob := mem_object ob perm base npages (cap_objects s ob))\<rparr>"
  defines "w \<equiv> cap_word_make CAP_TYPE_MEM ob perm 0 npages"
  shows "mint_slot ti ob p w s2 = (Ok idx, s') \<Longrightarrow>
           cap_rep {} s' (R(ob := [(HOLDER_SLOT, p, idx, 0)])) {} (n - 1) \<and>
           cap_at s' = (cap_at s)(p := (cap_at s p)(idx := Some w)) \<and> cap_at s p idx = None"
    and "mint_slot ti ob p w s2 = (Err r, s') \<Longrightarrow>
           cap_rep {} (cap_object_destroy ob (s'\<lparr>cap_arena := a'\<rparr>)) R {} n \<and>
           cap_at (cap_object_destroy ob (s'\<lparr>cap_arena := a'\<rparr>)) = cap_at s"
proof -
  let ?x = "mem_object ob perm base npages (cap_objects s ob)"
  have rep1: "cap_rep {} (s\<lparr>cap_arena := a\<rparr>) R {} n"
    by (rule cap_rep_frame_chans [OF rep]) simp_all
  have nx1: "cap_obj_next (s\<lparr>cap_arena := a\<rparr>) < CAP_OBJECT_MAX"
    using nx by simp
  note fr = cap_rep_fresh [OF rep1 nx1, of s2 ?x]
  have rep2: "cap_rep {ob} s2 R {} n" and nil: "R ob = []"
    using fr(1,2) nx by (simp_all add: s2 mem_object_def)
  have fnd2: "cap_table_find p s2 = Some ti"
    using fnd cap_table_find_cong [of s2 s p] by (simp add: s2)
  have at2: "cap_at s2 = cap_at s"
    by (rule cap_at_cong) (simp_all add: s2)
  have wob: "cap_word_obj w = ob"
    using nx(2) by (simp add: w_def word_fields limits)
  have m: "minted s2 w" "o_active (cap_objects s2 ob)"
    by (simp_all add: minted_def Let_def wob) (simp_all add: s2 w_def mem_object_def)
  {
    assume mint: "mint_slot ti ob p w s2 = (Ok idx, s')"
    note ok = mint_slot_Ok [OF rep2 fnd2 p mint m(1) wob m(2)]
    show "cap_rep {} s' (R(ob := [(HOLDER_SLOT, p, idx, 0)])) {} (n - 1) \<and>
           cap_at s' = (cap_at s)(p := (cap_at s p)(idx := Some w)) \<and> cap_at s p idx = None"
      using ok nil by (simp add: at2)
  next
    assume mint: "mint_slot ti ob p w s2 = (Err r, s')"
    note er = mint_slot_Err [OF rep2 fnd2 p mint]
    have "cap_rep {ob} (s'\<lparr>cap_arena := a'\<rparr>) R {} n"
      by (rule cap_rep_frame_chans [OF er(1)]) simp_all
    moreover have "cap_obj_next s' = Suc ob"
      by (subst er(4)) (simp add: s2)
    ultimately
    have "cap_rep {} (cap_object_destroy ob (s'\<lparr>cap_arena := a'\<rparr>)) R {} n"
      using cap_rep_destroy [of "{ob}" "s'\<lparr>cap_arena := a'\<rparr>" R "{}" n ob] nil by simp
    moreover have "cap_at (cap_object_destroy ob (s'\<lparr>cap_arena := a'\<rparr>)) = cap_at s'"
      by (rule cap_at_cong) simp_all
    ultimately show "cap_rep {} (cap_object_destroy ob (s'\<lparr>cap_arena := a'\<rparr>)) R {} n \<and>
           cap_at (cap_object_destroy ob (s'\<lparr>cap_arena := a'\<rparr>)) = cap_at s"
      using er(2) at2 by simp
  }
qed

text \<open>What the argument checks guarantee.\<close>

lemma create_mem_check_None:
  assumes "create_mem_check e base npages perm s = None"
  shows "0 < npages" and "npages \<le> CAP_VIEW_MAX_PAGES" and "perm_ok perm" and "base AND 0xFFF = 0"
    and "base < base + of_nat npages * 4096" and "base + of_nat npages * 4096 \<le> 0x100000000"
    and "base \<ge> 0x100000" and "base \<ge> e_kernel_image_end e"
    and "ar_base (cap_arena s) = 0 \<or> base + of_nat npages * 4096 \<le> ar_base (cap_arena s) \<or>
         ar_base (cap_arena s) + CAP_ARENA_SIZE \<le> base"
    and "\<not> mem_overlap base (base + of_nat npages * 4096) s"
proof -
  let ?lim = "base + of_nat npages * 4096"
  have c: "0 < npages" "npages \<le> CAP_VIEW_MAX_PAGES" "perm_ok perm" "base AND 0xFFF = 0" "base < ?lim"
    "?lim \<le> 0x100000000" "base \<ge> 0x100000" "\<not> (base < e_kernel_image_end e \<and> ?lim > 0x100000)"
    "\<not> (ar_base (cap_arena s) \<noteq> 0 \<and> base < ar_base (cap_arena s) + CAP_ARENA_SIZE \<and> ?lim > ar_base (cap_arena s))"
    "\<not> mem_overlap base ?lim s"
    using assms unfolding create_mem_check_def Let_def by (auto split: if_splits simp: not_less not_le)
  show "base \<ge> e_kernel_image_end e"
    using c(5,7,8) by (meson le_less_linear order_le_less_trans)
  show "ar_base (cap_arena s) = 0 \<or> ?lim \<le> ar_base (cap_arena s) \<or> ar_base (cap_arena s) + CAP_ARENA_SIZE \<le> base"
    using c(9) by (meson not_le)
qed (use assms in \<open>auto simp: create_mem_check_def Let_def not_less not_le split: if_splits\<close>)

lemma describe_mem:
  assumes "cap_object_alloc KIND_MEM s = Some (ob, sa)"
  shows "upd_object ob (\<lambda>ob. ob\<lparr>o_max_perms := perm, o_phys_base := base, o_npages := npages\<rparr>) (sa\<lparr>cap_arena := a\<rparr>) =
     s\<lparr>cap_arena := a, cap_obj_next := Suc ob,
             cap_objects := (cap_objects s)(ob := mem_object ob perm base npages (cap_objects s ob))\<rparr>"
    and "cap_arena sa = cap_arena s" and "ob = cap_obj_next s" and "ob < CAP_OBJECT_MAX"
    and "upd_object ob (\<lambda>ob. ob\<lparr>o_max_perms := perm, o_phys_base := base, o_npages := npages\<rparr>) sa =
     s\<lparr>cap_arena := cap_arena s, cap_obj_next := Suc ob,
             cap_objects := (cap_objects s)(ob := mem_object ob perm base npages (cap_objects s ob))\<rparr>"
  using cap_object_alloc_Some [OF assms]
  by (auto simp: upd_object_def mem_object_def intro!: cap_state.equality)

text \<open>The contract of \<^verbatim>\<open>cap_create_mem\<close>.\<close>

definition mints :: "cap_state \<Rightarrow> nat \<Rightarrow> 32 word \<Rightarrow> nat \<Rightarrow> nat res \<Rightarrow> cap_state \<Rightarrow> bool" where
  "mints s pid perm npages r s' \<longleftrightarrow> cap_inv s' \<and>
     (case r of
        Ok idx \<Rightarrow> cap_at s pid idx = None \<and>
          cap_at s' = (cap_at s)(pid := (cap_at s pid)(idx :=
            Some (cap_word_make CAP_TYPE_MEM (cap_obj_next s) perm 0 npages)))
      | Err _ \<Rightarrow> cap_at s' = cap_at s
      | Oob \<Rightarrow> False)"

lemma create_mem_mints:
  assumes inv: "cap_inv s" and p: "pid < 65536" and res: "cap_create_mem e pid base npages perm s = (r, s')"
  shows "mints s pid perm npages r s'"
proof -
  obtain R n where rep: "cap_rep {} s R {} n"
    using inv by (auto simp: cap_inv_def)
  show ?thesis
  proof (cases "create_mem_check e base npages perm s")
    case (Some err)
    then show ?thesis
      using res inv by (auto simp: cap_create_mem_def mints_def)
  next
    case chk: None
    obtain t s1 where ix: "cap_table_index pid s = (t, s1)"
      by fastforce
    show ?thesis
    proof (cases t)
      case None
      then show ?thesis
        using res inv chk ix cap_table_index_None [of pid s s1] by (auto simp: cap_create_mem_def mints_def)
    next
      case (Some ti)
      note b = cap_rep_bind [OF rep ix [unfolded Some] p]
      have nx: "cap_obj_next s1 = cap_obj_next s"
        by (subst b(4)) simp
      show ?thesis
      proof (cases "cap_object_alloc KIND_MEM s1")
        case None
        then show ?thesis
          using res chk ix Some b by (auto simp: cap_create_mem_def mints_def cap_inv_def)
      next
        case al: (Some x)
        obtain ob sa where x: "x = (ob, sa)"
          by (cases x)
        note dm = describe_mem [OF al [unfolded x]]
        note tl = mem_tail [OF b(1,2) p dm(3,4) refl, where a = "cap_arena s1" and perm = perm and base = base and npages = npages]
        obtain q s3 where q: "mint_slot ti ob pid (cap_word_make CAP_TYPE_MEM ob perm 0 npages)
             (s1\<lparr>cap_arena := cap_arena s1, cap_obj_next := Suc ob,
             cap_objects := (cap_objects s1)(ob := mem_object ob perm base npages (cap_objects s1 ob))\<rparr>) = (q, s3)"
          by fastforce
        have rs: "case q of Ok i \<Rightarrow> r = q \<and> s' = s3 | _ \<Rightarrow> r = q \<and> s' = cap_object_destroy ob s3"
          using res chk ix Some al q by (auto simp: cap_create_mem_def Let_def x dm(5) split: res.splits)
        show ?thesis
        proof (cases q)
          case (Ok idx)
          then show ?thesis
            using rs tl(1) [OF q [unfolded Ok]] b(3) nx dm(3) by (auto simp: mints_def cap_inv_def)
        next
          case (Err er)
          then show ?thesis
            using rs tl(2) [OF q [unfolded Err], of "cap_arena s3"] b(3) by (auto simp: mints_def cap_inv_def)
        next
          case Oob
          then show ?thesis
            using q mint_slot_not_Oob by blast
        qed
      qed
    qed
  qed
qed

lemma arena_alloc_mints:
  assumes inv: "cap_inv s" and p: "pid < 65536" and res: "cap_arena_alloc pid npages perm s = (r, s')"
  shows "mints s pid perm npages r s'"
proof -
  obtain R n where rep: "cap_rep {} s R {} n"
    using inv by (auto simp: cap_inv_def)
  show ?thesis
  proof (cases "npages = 0 \<or> npages > CAP_VIEW_MAX_PAGES \<or> \<not> perm_ok perm \<or> ar_base (cap_arena s) = 0")
    case True
    then show ?thesis
      using res inv by (auto simp: cap_arena_alloc_def mints_def split: if_splits)
  next
    case chk: False
    obtain t s1 where ix: "cap_table_index pid s = (t, s1)"
      by fastforce
    show ?thesis
    proof (cases t)
      case None
      then show ?thesis
        using res inv chk ix cap_table_index_None [of pid s s1] by (auto simp: cap_arena_alloc_def mints_def)
    next
      case (Some ti)
      note b = cap_rep_bind [OF rep ix [unfolded Some] p]
      have nx: "cap_obj_next s1 = cap_obj_next s"
        by (subst b(4)) simp
      show ?thesis
      proof (cases "cap_object_alloc KIND_MEM s1")
        case None
        then show ?thesis
          using res chk ix Some b by (auto simp: cap_arena_alloc_def mints_def cap_inv_def)
      next
        case al: (Some x)
        obtain ob sa where x: "x = (ob, sa)"
          by (cases x)
        note dm = describe_mem [OF al [unfolded x]]
        show ?thesis
        proof (cases "cap_arena_alloc_run npages ob (cap_arena s1)")
          case None
          have "s' = cap_object_destroy ob sa" "r = Err ENOSPC"
            using res chk ix Some al None by (auto simp: cap_arena_alloc_def Let_def x dm(2))
          moreover have "cap_rep {ob} sa R {} n" "R ob = []"
            using cap_rep_fresh [OF b(1) dm(4) [unfolded dm(3)], of sa "cap_objects sa ob"]
              cap_object_alloc_Some [OF al [unfolded x]] by simp_all
          moreover have "cap_at (cap_object_destroy ob sa) = cap_at s1"
            by (rule cap_at_cong) (simp_all add: cap_object_alloc_Some(3) [OF al [unfolded x]])
          ultimately show ?thesis
            using cap_rep_destroy [of "{ob}" sa R "{}" n ob] b(3) cap_object_alloc_Some(3) [OF al [unfolded x]]
            by (auto simp: mints_def cap_inv_def)
        next
          case run: (Some y)
          obtain start a where y: "y = (start, a)"
            by (cases y)
          let ?base = "ar_base a + of_nat start * 4096"
          note tl = mem_tail [OF b(1,2) p dm(3,4) refl, where a = a and perm = perm and base = ?base and npages = npages]
          obtain q s3 where q: "mint_slot ti ob pid (cap_word_make CAP_TYPE_MEM ob perm 0 npages)
             (s1\<lparr>cap_arena := a, cap_obj_next := Suc ob,
             cap_objects := (cap_objects s1)(ob := mem_object ob perm ?base npages (cap_objects s1 ob))\<rparr>) = (q, s3)"
            by fastforce
          have rs: "case q of Ok i \<Rightarrow> r = q \<and> s' = s3
              | _ \<Rightarrow> r = q \<and> s' = cap_object_destroy ob (s3\<lparr>cap_arena := arena_clear_run start npages (cap_arena s3)\<rparr>)"
            using res chk ix Some al run q
            by (auto simp: cap_arena_alloc_def Let_def x y dm(1,2) split: res.splits)
          show ?thesis
          proof (cases q)
            case (Ok idx)
            then show ?thesis
              using rs tl(1) [OF q [unfolded Ok]] b(3) nx dm(3) by (auto simp: mints_def cap_inv_def)
          next
            case (Err er)
            then show ?thesis
              using rs tl(2) [OF q [unfolded Err], of "arena_clear_run start npages (cap_arena s3)"] b(3)
              by (auto simp: mints_def cap_inv_def)
          next
            case Oob
            then show ?thesis
              using q mint_slot_not_Oob by blast
          qed
        qed
      qed
    qed
  qed
qed

section \<open>Boot establishes the invariant\<close>

lemma table_init_fold:
  fixes s :: cap_state and n :: nat
  defines "s' \<equiv> foldl (\<lambda>s i. cap_table_freelist_init i
                  (upd_table i (\<lambda>t. t\<lparr>t_pid := 0\<rparr>) (s\<lparr>cap_table_pid := (cap_table_pid s)(i := 0)\<rparr>))) s [0..<n]"
  shows "s' = s\<lparr>cap_tables := (\<lambda>i. if i < n then table_freelist_init ((cap_tables s i)\<lparr>t_pid := 0\<rparr>) else cap_tables s i),
                cap_table_pid := (\<lambda>i. if i < n then 0 else cap_table_pid s i)\<rparr>"
  unfolding s'_def
proof (induction n)
  case 0
  then show ?case by simp
next
  case (Suc n)
  then show ?case
    by (auto simp: cap_table_freelist_init_def upd_table_def fun_eq_iff less_Suc_eq intro!: cap_state.equality)
qed

lemma table_freelist_init_pid [simp]: "t_pid (table_freelist_init t) = t_pid t"
  by (simp add: table_freelist_init_def table_freelist_init_slots)

lemma cap_init_fields:
  "cap_tables (cap_init e s) = (\<lambda>i. if i < CAP_TABLE_MAX then table_freelist_init ((cap_tables s i)\<lparr>t_pid := 0\<rparr>) else cap_tables s i)"
  "cap_table_pid (cap_init e s) = (\<lambda>i. if i < CAP_TABLE_MAX then 0 else cap_table_pid s i)"
  "cap_objects (cap_init e s) = cap_objects s" "cap_obj_next (cap_init e s) = 0"
  "cap_holder_free_head (cap_init e s) = 0" "cap_channels (cap_init e s) = cap_channels s"
  "cap_holders (cap_init e s) = (\<lambda>i. if i < CAP_HOLDER_MAX
                     then (cap_holders s i)\<lparr>h_active := False,
                            h_next := (if i = CAP_HOLDER_MAX - 1 then CAP_FREELIST_END else u16 (i + 1))\<rparr>
                     else cap_holders s i)"
  "cap_chan_next (cap_init e s) = 0" "cap_chan_recycled_n (cap_init e s) = 0"
  "cap_arena (cap_init e s) = cap_arena_init e (cap_arena s)"
  "cap_payload (cap_init e s) = cap_msg_payload_init (cap_payload s)"
  by (simp_all add: cap_init_def Let_def table_init_fold cong: if_cong)

lemma init_refs:
  "refs_rep (cap_init e s) (\<lambda>_. []) {} CAP_HOLDER_MAX"
proof -
  let ?s = "cap_init e s"
  have "chain (holder_link_of ?s) 0 [0..<CAP_HOLDER_MAX]"
    by (rule chain_upt) (auto simp: holder_link_of_def cap_init_fields limits)
  then have "hf.freelist ?s [0..<CAP_HOLDER_MAX]"
    by (simp add: hf.freelist_def cap_init_fields) auto
  then have "holders_rep ?s (\<lambda>_. []) [0..<CAP_HOLDER_MAX] {}"
    by (auto simp: holders_rep_def node_partition_def cap_init_fields)
  then show ?thesis
    unfolding refs_rep_def by (intro exI [of _ "\<lambda>_. []"] exI [of _ "[0..<CAP_HOLDER_MAX]"]) simp
qed

lemma init_tabs: "tabs_inv (cap_init e s)"
proof -
  have "table_wf (table_freelist_init t)" and
    none: "cap_word_type (t_slots (table_freelist_init t) r) = CAP_TYPE_NONE" if "r < CAP_TABLE_ENTRIES" for t r
    using table_freelist_init_rep [of t] that by (auto simp: table_wf_def table_rep_def)
  moreover have "table_wf (table_freelist_init t)" for t
    using table_freelist_init_rep [of t] by (auto simp: table_wf_def)
  ultimately show ?thesis
    by (auto simp: tabs_inv_def cap_init_fields limits)
qed

lemma init_no_caps: "cap_at (cap_init e s) p r = None"
proof -
  have none: "cap_word_type (t_slots (table_freelist_init t) r) = CAP_TYPE_NONE" if "r < CAP_TABLE_ENTRIES" for t
    using table_freelist_init_rep [of t] that by (auto simp: table_rep_def)
  show ?thesis
    using table_find_bound [OF init_tabs, of p e s] none
    by (auto simp: cap_at_def cap_init_fields split: option.splits)
qed

lemma cap_init_inv: "cap_inv (cap_init e zero_state)"
proof -
  let ?s = "cap_init e zero_state"
  have "cap_rep {} ?s (\<lambda>_. []) {} CAP_HOLDER_MAX"
  proof (rule cap_repI)
    show "refs_match (cap_at ?s) (\<lambda>_. [])"
      by (simp add: refs_match_def init_no_caps)
    show "caps_ok ?s"
      by (simp add: caps_ok_def init_no_caps)
    show "objs_ok {} ?s (\<lambda>_. [])"
      by (simp add: objs_ok_def cap_init_fields zero_state_def)
    show "qrefs_ok (\<lambda>_. [])"
      by (simp add: qrefs_ok_def)
    show "chans_ok ?s"
      by (simp add: chans_ok_def queue_ok_def cap_init_fields zero_state_def zero_channel_def)
    show "ids_ok ?s"
      by (simp add: ids_ok_def recycled_ids_def live_chan_def cap_init_fields)
  qed (rule init_tabs init_refs)+
  then show ?thesis
    unfolding cap_inv_def by blast
qed

end
