(* ===== verification/Cap_Pair.thy ===== *)
theory Cap_Pair
  imports Cap_Create
begin

text \<open>
  \<^verbatim>\<open>cap_chan_create\<close>: a channel is taken from the id pool and reset, an object is made for
  it, four holder nodes are staged and linked with placeholder slot numbers, the slots are
  taken from one or two tables, and the real slot numbers are written into the nodes. The
  failure paths are modelled as they are written.
\<close>

section \<open>Operations\<close>

definition chan_reset :: "nat \<Rightarrow> nat \<Rightarrow> CapChannel \<Rightarrow> CapChannel" where
  "chan_reset pid far_pid ch =
     ch\<lparr>c_end0_pid := u16 pid, c_end1_pid := u16 far_pid, c_active := True,
        c_qhead := (c_qhead ch)(0 := 0, 1 := 0), c_qtail := (c_qtail ch)(0 := 0, 1 := 0),
        c_qdepth := (c_qdepth ch)(0 := 0, 1 := 0), c_closed := (c_closed ch)(0 := False, 1 := False),
        c_close_evt := (c_close_evt ch)(0 := False, 1 := False),
        c_close_reason := (c_close_reason ch)(0 := 0, 1 := 0),
        c_close_detail := (c_close_detail ch)(0 := 0, 1 := 0)\<rparr>"

text \<open>Four nodes with placeholder slot numbers 0 to 3, or none at all.\<close>

definition chan_stage_holders ::
  "nat \<Rightarrow> nat \<Rightarrow> nat \<Rightarrow> cap_state \<Rightarrow> (nat \<times> nat \<times> nat \<times> nat) option \<times> cap_state" where
  "chan_stage_holders obj_id pid far_holder_pid s =
     (case cap_holder_alloc obj_id HOLDER_SLOT pid 0 0 s of
        None \<Rightarrow> (None, s)
      | Some (h1, s) \<Rightarrow>
     (case cap_holder_alloc obj_id HOLDER_SLOT pid 1 0 s of
        None \<Rightarrow> (None, cap_holder_free h1 s)
      | Some (h2, s) \<Rightarrow>
     (case cap_holder_alloc obj_id HOLDER_SLOT far_holder_pid 2 0 s of
        None \<Rightarrow> (None, cap_holder_free h2 (cap_holder_free h1 s))
      | Some (h3, s) \<Rightarrow>
     (case cap_holder_alloc obj_id HOLDER_SLOT far_holder_pid 3 0 s of
        None \<Rightarrow> (None, cap_holder_free h3 (cap_holder_free h2 (cap_holder_free h1 s)))
      | Some (h4, s) \<Rightarrow> (Some (h1, h2, h3, h4), s)))))"

definition chan_r_word :: "nat \<Rightarrow> 64 word" where
  "chan_r_word obj_id = cap_word_make CAP_TYPE_CHAN_R obj_id CAP_PERM_RECV 0 1"

definition chan_w_word :: "nat \<Rightarrow> 64 word" where
  "chan_w_word obj_id = cap_word_make CAP_TYPE_CHAN_W obj_id CAP_PERM_SEND 0 1"

text \<open>Two slots of one table, filled with a read and a write end.\<close>

definition chan_two_slots :: "nat \<Rightarrow> nat \<Rightarrow> cap_state \<Rightarrow> (nat \<times> nat) option \<times> cap_state" where
  "chan_two_slots ti obj_id s =
     (case cap_slot_pop ti s of
        None \<Rightarrow> (None, s)
      | Some (rd, s) \<Rightarrow>
     (case cap_slot_pop ti s of
        None \<Rightarrow> (None, cap_slot_push ti rd s)
      | Some (wr, s) \<Rightarrow>
          (Some (rd, wr), set_slot ti wr (chan_w_word obj_id) (set_slot ti rd (chan_r_word obj_id) s))))"

text \<open>Four slots of the caller's table, when there is no far table.\<close>

definition chan_four_slots :: "nat \<Rightarrow> nat \<Rightarrow> cap_state \<Rightarrow> (nat \<times> nat \<times> nat \<times> nat) option \<times> cap_state" where
  "chan_four_slots ti obj_id s =
     (case cap_slot_pop ti s of
        None \<Rightarrow> (None, s)
      | Some (rd, s) \<Rightarrow>
     (case cap_slot_pop ti s of
        None \<Rightarrow> (None, cap_slot_push ti rd s)
      | Some (wr, s) \<Rightarrow>
     (case cap_slot_pop ti s of
        None \<Rightarrow> (None, cap_slot_push ti wr (cap_slot_push ti rd s))
      | Some (frd, s) \<Rightarrow>
     (case cap_slot_pop ti s of
        None \<Rightarrow> (None, cap_slot_push ti frd (cap_slot_push ti wr (cap_slot_push ti rd s)))
      | Some (fwr, s) \<Rightarrow>
          (Some (rd, wr, frd, fwr),
           set_slot ti fwr (chan_w_word obj_id) (set_slot ti frd (chan_r_word obj_id)
             (set_slot ti wr (chan_w_word obj_id) (set_slot ti rd (chan_r_word obj_id) s))))))))"

text \<open>Slots and words: the far table first, then the caller's table.\<close>

definition chan_slots ::
  "nat option \<Rightarrow> nat \<Rightarrow> nat \<Rightarrow> cap_state \<Rightarrow> (nat \<times> nat \<times> nat \<times> nat) option \<times> cap_state" where
  "chan_slots fti ti obj_id s =
     (case fti of
        None \<Rightarrow> chan_four_slots ti obj_id s
      | Some fti \<Rightarrow>
          (case chan_two_slots fti obj_id s of
             (None, s) \<Rightarrow> (None, s)
           | (Some (frd, fwr), s) \<Rightarrow>
               (case chan_two_slots ti obj_id s of
                  (None, s) \<Rightarrow> (None, s)
                | (Some (rd, wr), s) \<Rightarrow> (Some (rd, wr, frd, fwr), s))))"

definition chan_rollback :: "nat \<Rightarrow> nat \<Rightarrow> nat \<Rightarrow> nat \<Rightarrow> cap_state \<Rightarrow> cap_state" where
  "chan_rollback obj_id chan_id pid far_holder_pid s =
     upd_channel chan_id (\<lambda>ch. ch\<lparr>c_active := False\<rparr>)
       (cap_object_destroy obj_id
         (cap_holder_remove obj_id HOLDER_SLOT far_holder_pid 3
         (cap_holder_remove obj_id HOLDER_SLOT far_holder_pid 2
         (cap_holder_remove obj_id HOLDER_SLOT pid 1
         (cap_holder_remove obj_id HOLDER_SLOT pid 0 s)))))"

definition chan_stitch :: "nat \<times> nat \<times> nat \<times> nat \<Rightarrow> nat \<times> nat \<times> nat \<times> nat \<Rightarrow> cap_state \<Rightarrow> cap_state" where
  "chan_stitch hs refs s =
     (case (hs, refs) of ((h1, h2, h3, h4), (rd, wr, frd, fwr)) \<Rightarrow>
        upd_holder h4 (\<lambda>n. n\<lparr>h_ref := fwr\<rparr>) (upd_holder h3 (\<lambda>n. n\<lparr>h_ref := frd\<rparr>)
          (upd_holder h2 (\<lambda>n. n\<lparr>h_ref := wr\<rparr>) (upd_holder h1 (\<lambda>n. n\<lparr>h_ref := rd\<rparr>) s))))"

text \<open>From the staged nodes to the published ends.\<close>

definition chan_provision ::
  "nat option \<Rightarrow> nat \<Rightarrow> nat \<Rightarrow> nat \<Rightarrow> nat \<Rightarrow> nat \<Rightarrow> cap_state \<Rightarrow> (nat \<times> nat \<times> nat \<times> nat) res \<times> cap_state" where
  "chan_provision fti ti obj_id chan_id pid far_holder_pid s =
     (case chan_stage_holders obj_id pid far_holder_pid s of
        (None, s) \<Rightarrow> (Err ENOMEM, cap_object_destroy obj_id s)
      | (Some (h1, h2, h3, h4), s) \<Rightarrow>
          let s = cap_holder_link h4 obj_id (cap_holder_link h3 obj_id
                    (cap_holder_link h2 obj_id (cap_holder_link h1 obj_id s)))
          in case chan_slots fti ti obj_id s of
               (None, s) \<Rightarrow> (Err ETABLEFULL, chan_rollback obj_id chan_id pid far_holder_pid s)
             | (Some refs, s) \<Rightarrow> (Ok refs, chan_stitch (h1, h2, h3, h4) refs s))"

text \<open>The result names the slots \<open>(rd, wr, far_rd, far_wr)\<close>.\<close>

definition cap_chan_create ::
  "nat \<Rightarrow> nat \<Rightarrow> cap_state \<Rightarrow> (nat \<times> nat \<times> nat \<times> nat) res \<times> cap_state" where
  "cap_chan_create pid far_pid s =
     (case cap_table_index pid s of
        (None, s) \<Rightarrow> (Err ETABLEFULL, s)
      | (Some ti, s) \<Rightarrow>
     (case (if far_pid \<noteq> 0 \<and> far_pid \<noteq> pid then cap_table_index far_pid s else (None, s)) of (fti, s) \<Rightarrow>
      if far_pid \<noteq> 0 \<and> far_pid \<noteq> pid \<and> fti = None then (Err ETABLEFULL, s)
      else case cap_chan_id_take s of
        (None, s) \<Rightarrow> (Err ENOMEM, s)
      | (Some chan_id, s) \<Rightarrow>
          let s = upd_channel chan_id (chan_reset pid far_pid) s
          in case cap_object_alloc KIND_CHAN s of
               None \<Rightarrow> (Err ENOMEM, upd_channel chan_id (\<lambda>ch. ch\<lparr>c_active := False\<rparr>) (cap_chan_id_put chan_id s))
             | Some (obj_id, s) \<Rightarrow>
                 chan_provision fti ti obj_id chan_id (u16 pid)
                   (if far_pid \<noteq> 0 then u16 far_pid else u16 pid)
                   (upd_object obj_id (\<lambda>ob. ob\<lparr>o_chan_id := u16 chan_id\<rparr>) s)))"

section \<open>Staging and linking four nodes\<close>

lemma stage_Some:
  assumes rep: "holders_rep s HL FL {}" and st: "chan_stage_holders ob p fp s = (Some (h1, h2, h3, h4), s')"
  shows "\<exists>FL'. holders_rep s' HL FL' {h1, h2, h3, h4}" and "distinct [h1, h2, h3, h4]"
    and "staged s' h1 ob (HOLDER_SLOT, p, 0, 0)" and "staged s' h2 ob (HOLDER_SLOT, p, 1, 0)"
    and "staged s' h3 ob (HOLDER_SLOT, fp, 2, 0)" and "staged s' h4 ob (HOLDER_SLOT, fp, 3, 0)"
    and "holder_only s s'" and "h \<notin> {h1, h2, h3, h4} \<Longrightarrow> cap_holders s' h = cap_holders s h"
proof -
  obtain s1 s2 s3 where a1: "cap_holder_alloc ob HOLDER_SLOT p 0 0 s = Some (h1, s1)"
    and a2: "cap_holder_alloc ob HOLDER_SLOT p 1 0 s1 = Some (h2, s2)"
    and a3: "cap_holder_alloc ob HOLDER_SLOT fp 2 0 s2 = Some (h3, s3)"
    and a4: "cap_holder_alloc ob HOLDER_SLOT fp 3 0 s3 = Some (h4, s')"
    using st by (auto simp: chan_stage_holders_def split: option.splits)
  obtain F1 where r1: "holders_rep s1 HL F1 {h1}"
    using cap_holder_alloc_rep [OF rep a1] by metis
  obtain F2 where r2: "holders_rep s2 HL F2 {h2, h1}" and d2: "h2 \<notin> {h1}"
    using cap_holder_alloc_rep [OF r1 a2] by metis
  obtain F3 where r3: "holders_rep s3 HL F3 {h3, h2, h1}" and d3: "h3 \<notin> {h2, h1}"
    using cap_holder_alloc_rep [OF r2 a3] by metis
  obtain F4 where r4: "holders_rep s' HL F4 {h4, h3, h2, h1}" and d4: "h4 \<notin> {h3, h2, h1}"
    using cap_holder_alloc_rep [OF r3 a4] by metis
  have set: "{h4, h3, h2, h1} = {h1, h2, h3, h4}"
    by auto
  show "\<exists>FL'. holders_rep s' HL FL' {h1, h2, h3, h4}"
    using r4 unfolding set by blast
  show "distinct [h1, h2, h3, h4]"
    using d2 d3 d4 by auto
  show "staged s' h1 ob (HOLDER_SLOT, p, 0, 0)" "staged s' h2 ob (HOLDER_SLOT, p, 1, 0)"
    "staged s' h3 ob (HOLDER_SLOT, fp, 2, 0)" "staged s' h4 ob (HOLDER_SLOT, fp, 3, 0)"
    using alloc_staged(1) [OF rep a1] alloc_staged(1) [OF r1 a2] alloc_staged(1) [OF r2 a3]
      alloc_staged(1) [OF r3 a4] alloc_staged(2) [OF r1 a2, of h1] alloc_staged(2) [OF r2 a3]
      alloc_staged(2) [OF r3 a4] by simp_all
  show "holder_only s s'"
    using cap_holder_alloc_only [OF a1] cap_holder_alloc_only [OF a2] cap_holder_alloc_only [OF a3]
      cap_holder_alloc_only [OF a4] by (blast intro: holder_only_trans)
  show "h \<notin> {h1, h2, h3, h4} \<Longrightarrow> cap_holders s' h = cap_holders s h"
    using cap_holder_alloc_fields(1) [OF a1] cap_holder_alloc_fields(1) [OF a2] cap_holder_alloc_fields(1) [OF a3]
      cap_holder_alloc_fields(1) [OF a4] by simp
qed

lemma stage_None:
  assumes rep: "cap_rep X s R {} n" and st: "chan_stage_holders ob p fp s = (None, s')"
  shows "cap_rep X s' R {} n" and "holder_only s s'"
proof -
  have "cap_rep X s' R {} n \<and> holder_only s s'"
  proof (cases "cap_holder_alloc ob HOLDER_SLOT p 0 0 s")
    case None
    then show ?thesis
      using st rep by (simp add: chan_stage_holders_def holder_only_refl)
  next
    case (Some x)
    then obtain h1 s1 where a1: "cap_holder_alloc ob HOLDER_SLOT p 0 0 s = Some (h1, s1)"
      by (cases x) auto
    have r1: "cap_rep X s1 R {h1} (n - 1)" and n1: "n > 0"
      using cap_rep_alloc [OF rep a1] refs_alloc(1) [OF cap_repD(2) [OF rep] a1] by simp_all
    note o1 = cap_holder_alloc_only [OF a1]
    show ?thesis
    proof (cases "cap_holder_alloc ob HOLDER_SLOT p 1 0 s1")
      case None
      then have "s' = cap_holder_free h1 s1"
        using st a1 by (simp add: chan_stage_holders_def)
      then show ?thesis
        using cap_rep_free [OF r1, of h1] n1 holder_only_trans [OF o1 cap_holder_free_only] by simp
    next
      case (Some x)
      then obtain h2 s2 where a2: "cap_holder_alloc ob HOLDER_SLOT p 1 0 s1 = Some (h2, s2)"
        by (cases x) auto
      have r2: "cap_rep X s2 R {h2, h1} (n - 2)" and n2: "n > 1" and d2: "h2 \<noteq> h1"
        using cap_rep_alloc [OF r1 a2] refs_alloc(1,3) [OF cap_repD(2) [OF r1] a2]
        by (simp_all add: numeral_2_eq_2)
      note o2 = holder_only_trans [OF o1 cap_holder_alloc_only [OF a2]]
      have f1: "cap_rep X (cap_holder_free h1 s2) R {h2} (n - 1)"
      proof -
        have "Suc (n - 2) = n - 1"
          using n2 by simp
        then show ?thesis
          using cap_rep_free [OF r2, of h1] d2 by (simp add: insert_Diff_if)
      qed
      show ?thesis
      proof (cases "cap_holder_alloc ob HOLDER_SLOT fp 2 0 s2")
        case None
        then have "s' = cap_holder_free h2 (cap_holder_free h1 s2)"
          using st a1 a2 by (simp add: chan_stage_holders_def)
        then show ?thesis
          using cap_rep_free [OF f1, of h2] n1
            holder_only_trans [OF holder_only_trans [OF o2 cap_holder_free_only] cap_holder_free_only] by simp
      next
        case (Some x)
        then obtain h3 s3 where a3: "cap_holder_alloc ob HOLDER_SLOT fp 2 0 s2 = Some (h3, s3)"
          by (cases x) auto
        have r3: "cap_rep X s3 R {h3, h2, h1} (n - 3)" and n3: "n > 2" and d3: "h3 \<noteq> h1" "h3 \<noteq> h2"
          using cap_rep_alloc [OF r2 a3] refs_alloc(1,3) [OF cap_repD(2) [OF r2] a3] n2
          by (simp_all add: numeral_3_eq_3 numeral_2_eq_2)
        note o3 = holder_only_trans [OF o2 cap_holder_alloc_only [OF a3]]
        have "{h3, h2, h1} - {h1} = {h3, h2}" "{h3, h2} - {h2} = {h3}" "{h3} - {h3} = {}"
          using d2 d3 by auto
        then have "cap_rep X (cap_holder_free h3 (cap_holder_free h2 (cap_holder_free h1 s3))) R {} (Suc (Suc (Suc (n - 3))))"
          using cap_rep_free [OF cap_rep_free [OF cap_rep_free [OF r3, of h1], of h2], of h3] d2 d3 by simp
        moreover have "Suc (Suc (Suc (n - 3))) = n"
          using n3 by simp
        moreover have "s' = cap_holder_free h3 (cap_holder_free h2 (cap_holder_free h1 s3))"
          using st a1 a2 a3 by (simp add: chan_stage_holders_def split: option.splits prod.splits)
        moreover have "holder_only s (cap_holder_free h3 (cap_holder_free h2 (cap_holder_free h1 s3)))"
          using o3 by (blast intro: holder_only_trans cap_holder_free_only)
        ultimately show ?thesis
          by simp
      qed
    qed
  qed
  then show "cap_rep X s' R {} n" "holder_only s s'"
    by auto
qed

lemma link_four:
  assumes rep: "holders_rep s HL FL {h1, h2, h3, h4}" and d: "distinct [h1, h2, h3, h4]"
    and st: "staged s h1 ob x1" "staged s h2 ob x2" "staged s h3 ob x3" "staged s h4 ob x4"
    and ob: "ob < cap_obj_next s" and nil: "HL ob = []"
  defines "s' \<equiv> cap_holder_link h4 ob (cap_holder_link h3 ob (cap_holder_link h2 ob (cap_holder_link h1 ob s)))"
  shows "holders_rep s' (HL(ob := [h4, h3, h2, h1])) FL {}"
    and "hdata (cap_holders s' h) = hdata (cap_holders s h)" and "holder_only s s'"
proof -
  have one: "holders_rep (cap_holder_link h ob s) (HL(ob := h # HL ob)) FL (P - {h})"
    if "holders_rep s HL FL P" "h \<in> P" "ob < cap_obj_next s" "staged s h ob x" for s HL FL P h x
    using cap_holder_link_rep [OF that(1,3,2)] that(4) by (simp add: staged_def)
  let ?s1 = "cap_holder_link h1 ob s"
  let ?s2 = "cap_holder_link h2 ob ?s1"
  let ?s3 = "cap_holder_link h3 ob ?s2"
  have r1: "holders_rep ?s1 (HL(ob := [h1])) FL {h2, h3, h4}"
    using one [OF rep _ ob st(1)] nil d by (simp add: insert_Diff_if)
  have st1: "staged ?s1 h2 ob x2" "staged ?s1 h3 ob x3" "staged ?s1 h4 ob x4"
    using d st by (auto intro!: link_staged [OF rep ob])
  have r2: "holders_rep ?s2 (HL(ob := [h2, h1])) FL {h3, h4}"
    using one [OF r1 _ _ st1(1)] ob d by (simp add: insert_Diff_if)
  have st2: "staged ?s2 h3 ob x3" "staged ?s2 h4 ob x4"
    using d st1 ob by (auto intro!: link_staged [OF r1])
  have r3: "holders_rep ?s3 (HL(ob := [h3, h2, h1])) FL {h4}"
    using one [OF r2 _ _ st2(1)] ob d by (simp add: insert_Diff_if)
  have st3: "staged ?s3 h4 ob x4"
    using d st2 ob by (auto intro!: link_staged [OF r2])
  show "holders_rep s' (HL(ob := [h4, h3, h2, h1])) FL {}"
    using one [OF r3 _ _ st3] ob by (simp add: s'_def)
  show "hdata (cap_holders s' h) = hdata (cap_holders s h)"
    by (simp add: s'_def hdata_def cap_holder_link_data)
  show "holder_only s s'"
    unfolding s'_def by (blast intro: holder_only_trans cap_holder_link_only)
qed

text \<open>Writing slot numbers into linked nodes changes the references and nothing else.\<close>

lemma stitch_rep:
  fixes rd wr frd fwr h1 h2 h3 h4 :: nat
  assumes rep: "holders_rep s HL FL {}" and HL: "HL ob = [h4, h3, h2, h1]"
  defines "s' \<equiv> chan_stitch (h1, h2, h3, h4) (rd, wr, frd, fwr) s"
  shows "holders_rep s' HL FL {}" and "holder_only s s'"
    and "h \<notin> {h1, h2, h3, h4} \<Longrightarrow> cap_holders s' h = cap_holders s h"
    and "h_ref (cap_holders s' h1) = rd" "h_ref (cap_holders s' h2) = wr"
      "h_ref (cap_holders s' h3) = frd" "h_ref (cap_holders s' h4) = fwr"
    and "h_kind (cap_holders s' h) = h_kind (cap_holders s h)" "h_pid (cap_holders s' h) = h_pid (cap_holders s h)"
      "h_qdir (cap_holders s' h) = h_qdir (cap_holders s h)"
proof -
  have d: "distinct [h4, h3, h2, h1]"
    using node_partitionD(2) [OF holders_repD(2) [OF rep], of ob] HL by simp
  show only: "holder_only s s'"
    unfolding s'_def chan_stitch_def by (auto intro!: holder_only_trans [OF _ upd_holder_only] upd_holder_only)
  have same: "h_next (cap_holders s' x) = h_next (cap_holders s x)" "h_prev (cap_holders s' x) = h_prev (cap_holders s x)"
    "h_obj_id (cap_holders s' x) = h_obj_id (cap_holders s x)" "h_active (cap_holders s' x) = h_active (cap_holders s x)"
    "h_kind (cap_holders s' x) = h_kind (cap_holders s x)" "h_pid (cap_holders s' x) = h_pid (cap_holders s x)"
    "h_qdir (cap_holders s' x) = h_qdir (cap_holders s x)" for x
    by (simp_all add: s'_def chan_stitch_def upd_holder_def)
  show "h_kind (cap_holders s' h) = h_kind (cap_holders s h)" "h_pid (cap_holders s' h) = h_pid (cap_holders s h)"
      "h_qdir (cap_holders s' h) = h_qdir (cap_holders s h)"
    by (rule same)+
  have objs: "cap_objects s' = cap_objects s" "cap_holder_free_head s' = cap_holder_free_head s" "cap_obj_next s' = cap_obj_next s"
    by (simp_all add: s'_def chan_stitch_def upd_holder_def)
  have "hf.freelist s' FL"
    using holders_repD(1) [OF rep] objs(2) by (rule hf_freelist_nodes) (simp add: same)
  moreover have "object_list s' o' xs" if "object_list s o' xs" for o' xs
    using that hseg_cong [of xs "cap_holders s'" "cap_holders s"] by (simp add: object_list_def objs same)
  ultimately show "holders_rep s' HL FL {}"
    using rep by (simp add: holders_rep_def objs)
  show "h \<notin> {h1, h2, h3, h4} \<Longrightarrow> cap_holders s' h = cap_holders s h"
    "h_ref (cap_holders s' h1) = rd" "h_ref (cap_holders s' h2) = wr"
      "h_ref (cap_holders s' h3) = frd" "h_ref (cap_holders s' h4) = fwr"
    using d by (simp_all add: s'_def chan_stitch_def upd_holder_def)
qed

section \<open>Several slots at once\<close>

text \<open>
  \<open>table_part t Y\<close>: the slots \<open>Y\<close> have been taken off the free list and are neither
  filled nor returned.
\<close>

definition table_part :: "CapTable \<Rightarrow> nat set \<Rightarrow> bool" where
  "table_part t Y \<longleftrightarrow> (\<exists>xs. sf.freelist t xs \<and> set xs \<inter> Y = {} \<and> Y \<subseteq> {..<CAP_TABLE_ENTRIES} \<and>
     (\<forall>i < CAP_TABLE_ENTRIES. i \<in> set xs \<union> Y \<longleftrightarrow> cap_word_type (t_slots t i) = CAP_TYPE_NONE))"

lemma table_part_empty: "table_part t {} \<longleftrightarrow> table_wf t"
  by (simp add: table_part_def table_wf_def table_rep_def)

lemma pop_part:
  assumes "table_part t Y" and pop: "slot_pop t = Some (idx, t')"
  shows "table_part t' (insert idx Y)" and "idx \<notin> Y" and "idx < CAP_TABLE_ENTRIES"
    and "t_slots t' = (t_slots t)(idx := 0)" and "t_pid t' = t_pid t"
    and "cap_word_type (t_slots t idx) = CAP_TYPE_NONE"
proof -
  obtain xs where xs: "sf.freelist t xs" "set xs \<inter> Y = {}" "Y \<subseteq> {..<CAP_TABLE_ENTRIES}"
    "\<And>i. i < CAP_TABLE_ENTRIES \<Longrightarrow> i \<in> set xs \<union> Y \<longleftrightarrow> cap_word_type (t_slots t i) = CAP_TYPE_NONE"
    using assms(1) by (auto simp: table_part_def)
  obtain ys where ys: "xs = idx # ys" "sf.freelist t' ys"
    using sf.pop_Some [OF xs(1) pop] by blast
  show idx: "idx < CAP_TABLE_ENTRIES"
    using xs(1) ys(1) by (auto simp: sf.freelist_def)
  show slots: "t_slots t' = (t_slots t)(idx := 0)" "t_pid t' = t_pid t"
    using pop by (auto simp: slot_pop_def Let_def split: if_splits)
  show "idx \<notin> Y" "cap_word_type (t_slots t idx) = CAP_TYPE_NONE"
    using xs(2) xs(4) [OF idx] ys(1) by auto
  have "idx \<notin> set ys"
    using sf.freelist_distinct [OF xs(1)] ys(1) by simp
  then show "table_part t' (insert idx Y)"
    unfolding table_part_def using xs(2-4) ys idx by (intro exI [of _ ys]) (auto simp: slots)
qed

lemma push_part:
  assumes "table_part t Y" and idx: "idx \<in> Y"
  shows "table_part (slot_push idx t) (Y - {idx})"
    and "cap_word_type (t_slots (slot_push idx t) i) = (if i = idx then CAP_TYPE_NONE else cap_word_type (t_slots t i))"
proof -
  obtain xs where xs: "sf.freelist t xs" "set xs \<inter> Y = {}" "Y \<subseteq> {..<CAP_TABLE_ENTRIES}"
    "\<And>i. i < CAP_TABLE_ENTRIES \<Longrightarrow> i \<in> set xs \<union> Y \<longleftrightarrow> cap_word_type (t_slots t i) = CAP_TYPE_NONE"
    using assms(1) by (auto simp: table_part_def)
  have hd: "t_freelist_head t \<le> CAP_FREELIST_END"
    using xs(1) by (rule sf.freelist_head)
  show ty: "cap_word_type (t_slots (slot_push idx t) i) = (if i = idx then CAP_TYPE_NONE else cap_word_type (t_slots t i))" for i
    using hd by (simp add: slot_push_def word_fields)
  have fl: "sf.freelist (slot_push idx t) (idx # xs)"
    using xs idx by (intro sf.push_Cons) auto
  show "table_part (slot_push idx t) (Y - {idx})"
    unfolding table_part_def ty using xs fl idx by (intro exI [of _ "idx # xs"]) auto
qed

lemma fill_part:
  assumes "table_part t Y" and idx: "idx \<in> Y" and w: "cap_word_type w \<noteq> CAP_TYPE_NONE"
  shows "table_part (t\<lparr>t_slots := (t_slots t)(idx := w)\<rparr>) (Y - {idx})"
proof -
  obtain xs where xs: "sf.freelist t xs" "set xs \<inter> Y = {}" "Y \<subseteq> {..<CAP_TABLE_ENTRIES}"
    "\<And>i. i < CAP_TABLE_ENTRIES \<Longrightarrow> i \<in> set xs \<union> Y \<longleftrightarrow> cap_word_type (t_slots t i) = CAP_TYPE_NONE"
    using assms(1) by (auto simp: table_part_def)
  have "sf.freelist (t\<lparr>t_slots := (t_slots t)(idx := w)\<rparr>) xs"
    using xs(1) by (rule sf_freelist_slots) (use xs(2) idx in auto)
  then show ?thesis
    unfolding table_part_def using xs idx w by (intro exI [of _ xs]) auto
qed

lemma cap_at_table:
  assumes inv: "tabs_inv s" and fnd: "cap_table_find p s = Some ti"
    and s': "cap_tables s' = (cap_tables s)(ti := t')" "cap_table_pid s' = cap_table_pid s"
  shows "cap_at s' = (cap_at s)(p := (\<lambda>r. if r < CAP_TABLE_ENTRIES \<and> cap_word_type (t_slots t' r) \<noteq> CAP_TYPE_NONE
           then Some (t_slots t' r) else None))"
proof (rule ext, rule ext)
  fix q r
  have find': "cap_table_find q s' = cap_table_find q s" for q
    using s'(2) by (rule cap_table_find_cong)
  show "cap_at s' q r = ((cap_at s)(p := (\<lambda>r. if r < CAP_TABLE_ENTRIES \<and> cap_word_type (t_slots t' r) \<noteq> CAP_TYPE_NONE
           then Some (t_slots t' r) else None))) q r"
  proof (cases "q = p")
    case True
    then show ?thesis
      using fnd by (simp add: cap_at_def find' s'(1))
  next
    case False
    then have "tj \<noteq> ti" if "cap_table_find q s = Some tj" for tj
      using table_find_inj [OF inv fnd] that by blast
    with False show ?thesis
      by (simp add: cap_at_def find' s'(1) split: option.splits)
  qed
qed

text \<open>A table whose slots kept their words or stayed free.\<close>

lemma table_same_caps:
  assumes inv: "tabs_inv s" and fnd: "cap_table_find p s = Some ti"
    and s': "cap_tables s' = (cap_tables s)(ti := t')" "cap_table_pid s' = cap_table_pid s"
    and t': "table_part t' {}" "t_pid t' = t_pid (cap_tables s ti)"
    and same: "\<And>r. cap_word_type (t_slots t' r) \<noteq> CAP_TYPE_NONE \<or> cap_word_type (slot_word s ti r) \<noteq> CAP_TYPE_NONE \<Longrightarrow>
      t_slots t' r = slot_word s ti r"
  shows "tabs_inv s'" and "cap_at s' = cap_at s"
proof -
  show "tabs_inv s'"
    using inv fnd s' t'(1) [unfolded table_part_empty] t'(2) by (rule tabs_inv_upd)
  have "cap_at s' p r = cap_at s p r" for r
  proof (cases "cap_word_type (t_slots t' r) = CAP_TYPE_NONE \<and> cap_word_type (slot_word s ti r) = CAP_TYPE_NONE")
    case True
    then show ?thesis
      using fnd by (simp add: cap_at_table [OF inv fnd s']) (simp add: cap_at_def)
  next
    case False
    then have "t_slots t' r = slot_word s ti r"
      by (intro same) auto
    then show ?thesis
      using fnd by (simp add: cap_at_table [OF inv fnd s']) (simp add: cap_at_def)
  qed
  then show "cap_at s' = cap_at s"
    by (auto simp: cap_at_table [OF inv fnd s'] fun_eq_iff)
qed

text \<open>Taking two or four slots either fills them or leaves the capability space as it was.\<close>

lemma cap_slot_pop_Some:
  assumes "cap_slot_pop ti s = Some (idx, s')"
  obtains t' where "slot_pop (cap_tables s ti) = Some (idx, t')" and "s' = s\<lparr>cap_tables := (cap_tables s)(ti := t')\<rparr>"
  using assms by (auto simp: cap_slot_pop_def upd_table_def split: option.splits)

lemma table_part_init: "tabs_inv s \<Longrightarrow> cap_table_find p s = Some ti \<Longrightarrow> table_part (cap_tables s ti) {}"
  using tabs_invD(2) table_find_bound by (simp add: table_part_empty)

definition put_cap ::
  "nat \<Rightarrow> nat \<Rightarrow> 64 word \<Rightarrow> (nat \<Rightarrow> nat \<Rightarrow> 64 word option) \<Rightarrow> nat \<Rightarrow> nat \<Rightarrow> 64 word option" where
  "put_cap p r w C = C(p := (C p)(r := Some w))"

lemma two_slots_Some:
  assumes inv: "tabs_inv s" and fnd: "cap_table_find p s = Some ti"
    and two: "chan_two_slots ti ob s = (Some (rd, wr), s')"
    and w: "cap_word_type (chan_r_word ob) \<noteq> CAP_TYPE_NONE" "cap_word_type (chan_w_word ob) \<noteq> CAP_TYPE_NONE"
  shows "tabs_inv s'" and "cap_at s' = put_cap p wr (chan_w_word ob) (put_cap p rd (chan_r_word ob) (cap_at s))"
    and "cap_at s p rd = None" and "cap_at s p wr = None" and "rd \<noteq> wr"
    and "s' = s\<lparr>cap_tables := cap_tables s'\<rparr>"
proof -
  obtain s1 s2 where p1: "cap_slot_pop ti s = Some (rd, s1)" and p2: "cap_slot_pop ti s1 = Some (wr, s2)"
    and s': "s' = set_slot ti wr (chan_w_word ob) (set_slot ti rd (chan_r_word ob) s2)"
    using two by (auto simp: chan_two_slots_def split: option.splits)
  obtain t1 where t1: "slot_pop (cap_tables s ti) = Some (rd, t1)" and s1: "s1 = s\<lparr>cap_tables := (cap_tables s)(ti := t1)\<rparr>"
    using p1 by (rule cap_slot_pop_Some)
  obtain t2 where t2: "slot_pop t1 = Some (wr, t2)" and s2: "s2 = s\<lparr>cap_tables := (cap_tables s)(ti := t2)\<rparr>"
    using p2 by (rule cap_slot_pop_Some) (simp add: s1)
  note a1 = pop_part [OF table_part_init [OF inv fnd] t1] and a2 = pop_part [OF a1(1) t2]
  let ?ta = "t2\<lparr>t_slots := (t_slots t2)(rd := chan_r_word ob)\<rparr>"
  let ?tb = "?ta\<lparr>t_slots := (t_slots ?ta)(wr := chan_w_word ob)\<rparr>"
  have f1: "table_part ?ta {wr}"
    using fill_part [OF a2(1) _ w(1), of rd] a2(2) by (simp add: insert_Diff_if)
  have f2: "table_part ?tb {}"
    using fill_part [OF f1 _ w(2), of wr] by simp
  have tabs: "cap_tables s' = (cap_tables s)(ti := ?tb)" "cap_table_pid s' = cap_table_pid s"
    by (simp_all add: s' s2 set_slot_def upd_table_def)
  have pid: "t_pid ?tb = t_pid (cap_tables s ti)"
    using a1(5) a2(5) by simp
  show "tabs_inv s'"
    using inv fnd tabs f2 [unfolded table_part_empty] pid by (rule tabs_inv_upd)
  show ne: "rd \<noteq> wr"
    using a2(2) by auto
  show "cap_at s p rd = None" "cap_at s p wr = None"
    using a1(4,6) a2(6) fnd by (auto simp: cap_at_def split: if_splits)
  have slots: "t_slots ?tb = (t_slots (cap_tables s ti))(rd := chan_r_word ob, wr := chan_w_word ob)"
    using a1(4) a2(4) by (auto simp: fun_eq_iff)
  show "cap_at s' = put_cap p wr (chan_w_word ob) (put_cap p rd (chan_r_word ob) (cap_at s))"
    unfolding cap_at_table [OF inv fnd tabs] slots
    using a1(3) a2(3) w fnd ne by (auto simp: fun_eq_iff put_cap_def cap_at_def)
  show "s' = s\<lparr>cap_tables := cap_tables s'\<rparr>"
    by (simp add: s' s2 set_slot_def upd_table_def)
qed

lemma two_slots_None:
  assumes inv: "tabs_inv s" and fnd: "cap_table_find p s = Some ti"
    and two: "chan_two_slots ti ob s = (None, s')"
  shows "tabs_inv s'" and "cap_at s' = cap_at s" and "s' = s\<lparr>cap_tables := cap_tables s'\<rparr>"
proof -
  have "tabs_inv s' \<and> cap_at s' = cap_at s \<and> s' = s\<lparr>cap_tables := cap_tables s'\<rparr>"
  proof (cases "cap_slot_pop ti s")
    case None
    then show ?thesis
      using two inv by (simp add: chan_two_slots_def)
  next
    case (Some x)
    then obtain rd s1 where p1: "cap_slot_pop ti s = Some (rd, s1)"
      by (cases x) auto
    then have s': "s' = cap_slot_push ti rd s1"
      using two by (auto simp: chan_two_slots_def split: option.splits)
    obtain t1 where "s1 = s\<lparr>cap_tables := (cap_tables s)(ti := t1)\<rparr>"
      using p1 by (rule cap_slot_pop_Some)
    then have "s' = s\<lparr>cap_tables := cap_tables s'\<rparr>"
      by (simp add: s' cap_slot_push_def upd_table_def)
    with slot_return [OF inv fnd p1 refl refl] show ?thesis
      by (simp add: s')
  qed
  then show "tabs_inv s'" "cap_at s' = cap_at s" "s' = s\<lparr>cap_tables := cap_tables s'\<rparr>"
    by auto
qed

lemma four_slots_Some:
  assumes inv: "tabs_inv s" and fnd: "cap_table_find p s = Some ti"
    and four: "chan_four_slots ti ob s = (Some (rd, wr, frd, fwr), s')"
    and w: "cap_word_type (chan_r_word ob) \<noteq> CAP_TYPE_NONE" "cap_word_type (chan_w_word ob) \<noteq> CAP_TYPE_NONE"
  shows "tabs_inv s'"
    and "cap_at s' = put_cap p fwr (chan_w_word ob) (put_cap p frd (chan_r_word ob)
           (put_cap p wr (chan_w_word ob) (put_cap p rd (chan_r_word ob) (cap_at s))))"
    and "cap_at s p rd = None" and "cap_at s p wr = None" and "cap_at s p frd = None" and "cap_at s p fwr = None"
    and "distinct [rd, wr, frd, fwr]" and "s' = s\<lparr>cap_tables := cap_tables s'\<rparr>"
proof -
  obtain s1 s2 s3 s4 where p1: "cap_slot_pop ti s = Some (rd, s1)" and p2: "cap_slot_pop ti s1 = Some (wr, s2)"
    and p3: "cap_slot_pop ti s2 = Some (frd, s3)" and p4: "cap_slot_pop ti s3 = Some (fwr, s4)"
    and s': "s' = set_slot ti fwr (chan_w_word ob) (set_slot ti frd (chan_r_word ob)
        (set_slot ti wr (chan_w_word ob) (set_slot ti rd (chan_r_word ob) s4)))"
    using four by (auto simp: chan_four_slots_def split: option.splits)
  obtain t1 where t1: "slot_pop (cap_tables s ti) = Some (rd, t1)" and s1: "s1 = s\<lparr>cap_tables := (cap_tables s)(ti := t1)\<rparr>"
    using p1 by (rule cap_slot_pop_Some)
  obtain t2 where t2: "slot_pop t1 = Some (wr, t2)" and s2: "s2 = s\<lparr>cap_tables := (cap_tables s)(ti := t2)\<rparr>"
    using p2 by (rule cap_slot_pop_Some) (simp add: s1)
  obtain t3 where t3: "slot_pop t2 = Some (frd, t3)" and s3: "s3 = s\<lparr>cap_tables := (cap_tables s)(ti := t3)\<rparr>"
    using p3 by (rule cap_slot_pop_Some) (simp add: s2)
  obtain t4 where t4: "slot_pop t3 = Some (fwr, t4)" and s4: "s4 = s\<lparr>cap_tables := (cap_tables s)(ti := t4)\<rparr>"
    using p4 by (rule cap_slot_pop_Some) (simp add: s3)
  note a1 = pop_part [OF table_part_init [OF inv fnd] t1]
  note a2 = pop_part [OF a1(1) t2]
  note a3 = pop_part [OF a2(1) t3]
  note a4 = pop_part [OF a3(1) t4]
  show ne: "distinct [rd, wr, frd, fwr]"
    using a2(2) a3(2) a4(2) by auto
  let ?ta = "t4\<lparr>t_slots := (t_slots t4)(rd := chan_r_word ob)\<rparr>"
  let ?tb = "?ta\<lparr>t_slots := (t_slots ?ta)(wr := chan_w_word ob)\<rparr>"
  let ?tc = "?tb\<lparr>t_slots := (t_slots ?tb)(frd := chan_r_word ob)\<rparr>"
  let ?td = "?tc\<lparr>t_slots := (t_slots ?tc)(fwr := chan_w_word ob)\<rparr>"
  have f1: "table_part ?ta {fwr, frd, wr}"
    using fill_part [OF a4(1) _ w(1), of rd] ne by (simp add: insert_Diff_if)
  have f2: "table_part ?tb {fwr, frd}"
    using fill_part [OF f1 _ w(2), of wr] ne by (simp add: insert_Diff_if)
  have f3: "table_part ?tc {fwr}"
    using fill_part [OF f2 _ w(1), of frd] ne by (simp add: insert_Diff_if)
  have f4: "table_part ?td {}"
    using fill_part [OF f3 _ w(2), of fwr] by simp
  have tabs: "cap_tables s' = (cap_tables s)(ti := ?td)" "cap_table_pid s' = cap_table_pid s"
    by (simp_all add: s' s4 set_slot_def upd_table_def)
  have pid: "t_pid ?td = t_pid (cap_tables s ti)"
    using a1(5) a2(5) a3(5) a4(5) by simp
  show "tabs_inv s'"
    using inv fnd tabs f4 [unfolded table_part_empty] pid by (rule tabs_inv_upd)
  show "cap_at s p rd = None" "cap_at s p wr = None" "cap_at s p frd = None" "cap_at s p fwr = None"
    using a1(4,6) a2(4,6) a3(4,6) a4(6) fnd ne by (simp_all add: cap_at_def)
  have slots: "t_slots ?td = (t_slots (cap_tables s ti))(rd := chan_r_word ob, wr := chan_w_word ob,
      frd := chan_r_word ob, fwr := chan_w_word ob)"
    using a1(4) a2(4) a3(4) a4(4) by (auto simp: fun_eq_iff)
  show "cap_at s' = put_cap p fwr (chan_w_word ob) (put_cap p frd (chan_r_word ob)
           (put_cap p wr (chan_w_word ob) (put_cap p rd (chan_r_word ob) (cap_at s))))"
    unfolding cap_at_table [OF inv fnd tabs] slots
    using a1(3) a2(3) a3(3) a4(3) w fnd by (auto simp: fun_eq_iff put_cap_def cap_at_def)
  show "s' = s\<lparr>cap_tables := cap_tables s'\<rparr>"
    by (simp add: s' s4 set_slot_def upd_table_def)
qed

lemma push_list:
  assumes "table_part t (set ys)" and "distinct ys"
  shows "table_part (foldl (\<lambda>t i. slot_push i t) t ys) {} \<and>
    (\<forall>i. i \<notin> set ys \<longrightarrow> t_slots (foldl (\<lambda>t i. slot_push i t) t ys) i = t_slots t i) \<and>
    (\<forall>i \<in> set ys. cap_word_type (t_slots (foldl (\<lambda>t i. slot_push i t) t ys) i) = CAP_TYPE_NONE) \<and>
    t_pid (foldl (\<lambda>t i. slot_push i t) t ys) = t_pid t"
  using assms
proof (induction ys arbitrary: t)
  case (Cons y ys)
  have "table_part (slot_push y t) (set ys)"
    using push_part(1) [OF Cons.prems(1), of y] Cons.prems(2) by simp
  note IH = Cons.IH [OF this]
  have "cap_word_type (t_slots (slot_push y t) y) = CAP_TYPE_NONE"
    using push_part(2) [OF Cons.prems(1), of y y] by simp
  with IH Cons.prems(2) show ?case
    by (auto simp: slot_push_def)
qed simp

text \<open>Slots that were taken and returned in any order.\<close>

lemma slots_returned:
  assumes inv: "tabs_inv s" and fnd: "cap_table_find p s = Some ti"
    and t: "table_part t (set ys)" "distinct ys" "t_pid t = t_pid (cap_tables s ti)"
    and same: "\<And>i. i \<notin> set ys \<Longrightarrow> t_slots t i = slot_word s ti i"
    and free: "\<And>i. i \<in> set ys \<Longrightarrow> cap_word_type (slot_word s ti i) = CAP_TYPE_NONE"
    and s': "s' = s\<lparr>cap_tables := (cap_tables s)(ti := foldl (\<lambda>t i. slot_push i t) t ys)\<rparr>"
  shows "tabs_inv s'" and "cap_at s' = cap_at s"
proof -
  let ?t = "foldl (\<lambda>t i. slot_push i t) t ys"
  note p = push_list [OF t(1,2)]
  have tabs: "cap_tables s' = (cap_tables s)(ti := ?t)" "cap_table_pid s' = cap_table_pid s"
    by (simp_all add: s')
  have sm: "t_slots ?t r = slot_word s ti r"
    if "cap_word_type (t_slots ?t r) \<noteq> CAP_TYPE_NONE \<or> cap_word_type (slot_word s ti r) \<noteq> CAP_TYPE_NONE" for r
    using that p same [of r] free [of r] by (cases "r \<in> set ys") auto
  have "table_part ?t {}" "t_pid ?t = t_pid (cap_tables s ti)"
    using p t(3) by simp_all
  from table_same_caps [OF inv fnd tabs this sm] show "tabs_inv s'" "cap_at s' = cap_at s"
    by blast+
qed

lemma four_slots_None:
  assumes inv: "tabs_inv s" and fnd: "cap_table_find p s = Some ti"
    and four: "chan_four_slots ti ob s = (None, s')"
  shows "tabs_inv s' \<and> cap_at s' = cap_at s \<and> s' = s\<lparr>cap_tables := cap_tables s'\<rparr>"
proof (cases "cap_slot_pop ti s")
  case None
  then show ?thesis
    using four inv by (simp add: chan_four_slots_def)
next
  case (Some x)
  then obtain rd s1 where p1: "cap_slot_pop ti s = Some (rd, s1)"
    by (cases x) auto
  obtain t1 where t1: "slot_pop (cap_tables s ti) = Some (rd, t1)" and s1: "s1 = s\<lparr>cap_tables := (cap_tables s)(ti := t1)\<rparr>"
    using p1 by (rule cap_slot_pop_Some)
  note a1 = pop_part [OF table_part_init [OF inv fnd] t1]
  show ?thesis
  proof (cases "cap_slot_pop ti s1")
    case None
    then have "s' = s\<lparr>cap_tables := (cap_tables s)(ti := foldl (\<lambda>t i. slot_push i t) t1 [rd])\<rparr>"
      using four p1 by (simp add: chan_four_slots_def s1 cap_slot_push_def upd_table_def)
    with slots_returned [OF inv fnd, of t1 "[rd]" s'] a1 show ?thesis
      by simp
  next
    case (Some x)
    then obtain wr s2 where p2: "cap_slot_pop ti s1 = Some (wr, s2)"
      by (cases x) auto
    obtain t2 where t2: "slot_pop t1 = Some (wr, t2)" and s2: "s2 = s\<lparr>cap_tables := (cap_tables s)(ti := t2)\<rparr>"
      using p2 by (rule cap_slot_pop_Some) (simp add: s1)
    note a2 = pop_part [OF a1(1) t2]
    show ?thesis
    proof (cases "cap_slot_pop ti s2")
      case None
      then have "s' = s\<lparr>cap_tables := (cap_tables s)(ti := foldl (\<lambda>t i. slot_push i t) t2 [rd, wr])\<rparr>"
        using four p1 p2 by (simp add: chan_four_slots_def s2 cap_slot_push_def upd_table_def)
      with slots_returned [OF inv fnd, of t2 "[rd, wr]" s'] a1 a2 show ?thesis
        by (auto simp: insert_commute split: if_splits)
    next
      case (Some x)
      then obtain frd s3 where p3: "cap_slot_pop ti s2 = Some (frd, s3)"
        by (cases x) auto
      obtain t3 where t3: "slot_pop t2 = Some (frd, t3)" and s3: "s3 = s\<lparr>cap_tables := (cap_tables s)(ti := t3)\<rparr>"
        using p3 by (rule cap_slot_pop_Some) (simp add: s2)
      note a3 = pop_part [OF a2(1) t3]
      have "cap_slot_pop ti s3 = None"
        using four p1 p2 p3 by (auto simp: chan_four_slots_def split: option.splits)
      then have "s' = s\<lparr>cap_tables := (cap_tables s)(ti := foldl (\<lambda>t i. slot_push i t) t3 [rd, wr, frd])\<rparr>"
        using four p1 p2 p3 by (simp add: chan_four_slots_def s3 cap_slot_push_def upd_table_def)
      with slots_returned [OF inv fnd, of t3 "[rd, wr, frd]" s'] a1 a2 a3 show ?thesis
        by (auto simp: insert_commute split: if_splits)
    qed
  qed
qed

section \<open>The slots of a channel\<close>

lemma chan_words:
  assumes "ob < CAP_OBJECT_MAX"
  shows "cap_word_type (chan_r_word ob) \<noteq> CAP_TYPE_NONE" "cap_word_type (chan_w_word ob) \<noteq> CAP_TYPE_NONE"
    "cap_word_obj (chan_r_word ob) = ob" "cap_word_obj (chan_w_word ob) = ob"
  using assms by (simp_all add: chan_r_word_def chan_w_word_def word_fields limits)

text \<open>Where the far ends go: to the far process's table, or to the caller's.\<close>

definition far_table :: "cap_state \<Rightarrow> nat \<Rightarrow> nat \<Rightarrow> nat option \<Rightarrow> bool" where
  "far_table s p fp fti \<longleftrightarrow> (case fti of None \<Rightarrow> fp = p | Some ft \<Rightarrow> fp \<noteq> p \<and> cap_table_find fp s = Some ft)"

definition chan_caps ::
  "nat \<Rightarrow> nat \<Rightarrow> nat \<Rightarrow> nat \<times> nat \<times> nat \<times> nat \<Rightarrow> (nat \<Rightarrow> nat \<Rightarrow> 64 word option) \<Rightarrow> nat \<Rightarrow> nat \<Rightarrow> 64 word option" where
  "chan_caps ob p fp slots C =
     (case slots of (rd, wr, frd, fwr) \<Rightarrow>
        put_cap fp fwr (chan_w_word ob) (put_cap fp frd (chan_r_word ob)
          (put_cap p wr (chan_w_word ob) (put_cap p rd (chan_r_word ob) C))))"

definition slots_fresh ::
  "nat \<Rightarrow> nat \<Rightarrow> nat \<times> nat \<times> nat \<times> nat \<Rightarrow> (nat \<Rightarrow> nat \<Rightarrow> 64 word option) \<Rightarrow> bool" where
  "slots_fresh p fp slots C \<longleftrightarrow>
     (case slots of (rd, wr, frd, fwr) \<Rightarrow>
        C p rd = None \<and> C p wr = None \<and> C fp frd = None \<and> C fp fwr = None \<and> rd \<noteq> wr \<and> frd \<noteq> fwr \<and>
        (fp = p \<longrightarrow> frd \<noteq> rd \<and> frd \<noteq> wr \<and> fwr \<noteq> rd \<and> fwr \<noteq> wr))"

lemma chan_slots_Some:
  assumes inv: "tabs_inv s" and fnd: "cap_table_find p s = Some ti" and far: "far_table s p fp fti"
    and sl: "chan_slots fti ti ob s = (Some slots, s')" and ob: "ob < CAP_OBJECT_MAX"
  shows "tabs_inv s'" and "cap_at s' = chan_caps ob p fp slots (cap_at s)" and "slots_fresh p fp slots (cap_at s)"
    and "s' = s\<lparr>cap_tables := cap_tables s'\<rparr>"
proof -
  obtain rd wr frd fwr where slots: "slots = (rd, wr, frd, fwr)"
    by (cases slots)
  have "tabs_inv s' \<and> cap_at s' = chan_caps ob p fp slots (cap_at s) \<and> slots_fresh p fp slots (cap_at s) \<and>
    s' = s\<lparr>cap_tables := cap_tables s'\<rparr>"
  proof (cases fti)
    case None
    then have "chan_four_slots ti ob s = (Some (rd, wr, frd, fwr), s')" and "fp = p"
      using sl far by (simp_all add: chan_slots_def far_table_def slots)
    from four_slots_Some [OF inv fnd this(1) chan_words(1,2) [OF ob]] this(2) show ?thesis
      by (auto simp: chan_caps_def slots_fresh_def slots)
  next
    case (Some ft)
    then have fp: "fp \<noteq> p" "cap_table_find fp s = Some ft"
      using far by (simp_all add: far_table_def)
    obtain s1 where t1: "chan_two_slots ft ob s = (Some (frd, fwr), s1)"
      and t2: "chan_two_slots ti ob s1 = (Some (rd, wr), s')"
      using sl Some by (auto simp: chan_slots_def slots split: option.splits prod.splits)
    note a = two_slots_Some [OF inv fp(2) t1 chan_words(1,2) [OF ob]]
    have pid1: "cap_table_pid s1 = cap_table_pid s"
      by (subst a(6)) simp
    have fnd1: "cap_table_find p s1 = Some ti"
      using fnd cap_table_find_cong [OF pid1] by simp
    note b = two_slots_Some [OF a(1) fnd1 t2 chan_words(1,2) [OF ob]]
    have eq: "s' = s\<lparr>cap_tables := cap_tables s'\<rparr>"
      by (subst b(6), subst a(6)) simp
    have "cap_at s' = chan_caps ob p fp slots (cap_at s)"
      unfolding b(2) a(2) using fp(1) by (auto simp: chan_caps_def slots put_cap_def fun_upd_twist)
    moreover have "slots_fresh p fp slots (cap_at s)"
      using a(3-5) b(3-5) fp(1) unfolding a(2) by (auto simp: slots_fresh_def slots put_cap_def)
    ultimately show ?thesis
      using b(1) eq by simp
  qed
  then show "tabs_inv s'" "cap_at s' = chan_caps ob p fp slots (cap_at s)" "slots_fresh p fp slots (cap_at s)"
    "s' = s\<lparr>cap_tables := cap_tables s'\<rparr>"
    by auto
qed

text \<open>A table with two free slots can take two ends.\<close>

lemma two_slots_room:
  assumes inv: "tabs_inv s" and fnd: "cap_table_find p s = Some ti"
    and ij: "i < CAP_TABLE_ENTRIES" "j < CAP_TABLE_ENTRIES" "i \<noteq> j" "cap_at s p i = None" "cap_at s p j = None"
  shows "\<exists>x s'. chan_two_slots ti ob s = (Some x, s')"
proof -
  obtain xs where xs: "table_rep (cap_tables s ti) xs"
    using tabs_invD(2) [OF inv table_find_bound [OF inv fnd]] by (auto simp: table_wf_def)
  have "i \<in> set xs" "j \<in> set xs"
    using xs ij fnd by (auto simp: table_rep_def cap_at_def split: if_splits)
  then obtain a b ys where ab: "xs = a # b # ys"
    using ij(3) by (cases xs; cases "tl xs") auto
  have fl: "sf.freelist (cap_tables s ti) (a # b # ys)"
    using xs by (simp add: table_rep_def ab)
  obtain t1 where t1: "slot_pop (cap_tables s ti) = Some (a, t1)" "sf.freelist t1 (b # ys)"
    using sf.pop_Cons [OF fl] by blast
  obtain t2 where "slot_pop t1 = Some (b, t2)"
    using sf.pop_Cons [OF t1(2)] by blast
  with t1 show ?thesis
    by (simp add: chan_two_slots_def cap_slot_pop_def upd_table_def)
qed

definition caller_room :: "cap_state \<Rightarrow> nat \<Rightarrow> bool" where
  "caller_room s p \<longleftrightarrow> (\<exists>i j. i < CAP_TABLE_ENTRIES \<and> j < CAP_TABLE_ENTRIES \<and> i \<noteq> j \<and> cap_at s p i = None \<and> cap_at s p j = None)"

lemma chan_slots_None:
  assumes inv: "tabs_inv s" and fnd: "cap_table_find p s = Some ti" and far: "far_table s p fp fti"
    and sl: "chan_slots fti ti ob s = (None, s')" and ob: "ob < CAP_OBJECT_MAX"
    and room: "fti = None \<or> caller_room s p"
  shows "tabs_inv s'" and "cap_at s' = cap_at s" and "s' = s\<lparr>cap_tables := cap_tables s'\<rparr>"
proof -
  have "tabs_inv s' \<and> cap_at s' = cap_at s \<and> s' = s\<lparr>cap_tables := cap_tables s'\<rparr>"
  proof (cases fti)
    case None
    then show ?thesis
      using four_slots_None [OF inv fnd] sl by (simp add: chan_slots_def)
  next
    case (Some ft)
    then have fp: "fp \<noteq> p" "cap_table_find fp s = Some ft"
      using far by (simp_all add: far_table_def)
    obtain x s1 where t1: "chan_two_slots ft ob s = (x, s1)"
      by fastforce
    show ?thesis
    proof (cases x)
      case None
      then show ?thesis
        using two_slots_None [OF inv fp(2)] t1 sl Some by (simp add: chan_slots_def)
    next
      case x: (Some y)
      obtain frd fwr where y: "y = (frd, fwr)"
        by (cases y)
      note a = two_slots_Some [OF inv fp(2) t1 [unfolded x y] chan_words(1,2) [OF ob]]
      have pid1: "cap_table_pid s1 = cap_table_pid s"
        by (subst a(6)) simp
      have fnd1: "cap_table_find p s1 = Some ti"
        using fnd cap_table_find_cong [OF pid1] by simp
      obtain i j where ij: "i < CAP_TABLE_ENTRIES" "j < CAP_TABLE_ENTRIES" "i \<noteq> j" "cap_at s p i = None" "cap_at s p j = None"
        using room Some by (auto simp: caller_room_def)
      have "cap_at s1 p i = None" "cap_at s1 p j = None"
        using ij fp(1) unfolding a(2) by (simp_all add: put_cap_def)
      from two_slots_room [OF a(1) fnd1 ij(1-3) this, of ob] sl Some t1 x y show ?thesis
        by (auto simp: chan_slots_def)
    qed
  qed
  then show "tabs_inv s'" "cap_at s' = cap_at s" "s' = s\<lparr>cap_tables := cap_tables s'\<rparr>"
    by auto
qed

section \<open>Tables and pool changed together\<close>

definition tabs_holders :: "cap_state \<Rightarrow> cap_state \<Rightarrow> bool" where
  "tabs_holders s s' \<longleftrightarrow> holder_only (s\<lparr>cap_tables := cap_tables s'\<rparr>) s'"

lemma tabs_holders_holder: "holder_only s s' \<Longrightarrow> tabs_holders s s'"
  by (simp add: tabs_holders_def holder_only_tables)

lemma holder_only_set_tables:
  assumes "holder_only s s'"
  shows "holder_only (s\<lparr>cap_tables := T\<rparr>) (s'\<lparr>cap_tables := T\<rparr>)"
proof -
  obtain N f obs where s': "s' = s\<lparr>cap_holders := N, cap_holder_free_head := f, cap_objects := obs\<rparr>"
    and obs: "\<forall>i. \<exists>a b. obs i = (cap_objects s i)\<lparr>o_holder_head := a, o_refcount := b\<rparr>"
    using assms unfolding holder_only_def by blast
  show ?thesis
  proof (rule holder_onlyI)
    show "s'\<lparr>cap_tables := T\<rparr> = (s\<lparr>cap_tables := T\<rparr>)\<lparr>cap_holders := N, cap_holder_free_head := f, cap_objects := obs\<rparr>"
      by (simp add: s')
  qed (use obs in simp)
qed

lemma tabs_holders_trans: "tabs_holders s s' \<Longrightarrow> tabs_holders s' s'' \<Longrightarrow> tabs_holders s s''"
  using holder_only_trans holder_only_set_tables
  by (fastforce simp: tabs_holders_def)

lemma tabs_holders_tables: "s' = s\<lparr>cap_tables := cap_tables s'\<rparr> \<Longrightarrow> tabs_holders s s'"
  by (metis holder_only_refl tabs_holders_def)

lemma tabs_holders_same:
  assumes "tabs_holders s s'"
  shows "cap_table_pid s' = cap_table_pid s" "cap_obj_next s' = cap_obj_next s" "cap_channels s' = cap_channels s"
    "cap_chan_next s' = cap_chan_next s" "cap_chan_recycled s' = cap_chan_recycled s"
    "cap_chan_recycled_n s' = cap_chan_recycled_n s"
    "o_id (cap_objects s' i) = o_id (cap_objects s i)" "o_kind (cap_objects s' i) = o_kind (cap_objects s i)"
    "o_revoking (cap_objects s' i) = o_revoking (cap_objects s i)" "o_active (cap_objects s' i) = o_active (cap_objects s i)"
    "o_chan_id (cap_objects s' i) = o_chan_id (cap_objects s i)" "objs_ext s s'"
  using holder_only_tables [OF assms [unfolded tabs_holders_def]] holder_only_objects [OF assms [unfolded tabs_holders_def]]
    objs_ext_holder [OF assms [unfolded tabs_holders_def]]
  by (simp_all add: objs_ext_def)

lemma cap_rep_assemble:
  assumes rep: "cap_rep X s R P n" and th: "tabs_holders s s'" and "tabs_inv s'" and "refs_rep s' R' P' n'"
    and "refs_match (cap_at s') R'" and "qrefs_ok R'"
    and caps: "\<And>p r w. cap_at s' p r = Some w \<Longrightarrow> cap_at s p r = Some w \<or> minted s w \<and> o_active (cap_objects s (cap_word_obj w))"
    and refs: "\<And>ob. \<not> o_active (cap_objects s ob) \<Longrightarrow> R ob = [] \<Longrightarrow> R' ob = []"
      "\<And>ob. o_active (cap_objects s ob) \<Longrightarrow> ob \<in> X \<or> R ob \<noteq> [] \<Longrightarrow> ob \<in> X' \<or> R' ob \<noteq> []"
  shows "cap_rep X' s' R' P' n'"
proof (rule cap_repI)
  note d = cap_repD [OF rep] and same = tabs_holders_same [OF th]
  show "caps_ok s'"
    using caps d(4) minted_ext [OF _ same(12)] same(10) unfolding caps_ok_def by blast
  show "objs_ok X' s' R'"
    using d(5) refs by (simp add: objs_ok_def same)
  show "chans_ok s'"
    using d(7) same(12,3) by (rule chans_ok_ext)
  show "ids_ok s'"
    using d(8) same(4-6) by (rule ids_ok_cong) (simp add: live_chan_def same)
qed (rule assms)+

section \<open>Provisioning the ends\<close>

lemma provision_refs:
  assumes "refs_rep s R {} n" and nil: "R ob = []" and ob: "ob < cap_obj_next s"
    and st: "chan_stage_holders ob p fp s = (Some (h1, h2, h3, h4), s1)"
  defines "s2 \<equiv> cap_holder_link h4 ob (cap_holder_link h3 ob (cap_holder_link h2 ob (cap_holder_link h1 ob s1)))"
  shows "holder_only s s2"
    and "\<exists>m. refs_rep s2 (R(ob := [(HOLDER_SLOT, fp, 3, 0), (HOLDER_SLOT, fp, 2, 0), (HOLDER_SLOT, p, 1, 0), (HOLDER_SLOT, p, 0, 0)])) {} m"
    and "cap_holders s3 = cap_holders s2 \<Longrightarrow> cap_holder_free_head s3 = cap_holder_free_head s2 \<Longrightarrow>
      cap_obj_next s3 = cap_obj_next s2 \<Longrightarrow> cap_objects s3 = cap_objects s2 \<Longrightarrow>
      \<exists>m. refs_rep (chan_stitch (h1, h2, h3, h4) (rd, wr, frd, fwr) s3)
         (R(ob := [(HOLDER_SLOT, fp, fwr, 0), (HOLDER_SLOT, fp, frd, 0), (HOLDER_SLOT, p, wr, 0), (HOLDER_SLOT, p, rd, 0)])) {} m"
proof -
  from assms(1) obtain HL FL where rep: "holders_rep s HL FL {}"
    and R: "R = (\<lambda>ob. map (\<lambda>h. hdata (cap_holders s h)) (HL ob))"
    by (auto simp: refs_rep_def)
  have HLnil: "HL ob = []"
    using nil by (simp add: R)
  note a = stage_Some [OF rep st]
  obtain FL' where r1: "holders_rep s1 HL FL' {h1, h2, h3, h4}"
    using a(1) by blast
  have ob1: "ob < cap_obj_next s1"
    using ob by (simp add: holder_only_tables [OF a(7)])
  note l = link_four [OF r1 a(2-6) ob1 HLnil, folded s2_def]
  show "holder_only s s2"
    using a(7) l(3) by (rule holder_only_trans)
  have out: "h \<notin> {h1, h2, h3, h4}" if "h \<in> set (HL o')" for h o'
    using node_partitionD(3) [OF holders_repD(2) [OF r1] that] by blast
  have same2: "hdata (cap_holders s2 h) = hdata (cap_holders s h)" if "h \<in> set (HL o')" for h o'
    using l(2) [of h] a(8) [OF out [OF that]] by simp
  have hd2: "hdata (cap_holders s2 h1) = (HOLDER_SLOT, p, 0, 0)" "hdata (cap_holders s2 h2) = (HOLDER_SLOT, p, 1, 0)"
    "hdata (cap_holders s2 h3) = (HOLDER_SLOT, fp, 2, 0)" "hdata (cap_holders s2 h4) = (HOLDER_SLOT, fp, 3, 0)"
    using a(3-6) by (simp_all add: l(2) staged_def)
  show "\<exists>m. refs_rep s2 (R(ob := [(HOLDER_SLOT, fp, 3, 0), (HOLDER_SLOT, fp, 2, 0), (HOLDER_SLOT, p, 1, 0), (HOLDER_SLOT, p, 0, 0)])) {} m"
    unfolding refs_rep_def using l(1) same2 hd2
    by (intro exI [of _ "length FL'"] exI [of _ "HL(ob := [h4, h3, h2, h1])"] exI [of _ FL']) (auto simp: R fun_eq_iff)
  assume s3: "cap_holders s3 = cap_holders s2" "cap_holder_free_head s3 = cap_holder_free_head s2"
    "cap_obj_next s3 = cap_obj_next s2" "cap_objects s3 = cap_objects s2"
  have r3: "holders_rep s3 (HL(ob := [h4, h3, h2, h1])) FL' {}"
    using l(1) s3(1-3) by (rule holders_rep_cong) (simp_all add: s3)
  let ?s = "chan_stitch (h1, h2, h3, h4) (rd, wr, frd, fwr) s3"
  note t = stitch_rep [OF r3, of ob h4 h3 h2 h1]
  have "hdata (cap_holders ?s h) = hdata (cap_holders s h)" if "h \<in> set (HL o')" for h o'
    using t(3) [of h rd wr frd fwr] out [OF that] same2 [OF that] s3(1) by simp
  moreover have "hdata (cap_holders ?s h1) = (HOLDER_SLOT, p, rd, 0)" "hdata (cap_holders ?s h2) = (HOLDER_SLOT, p, wr, 0)"
    "hdata (cap_holders ?s h3) = (HOLDER_SLOT, fp, frd, 0)" "hdata (cap_holders ?s h4) = (HOLDER_SLOT, fp, fwr, 0)"
    using hd2 t(4-10) s3(1) by (simp_all add: hdata_def)
  ultimately show "\<exists>m. refs_rep ?s (R(ob := [(HOLDER_SLOT, fp, fwr, 0), (HOLDER_SLOT, fp, frd, 0), (HOLDER_SLOT, p, wr, 0), (HOLDER_SLOT, p, rd, 0)])) {} m"
    unfolding refs_rep_def using t(1) [of rd wr frd fwr]
    by (intro exI [of _ "length FL'"] exI [of _ "HL(ob := [h4, h3, h2, h1])"] exI [of _ FL']) (auto simp: R fun_eq_iff)
qed

lemma refs_match_put:
  assumes "refs_match C R" and "C p r = None" and "cap_word_obj w = ob" and "R ob = xs"
  shows "refs_match (put_cap p r w C) (R(ob := (HOLDER_SLOT, p, r, 0) # xs))"
  using refs_match_add [OF assms(1-3)] assms(4) by (simp add: put_cap_def)

lemma chan_caps_match:
  assumes m: "refs_match C R" and nil: "R ob = []" and ob: "ob < CAP_OBJECT_MAX"
    and fr: "slots_fresh p fp (rd, wr, frd, fwr) C"
  shows "refs_match (chan_caps ob p fp (rd, wr, frd, fwr) C)
     (R(ob := [(HOLDER_SLOT, fp, fwr, 0), (HOLDER_SLOT, fp, frd, 0), (HOLDER_SLOT, p, wr, 0), (HOLDER_SLOT, p, rd, 0)]))"
proof -
  note w = chan_words(3,4) [OF ob]
  define C1 where "C1 = put_cap p rd (chan_r_word ob) C"
  define C2 where "C2 = put_cap p wr (chan_w_word ob) C1"
  define C3 where "C3 = put_cap fp frd (chan_r_word ob) C2"
  define R1 where "R1 = R(ob := [(HOLDER_SLOT, p, rd, 0)])"
  define R2 where "R2 = R1(ob := [(HOLDER_SLOT, p, wr, 0), (HOLDER_SLOT, p, rd, 0)])"
  define R3 where "R3 = R2(ob := [(HOLDER_SLOT, fp, frd, 0), (HOLDER_SLOT, p, wr, 0), (HOLDER_SLOT, p, rd, 0)])"
  have none: "C p rd = None" "C1 p wr = None" "C2 fp frd = None" "C3 fp fwr = None"
    using fr by (auto simp: slots_fresh_def C1_def C2_def C3_def put_cap_def)
  have "refs_match C1 R1"
    unfolding C1_def R1_def using m none(1) w(1) nil by (rule refs_match_put)
  then have "refs_match C2 R2"
    unfolding C2_def R2_def using none(2) w(2) by (rule refs_match_put) (simp add: R1_def)
  then have "refs_match C3 R3"
    unfolding C3_def R3_def using none(3) w(1) by (rule refs_match_put) (simp add: R2_def)
  then have "refs_match (put_cap fp fwr (chan_w_word ob) C3) (R3(ob := (HOLDER_SLOT, fp, fwr, 0) # R3 ob))"
    using none(4) w(2) refl by (rule refs_match_put)
  then show ?thesis
    by (simp add: chan_caps_def R3_def R2_def R1_def C3_def C2_def C1_def)
qed

lemma chan_caps_cases:
  "chan_caps ob p fp slots C q r = Some w \<Longrightarrow> C q r = Some w \<or> w = chan_r_word ob \<or> w = chan_w_word ob"
  by (cases slots) (auto simp: chan_caps_def put_cap_def split: if_splits)

lemma qrefs_ok_slots: "qrefs_ok R \<Longrightarrow> (\<And>x. x \<in> set xs \<Longrightarrow> fst x = HOLDER_SLOT) \<Longrightarrow> qrefs_ok (R(ob := xs))"
  unfolding qrefs_ok_def by (auto split: if_splits) (metis fst_conv holder_kind.distinct(1))+

lemma provision_Ok:
  assumes rep: "cap_rep {ob} s R {} n" and nil: "R ob = []" and ob: "ob < cap_obj_next s"
      "o_active (cap_objects s ob)" "o_kind (cap_objects s ob) = KIND_CHAN"
    and fnd: "cap_table_find p s = Some ti" and far: "far_table s p fp fti"
    and pr: "chan_provision fti ti ob c p fp s = (Ok slots, s')"
  shows "cap_inv s'" and "cap_at s' = chan_caps ob p fp slots (cap_at s)" and "slots_fresh p fp slots (cap_at s)"
proof -
  note d = cap_repD [OF rep]
  have mx: "ob < CAP_OBJECT_MAX"
    using ob(1) objs_okD(1) [OF d(5)] by simp
  obtain rd wr frd fwr where slots: "slots = (rd, wr, frd, fwr)"
    by (cases slots)
  obtain h1 h2 h3 h4 s1 s3 where st: "chan_stage_holders ob p fp s = (Some (h1, h2, h3, h4), s1)"
    and sl: "chan_slots fti ti ob (cap_holder_link h4 ob (cap_holder_link h3 ob (cap_holder_link h2 ob (cap_holder_link h1 ob s1)))) = (Some slots, s3)"
    and s': "s' = chan_stitch (h1, h2, h3, h4) slots s3"
    using pr by (auto simp: chan_provision_def Let_def split: prod.splits option.splits)
  let ?s2 = "cap_holder_link h4 ob (cap_holder_link h3 ob (cap_holder_link h2 ob (cap_holder_link h1 ob s1)))"
  note r = provision_refs [OF d(2) nil ob(1) st]
  have tabs2: "cap_tables ?s2 = cap_tables s" "cap_table_pid ?s2 = cap_table_pid s"
    using holder_only_tables(1,2) [OF r(1)] .
  have find2: "cap_table_find q ?s2 = cap_table_find q s" for q
    using tabs2(2) by (rule cap_table_find_cong)
  note at2 = cap_at_holder [OF r(1)]
  have far2: "far_table ?s2 p fp fti"
    using far by (simp add: far_table_def find2 split: option.splits)
  note c = chan_slots_Some [OF tabs_inv_cong [OF d(1) tabs2] _ far2 sl mx]
  have fnd2: "cap_table_find p ?s2 = Some ti"
    using fnd find2 by simp
  note c = c [OF fnd2]
  have same: "cap_holders s3 = cap_holders ?s2" "cap_holder_free_head s3 = cap_holder_free_head ?s2"
    "cap_obj_next s3 = cap_obj_next ?s2" "cap_objects s3 = cap_objects ?s2"
    by (subst c(4), simp)+
  obtain m where refs: "refs_rep s' (R(ob := [(HOLDER_SLOT, fp, fwr, 0), (HOLDER_SLOT, fp, frd, 0), (HOLDER_SLOT, p, wr, 0), (HOLDER_SLOT, p, rd, 0)])) {} m"
    using r(3) [OF same, of rd wr frd fwr] by (auto simp: s' slots)
  have ho: "holder_only s3 s'"
    unfolding s' slots chan_stitch_def by (auto intro!: holder_only_trans [OF _ upd_holder_only] upd_holder_only)
  have th: "tabs_holders s s'"
    using tabs_holders_trans [OF tabs_holders_trans [OF tabs_holders_holder [OF r(1)] tabs_holders_tables [OF c(4)]]
        tabs_holders_holder [OF ho]] .
  show at: "cap_at s' = chan_caps ob p fp slots (cap_at s)"
    using c(2) at2 cap_at_holder [OF ho] by simp
  show fr: "slots_fresh p fp slots (cap_at s)"
    using c(3) at2 by simp
  have mint: "minted s (chan_r_word ob)" "minted s (chan_w_word ob)"
    using ob chan_words(3,4) [OF mx] by (simp_all add: minted_def Let_def) (simp_all add: chan_r_word_def chan_w_word_def)
  have "cap_rep {} s' (R(ob := [(HOLDER_SLOT, fp, fwr, 0), (HOLDER_SLOT, fp, frd, 0), (HOLDER_SLOT, p, wr, 0), (HOLDER_SLOT, p, rd, 0)])) {} m"
  proof (rule cap_rep_assemble [OF rep th])
    show "tabs_inv s'"
      using c(1) by (rule tabs_inv_cong) (simp_all add: holder_only_tables [OF ho])
    show "refs_match (cap_at s') (R(ob := [(HOLDER_SLOT, fp, fwr, 0), (HOLDER_SLOT, fp, frd, 0), (HOLDER_SLOT, p, wr, 0), (HOLDER_SLOT, p, rd, 0)]))"
      unfolding at slots using d(3) nil mx fr [unfolded slots] by (rule chan_caps_match)
    show "qrefs_ok (R(ob := [(HOLDER_SLOT, fp, fwr, 0), (HOLDER_SLOT, fp, frd, 0), (HOLDER_SLOT, p, wr, 0), (HOLDER_SLOT, p, rd, 0)]))"
      using d(6) by (rule qrefs_ok_slots) auto
    show "cap_at s q r = Some w \<or> minted s w \<and> o_active (cap_objects s (cap_word_obj w))"
      if "cap_at s' q r = Some w" for q r w
      using chan_caps_cases [of ob p fp slots "cap_at s" q r w] that mint ob(2) chan_words(3,4) [OF mx] by (auto simp: at)
  qed (use refs ob in auto)
  then show "cap_inv s'"
    unfolding cap_inv_def by blast
qed

text \<open>Changes of a channel's flags and owners.\<close>

lemma cap_rep_chan_meta:
  assumes rep: "cap_rep X s R P n"
    and f: "\<And>ch. c_q (f ch) = c_q ch" "\<And>ch. c_qhead (f ch) = c_qhead ch" "\<And>ch. c_qtail (f ch) = c_qtail ch"
      "\<And>ch. c_qdepth (f ch) = c_qdepth ch"
  shows "cap_rep X (upd_channel c f s) R P n"
proof (rule cap_rep_frame [OF rep])
  show "chans_ok (upd_channel c f s)"
    by (rule chans_ok_queues [OF cap_repD(7) [OF rep] objs_ext_same]) (simp_all add: upd_channel_def f)
qed (simp_all add: upd_channel_def)

lemma remove_refs:
  assumes "refs_rep s R P n" and "ob < cap_obj_next s" and "drop_ref k p r (R ob) = xs"
  shows "\<exists>n'. refs_rep (cap_holder_remove ob k p r s) (R(ob := xs)) P n'"
  using refs_remove [OF assms(1,2), of k p r] assms(3) by auto

lemma rollback_refs:
  assumes r: "refs_rep s (R(ob := [(HOLDER_SLOT, fp, 3, 0), (HOLDER_SLOT, fp, 2, 0), (HOLDER_SLOT, p, 1, 0), (HOLDER_SLOT, p, 0, 0)])) {} m"
    and nil: "R ob = []" and ob: "ob < cap_obj_next s"
  shows "\<exists>m'. refs_rep (cap_holder_remove ob HOLDER_SLOT fp 3 (cap_holder_remove ob HOLDER_SLOT fp 2
           (cap_holder_remove ob HOLDER_SLOT p 1 (cap_holder_remove ob HOLDER_SLOT p 0 s)))) R {} m'"
proof -
  have nx: "cap_obj_next (cap_holder_remove ob k p r s) = cap_obj_next s" for k p r s
    by (rule holder_only_tables(3) [OF cap_holder_remove_only])
  obtain m1 where r1: "refs_rep (cap_holder_remove ob HOLDER_SLOT p 0 s)
      (R(ob := [(HOLDER_SLOT, fp, 3, 0), (HOLDER_SLOT, fp, 2, 0), (HOLDER_SLOT, p, 1, 0)])) {} m1"
    using remove_refs [OF r ob, where k = HOLDER_SLOT and p = p and r = 0] by auto
  obtain m2 where r2: "refs_rep (cap_holder_remove ob HOLDER_SLOT p 1 (cap_holder_remove ob HOLDER_SLOT p 0 s))
      (R(ob := [(HOLDER_SLOT, fp, 3, 0), (HOLDER_SLOT, fp, 2, 0)])) {} m2"
    using remove_refs [OF r1, where ob = ob and k = HOLDER_SLOT and p = p and r = 1] ob nx by auto
  obtain m3 where r3: "refs_rep (cap_holder_remove ob HOLDER_SLOT fp 2 (cap_holder_remove ob HOLDER_SLOT p 1
      (cap_holder_remove ob HOLDER_SLOT p 0 s))) (R(ob := [(HOLDER_SLOT, fp, 3, 0)])) {} m3"
    using remove_refs [OF r2, where ob = ob and k = HOLDER_SLOT and p = fp and r = 2] ob nx by auto
  have "R(ob := []) = R"
    using nil by auto
  then show ?thesis
    using remove_refs [OF r3, where ob = ob and k = HOLDER_SLOT and p = fp and r = 3] ob nx by auto
qed

lemma provision_Err:
  assumes rep: "cap_rep {ob} s R {} n" and nil: "R ob = []" and ob: "ob < cap_obj_next s"
    and fnd: "cap_table_find p s = Some ti" and far: "far_table s p fp fti"
    and pr: "chan_provision fti ti ob c p fp s = (Err e, s')" and room: "fti = None \<or> caller_room s p"
  shows "cap_inv s'" and "cap_at s' = cap_at s" and "e = ENOMEM \<or> e = ETABLEFULL"
proof -
  note d = cap_repD [OF rep]
  have mx: "ob < CAP_OBJECT_MAX"
    using ob objs_okD(1) [OF d(5)] by simp
  have "cap_inv s' \<and> cap_at s' = cap_at s \<and> (e = ENOMEM \<or> e = ETABLEFULL)"
  proof (cases "fst (chan_stage_holders ob p fp s)")
    case None
    then obtain s1 where st: "chan_stage_holders ob p fp s = (None, s1)"
      by (metis prod.collapse)
    then have s': "s' = cap_object_destroy ob s1" and e: "e = ENOMEM"
      using pr by (auto simp: chan_provision_def)
    note a = stage_None [OF rep st]
    have "cap_rep {} s' R {} n"
      using cap_rep_destroy [of "{ob}" s1 R "{}" n ob] a(1) nil ob by (simp add: s' holder_only_tables [OF a(2)])
    moreover have "cap_at s' = cap_at s1"
      by (rule cap_at_cong) (simp_all add: s')
    ultimately show ?thesis
      using cap_at_holder [OF a(2)] e unfolding cap_inv_def by auto
  next
    case (Some hs)
    then obtain h1 h2 h3 h4 s1 where st: "chan_stage_holders ob p fp s = (Some (h1, h2, h3, h4), s1)"
      by (metis prod.collapse)
    define s2 where "s2 = cap_holder_link h4 ob (cap_holder_link h3 ob (cap_holder_link h2 ob (cap_holder_link h1 ob s1)))"
    obtain s3 where sl: "chan_slots fti ti ob s2 = (None, s3)" and s': "s' = chan_rollback ob c p fp s3" and e: "e = ETABLEFULL"
      using pr st by (auto simp: chan_provision_def Let_def s2_def split: prod.splits option.splits)
    note r = provision_refs [OF d(2) nil ob st, folded s2_def]
    have tabs2: "cap_tables s2 = cap_tables s" "cap_table_pid s2 = cap_table_pid s"
      using holder_only_tables(1,2) [OF r(1)] .
    have find2: "cap_table_find q s2 = cap_table_find q s" for q
      using tabs2(2) by (rule cap_table_find_cong)
    note at2 = cap_at_holder [OF r(1)]
    have far2: "far_table s2 p fp fti" and fnd2: "cap_table_find p s2 = Some ti"
      using far fnd by (simp_all add: far_table_def find2 split: option.splits)
    have room2: "fti = None \<or> caller_room s2 p"
      using room by (simp add: caller_room_def at2)
    note c = chan_slots_None [OF tabs_inv_cong [OF d(1) tabs2] fnd2 far2 sl mx room2]
    obtain m where "refs_rep s2 (R(ob := [(HOLDER_SLOT, fp, 3, 0), (HOLDER_SLOT, fp, 2, 0), (HOLDER_SLOT, p, 1, 0), (HOLDER_SLOT, p, 0, 0)])) {} m"
      using r(2) by blast
    then have r3: "refs_rep s3 (R(ob := [(HOLDER_SLOT, fp, 3, 0), (HOLDER_SLOT, fp, 2, 0), (HOLDER_SLOT, p, 1, 0), (HOLDER_SLOT, p, 0, 0)])) {} m"
      by (rule refs_rep_cong) (subst c(3), simp)+
    have nx3: "cap_obj_next s3 = cap_obj_next s"
      by (subst c(3)) (simp add: holder_only_tables [OF r(1)])
    define s7 where "s7 = cap_holder_remove ob HOLDER_SLOT fp 3 (cap_holder_remove ob HOLDER_SLOT fp 2
           (cap_holder_remove ob HOLDER_SLOT p 1 (cap_holder_remove ob HOLDER_SLOT p 0 s3)))"
    obtain m' where r7: "refs_rep s7 R {} m'"
      using rollback_refs [OF r3 nil] ob nx3 by (auto simp: s7_def)
    have ho: "holder_only s3 s7"
      unfolding s7_def by (blast intro: holder_only_trans cap_holder_remove_only)
    have th: "tabs_holders s s7"
      using tabs_holders_trans [OF tabs_holders_trans [OF tabs_holders_holder [OF r(1)] tabs_holders_tables [OF c(3)]]
          tabs_holders_holder [OF ho]] .
    have at7: "cap_at s7 = cap_at s"
      using c(2) at2 cap_at_holder [OF ho] by simp
    have "cap_rep {ob} s7 R {} m'"
      by (rule cap_rep_assemble [OF rep th]) (use tabs_inv_cong [OF c(1)] holder_only_tables [OF ho] r7 at7 d in auto)
    from cap_rep_destroy [OF this nil] have "cap_rep {} (cap_object_destroy ob s7) R {} m'"
      using ob tabs_holders_same(2) [OF th] by simp
    then have "cap_rep {} s' R {} m'"
      unfolding s' chan_rollback_def s7_def [symmetric] by (rule cap_rep_chan_meta) simp_all
    moreover have "cap_at s' = cap_at s7"
      by (rule cap_at_cong) (simp_all add: s' chan_rollback_def s7_def upd_channel_def)
    ultimately show ?thesis
      using at7 e unfolding cap_inv_def by auto
  qed
  then show "cap_inv s'" "cap_at s' = cap_at s" "e = ENOMEM \<or> e = ETABLEFULL"
    by auto
qed

end
