(* ===== verification/Cap_Chan.thy ===== *)
theory Cap_Chan
  imports Cap_Pair
begin

text \<open>
  The channel id pool and the contract of \<^verbatim>\<open>cap_chan_create\<close>.
\<close>

section \<open>Channel ids\<close>

lemma cap_rep_ids:
  assumes rep: "cap_rep X s R P n" and "cap_tables s' = cap_tables s" "cap_table_pid s' = cap_table_pid s"
    and objs: "cap_objects s' = cap_objects s" "cap_obj_next s' = cap_obj_next s"
    and "cap_holders s' = cap_holders s" "cap_holder_free_head s' = cap_holder_free_head s"
    and "ids_ok s'" and "chans_ok s'"
  shows "cap_rep X s' R P n"
proof (rule cap_repI)
  note d = cap_repD [OF rep]
  show "tabs_inv s'"
    using d(1) assms(2,3) by (rule tabs_inv_cong)
  show "refs_rep s' R P n"
    using d(2) by (rule refs_rep_cong) (simp_all add: assms(4-7))
  have at: "cap_at s' = cap_at s"
    using assms(2,3) by (rule cap_at_cong)
  with d(3) show "refs_match (cap_at s') R"
    by simp
  show "caps_ok s'"
    using d(4) objs_ext_same [OF objs] at by (rule caps_ok_ext) (simp add: objs)
  show "objs_ok X s' R"
    using d(5) objs by (rule objs_ok_cong)
qed (use assms cap_repD(6) [OF rep] in auto)

lemma chan_id_take_Some:
  assumes ok: "ids_ok s" and take: "cap_chan_id_take s = (Some c, s')"
  shows "ids_ok s'" and "chan_id_free s' c" and "c < CAP_CHAN_MAX"
    and "s' = s\<lparr>cap_chan_next := cap_chan_next s', cap_chan_recycled_n := cap_chan_recycled_n s'\<rparr>"
proof -
  have "ids_ok s' \<and> chan_id_free s' c"
  proof (cases "cap_chan_recycled_n s > 0")
    case True
    then have s': "s' = s\<lparr>cap_chan_recycled_n := cap_chan_recycled_n s - 1\<rparr>" and c: "c = cap_chan_recycled s (cap_chan_recycled_n s - 1)"
      using take by (simp_all add: cap_chan_id_take_def)
    have rec: "recycled_ids s = recycled_ids s' @ [c]"
      using True by (cases "cap_chan_recycled_n s") (auto simp: recycled_ids_def s' c)
    have live: "live_chan s' ob x = live_chan s ob x" for ob x
      by (simp add: live_chan_def s')
    show ?thesis
      using ids_okD [OF ok] unfolding ids_ok_def chan_id_free_def live rec
      by (simp add: s') blast
  next
    case False
    then have s': "s' = s\<lparr>cap_chan_next := Suc (cap_chan_next s)\<rparr>" and c: "c = cap_chan_next s" "cap_chan_next s < CAP_CHAN_MAX"
      using take by (auto simp: cap_chan_id_take_def split: if_splits)
    have rec: "recycled_ids s' = recycled_ids s"
      by (simp add: recycled_ids_def s')
    have live: "live_chan s' ob x = live_chan s ob x" for ob x
      by (simp add: live_chan_def s')
    show ?thesis
      using ids_okD [OF ok] c unfolding ids_ok_def chan_id_free_def live rec
      by (simp add: s') (meson less_SucI less_irrefl)
  qed
  then show "ids_ok s'" "chan_id_free s' c" "c < CAP_CHAN_MAX"
    by (auto simp: chan_id_free_def ids_ok_def)
  show "s' = s\<lparr>cap_chan_next := cap_chan_next s', cap_chan_recycled_n := cap_chan_recycled_n s'\<rparr>"
    using take by (auto simp: cap_chan_id_take_def split: if_splits)
qed

lemma chan_id_put_ids:
  assumes ok: "ids_ok s" and free: "chan_id_free s c"
  shows "ids_ok (cap_chan_id_put c s)"
proof -
  have "set (c # recycled_ids s) \<subseteq> {..<cap_chan_next s}" "distinct (c # recycled_ids s)"
    "cap_chan_next s \<le> CAP_CHAN_MAX"
    using ids_okD [OF ok] free by (auto simp: chan_id_free_def)
  then have room: "cap_chan_recycled_n s < CAP_CHAN_MAX" "c < CAP_CHAN_MAX"
    using card_mono [of "{..<cap_chan_next s}" "set (c # recycled_ids s)"] distinct_card [of "c # recycled_ids s"]
    by (auto simp: recycled_ids_def)
  then have rec: "recycled_ids (cap_chan_id_put c s) = recycled_ids s @ [c]"
    by (simp add: cap_chan_id_put_def recycled_ids_def)
  have live: "live_chan (cap_chan_id_put c s) ob x = live_chan s ob x" for ob x
    by (simp add: live_chan_def)
  show ?thesis
    using ids_okD [OF ok] free unfolding ids_ok_def rec live chan_id_free_def by simp blast
qed

lemma chan_reset_ok: "chans_ok s \<Longrightarrow> chans_ok (upd_channel c (chan_reset pid far_pid) s)"
proof -
  assume ok: "chans_ok s"
  let ?s = "upd_channel c (chan_reset pid far_pid) s"
  have ext: "objs_ext s ?s"
    by (rule objs_ext_same) (simp_all add: upd_channel_def)
  have "queue_ok ?s (cap_channels ?s c') d" if "c' < CAP_CHAN_MAX" "d < 2" for c' d
  proof (cases "c' = c")
    case True
    with that(2) show ?thesis
      by (cases "d = 0") (auto simp: queue_ok_def upd_channel_def chan_reset_def)
  next
    case False
    then have "cap_channels ?s c' = cap_channels s c'"
      by (simp add: upd_channel_def)
    with ok that queue_ok_ext [OF _ ext] show ?thesis
      by (simp add: chans_ok_def)
  qed
  then show ?thesis
    by (simp add: chans_ok_def)
qed

section \<open>Creating a channel\<close>

lemma table_index_keeps:
  assumes inv: "tabs_inv s" and idx: "cap_table_index q s = (Some tj, s')" and q: "q < 65536"
    and fnd: "cap_table_find p s = Some ti"
  shows "cap_table_find p s' = Some ti"
proof (cases "p = 0")
  case True
  with fnd show ?thesis
    by (simp add: cap_table_find_def)
next
  case False
  note i = cap_table_index_Some [OF inv idx q]
  have ti: "ti < CAP_TABLE_MAX" "cap_table_pid s ti = p"
    using fnd False by (simp_all add: table_find_iff [OF inv])
  have "cap_table_pid s' ti = p"
    using idx ti False
    by (auto simp: cap_table_index_def upd_table_def find_Some_iff split: if_splits option.splits)
  with ti False show ?thesis
    by (simp add: table_find_iff [OF i(1)])
qed

definition far_holder :: "nat \<Rightarrow> nat \<Rightarrow> nat" where
  "far_holder pid far_pid = (if far_pid \<noteq> 0 then far_pid else pid)"

text \<open>
  The contract of channel creation: four fresh slots get the two ends of one new channel
  object, twice, or the capability space does not change.
\<close>

definition pairs ::
  "cap_state \<Rightarrow> nat \<Rightarrow> nat \<Rightarrow> (nat \<times> nat \<times> nat \<times> nat) res \<Rightarrow> cap_state \<Rightarrow> bool" where
  "pairs s pid far_pid r s' \<longleftrightarrow> cap_inv s' \<and>
     (case r of
        Ok slots \<Rightarrow> slots_fresh pid (far_holder pid far_pid) slots (cap_at s) \<and>
          cap_at s' = chan_caps (cap_obj_next s) pid (far_holder pid far_pid) slots (cap_at s)
      | Err _ \<Rightarrow> cap_at s' = cap_at s
      | Oob \<Rightarrow> False)"

lemma provision_not_Oob: "chan_provision fti ti ob c p fp s \<noteq> (Oob, s')"
  by (auto simp: chan_provision_def Let_def split: prod.splits option.splits)

text \<open>The tables are bound; what remains is the channel itself.\<close>

definition chan_body :: "nat option \<Rightarrow> nat \<Rightarrow> nat \<Rightarrow> nat \<Rightarrow> cap_state \<Rightarrow> (nat \<times> nat \<times> nat \<times> nat) res \<times> cap_state" where
  "chan_body fti ti pid far_pid s =
     (case cap_chan_id_take s of
        (None, s) \<Rightarrow> (Err ENOMEM, s)
      | (Some chan_id, s) \<Rightarrow>
          let s = upd_channel chan_id (chan_reset pid far_pid) s
          in case cap_object_alloc KIND_CHAN s of
               None \<Rightarrow> (Err ENOMEM, upd_channel chan_id (\<lambda>ch. ch\<lparr>c_active := False\<rparr>) (cap_chan_id_put chan_id s))
             | Some (obj_id, s) \<Rightarrow>
                 chan_provision fti ti obj_id chan_id (u16 pid)
                   (if far_pid \<noteq> 0 then u16 far_pid else u16 pid)
                   (upd_object obj_id (\<lambda>ob. ob\<lparr>o_chan_id := u16 chan_id\<rparr>) s))"

lemma chan_body_None:
  assumes rep: "cap_rep {} s R {} n" and c: "cap_chan_id_take s = (Some c, s1)"
    and s2: "s2 = upd_channel c (chan_reset p fp) s1"
  shows "cap_rep {} s2 R {} n" and "chan_id_free s2 c" and "c < CAP_CHAN_MAX"
    and "cap_rep {} (upd_channel c (\<lambda>ch. ch\<lparr>c_active := False\<rparr>) (cap_chan_id_put c s2)) R {} n"
    and "cap_tables s2 = cap_tables s" "cap_table_pid s2 = cap_table_pid s" "cap_obj_next s2 = cap_obj_next s"
    and "cap_objects s2 = cap_objects s"
proof -
  note t = chan_id_take_Some [OF cap_repD(8) [OF rep] c]
  have s1: "cap_tables s1 = cap_tables s" "cap_table_pid s1 = cap_table_pid s" "cap_obj_next s1 = cap_obj_next s"
    "cap_objects s1 = cap_objects s" "cap_holders s1 = cap_holders s" "cap_holder_free_head s1 = cap_holder_free_head s"
    "cap_channels s1 = cap_channels s"
    by (subst t(4), simp)+
  have "chans_ok s1"
    using chans_ok_ext [OF cap_repD(7) [OF rep] objs_ext_same [OF s1(4,3)] s1(7)] .
  then have ok2: "chans_ok s2"
    unfolding s2 by (rule chan_reset_ok)
  show same: "cap_tables s2 = cap_tables s" "cap_table_pid s2 = cap_table_pid s" "cap_obj_next s2 = cap_obj_next s"
    "cap_objects s2 = cap_objects s"
    by (simp_all add: s2 upd_channel_def s1)
  have ids2: "ids_ok s2"
    by (rule ids_ok_cong [OF t(1)]) (simp_all add: s2 upd_channel_def live_chan_def)
  show free: "chan_id_free s2 c"
    using t(2) by (simp add: chan_id_free_def live_chan_def recycled_ids_def s2 upd_channel_def)
  show "c < CAP_CHAN_MAX"
    by (rule t(3))
  have h2: "cap_holders s2 = cap_holders s" "cap_holder_free_head s2 = cap_holder_free_head s"
    by (simp_all add: s2 upd_channel_def s1)
  show rep2: "cap_rep {} s2 R {} n"
    by (rule cap_rep_ids [OF rep same(1,2,4,3) h2 ids2 ok2])
  have put: "cap_rep {} (cap_chan_id_put c s2) R {} n"
  proof (rule cap_rep_ids [OF rep2])
    show "ids_ok (cap_chan_id_put c s2)"
      by (rule chan_id_put_ids [OF ids2 free])
    show "chans_ok (cap_chan_id_put c s2)"
      by (rule chans_ok_ext [OF ok2 objs_ext_same]) simp_all
  qed simp_all
  show "cap_rep {} (upd_channel c (\<lambda>ch. ch\<lparr>c_active := False\<rparr>) (cap_chan_id_put c s2)) R {} n"
    by (rule cap_rep_chan_meta [OF put]) simp_all
qed

lemma chan_body_pairs:
  assumes rep: "cap_rep {} s R {} n" and p: "p < 65536" "fp < 65536" and fnd: "cap_table_find p s = Some ti"
    and far: "far_table s p (far_holder p fp) fti" and room: "fti = None \<or> caller_room s p"
    and res: "chan_body fti ti p fp s = (r, s')"
  shows "pairs s p fp r s'"
proof (cases "cap_chan_id_take s")
  case (Pair oc s1)
  show ?thesis
  proof (cases oc)
    case None
    then have "s1 = s"
      using Pair by (auto simp: cap_chan_id_take_def split: if_splits)
    with None Pair res rep show ?thesis
      by (auto simp: chan_body_def pairs_def cap_inv_def)
  next
    case (Some c)
    let ?s2 = "upd_channel c (chan_reset p fp) s1"
    note b = chan_body_None [OF rep Pair [unfolded Some] refl [of ?s2]]
    have at2: "cap_at ?s2 = cap_at s"
      using b(5,6) by (rule cap_at_cong)
    show ?thesis
    proof (cases "cap_object_alloc KIND_CHAN ?s2")
      case None
      have "cap_at (upd_channel c (\<lambda>ch. ch\<lparr>c_active := False\<rparr>) (cap_chan_id_put c ?s2)) = cap_at ?s2"
        by (rule cap_at_cong) (simp_all add: upd_channel_def)
      with None Some Pair res b(4) at2 show ?thesis
        by (auto simp: chan_body_def Let_def pairs_def cap_inv_def)
    next
      case al: (Some x)
      obtain ob s3 where x: "x = (ob, s3)"
        by (cases x)
      define s4 where "s4 = upd_object ob (\<lambda>ob. ob\<lparr>o_chan_id := u16 c\<rparr>) s3"
      note a = cap_object_alloc_Some [OF al [unfolded x]]
      have ob: "ob = cap_obj_next s"
        using a(1) b(7) by simp
      have c16: "u16 c = c"
        using b(3) by (simp add: limits)
      define y where "y = cap_objects s4 ob"
      have y: "o_id y = ob" "o_active y" "\<not> o_revoking y" "o_holder_head y = CAP_FREELIST_END" "o_refcount y = 0"
        "o_kind y = KIND_CHAN" "o_chan_id y = c"
        by (simp_all add: y_def s4_def upd_object_def a(3) c16)
      have s4: "s4 = ?s2\<lparr>cap_obj_next := Suc (cap_obj_next ?s2), cap_objects := (cap_objects ?s2)(cap_obj_next ?s2 := y)\<rparr>"
        using a(1) by (auto simp: y_def s4_def upd_object_def a(3) intro!: cap_state.equality)
      note f = cap_rep_fresh [OF b(1) a(2) s4, unfolded a(1) [symmetric]]
      have rep4: "cap_rep {ob} s4 R {} n" and nil: "R ob = []"
        using f y b(2) by auto
      have at4: "cap_at s4 = cap_at s"
        using at2 by (subst s4) (simp add: cap_at_cong [of "?s2\<lparr>cap_obj_next := u, cap_objects := v\<rparr>" ?s2 for u v])
      have tab4: "cap_table_find q s4 = cap_table_find q s" for q
        using b(6) by (intro cap_table_find_cong) (simp add: s4)
      have act4: "ob < cap_obj_next s4" "o_active (cap_objects s4 ob)" "o_kind (cap_objects s4 ob) = KIND_CHAN"
        using y(2,6) a(1) unfolding y_def by (simp_all add: s4)
      have pr: "chan_provision fti ti ob c p (far_holder p fp) s4 = (r, s')"
        using res p unfolding chan_body_def Pair Some al x Let_def
        by (simp add: al x far_holder_def s4_def split: if_splits)
      have fnd4: "cap_table_find p s4 = Some ti" and far4: "far_table s4 p (far_holder p fp) fti"
        and room4: "fti = None \<or> caller_room s4 p"
        using fnd far room by (auto simp: tab4 far_table_def caller_room_def at4 split: option.splits)
      show ?thesis
      proof (cases r)
        case (Ok slots)
        then show ?thesis
          using provision_Ok [OF rep4 nil act4 fnd4 far4] pr by (auto simp: pairs_def at4 ob)
      next
        case (Err e)
        then show ?thesis
          using provision_Err [OF rep4 nil act4(1) fnd4 far4 _ room4] pr by (auto simp: pairs_def at4)
      next
        case Oob
        with pr provision_not_Oob show ?thesis
          by blast
      qed
    qed
  qed
qed

lemma chan_create_body:
  "cap_chan_create pid far_pid s =
     (case cap_table_index pid s of
        (None, s) \<Rightarrow> (Err ETABLEFULL, s)
      | (Some ti, s) \<Rightarrow>
     (case (if far_pid \<noteq> 0 \<and> far_pid \<noteq> pid then cap_table_index far_pid s else (None, s)) of (fti, s) \<Rightarrow>
      if far_pid \<noteq> 0 \<and> far_pid \<noteq> pid \<and> fti = None then (Err ETABLEFULL, s)
      else chan_body fti ti pid far_pid s))"
  by (simp only: cap_chan_create_def chan_body_def)

lemma chan_create_pairs:
  assumes inv: "cap_inv s" and p: "pid < 65536" "far_pid < 65536"
    and room: "far_pid = 0 \<or> far_pid = pid \<or> caller_room s pid"
    and res: "cap_chan_create pid far_pid s = (r, s')"
  shows "pairs s pid far_pid r s'"
proof -
  obtain R n where rep: "cap_rep {} s R {} n"
    using inv by (auto simp: cap_inv_def)
  obtain oti s1 where i1: "cap_table_index pid s = (oti, s1)"
    by fastforce
  show ?thesis
  proof (cases oti)
    case None
    then show ?thesis
      using res i1 cap_table_index_None [of pid s s1] inv by (auto simp: chan_create_body pairs_def)
  next
    case (Some ti)
    note b1 = cap_rep_bind [OF rep i1 [unfolded Some] p(1)]
    have nx1: "cap_obj_next s1 = cap_obj_next s"
      by (subst b1(4)) simp
    show ?thesis
    proof (cases "far_pid \<noteq> 0 \<and> far_pid \<noteq> pid")
      case False
      then have "chan_body None ti pid far_pid s1 = (r, s')"
        using res by (auto simp: chan_create_body i1 Some split: if_splits)
      moreover have "far_table s1 pid (far_holder pid far_pid) None"
        using False by (auto simp: far_table_def far_holder_def)
      ultimately have "pairs s1 pid far_pid r s'"
        using chan_body_pairs [OF b1(1) p b1(2)] by blast
      then show ?thesis
        unfolding pairs_def b1(3) nx1 .
    next
      case True
      obtain fti s2 where i2: "cap_table_index far_pid s1 = (fti, s2)"
        by fastforce
      show ?thesis
      proof (cases fti)
        case None
        then have "s2 = s1"
          using i2 cap_table_index_None by blast
        moreover have "r = Err ETABLEFULL" "s' = s2"
          using res True None by (simp_all add: chan_create_body i1 Some i2)
        ultimately show ?thesis
          using b1(1,3) by (auto simp: pairs_def cap_inv_def)
      next
        case far: (Some ft)
        note b2 = cap_rep_bind [OF b1(1) i2 [unfolded far] p(2)]
        have nx2: "cap_obj_next s2 = cap_obj_next s1"
          by (subst b2(4)) simp
        have "chan_body (Some ft) ti pid far_pid s2 = (r, s')"
          using res True by (simp add: chan_create_body i1 Some i2 far)
        moreover have "far_table s2 pid (far_holder pid far_pid) (Some ft)"
          using True b2(2) by (simp add: far_table_def far_holder_def)
        moreover have "cap_table_find pid s2 = Some ti"
          by (rule table_index_keeps [OF cap_repD(1) [OF b1(1)] i2 [unfolded far] p(2) b1(2)])
        moreover have "caller_room s2 pid"
          using room True by (simp add: caller_room_def b1(3) b2(3))
        ultimately have "pairs s2 pid far_pid r s'"
          using chan_body_pairs [OF b2(1) p] by blast
        then show ?thesis
          unfolding pairs_def b2(3) nx2 b1(3) nx1 .
      qed
    qed
  qed
qed

end
