(* ===== verification/Bounded_Queue.thy ===== *)
theory Bounded_Queue
  imports Main
begin

text \<open>
  The interface the message queues of the kernel share: a bounded first-in first-out queue with its list of contents. The rings
  of a channel (\<^verbatim>\<open>cap.h\<close>) and the port queues (\<^verbatim>\<open>ipc.h\<close>) implement it.
\<close>

section \<open>The interface\<close>

text \<open>
  A bounded queue with its list of contents. What a client may rely on: contents grow at
  the back, shrink at the front and never exceed the bound.
\<close>

locale bounded_fifo =
  fixes contents :: "'q \<Rightarrow> 'a list"
    and wf :: "'q \<Rightarrow> bool"
    and enq :: "'a \<Rightarrow> 'q \<Rightarrow> 'q"
    and front :: "'q \<Rightarrow> 'a"
    and deq :: "'q \<Rightarrow> 'q"
    and depth :: "'q \<Rightarrow> nat"
    and bound :: nat
  assumes depth_contents: "wf q \<Longrightarrow> depth q = length (contents q)"
    and bounded: "wf q \<Longrightarrow> depth q \<le> bound"
    and wf_enq: "wf q \<Longrightarrow> depth q < bound \<Longrightarrow> wf (enq x q)"
    and contents_enq: "wf q \<Longrightarrow> depth q < bound \<Longrightarrow> contents (enq x q) = contents q @ [x]"
    and contents_front: "wf q \<Longrightarrow> 0 < depth q \<Longrightarrow> front q = hd (contents q)"
    and wf_deq: "wf q \<Longrightarrow> 0 < depth q \<Longrightarrow> wf (deq q)"
    and contents_deq: "wf q \<Longrightarrow> 0 < depth q \<Longrightarrow> contents (deq q) = tl (contents q)"
begin

text \<open>
  Any interleaving of guarded sends and receives: a send on a full ring and a receive on
  an empty one change nothing.
\<close>

fun runs :: "'a option list \<Rightarrow> 'q \<Rightarrow> 'a list \<times> 'a list \<times> 'q" where
  "runs [] q = ([], [], q)"
| "runs (Some x # ops) q =
     (if depth q < bound then (let (i, out, q) = runs ops (enq x q) in (x # i, out, q)) else runs ops q)"
| "runs (None # ops) q =
     (if 0 < depth q then (let (i, out, q') = runs ops (deq q) in (i, front q # out, q')) else runs ops q)"

lemma fifo_runs:
  assumes "wf q" and "runs ops q = (ins, outs, q')"
  shows "wf q' \<and> contents q @ ins = outs @ contents q'"
  using assms
proof (induction ops q arbitrary: ins outs q' rule: runs.induct)
  case (2 x ops q)
  show ?case
  proof (cases "depth q < bound")
    case True
    then obtain i where r: "runs ops (enq x q) = (i, outs, q')" and "ins = x # i"
      using "2.prems"(2) by (auto split: prod.splits)
    with True "2.IH"(1) [OF True wf_enq [OF "2.prems"(1) True] r] show ?thesis
      by (simp add: contents_enq [OF "2.prems"(1) True])
  next
    case False
    with 2 show ?thesis
      by simp
  qed
next
  case (3 ops q)
  show ?case
  proof (cases "0 < depth q")
    case True
    then obtain out where r: "runs ops (deq q) = (ins, out, q')" and o: "outs = front q # out"
      using "3.prems"(2) by (auto split: prod.splits)
    have "contents q \<noteq> []"
      using True depth_contents [OF "3.prems"(1)] by auto
    then have "contents q = front q # contents (deq q)"
      using True by (simp add: contents_front [OF "3.prems"(1)] contents_deq [OF "3.prems"(1)])
    with o "3.IH"(1) [OF True wf_deq [OF "3.prems"(1) True] r] show ?thesis
      by simp
  next
    case False
    with 3 show ?thesis
      by simp
  qed
qed simp

end

end
