(* ===== verification/Cap_Ring.thy ===== *)
theory Cap_Ring
  imports Cap_Chan Bounded_Queue
begin

text \<open>
  The directional message rings of a channel (\<^verbatim>\<open>qhead\<close>, \<^verbatim>\<open>qtail\<close>, \<^verbatim>\<open>qdepth\<close> and \<^verbatim>\<open>q\<close> of
  \<^verbatim>\<open>struct CapChannel\<close>) as an implementation of a bounded first-in first-out queue. The
  cursors are free-running 32-bit counters reduced modulo the depth; the abstract content
  is the list of messages from the read cursor on.
\<close>

section \<open>The rings of a channel\<close>

definition ring_msgs :: "nat \<Rightarrow> CapChannel \<Rightarrow> ChanMsg list" where
  "ring_msgs d ch = map (\<lambda>k. c_q ch d ((c_qhead ch d + k) mod CHAN_QUEUE_DEPTH)) [0..<c_qdepth ch d]"

definition ring_wf :: "nat \<Rightarrow> CapChannel \<Rightarrow> bool" where
  "ring_wf d ch \<longleftrightarrow> c_qdepth ch d \<le> CHAN_QUEUE_DEPTH \<and> c_qhead ch d < 2 ^ 32 \<and>
     c_qtail ch d = u32 (c_qhead ch d + c_qdepth ch d)"

text \<open>\<^verbatim>\<open>entry = qtail % DEPTH; q[entry] = m; qtail++; qdepth++\<close>.\<close>

definition ring_tail :: "nat \<Rightarrow> CapChannel \<Rightarrow> nat" where
  "ring_tail d ch = c_qtail ch d mod CHAN_QUEUE_DEPTH"

definition ring_put :: "nat \<Rightarrow> CapChannel \<Rightarrow> CapChannel" where
  "ring_put d ch = ch\<lparr>c_qtail := (c_qtail ch)(d := u32 (c_qtail ch d + 1)),
     c_qdepth := (c_qdepth ch)(d := u32 (c_qdepth ch d + 1))\<rparr>"

definition ring_set :: "nat \<Rightarrow> nat \<Rightarrow> ChanMsg \<Rightarrow> CapChannel \<Rightarrow> CapChannel" where
  "ring_set d e m ch = ch\<lparr>c_q := (c_q ch)(d := (c_q ch d)(e := m))\<rparr>"

definition ring_enq :: "nat \<Rightarrow> ChanMsg \<Rightarrow> CapChannel \<Rightarrow> CapChannel" where
  "ring_enq d m ch = ring_put d (ring_set d (ring_tail d ch) m ch)"

text \<open>\<^verbatim>\<open>entry = qhead % DEPTH; m = &q[entry]; qhead++; qdepth--\<close>.\<close>

definition ring_head :: "nat \<Rightarrow> CapChannel \<Rightarrow> nat" where
  "ring_head d ch = c_qhead ch d mod CHAN_QUEUE_DEPTH"

definition ring_front :: "nat \<Rightarrow> CapChannel \<Rightarrow> ChanMsg" where
  "ring_front d ch = c_q ch d (ring_head d ch)"

definition ring_deq :: "nat \<Rightarrow> CapChannel \<Rightarrow> CapChannel" where
  "ring_deq d ch = ch\<lparr>c_qhead := (c_qhead ch)(d := u32 (c_qhead ch d + 1)),
     c_qdepth := (c_qdepth ch)(d := c_qdepth ch d - 1)\<rparr>"

lemma ring_slot: "(u32 a + k) mod 16 = (a + k) mod 16"
  by (metis u32_add u32_mod_16)

lemma ring_front_hd: "ring_wf d ch \<Longrightarrow> 0 < c_qdepth ch d \<Longrightarrow> ring_front d ch = hd (ring_msgs d ch)"
  by (simp add: ring_front_def ring_head_def ring_msgs_def upt_conv_Cons)

lemma ring_msgs_enq:
  assumes wf: "ring_wf d ch" and room: "c_qdepth ch d < CHAN_QUEUE_DEPTH"
  shows "ring_msgs d (ring_enq d m ch) = ring_msgs d ch @ [m]"
proof -
  let ?n = "c_qdepth ch d" and ?h = "c_qhead ch d"
  have tail: "ring_tail d ch = (?h + ?n) mod 16"
    using wf by (simp add: ring_tail_def ring_wf_def limits)
  have "c_q (ring_enq d m ch) d ((?h + k) mod 16) = c_q ch d ((?h + k) mod 16)" if "k < ?n" for k
    using slot_new [OF that, of 16 ?h] room by (simp add: ring_enq_def ring_put_def ring_set_def tail limits)
  moreover have "c_q (ring_enq d m ch) d ((?h + ?n) mod 16) = m"
    by (simp add: ring_enq_def ring_put_def ring_set_def tail)
  moreover have "c_qdepth (ring_enq d m ch) d = Suc ?n" "c_qhead (ring_enq d m ch) d = ?h"
    using room by (simp_all add: ring_enq_def ring_put_def ring_set_def limits)
  ultimately show ?thesis
    by (simp add: ring_msgs_def limits)
qed

lemma ring_wf_enq:
  assumes wf: "ring_wf d ch" and room: "c_qdepth ch d < CHAN_QUEUE_DEPTH"
  shows "ring_wf d (ring_enq d m ch)"
  using assms u32_add [of "c_qhead ch d + c_qdepth ch d" 1]
  by (simp add: ring_wf_def ring_enq_def ring_put_def ring_set_def limits)

lemma ring_msgs_deq:
  assumes wf: "ring_wf d ch" and some: "0 < c_qdepth ch d"
  shows "ring_msgs d (ring_deq d ch) = tl (ring_msgs d ch)"
proof -
  let ?n = "c_qdepth ch d" and ?h = "c_qhead ch d"
  have "tl (ring_msgs d ch) = map (\<lambda>k. c_q ch d ((?h + k) mod 16)) [1..<?n]"
    using some by (simp add: ring_msgs_def upt_conv_Cons limits)
  also have "\<dots> = map (\<lambda>k. c_q ch d ((?h + Suc k) mod 16)) [0..<?n - 1]"
    using some by (intro nth_equalityI) simp_all
  also have "\<dots> = ring_msgs d (ring_deq d ch)"
    using ring_slot [of "?h + 1"] by (simp add: ring_msgs_def ring_deq_def limits)
  finally show ?thesis
    by simp
qed

lemma ring_wf_deq:
  assumes wf: "ring_wf d ch" and some: "0 < c_qdepth ch d"
  shows "ring_wf d (ring_deq d ch)"
  using assms u32_add [of "c_qhead ch d + 1" "c_qdepth ch d - 1"]
  by (simp add: ring_wf_def ring_deq_def limits) (simp add: u32_def, arith)

interpretation ring: bounded_fifo "ring_msgs d" "ring_wf d" "ring_enq d" "ring_front d" "ring_deq d"
  "\<lambda>ch. c_qdepth ch d" CHAN_QUEUE_DEPTH for d
  by unfold_locales
    (auto simp: ring_msgs_enq ring_wf_enq ring_front_hd ring_msgs_deq ring_wf_deq, simp_all add: ring_wf_def ring_msgs_def)

end
