(* ===== verification/Cap_Send.thy ===== *)
theory Cap_Send
  imports Cap_Ring
begin

text \<open>
  Single-capability messages: \<^verbatim>\<open>cap_send\<close>, \<^verbatim>\<open>cap_msg_drain_tail\<close> and \<^verbatim>\<open>cap_recv\<close>. A
  capability moves: its slot reference becomes a queue reference at the send and a slot
  reference of the receiver at the receive.
\<close>

section \<open>Operations\<close>

text \<open>The write end a send names: \<open>Ok\<close> with the channel's object.\<close>

definition send_channel :: "nat \<Rightarrow> nat \<Rightarrow> cap_state \<Rightarrow> nat res" where
  "send_channel ti ch_w_idx s =
     (if ch_w_idx \<ge> CAP_TABLE_ENTRIES then Oob
      else let w = slot_word s ti ch_w_idx; ty = cap_word_type w
      in if \<not> cap_word_valid w then Err EBADF
         else if ty = CAP_TYPE_CHAN_W \<and> cap_word_perms w AND CAP_PERM_SEND = 0 then Err EBADF
         else if ty = CAP_TYPE_CHAN_R \<and> cap_word_perms w AND CAP_PERM_RECV = 0 then Err EBADF
         else if ty \<noteq> CAP_TYPE_CHAN_W \<and> ty \<noteq> CAP_TYPE_CHAN_R then Err EBADF
         else case cap_object_get (cap_word_obj w) s of
                None \<Rightarrow> Err EBADF
              | Some cobj \<Rightarrow>
                  if o_kind (cap_objects s cobj) \<noteq> KIND_CHAN then Err EBADF
                  else if \<not> c_active (cap_channels s (o_chan_id (cap_objects s cobj))) then Err EBADF
                  else Ok cobj)"

text \<open>The capability to move: its word and object, or none for a plain message.\<close>

definition send_payload :: "nat \<Rightarrow> nat \<Rightarrow> cap_state \<Rightarrow> (64 word \<times> nat) option res" where
  "send_payload ti cap_idx s =
     (if cap_idx = CAP_NONE then Ok None
      else if cap_idx \<ge> CAP_TABLE_ENTRIES then Oob
      else let pw = slot_word s ti cap_idx
      in if \<not> cap_word_valid pw then Err EINVAL
         else case cap_object_get (cap_word_obj pw) s of
                None \<Rightarrow> Err EINVAL
              | Some obj \<Rightarrow> Ok (Some (pw, obj)))"

definition msg_clear_caps :: "ChanMsg \<Rightarrow> ChanMsg" where
  "msg_clear_caps m =
     m\<lparr>m_cap_word := (\<lambda>i. if i < CAP_MSG_MAX_CAPS then 0 else m_cap_word m i),
       m_cap_off := (\<lambda>i. if i < CAP_MSG_MAX_CAPS then 0 else m_cap_off m i),
       m_cap_len := (\<lambda>i. if i < CAP_MSG_MAX_CAPS then 0 else m_cap_len m i),
       m_cap_rights := (\<lambda>i. if i < CAP_MSG_MAX_CAPS then 0 else m_cap_rights m i),
       m_cap_flags := (\<lambda>i. if i < CAP_MSG_MAX_CAPS then 0 else m_cap_flags m i)\<rparr>"

definition send_finish :: "nat \<Rightarrow> nat \<Rightarrow> nat \<Rightarrow> 64 word \<Rightarrow> cap_state \<Rightarrow> cap_state" where
  "send_finish c dest entry cookie s =
     log_hook MaybeHandoff (log_hook (WakeChan c)
       (upd_channel c (ring_put dest)
         (upd_msg c dest entry (\<lambda>m. m\<lparr>m_cookie := cookie, m_payload_len := 0,
            m_payload_idx := CAP_NONE, m_flags := 0\<rparr>) s)))"

text \<open>The holder moves from the sender's slot to the queue entry.\<close>

definition send_move :: "nat \<Rightarrow> nat \<Rightarrow> nat \<Rightarrow> nat \<Rightarrow> nat \<Rightarrow> nat \<Rightarrow> nat \<Rightarrow> 64 word \<Rightarrow> cap_state \<Rightarrow> unit res \<times> cap_state" where
  "send_move pid ti cap_idx c dest entry obj payload s =
     (if o_revoking (cap_objects s obj) then (Err ECAPREVOKED, s)
      else case cap_holder_alloc obj HOLDER_QUEUE (u16 c) (u16 (entry * CAP_MSG_MAX_CAPS)) (u8 dest) s of
        None \<Rightarrow> (Err ENOMEM, s)
      | Some (hq, s) \<Rightarrow>
          let s = cap_holder_remove obj HOLDER_SLOT (u16 pid) cap_idx s;
              s = set_slot ti cap_idx 0 s;
              s = cap_slot_push ti cap_idx s;
              s = cap_holder_link hq obj s
          in (Ok (), upd_msg c dest entry (\<lambda>m. m\<lparr>m_cap_word := (m_cap_word m)(0 := payload), m_n_caps := 1\<rparr>) s))"

definition send_queue :: "nat \<Rightarrow> nat \<Rightarrow> nat \<Rightarrow> nat \<Rightarrow> nat \<Rightarrow> 64 word \<Rightarrow> cap_state \<Rightarrow> unit res \<times> cap_state" where
  "send_queue pid ti cap_idx c dest cookie s =
     (case send_payload ti cap_idx s of
        Oob \<Rightarrow> (Oob, s)
      | Err e \<Rightarrow> (Err e, s)
      | Ok payload \<Rightarrow>
          if c_qdepth (cap_channels s c) dest \<ge> CHAN_QUEUE_DEPTH then (Err EAGAIN, s)
          else let entry = ring_tail dest (cap_channels s c);
                   s = upd_msg c dest entry msg_clear_caps s
               in case payload of
                    None \<Rightarrow> (Ok (), send_finish c dest entry cookie
                      (upd_msg c dest entry (\<lambda>m. m\<lparr>m_n_caps := 0, m_cap_word := (m_cap_word m)(0 := 0)\<rparr>) s))
                  | Some (pw, obj) \<Rightarrow>
                      (case send_move pid ti cap_idx c dest entry obj pw s of
                         (Ok _, s) \<Rightarrow> (Ok (), send_finish c dest entry cookie s)
                       | (r, s) \<Rightarrow> (r, s)))"

definition cap_send :: "nat \<Rightarrow> nat \<Rightarrow> nat \<Rightarrow> 64 word \<Rightarrow> cap_state \<Rightarrow> unit res \<times> cap_state" where
  "cap_send pid ch_w_idx cap_idx cookie s =
     (case cap_table_index pid s of
        (None, s) \<Rightarrow> (Err ETABLEFULL, s)
      | (Some ti, s) \<Rightarrow>
     (case send_channel ti ch_w_idx s of
        Oob \<Rightarrow> (Oob, s)
      | Err e \<Rightarrow> (Err e, s)
      | Ok cobj \<Rightarrow>
          let c = o_chan_id (cap_objects s cobj);
              dest = (if pid = c_end0_pid (cap_channels s c) then 1 else 0)
          in send_queue pid ti cap_idx c dest cookie s))"

text \<open>An object whose last reference is gone gives its resources back.\<close>

definition object_reap :: "nat \<Rightarrow> cap_state \<Rightarrow> cap_state" where
  "object_reap ob s =
     (if o_refcount (cap_objects s ob) = 0
      then cap_object_destroy ob (fst (cap_object_free_resources ob s))
      else s)"

definition msg_drain_one :: "nat \<Rightarrow> nat \<Rightarrow> nat \<Rightarrow> nat \<Rightarrow> cap_state \<Rightarrow> cap_state" where
  "msg_drain_one c d entry i s =
     (let w = m_cap_word (msg_at s c d entry) i
      in if w = 0 then s
         else upd_msg c d entry (\<lambda>m. m\<lparr>m_cap_word := (m_cap_word m)(i := 0)\<rparr>)
           (case cap_object_get (cap_word_obj w) s of
              None \<Rightarrow> s
            | Some xo \<Rightarrow>
                object_reap xo (cap_holder_remove xo HOLDER_QUEUE c (u16 (entry * CAP_MSG_MAX_CAPS + i)) s)))"

definition cap_msg_drain_tail :: "nat \<Rightarrow> nat \<Rightarrow> nat \<Rightarrow> cap_state \<Rightarrow> cap_state" where
  "cap_msg_drain_tail c d entry s =
     fold (msg_drain_one c d entry) [1..<m_n_caps (msg_at s c d entry)] s"

definition recv_channel :: "nat \<Rightarrow> nat \<Rightarrow> cap_state \<Rightarrow> nat res" where
  "recv_channel ti ch_r_idx s =
     (if ch_r_idx \<ge> CAP_TABLE_ENTRIES then Oob
      else let w = slot_word s ti ch_r_idx
      in if \<not> cap_word_valid w \<or> cap_word_type w \<noteq> CAP_TYPE_CHAN_R \<or> cap_word_perms w AND CAP_PERM_RECV = 0
         then Err EBADF
         else case cap_object_get (cap_word_obj w) s of
                None \<Rightarrow> Err EBADF
              | Some cobj \<Rightarrow>
                  if o_kind (cap_objects s cobj) \<noteq> KIND_CHAN then Err EBADF
                  else if \<not> c_active (cap_channels s (o_chan_id (cap_objects s cobj))) then Err EBADF
                  else Ok cobj)"

text \<open>The staged payload is given back and the read cursor moves on.\<close>

definition recv_release :: "nat \<Rightarrow> nat \<Rightarrow> nat \<Rightarrow> cap_state \<Rightarrow> cap_state" where
  "recv_release c d entry s =
     (let s = upd_msg c d entry (\<lambda>m. m\<lparr>m_payload_len := 0\<rparr>) s;
          s = s\<lparr>cap_payload := cap_msg_payload_free (m_payload_idx (msg_at s c d entry)) (cap_payload s)\<rparr>;
          s = upd_msg c d entry (\<lambda>m. m\<lparr>m_payload_idx := CAP_NONE\<rparr>) s
      in upd_channel c (ring_deq d) s)"

definition recv_skip :: "nat \<Rightarrow> nat \<Rightarrow> nat \<Rightarrow> cap_state \<Rightarrow> cap_state" where
  "recv_skip c d entry s =
     recv_release c d entry (upd_msg c d entry (\<lambda>m. m\<lparr>m_n_caps := 0\<rparr>) (cap_msg_drain_tail c d entry s))"

text \<open>The first capability of the message moves into a fresh slot.\<close>

definition recv_move :: "nat \<Rightarrow> nat \<Rightarrow> nat \<Rightarrow> nat \<Rightarrow> nat \<Rightarrow> nat \<Rightarrow> cap_state \<Rightarrow> nat res \<times> cap_state" where
  "recv_move pid ti c d entry obj s =
     (case cap_slot_pop ti s of
        None \<Rightarrow> (Err ETABLEFULL, s)
      | Some (nslot, s) \<Rightarrow>
     (case cap_holder_alloc obj HOLDER_SLOT (u16 pid) nslot 0 s of
        None \<Rightarrow> (Err ENOMEM, cap_slot_push ti nslot s)
      | Some (hs, s) \<Rightarrow>
          let s = cap_holder_remove obj HOLDER_QUEUE (u16 c) (u16 (entry * CAP_MSG_MAX_CAPS)) s;
              s = cap_holder_link hs obj s;
              s = set_slot ti nslot (m_cap_word (msg_at s c d entry) 0) s;
              s = upd_msg c d entry (\<lambda>m. m\<lparr>m_cap_word := (m_cap_word m)(0 := 0)\<rparr>) s
          in (Ok nslot, s)))"

text \<open>
  The front message is taken. The result is the return code, the cookie when it is
  written, the received slot and the state.
\<close>

definition recv_front ::
  "nat \<Rightarrow> nat \<Rightarrow> nat \<Rightarrow> nat \<Rightarrow> cap_state \<Rightarrow> unit res \<times> 64 word option \<times> nat \<times> cap_state" where
  "recv_front pid ti c dir s =
     (let entry = ring_head dir (cap_channels s c); m = msg_at s c dir entry
      in if m_n_caps m > 0
         then (case cap_object_get (cap_word_obj (m_cap_word m 0)) s of
                 None \<Rightarrow> (Err ECAPREVOKED, Some (m_cookie m), CAP_NONE, recv_skip c dir entry s)
               | Some obj \<Rightarrow>
                   if cap_word_state (m_cap_word m 0) = CAP_STATE_REVOKED \<or> o_revoking (cap_objects s obj)
                   then (Err ECAPREVOKED, Some (m_cookie m), CAP_NONE, recv_skip c dir entry s)
                   else (case recv_move pid ti c dir entry obj s of
                           (Ok nslot, s) \<Rightarrow> (Ok (), Some (m_cookie m), nslot,
                             recv_release c dir entry (cap_msg_drain_tail c dir entry s))
                         | (Err e, s) \<Rightarrow> (Err e, None, CAP_NONE, s)
                         | (Oob, s) \<Rightarrow> (Oob, None, CAP_NONE, s)))
         else (Ok (), Some (m_cookie m), CAP_NONE, recv_release c dir entry s))"

definition cap_recv :: "nat \<Rightarrow> nat \<Rightarrow> bool \<Rightarrow> cap_state \<Rightarrow> unit res \<times> 64 word option \<times> nat \<times> cap_state" where
  "cap_recv pid ch_r_idx block s =
     (case cap_table_index pid s of
        (None, s) \<Rightarrow> (Err ETABLEFULL, None, CAP_NONE, s)
      | (Some ti, s) \<Rightarrow>
     (case recv_channel ti ch_r_idx s of
        Oob \<Rightarrow> (Oob, None, CAP_NONE, s)
      | Err e \<Rightarrow> (Err e, None, CAP_NONE, s)
      | Ok cobj \<Rightarrow>
          let c = o_chan_id (cap_objects s cobj);
              dir = (if pid = c_end0_pid (cap_channels s c) then 0 else 1)
          in if c_qdepth (cap_channels s c) dir = 0
             then (Err EAGAIN, None, CAP_NONE, if block then log_hook (WaitChan c) s else s)
             else recv_front pid ti c dir s))"

section \<open>Channels under the invariant\<close>

lemma queue_ok_ring: "queue_ok s ch d \<longleftrightarrow> ring_wf d ch \<and> (\<forall>m \<in> set (ring_msgs d ch). msg_ok s m)"
  by (auto simp: queue_ok_def ring_wf_def ring_msgs_def)

definition queues :: "cap_state \<Rightarrow> nat \<Rightarrow> nat \<Rightarrow> ChanMsg list" where
  "queues s c d = ring_msgs d (cap_channels s c)"

lemma chans_okD:
  assumes "chans_ok s" and "c < CAP_CHAN_MAX" and "d < 2"
  shows "ring_wf d (cap_channels s c)" and "m \<in> set (queues s c d) \<Longrightarrow> msg_ok s m"
  using assms by (simp_all add: chans_ok_def queue_ok_ring queues_def)

lemma cap_rep_channel:
  assumes rep: "cap_rep X s R P n" and ch: "\<And>d. d < 2 \<Longrightarrow> queue_ok s (f (cap_channels s c)) d"
  shows "cap_rep X (upd_channel c f s) R P n"
proof (rule cap_rep_frame [OF rep])
  have ext: "objs_ext s (upd_channel c f s)"
    by (rule objs_ext_same) (simp_all add: upd_channel_def)
  have "queue_ok s (cap_channels (upd_channel c f s) c') d" if "c' < CAP_CHAN_MAX" "d < 2" for c' d
    using ch [OF that(2)] cap_repD(7) [OF rep] that by (simp add: upd_channel_def chans_ok_def)
  then show "chans_ok (upd_channel c f s)"
    using queue_ok_ext [OF _ ext] by (simp add: chans_ok_def)
qed (simp_all add: upd_channel_def)

lemma ring_other:
  "d' \<noteq> d \<Longrightarrow> ring_msgs d' (ring_put d ch) = ring_msgs d' ch" "d' \<noteq> d \<Longrightarrow> ring_wf d' (ring_put d ch) = ring_wf d' ch"
  "d' \<noteq> d \<Longrightarrow> ring_msgs d' (ring_deq d ch) = ring_msgs d' ch" "d' \<noteq> d \<Longrightarrow> ring_wf d' (ring_deq d ch) = ring_wf d' ch"
  "d' \<noteq> d \<Longrightarrow> ring_msgs d' (ring_set d e m ch) = ring_msgs d' ch" "ring_wf d' (ring_set d e m ch) = ring_wf d' ch"
  by (simp_all add: ring_msgs_def ring_wf_def ring_put_def ring_deq_def ring_set_def)

lemma upd_msg_ring: "upd_msg c d e f s = upd_channel c (\<lambda>ch. ring_set d e (f (c_q ch d e)) ch) s"
  by (simp add: upd_msg_def ring_set_def)

lemma ring_set_tail:
  assumes "ring_wf d ch" and "c_qdepth ch d < CHAN_QUEUE_DEPTH"
  shows "ring_msgs d (ring_set d (ring_tail d ch) m ch) = ring_msgs d ch"
proof -
  have tail: "ring_tail d ch = (c_qhead ch d + c_qdepth ch d) mod 16"
    using assms by (simp add: ring_tail_def ring_wf_def limits)
  have "c_q (ring_set d (ring_tail d ch) m ch) d ((c_qhead ch d + k) mod 16) = c_q ch d ((c_qhead ch d + k) mod 16)"
    if "k < c_qdepth ch d" for k
    using slot_new [OF that, of 16 "c_qhead ch d"] assms(2) by (simp add: ring_set_def tail limits)
  then show ?thesis
    by (simp add: ring_msgs_def ring_set_def limits)
qed

lemma ring_put_enq: "ring_put d ch = ring_enq d (c_q ch d (ring_tail d ch)) ch"
  by (simp add: ring_enq_def ring_set_def ring_tail_def)

text \<open>Writing the entry behind the last message.\<close>

lemma cap_rep_tail:
  assumes rep: "cap_rep X s R P n" and c: "c < CAP_CHAN_MAX" and d: "d < 2"
    and room: "c_qdepth (cap_channels s c) d < CHAN_QUEUE_DEPTH" and e: "e = ring_tail d (cap_channels s c)"
  shows "cap_rep X (upd_msg c d e f s) R P n" and "queues (upd_msg c d e f s) = queues s"
proof -
  note ok = chans_okD [OF cap_repD(7) [OF rep] c]
  note set = ring_set_tail [OF ok(1) [OF d] room, folded e]
  show "cap_rep X (upd_msg c d e f s) R P n"
    unfolding upd_msg_ring
  proof (rule cap_rep_channel [OF rep])
    show "queue_ok s (ring_set d e (f (c_q (cap_channels s c) d e)) (cap_channels s c)) d'" if "d' < 2" for d'
      using ok [OF that] set by (cases "d' = d") (auto simp: queue_ok_ring ring_other queues_def)
  qed
  show "queues (upd_msg c d e f s) = queues s"
    using set by (auto simp: queues_def upd_msg_ring upd_channel_def fun_eq_iff ring_other)
      (metis ring_other(5))
qed

text \<open>Publishing it.\<close>

lemma cap_rep_put:
  assumes rep: "cap_rep X s R P n" and c: "c < CAP_CHAN_MAX" and d: "d < 2"
    and room: "c_qdepth (cap_channels s c) d < CHAN_QUEUE_DEPTH"
    and m: "m = msg_at s c d (ring_tail d (cap_channels s c))" "msg_ok s m"
  shows "cap_rep X (upd_channel c (ring_put d) s) R P n"
    and "queues (upd_channel c (ring_put d) s) = (queues s)(c := (queues s c)(d := queues s c d @ [m]))"
proof -
  let ?ch = "cap_channels s c"
  note ok = chans_okD [OF cap_repD(7) [OF rep] c]
  have enq: "ring_put d ?ch = ring_enq d m ?ch"
    using m(1) by (simp add: ring_put_enq)
  have msgs: "ring_msgs d (ring_put d ?ch) = ring_msgs d ?ch @ [m]" and wf: "ring_wf d (ring_put d ?ch)"
    using ring_msgs_enq [OF ok(1) [OF d] room] ring_wf_enq [OF ok(1) [OF d] room] by (simp_all add: enq)
  show "cap_rep X (upd_channel c (ring_put d) s) R P n"
  proof (rule cap_rep_channel [OF rep])
    show "queue_ok s (ring_put d ?ch) d'" if "d' < 2" for d'
      using ok [OF that] m(2) wf msgs
      by (cases "d' = d") (auto simp: queue_ok_ring ring_other queues_def)
  qed
  show "queues (upd_channel c (ring_put d) s) = (queues s)(c := (queues s c)(d := queues s c d @ [m]))"
    using msgs by (auto simp: queues_def upd_channel_def fun_eq_iff ring_other)
qed

text \<open>Removing the front.\<close>

lemma cap_rep_deq:
  assumes rep: "cap_rep X s R P n" and c: "c < CAP_CHAN_MAX" and d: "d < 2"
    and some: "0 < c_qdepth (cap_channels s c) d"
  shows "cap_rep X (upd_channel c (ring_deq d) s) R P n"
    and "queues (upd_channel c (ring_deq d) s) = (queues s)(c := (queues s c)(d := tl (queues s c d)))"
proof -
  let ?ch = "cap_channels s c"
  note ok = chans_okD [OF cap_repD(7) [OF rep] c]
  have msgs: "ring_msgs d (ring_deq d ?ch) = tl (ring_msgs d ?ch)" and wf: "ring_wf d (ring_deq d ?ch)"
    using ring_msgs_deq [OF ok(1) [OF d] some] ring_wf_deq [OF ok(1) [OF d] some] by simp_all
  show "cap_rep X (upd_channel c (ring_deq d) s) R P n"
  proof (rule cap_rep_channel [OF rep])
    show "queue_ok s (ring_deq d ?ch) d'" if "d' < 2" for d'
      using ok [OF that] wf msgs
      by (cases "d' = d") (auto simp: queue_ok_ring ring_other queues_def, metis list.sel(2) list.set_sel(2))
  qed
  show "queues (upd_channel c (ring_deq d) s) = (queues s)(c := (queues s c)(d := tl (queues s c d)))"
    using msgs by (auto simp: queues_def upd_channel_def fun_eq_iff ring_other)
qed

section \<open>Sending\<close>

lemma slot_cap:
  assumes "cap_table_find p s = Some ti" and "r < CAP_TABLE_ENTRIES" and "cap_word_valid (slot_word s ti r)"
  shows "cap_at s p r = Some (slot_word s ti r)"
  using assms by (simp add: cap_at_def cap_word_valid_def split: if_splits)

lemma endpoint_chan:
  assumes rep: "cap_rep X s R P n" and get: "cap_object_get i s = Some ob" and kind: "o_kind (cap_objects s ob) = KIND_CHAN"
  shows "ob < cap_obj_next s" and "o_active (cap_objects s ob)" and "o_chan_id (cap_objects s ob) < CAP_CHAN_MAX"
proof -
  note ok = cap_repD(5) [OF rep]
  show "o_active (cap_objects s ob)" "ob < cap_obj_next s"
    using get objs_okD(4) [OF ok, of ob] by (simp_all add: cap_object_get_iff [OF ok])
  then show "o_chan_id (cap_objects s ob) < CAP_CHAN_MAX"
    using objs_okD(7) [OF ok _ kind] by blast
qed

lemma send_channel_Ok:
  assumes rep: "cap_rep X s R P n" and ok: "send_channel ti i s = Ok cobj"
  shows "o_chan_id (cap_objects s cobj) < CAP_CHAN_MAX"
proof -
  obtain j where "cap_object_get j s = Some cobj" "o_kind (cap_objects s cobj) = KIND_CHAN"
    using ok unfolding send_channel_def Let_def by (auto split: if_splits option.splits)
  then show ?thesis
    using endpoint_chan [OF rep] by blast
qed

lemma send_payload_Ok:
  assumes rep: "cap_rep X s R P n" and fnd: "cap_table_find p s = Some ti" and ok: "send_payload ti i s = Ok (Some (w, ob))"
  shows "cap_at s p i = Some w" and "cap_word_obj w = ob" and "minted s w" and "o_active (cap_objects s ob)"
    and "ob < cap_obj_next s" and "\<not> o_revoking (cap_objects s ob)" and "i < CAP_TABLE_ENTRIES"
proof -
  have a: "i < CAP_TABLE_ENTRIES" "w = slot_word s ti i" "cap_word_valid w" "cap_object_get (cap_word_obj w) s = Some ob"
    using ok unfolding send_payload_def Let_def by (auto split: if_splits option.splits)
  show "i < CAP_TABLE_ENTRIES"
    by (rule a)
  show at: "cap_at s p i = Some w"
    using slot_cap [OF fnd a(1)] a(2,3) by simp
  note d = cap_repD [OF rep]
  show m: "minted s w"
    using d(4) at by (simp add: caps_ok_def)
  show ob: "cap_word_obj w = ob" "o_active (cap_objects s ob)" "ob < cap_obj_next s" "\<not> o_revoking (cap_objects s ob)"
    using a(4) objs_okD(3,4) [OF d(5), of ob] by (auto simp: cap_object_get_iff [OF d(5)])
qed

lemma push_fields [simp]:
  "cap_objects (cap_slot_push ti r s) = cap_objects s" "cap_obj_next (cap_slot_push ti r s) = cap_obj_next s"
  "cap_holders (cap_slot_push ti r s) = cap_holders s" "cap_channels (cap_slot_push ti r s) = cap_channels s"
  "cap_table_pid (cap_slot_push ti r s) = cap_table_pid s"
  "cap_objects (set_slot ti r w s) = cap_objects s" "cap_obj_next (set_slot ti r w s) = cap_obj_next s"
  "cap_holders (set_slot ti r w s) = cap_holders s" "cap_channels (set_slot ti r w s) = cap_channels s"
  "cap_table_pid (set_slot ti r w s) = cap_table_pid s"
  by (simp_all add: cap_slot_push_def set_slot_def upd_table_def)

lemma channel_fields [simp]:
  "cap_tables (upd_channel c f s) = cap_tables s" "cap_table_pid (upd_channel c f s) = cap_table_pid s"
  "cap_objects (upd_channel c f s) = cap_objects s" "cap_obj_next (upd_channel c f s) = cap_obj_next s"
  "cap_holders (upd_channel c f s) = cap_holders s"
  "cap_tables (upd_msg c d e g s) = cap_tables s" "cap_table_pid (upd_msg c d e g s) = cap_table_pid s"
  "cap_objects (upd_msg c d e g s) = cap_objects s" "cap_obj_next (upd_msg c d e g s) = cap_obj_next s"
  "cap_holders (upd_msg c d e g s) = cap_holders s"
  by (simp_all add: upd_msg_def upd_channel_def)

lemma channel_get [simp]:
  "cap_object_get i (upd_channel c f s) = cap_object_get i s" "cap_object_get i (upd_msg c d e g s) = cap_object_get i s"
  by (simp_all add: cap_object_get_def)

lemma send_payload_upd_msg [simp]: "send_payload ti i (upd_msg c d e g s) = send_payload ti i s"
  by (simp add: send_payload_def cong: if_cong)

lemma channel_at [simp]:
  "cap_at (upd_channel c f s) = cap_at s" "cap_at (upd_msg c d e g s) = cap_at s" "cap_at (log_hook h s) = cap_at s"
  by (rule cap_at_cong, simp_all add: log_hook_def)+

lemma log_hook_rep [simp]: "cap_rep X (log_hook h s) R P n = cap_rep X s R P n"
proof -
  have "cap_rep X (log_hook h s) R P n" if "cap_rep X s R P n" for s h
    by (rule cap_rep_frame_chans [OF that]) (simp_all add: log_hook_def)
  from this [of s h] show ?thesis
    using cap_rep_frame_chans [of X "log_hook h s" R P n s] by (auto simp: log_hook_def)
qed

lemma log_hook_queues [simp]: "queues (log_hook h s) = queues s"
  by (simp add: queues_def log_hook_def fun_eq_iff)

text \<open>A capability leaves its slot for a queue entry; the reference moves with it.\<close>

lemma move_out:
  assumes rep: "cap_rep {} s R {} n" and fnd: "cap_table_find p s = Some ti"
    and at: "cap_at s p i = Some w" and ob: "cap_word_obj w = ob"
    and c: "c < CAP_CHAN_MAX" and d: "d < 2" and q: "q < CHAN_QUEUE_DEPTH * CAP_MSG_MAX_CAPS"
    and al: "cap_holder_alloc ob HOLDER_QUEUE c q d s = Some (hq, s1)"
  defines "s2 \<equiv> cap_holder_link hq ob (cap_slot_push ti i (set_slot ti i 0 (cap_holder_remove ob HOLDER_SLOT p i s1)))"
  shows "\<exists>n'. cap_rep {} s2 (R(ob := (HOLDER_QUEUE, c, q, d) # drop_ref HOLDER_SLOT p i (R ob))) {} n'"
    and "cap_at s2 = (cap_at s)(p := (cap_at s p)(i := None))"
    and "cap_channels s2 = cap_channels s" and "objs_ext s s2"
proof -
  note only1 = cap_holder_alloc_only [OF al]
  have mt: "minted s w" and act: "o_active (cap_objects s ob)"
    using cap_repD(4) [OF rep] at ob by (auto simp: caps_ok_def)
  have ob1: "ob < cap_obj_next s1"
    using minted_fields(3) [OF mt] ob by (simp add: holder_only_tables [OF only1])
  have rep1: "cap_rep {} s1 R {hq} (n - 1)"
    using cap_rep_alloc [OF rep al] by simp
  have st1: "staged s1 hq ob (HOLDER_QUEUE, c, q, d)"
    using refs_alloc(4) [OF cap_repD(2) [OF rep] al] by simp
  have at1: "cap_at s1 = cap_at s"
    by (rule cap_at_holder [OF only1])
  have fnd1: "cap_table_find p s1 = Some ti"
    using fnd cap_table_find_cong [OF holder_only_tables(2) [OF only1]] by simp
  let ?t = "cap_slot_push ti i (set_slot ti i 0 (cap_holder_remove ob HOLDER_SLOT p i s1))"
  have at_i: "cap_at s1 p i = Some w"
    using at by (simp add: at1)
  note tk = cap_rep_take_slot [OF rep1 fnd1 at_i ob]
  obtain n2 where rep2: "cap_rep {ob} ?t (R(ob := drop_ref HOLDER_SLOT p i (R ob))) {hq} n2"
    using tk(1) by auto
  note only2 = cap_holder_remove_only [of s1 ob HOLDER_SLOT p i]
  have st2: "staged ?t hq ob (HOLDER_QUEUE, c, q, d)"
    using remove_staged [OF cap_repD(2) [OF rep1] ob1 _ st1] by (simp add: staged_def)
  have obt: "ob < cap_obj_next ?t" "o_active (cap_objects ?t ob)"
    using ob1 act by (simp_all add: holder_only_tables [OF only2] holder_only_objects [OF only2] holder_only_objects [OF only1])
  from cap_rep_link_queue [OF rep2 _ st2 obt c q d]
  show "\<exists>n'. cap_rep {} s2 (R(ob := (HOLDER_QUEUE, c, q, d) # drop_ref HOLDER_SLOT p i (R ob))) {} n'"
    unfolding s2_def by auto
  show "cap_at s2 = (cap_at s)(p := (cap_at s p)(i := None))"
    using tk(2) cap_at_holder [OF cap_holder_link_only [of ?t hq ob]] by (simp add: s2_def at1)
  show "cap_channels s2 = cap_channels s"
    by (simp add: s2_def holder_only_tables(4) [OF cap_holder_link_only] holder_only_tables(4) [OF only2]
        holder_only_tables(4) [OF only1])
  have "objs_ext s1 ?t"
    using objs_ext_trans [OF objs_ext_holder [OF only2] objs_ext_same, of ?t] by simp
  with objs_ext_trans [OF objs_ext_holder [OF only1]] show "objs_ext s s2"
    using objs_ext_trans objs_ext_holder [OF cap_holder_link_only] unfolding s2_def by blast
qed

lemma send_move_Ok:
  assumes rep: "cap_rep {} s R {} n" and fnd: "cap_table_find p s = Some ti"
    and pl: "send_payload ti i s = Ok (Some (w, ob))" and c: "c < CAP_CHAN_MAX" and d: "d < 2" and e: "e < CHAN_QUEUE_DEPTH"
    and al: "cap_holder_alloc ob HOLDER_QUEUE (u16 c) (u16 (e * CAP_MSG_MAX_CAPS)) (u8 d) s = Some (hq, s1)"
  defines "s2 \<equiv> cap_holder_link hq ob (cap_slot_push ti i (set_slot ti i 0 (cap_holder_remove ob HOLDER_SLOT p i s1)))"
  shows "\<exists>R' n'. cap_rep {} s2 R' {} n'" and "cap_at s2 = (cap_at s)(p := (cap_at s p)(i := None))"
    and "cap_channels s2 = cap_channels s" and "objs_ext s s2"
proof -
  note a = send_payload_Ok [OF rep fnd pl]
  have "cap_holder_alloc ob HOLDER_QUEUE c (e * CAP_MSG_MAX_CAPS) d s = Some (hq, s1)"
    "e * CAP_MSG_MAX_CAPS < CHAN_QUEUE_DEPTH * CAP_MSG_MAX_CAPS"
    using al c d e by (simp_all add: limits)
  from move_out [OF rep fnd a(1,2) c d this(2,1), folded s2_def]
  show "\<exists>R' n'. cap_rep {} s2 R' {} n'" "cap_at s2 = (cap_at s)(p := (cap_at s p)(i := None))"
    "cap_channels s2 = cap_channels s" "objs_ext s s2"
    by blast+
qed

lemma msg_at_upd [simp]: "msg_at (upd_msg c d e f s) c d e = f (msg_at s c d e)"
  by (simp add: upd_msg_def upd_channel_def)

lemma ring_upd_msg [simp]:
  "ring_tail d' (cap_channels (upd_msg c d e f s) c) = ring_tail d' (cap_channels s c)"
  "ring_head d' (cap_channels (upd_msg c d e f s) c) = ring_head d' (cap_channels s c)"
  "c_qdepth (cap_channels (upd_msg c d e f s) c) = c_qdepth (cap_channels s c)"
  "c_end0_pid (cap_channels (upd_msg c d e f s) c) = c_end0_pid (cap_channels s c)"
  by (simp_all add: upd_msg_def upd_channel_def ring_tail_def ring_head_def)

lemma msg_ok_upd_msg: "msg_ok (upd_msg c d e f s) = msg_ok s"
proof -
  have "minted (upd_msg c d e f s) = minted s"
    by (auto simp: minted_def fun_eq_iff Let_def)
  then show ?thesis
    by (simp add: msg_ok_def qword_ok_def fun_eq_iff)
qed

lemma send_finish_rep:
  assumes rep: "cap_rep X s R P n" and c: "c < CAP_CHAN_MAX" and d: "d < 2"
    and room: "c_qdepth (cap_channels s c) d < CHAN_QUEUE_DEPTH" and e: "e = ring_tail d (cap_channels s c)"
    and ok: "msg_ok s (msg_at s c d e)"
  shows "cap_rep X (send_finish c d e ck s) R P n" and "cap_at (send_finish c d e ck s) = cap_at s"
    and "\<exists>m. queues (send_finish c d e ck s) = (queues s)(c := (queues s c)(d := queues s c d @ [m])) \<and>
           m_cookie m = ck \<and> m_n_caps m = m_n_caps (msg_at s c d e) \<and> m_cap_word m = m_cap_word (msg_at s c d e)"
proof -
  define f where "f = (\<lambda>m :: ChanMsg. m\<lparr>m_cookie := ck, m_payload_len := 0, m_payload_idx := CAP_NONE, m_flags := 0\<rparr>)"
  let ?s = "upd_msg c d e f s" and ?m = "f (msg_at s c d e)"
  have fin: "send_finish c d e ck s = log_hook MaybeHandoff (log_hook (WakeChan c) (upd_channel c (ring_put d) ?s))"
    by (simp add: send_finish_def f_def)
  note t = cap_rep_tail [OF rep c d room e, of f]
  have "msg_ok ?s ?m"
    using ok by (simp add: msg_ok_upd_msg f_def msg_ok_def)
  note pt = cap_rep_put [OF t(1) c d _ _ this]
  show "cap_rep X (send_finish c d e ck s) R P n" "cap_at (send_finish c d e ck s) = cap_at s"
    using pt(1) room by (simp_all add: fin e [symmetric])
  have "queues (send_finish c d e ck s) = (queues s)(c := (queues s c)(d := queues s c d @ [?m]))"
    using pt(2) room by (simp add: fin e [symmetric] t(2))
  then show "\<exists>m. queues (send_finish c d e ck s) = (queues s)(c := (queues s c)(d := queues s c d @ [m])) \<and>
           m_cookie m = ck \<and> m_n_caps m = m_n_caps (msg_at s c d e) \<and> m_cap_word m = m_cap_word (msg_at s c d e)"
    by (intro exI [of _ ?m]) (simp add: f_def)
qed

text \<open>
  The contract of a send. On success one message goes to the back of one queue and a
  capability that was named leaves the sender's slot and travels in that message; on any
  error neither the capability space nor a queue changes.
\<close>

definition sends ::
  "cap_state \<Rightarrow> nat \<Rightarrow> nat \<Rightarrow> 64 word \<Rightarrow> unit res \<Rightarrow> cap_state \<Rightarrow> bool" where
  "sends s pid cap_idx cookie r s' \<longleftrightarrow> cap_inv s' \<and>
     (case r of
        Ok _ \<Rightarrow> (\<exists>c d m. queues s' = (queues s)(c := (queues s c)(d := queues s c d @ [m])) \<and> m_cookie m = cookie \<and>
          (if cap_idx = CAP_NONE then m_n_caps m = 0 \<and> cap_at s' = cap_at s
           else m_n_caps m = 1 \<and> cap_at s pid cap_idx = Some (m_cap_word m 0) \<and>
                cap_at s' = (cap_at s)(pid := (cap_at s pid)(cap_idx := None))))
      | Err _ \<Rightarrow> cap_at s' = cap_at s \<and> queues s' = queues s
      | Oob \<Rightarrow> False)"

lemma ring_tail_bound: "ring_tail d ch < CHAN_QUEUE_DEPTH" "ring_head d ch < CHAN_QUEUE_DEPTH"
  by (simp_all add: ring_tail_def ring_head_def limits)

text \<open>From the checks to the published message.\<close>

lemma send_tail_sends:
  assumes rep: "cap_rep {} s R {} n" and fnd: "cap_table_find p s = Some ti" and p: "p < 65536"
    and c: "c < CAP_CHAN_MAX" and d: "d < 2" and room: "c_qdepth (cap_channels s c) d < CHAN_QUEUE_DEPTH"
    and e: "e = ring_tail d (cap_channels s c)" and pl: "send_payload ti i s = Ok (Some (w, ob))"
    and mv: "send_move p ti i c d e ob w (upd_msg c d e msg_clear_caps s) = (r, s2)"
    and fin: "s' = (case r of Ok _ \<Rightarrow> send_finish c d e ck s2 | _ \<Rightarrow> s2)"
  shows "sends s p i ck r s'"
proof -
  let ?s = "upd_msg c d e msg_clear_caps s"
  note t = cap_rep_tail [OF rep c d room e, of msg_clear_caps] and a = send_payload_Ok [OF rep fnd pl]
  have pl': "send_payload ti i ?s = Ok (Some (w, ob))" and fnd': "cap_table_find p ?s = Some ti"
    using pl fnd cap_table_find_cong [of ?s s p] by simp_all
  have i: "i \<noteq> CAP_NONE"
    using a(7) by (simp add: limits)
  show ?thesis
  proof (cases "cap_holder_alloc ob HOLDER_QUEUE (u16 c) (u16 (e * CAP_MSG_MAX_CAPS)) (u8 d) ?s")
    case None
    with mv a(6) have "r = Err ENOMEM" "s2 = ?s"
      by (auto simp: send_move_def)
    with t show ?thesis
      by (auto simp: sends_def fin cap_inv_def)
  next
    case (Some x)
    then obtain hq s1 where al: "cap_holder_alloc ob HOLDER_QUEUE (u16 c) (u16 (e * CAP_MSG_MAX_CAPS)) (u8 d) ?s = Some (hq, s1)"
      by (cases x) simp
    let ?f = "\<lambda>m :: ChanMsg. m\<lparr>m_cap_word := (m_cap_word m)(0 := w), m_n_caps := 1\<rparr>"
    define t2 where "t2 = cap_holder_link hq ob (cap_slot_push ti i (set_slot ti i 0 (cap_holder_remove ob HOLDER_SLOT p i s1)))"
    have e16: "e < CHAN_QUEUE_DEPTH"
      using ring_tail_bound by (simp add: e)
    note mvd = send_move_Ok [OF t(1) fnd' pl' c d e16 al, folded t2_def]
    have r: "r = Ok ()" and s2: "s2 = upd_msg c d e ?f t2"
      using mv a(6) p by (auto simp: send_move_def al Let_def t2_def)
    obtain R' n' where rep2: "cap_rep {} t2 R' {} n'"
      using mvd(1) by blast
    have ch2: "cap_channels t2 = cap_channels ?s"
      by (rule mvd(3))
    have room2: "c_qdepth (cap_channels t2 c) d < CHAN_QUEUE_DEPTH" and e2: "e = ring_tail d (cap_channels t2 c)"
      using room e by (simp_all add: ch2)
    note t3 = cap_rep_tail [OF rep2 c d room2 e2, of ?f]
    have "minted t2 w"
      using minted_ext [OF a(3) objs_ext_trans [OF objs_ext_same mvd(4)]] by simp
    then have "msg_ok t2 (?f (msg_at t2 c d e))"
      by (simp add: msg_ok_def qword_ok_def ch2 msg_clear_caps_def limits)
    then have "msg_ok s2 (msg_at s2 c d e)"
      by (simp add: s2 msg_ok_upd_msg)
    note okm = this
    have q: "queues t2 = queues s"
      using t(2) by (simp add: queues_def ch2 fun_eq_iff)
    have s2q: "queues s2 = queues s" "c_qdepth (cap_channels s2 c) d < CHAN_QUEUE_DEPTH" "e = ring_tail d (cap_channels s2 c)"
      using t3(2) q room2 e2 by (simp_all add: s2)
    note f = send_finish_rep [OF t3(1) [folded s2] c d s2q(2,3) okm]
    have s'2: "s' = send_finish c d e ck s2"
      by (simp add: fin r)
    obtain m where m: "queues s' = (queues s)(c := (queues s c)(d := queues s c d @ [m]))" "m_cookie m = ck"
      "m_n_caps m = 1" "m_cap_word m 0 = w"
      using f(3) [of ck] unfolding s2q(1) s'2 by (auto simp: s2)
    have "cap_at s' = (cap_at s)(p := (cap_at s p)(i := None))"
      using f(2) [of ck] mvd(2) unfolding s'2 by (simp add: s2)
    moreover have "cap_inv s'"
      using f(1) [of ck] unfolding s'2 cap_inv_def by blast
    ultimately show ?thesis
      using m a(1) i unfolding sends_def r by auto
  qed
qed

lemma send_plain_sends:
  assumes rep: "cap_rep {} s R {} n" and c: "c < CAP_CHAN_MAX" and d: "d < 2"
    and room: "c_qdepth (cap_channels s c) d < CHAN_QUEUE_DEPTH" and e: "e = ring_tail d (cap_channels s c)"
    and s': "s' = send_finish c d e ck (upd_msg c d e (\<lambda>m. m\<lparr>m_n_caps := 0, m_cap_word := (m_cap_word m)(0 := 0)\<rparr>)
                    (upd_msg c d e msg_clear_caps s))"
  shows "sends s p CAP_NONE ck (Ok ()) s'"
proof -
  let ?f = "\<lambda>m :: ChanMsg. m\<lparr>m_n_caps := 0, m_cap_word := (m_cap_word m)(0 := 0)\<rparr>"
  let ?s1 = "upd_msg c d e msg_clear_caps s"
  note t1 = cap_rep_tail [OF rep c d room e, of msg_clear_caps]
  have r1: "c_qdepth (cap_channels ?s1 c) d < CHAN_QUEUE_DEPTH" "e = ring_tail d (cap_channels ?s1 c)"
    using room e by simp_all
  note t2 = cap_rep_tail [OF t1(1) c d r1, of ?f]
  have r2: "c_qdepth (cap_channels (upd_msg c d e ?f ?s1) c) d < CHAN_QUEUE_DEPTH"
    "e = ring_tail d (cap_channels (upd_msg c d e ?f ?s1) c)"
    using r1 by simp_all
  have "msg_ok (upd_msg c d e ?f ?s1) (msg_at (upd_msg c d e ?f ?s1) c d e)"
    by (simp add: msg_ok_upd_msg msg_ok_def qword_ok_def msg_clear_caps_def)
  note f = send_finish_rep [OF t2(1) c d r2 this]
  obtain m where "queues s' = (queues s)(c := (queues s c)(d := queues s c d @ [m]))" "m_cookie m = ck" "m_n_caps m = 0"
    using f(3) [of ck] unfolding s' [symmetric] t2(2) t1(2) by auto
  moreover have "cap_at s' = cap_at s"
    using f(2) [of ck] by (simp add: s')
  moreover have "cap_inv s'"
    using f(1) [of ck] unfolding s' cap_inv_def by blast
  ultimately show ?thesis
    unfolding sends_def by auto
qed

lemma send_checks_not_Oob:
  "i < CAP_TABLE_ENTRIES \<Longrightarrow> send_channel ti i s \<noteq> Oob"
  "j = CAP_NONE \<or> j < CAP_TABLE_ENTRIES \<Longrightarrow> send_payload ti j s \<noteq> Oob"
  "send_payload ti j s = Ok None \<longleftrightarrow> j = CAP_NONE"
  by (auto simp: send_channel_def send_payload_def Let_def split: if_splits option.splits)

lemma send_move_not_Oob: "send_move p ti i c d e ob w s \<noteq> (Oob, s')"
  by (auto simp: send_move_def Let_def split: if_splits option.splits)

lemma sends_bind: "sends s1 p i ck r s' \<Longrightarrow> cap_at s1 = cap_at s \<Longrightarrow> queues s1 = queues s \<Longrightarrow> sends s p i ck r s'"
  by (simp only: sends_def)

lemma sends_Err: "cap_rep {} s R {} n \<Longrightarrow> sends s p i ck (Err e) s"
  unfolding sends_def cap_inv_def by auto

lemma send_queue_sends:
  assumes rep: "cap_rep {} s R {} n" and fnd: "cap_table_find p s = Some ti" and p: "p < 65536"
    and c: "c < CAP_CHAN_MAX" and d: "d < 2" and j: "i = CAP_NONE \<or> i < CAP_TABLE_ENTRIES"
    and res: "send_queue p ti i c d ck s = (r, s')"
  shows "sends s p i ck r s'"
proof (cases "send_payload ti i s")
  case (Ok x)
  show ?thesis
  proof (cases "c_qdepth (cap_channels s c) d < CHAN_QUEUE_DEPTH")
    case False
    then show ?thesis
      using res sends_Err [OF rep] by (auto simp: send_queue_def Ok)
  next
    case room: True
    let ?e = "ring_tail d (cap_channels s c)"
    show ?thesis
    proof (cases x)
      case None
      then have "r = Ok ()" and i: "i = CAP_NONE" and s': "s' = send_finish c d ?e ck
         (upd_msg c d ?e (\<lambda>m. m\<lparr>m_n_caps := 0, m_cap_word := (m_cap_word m)(0 := 0)\<rparr>) (upd_msg c d ?e msg_clear_caps s))"
        using res room Ok send_checks_not_Oob(3) [of ti i s] by (simp_all add: send_queue_def Let_def)
      with send_plain_sends [OF rep c d room refl s'] show ?thesis
        by simp
    next
      case (Some y)
      obtain w ob where y: "y = (w, ob)"
        by (cases y)
      obtain r2 s2 where mv: "send_move p ti i c d ?e ob w (upd_msg c d ?e msg_clear_caps s) = (r2, s2)"
        by fastforce
      have "r = r2 \<and> s' = (case r of Ok _ \<Rightarrow> send_finish c d ?e ck s2 | _ \<Rightarrow> s2)"
        using res room by (auto simp: send_queue_def Ok Let_def Some y mv split: res.splits)
      then show ?thesis
        using send_tail_sends [OF rep fnd p c d room refl, of i w ob r s2] Ok mv by (simp add: Some y)
    qed
  qed
next
  case (Err e)
  then show ?thesis
    using res sends_Err [OF rep] by (auto simp: send_queue_def)
qed (use send_checks_not_Oob(2) [OF j] in auto)

lemma send_sends:
  assumes inv: "cap_inv s" and p: "pid < 65536" and i: "ch_w_idx < CAP_TABLE_ENTRIES"
    and j: "cap_idx = CAP_NONE \<or> cap_idx < CAP_TABLE_ENTRIES"
    and res: "cap_send pid ch_w_idx cap_idx cookie s = (r, s')"
  shows "sends s pid cap_idx cookie r s'"
proof -
  obtain R n where rep: "cap_rep {} s R {} n"
    using inv by (auto simp: cap_inv_def)
  obtain oti s1 where i1: "cap_table_index pid s = (oti, s1)"
    by fastforce
  show ?thesis
  proof (cases oti)
    case None
    then show ?thesis
      using res i1 cap_table_index_None [of pid s s1] sends_Err [OF rep] by (auto simp: cap_send_def)
  next
    case (Some ti)
    note b = cap_rep_bind [OF rep i1 [unfolded Some] p]
    have qs: "queues s1 = queues s"
      by (subst b(4)) (simp add: queues_def fun_eq_iff)
    have "sends s1 pid cap_idx cookie r s'"
    proof (cases "send_channel ti ch_w_idx s1")
      case (Ok cobj)
      define c where "c = o_chan_id (cap_objects s1 cobj)"
      define d :: nat where "d = (if pid = c_end0_pid (cap_channels s1 c) then 1 else 0)"
      have "c < CAP_CHAN_MAX" "d < 2"
        using send_channel_Ok [OF b(1) Ok] by (simp_all add: c_def d_def)
      moreover have "send_queue pid ti cap_idx c d cookie s1 = (r, s')"
        using res by (simp add: cap_send_def i1 Some Ok Let_def c_def d_def)
      ultimately show ?thesis
        using send_queue_sends [OF b(1,2) p] j by blast
    next
      case (Err e)
      then show ?thesis
        using res sends_Err [OF b(1)] by (auto simp: cap_send_def i1 Some)
    qed (use send_checks_not_Oob(1) [OF i] in auto)
    then show ?thesis
      by (rule sends_bind) (rule b(3), rule qs)
  qed
qed

end
