(* ===== verification/Cap_Recv.thy ===== *)
theory Cap_Recv
  imports Cap_Send
begin

text \<open>
  What a receive does: \<^verbatim>\<open>cap_msg_drain_tail\<close>, the release of the message and \<^verbatim>\<open>cap_recv\<close>.
  The queue loses its front message; its first capability arrives in a fresh slot of the
  receiver, or the message is skipped because that capability was revoked in flight.
\<close>

section \<open>Reaping\<close>

lemma objs_ok_covered: "objs_ok (insert ob X) s R \<Longrightarrow> R ob \<noteq> [] \<Longrightarrow> objs_ok X s R"
  unfolding objs_ok_def by (metis insertE)

lemma object_reap_rep:
  assumes rep: "cap_rep (insert ob X) s R P n" and ob: "ob < cap_obj_next s" "ob \<notin> X"
  shows "cap_rep X (object_reap ob s) R P n"
proof (cases "R ob = []")
  case True
  then have "o_refcount (cap_objects s ob) = 0"
    using refs_rep_refcount [OF cap_repD(2) [OF rep] ob(1)] by simp
  moreover have "cap_rep (insert ob X - {ob}) (cap_object_destroy ob (fst (cap_object_free_resources ob s))) R P n"
    using ob(1) by (intro cap_rep_destroy [OF cap_rep_free_resources [OF rep] True]) simp
  ultimately show ?thesis
    using ob(2) by (simp add: object_reap_def)
next
  case False
  then have "o_refcount (cap_objects s ob) \<noteq> 0"
    using refs_rep_refcount [OF cap_repD(2) [OF rep] ob(1)] by simp
  moreover have "cap_rep X s R P n"
    using cap_repD [OF rep] objs_ok_covered [OF cap_repD(5) [OF rep] False] by (intro cap_repI)
  ultimately show ?thesis
    by (simp add: object_reap_def)
qed

text \<open>What draining leaves alone: everything but one message's capability words.\<close>

abbreviation touches :: "nat \<Rightarrow> nat \<Rightarrow> nat \<Rightarrow> cap_state \<Rightarrow> cap_state \<Rightarrow> bool" where
  "touches c d e s s' \<equiv>
     (\<forall>c'. c_qhead (cap_channels s' c') = c_qhead (cap_channels s c') \<and>
           c_qtail (cap_channels s' c') = c_qtail (cap_channels s c') \<and>
           c_qdepth (cap_channels s' c') = c_qdepth (cap_channels s c')) \<and>
     (\<forall>c' d' e'. (c', d', e') \<noteq> (c, d, e) \<longrightarrow> msg_at s' c' d' e' = msg_at s c' d' e')"

definition drained :: "nat \<Rightarrow> nat \<Rightarrow> nat \<Rightarrow> cap_state \<Rightarrow> cap_state \<Rightarrow> bool" where
  "drained c d e s s' \<longleftrightarrow> objs_ext s s' \<and> cap_at s' = cap_at s \<and> cap_table_pid s' = cap_table_pid s \<and>
     touches c d e s s'"

lemma drained_refl: "drained c d e s s"
  by (simp add: drained_def)

lemma drained_trans: "drained c d e s s' \<Longrightarrow> drained c d e s' s'' \<Longrightarrow> drained c d e s s''"
  unfolding drained_def by (auto intro: objs_ext_trans)

lemma drained_upd_msg: "drained c d e s (upd_msg c d e f s)"
  using objs_ext_same [of "upd_msg c d e f s" s]
  by (auto simp: drained_def) (auto simp: upd_msg_def upd_channel_def)

lemma drained_holder: "holder_only s s' \<Longrightarrow> drained c d e s s'"
  by (simp add: drained_def objs_ext_holder cap_at_holder holder_only_tables)

lemma drained_reap: "drained c d e s (object_reap ob s)"
proof -
  let ?s = "cap_object_destroy ob (fst (cap_object_free_resources ob s))"
  have "cap_at ?s = cap_at s"
    by (rule cap_at_cong) simp_all
  moreover have "objs_ext s ?s"
    by (simp add: objs_ext_def)
  ultimately have "drained c d e s ?s"
    by (simp add: drained_def)
  then show ?thesis
    by (simp add: object_reap_def drained_refl)
qed

lemma drained_cursor:
  assumes "drained c d e s s'"
  shows "ring_head d' (cap_channels s' c') = ring_head d' (cap_channels s c')"
    and "c_qdepth (cap_channels s' c') = c_qdepth (cap_channels s c')"
    and "cap_at s' = cap_at s" and "objs_ext s s'" and "cap_table_pid s' = cap_table_pid s"
  using assms by (simp_all add: drained_def ring_head_def)

text \<open>Rewriting a message in place.\<close>

lemma ring_msgs_set:
  "set (ring_msgs d' (ring_set d e m ch)) \<subseteq> insert m (set (ring_msgs d' ch))"
  by (auto simp: ring_msgs_def ring_set_def)

lemma cap_rep_msg:
  assumes rep: "cap_rep X s R P n" and c: "c < CAP_CHAN_MAX" and f: "msg_ok s (f (msg_at s c d e))"
  shows "cap_rep X (upd_msg c d e f s) R P n"
  unfolding upd_msg_ring
proof (rule cap_rep_channel [OF rep])
  show "queue_ok s (ring_set d e (f (c_q (cap_channels s c) d e)) (cap_channels s c)) d'" if "d' < 2" for d'
    using chans_okD [OF cap_repD(7) [OF rep] c that] f ring_msgs_set [of d' d e "f (msg_at s c d e)" "cap_channels s c"]
    by (auto simp: queue_ok_ring ring_other queues_def)
qed

lemma drain_one_rep:
  assumes rep: "cap_rep {} s R {} n" and c: "c < CAP_CHAN_MAX" and ok: "msg_ok s (msg_at s c d e)"
  shows "\<exists>R' n'. cap_rep {} (msg_drain_one c d e i s) R' {} n'" and "drained c d e s (msg_drain_one c d e i s)"
    and "msg_ok (msg_drain_one c d e i s) (msg_at (msg_drain_one c d e i s) c d e)"
    and "m_n_caps (msg_at (msg_drain_one c d e i s) c d e) = m_n_caps (msg_at s c d e)"
    and "m_cookie (msg_at (msg_drain_one c d e i s) c d e) = m_cookie (msg_at s c d e)"
proof -
  let ?w = "m_cap_word (msg_at s c d e) i" and ?f = "\<lambda>m :: ChanMsg. m\<lparr>m_cap_word := (m_cap_word m)(i := 0)\<rparr>"
  define t where "t = (case cap_object_get (cap_word_obj ?w) s of
              None \<Rightarrow> s
            | Some xo \<Rightarrow> object_reap xo (cap_holder_remove xo HOLDER_QUEUE c (u16 (e * CAP_MSG_MAX_CAPS + i)) s))"
  have t: "(\<exists>R' n'. cap_rep {} t R' {} n') \<and> drained c d e s t \<and> msg_at t c d e = msg_at s c d e"
  proof (cases "cap_object_get (cap_word_obj ?w) s")
    case None
    with rep drained_refl show ?thesis
      by (auto simp: t_def)
  next
    case (Some xo)
    let ?r = "cap_holder_remove xo HOLDER_QUEUE c (u16 (e * CAP_MSG_MAX_CAPS + i)) s"
    note only = cap_holder_remove_only [of s xo HOLDER_QUEUE c "u16 (e * CAP_MSG_MAX_CAPS + i)"]
    have xo: "xo < cap_obj_next s"
      using Some objs_okD(4) [OF cap_repD(5) [OF rep]] by (auto simp: cap_object_get_iff [OF cap_repD(5) [OF rep]])
    then obtain R' n' where "cap_rep {xo} ?r R' {} n'"
      using cap_rep_drop_queue [OF rep xo] by blast
    then have "cap_rep {} (object_reap xo ?r) R' {} n'"
      using xo by (intro object_reap_rep) (simp_all add: holder_only_tables [OF only])
    moreover have "msg_at (object_reap xo ?r) c d e = msg_at s c d e"
      by (simp add: object_reap_def holder_only_tables [OF only])
    ultimately show ?thesis
      using drained_trans [OF drained_holder [OF only] drained_reap] by (auto simp: t_def Some)
  qed
  then obtain R' n' where rep': "cap_rep {} t R' {} n'" and dr: "drained c d e s t" and m: "msg_at t c d e = msg_at s c d e"
    by blast
  have ok': "msg_ok t (?f (msg_at t c d e))"
    using msg_ok_ext [OF ok] dr by (auto simp: m drained_def msg_ok_def qword_ok_def)
  have one: "msg_drain_one c d e i s = (if ?w = 0 then s else upd_msg c d e ?f t)"
    by (simp add: msg_drain_one_def t_def Let_def)
  show "\<exists>R' n'. cap_rep {} (msg_drain_one c d e i s) R' {} n'"
    using cap_rep_msg [of _ t _ _ _ c ?f d e, OF rep' c ok'] rep by (auto simp: one)
  show "drained c d e s (msg_drain_one c d e i s)"
    using drained_trans [OF dr drained_upd_msg] by (simp add: one drained_refl)
  show "msg_ok (msg_drain_one c d e i s) (msg_at (msg_drain_one c d e i s) c d e)"
    using ok ok' by (simp add: one msg_ok_upd_msg)
  show "m_n_caps (msg_at (msg_drain_one c d e i s) c d e) = m_n_caps (msg_at s c d e)"
    "m_cookie (msg_at (msg_drain_one c d e i s) c d e) = m_cookie (msg_at s c d e)"
    by (simp_all add: one m)
qed

lemma drain_fold_rep:
  assumes "cap_rep {} s R {} n" and "c < CAP_CHAN_MAX" and "msg_ok s (msg_at s c d e)"
  shows "(\<exists>R' n'. cap_rep {} (fold (msg_drain_one c d e) js s) R' {} n') \<and>
    drained c d e s (fold (msg_drain_one c d e) js s) \<and>
    msg_ok (fold (msg_drain_one c d e) js s) (msg_at (fold (msg_drain_one c d e) js s) c d e) \<and>
    m_n_caps (msg_at (fold (msg_drain_one c d e) js s) c d e) = m_n_caps (msg_at s c d e) \<and>
    m_cookie (msg_at (fold (msg_drain_one c d e) js s) c d e) = m_cookie (msg_at s c d e)"
  using assms
proof (induction js arbitrary: s R n)
  case Nil
  then show ?case
    by (auto simp: drained_refl)
next
  case (Cons i ks)
  note o1 = drain_one_rep [OF Cons.prems, of i]
  obtain R' n' where "cap_rep {} (msg_drain_one c d e i s) R' {} n'"
    using o1(1) by blast
  from Cons.IH [OF this Cons.prems(2) o1(3)] o1(2,4,5) show ?case
    by (auto intro: drained_trans)
qed

lemma drain_tail_rep:
  assumes "cap_rep {} s R {} n" and "c < CAP_CHAN_MAX" and "msg_ok s (msg_at s c d e)"
  defines "s' \<equiv> cap_msg_drain_tail c d e s"
  shows "\<exists>R' n'. cap_rep {} s' R' {} n'" and "drained c d e s s'" and "msg_ok s' (msg_at s' c d e)"
    and "m_n_caps (msg_at s' c d e) = m_n_caps (msg_at s c d e)" and "m_cookie (msg_at s' c d e) = m_cookie (msg_at s c d e)"
  using drain_fold_rep [OF assms(1-3)] unfolding s'_def cap_msg_drain_tail_def by blast+

section \<open>Receiving\<close>

lemma touches_queues:
  assumes dr: "touches c d e s s'" and wf: "ring_wf d (cap_channels s c)" and e: "e = ring_head d (cap_channels s c)"
    and some: "0 < c_qdepth (cap_channels s c) d"
  shows "queues s' = (queues s)(c := (queues s c)(d := msg_at s' c d e # tl (queues s c d)))"
proof -
  let ?h = "c_qhead (cap_channels s c) d" and ?n = "c_qdepth (cap_channels s c) d"
  have cur: "c_qhead (cap_channels s' c') = c_qhead (cap_channels s c')" "c_qdepth (cap_channels s' c') = c_qdepth (cap_channels s c')" for c'
    using dr by simp_all
  have other: "msg_at s' c' d' e' = msg_at s c' d' e'" if "(c', d', e') \<noteq> (c, d, e)" for c' d' e'
    using dr that by blast
  have eh: "e = ?h mod 16"
    by (simp add: e ring_head_def limits)
  have "msg_at s' c d ((?h + k) mod 16) = msg_at s c d ((?h + k) mod 16)" if "0 < k" "k < ?n" for k
    using slot_new [of 0 k 16 ?h] that wf by (intro other) (simp add: eh ring_wf_def limits)
  then have "map (\<lambda>k. msg_at s' c d ((?h + k) mod 16)) [1..<?n] = map (\<lambda>k. msg_at s c d ((?h + k) mod 16)) [1..<?n]"
    by simp
  then have "queues s' c d = msg_at s' c d e # tl (queues s c d)"
    using some by (simp add: queues_def ring_msgs_def cur upt_conv_Cons eh limits)
  moreover have "queues s' c' d' = queues s c' d'" if "(c', d') \<noteq> (c, d)" for c' d'
  proof -
    have "msg_at s' c' d' e' = msg_at s c' d' e'" for e'
      using that by (intro other) auto
    then show ?thesis
      by (simp add: queues_def ring_msgs_def cur)
  qed
  ultimately show ?thesis
    by (auto simp: fun_eq_iff)
qed

lemma drained_queues:
  assumes "drained c d e s s'" and "ring_wf d (cap_channels s c)" and "e = ring_head d (cap_channels s c)"
    and "0 < c_qdepth (cap_channels s c) d"
  shows "queues s' = (queues s)(c := (queues s c)(d := msg_at s' c d e # tl (queues s c d)))"
  using touches_queues [OF _ assms(2-4)] assms(1) unfolding drained_def by blast

lemma front_queues:
  assumes "ring_wf d (cap_channels s c)" and "0 < c_qdepth (cap_channels s c) d"
  shows "queues s c d = msg_at s c d (ring_head d (cap_channels s c)) # tl (queues s c d)"
  using arg_cong [OF drained_queues [OF drained_refl assms(1) refl assms(2)], of "\<lambda>q. q c d"] by (simp only: fun_upd_same)

lemma payload_rep [simp]: "cap_rep X (s\<lparr>cap_payload := q\<rparr>) R P n = cap_rep X s R P n"
proof -
  have "cap_rep X (s\<lparr>cap_payload := q\<rparr>) R P n" if "cap_rep X s R P n" for s q
    by (rule cap_rep_frame_chans [OF that]) simp_all
  from this [of s q] show ?thesis
    using cap_rep_frame_chans [of X "s\<lparr>cap_payload := q\<rparr>" R P n s] by auto
qed

lemma recv_release_rep:
  assumes rep: "cap_rep X s R P n" and c: "c < CAP_CHAN_MAX" and d: "d < 2" and e: "e = ring_head d (cap_channels s c)"
    and some: "0 < c_qdepth (cap_channels s c) d"
  shows "cap_rep X (recv_release c d e s) R P n" and "cap_at (recv_release c d e s) = cap_at s"
    and "queues (recv_release c d e s) = (queues s)(c := (queues s c)(d := tl (queues s c d)))"
proof -
  let ?f = "\<lambda>m :: ChanMsg. m\<lparr>m_payload_len := 0\<rparr>" and ?g = "\<lambda>m :: ChanMsg. m\<lparr>m_payload_idx := CAP_NONE\<rparr>"
  note ok = chans_okD [OF cap_repD(7) [OF rep] c d]
  have m: "msg_ok s (msg_at s c d e)"
    using ok(2) front_queues [OF ok(1) some] by (metis e list.set_intros(1))
  define s1 where "s1 = upd_msg c d e ?f s"
  define s2 where "s2 = s1\<lparr>cap_payload := cap_msg_payload_free (m_payload_idx (msg_at s1 c d e)) (cap_payload s1)\<rparr>"
  define s3 where "s3 = upd_msg c d e ?g s2"
  have rel: "recv_release c d e s = upd_channel c (ring_deq d) s3"
    by (simp add: recv_release_def s1_def s2_def s3_def Let_def)
  have "cap_rep X s1 R P n"
    unfolding s1_def using m by (intro cap_rep_msg [OF rep c]) (simp add: msg_ok_def)
  then have r2: "cap_rep X s2 R P n"
    by (simp add: s2_def)
  have m2: "msg_ok s2 (?g (msg_at s2 c d e))"
    using msg_ok_ext [OF m objs_ext_same, of s2] by (simp add: s2_def s1_def msg_ok_def)
  then have r3: "cap_rep X s3 R P n"
    unfolding s3_def by (intro cap_rep_msg [OF r2 c])
  have "drained c d e s1 s2"
    using cap_at_cong [of s2 s1] objs_ext_same [of s2 s1] by (simp add: drained_def s2_def)
  then have dr: "drained c d e s s3"
    using drained_trans [OF drained_trans [OF drained_upd_msg [of c d e s ?f, folded s1_def]] drained_upd_msg [of c d e s2 ?g]]
    by (simp add: s3_def)
  have "0 < c_qdepth (cap_channels s3 c) d"
    using some unfolding drained_cursor [OF dr] .
  note dq = cap_rep_deq [OF r3 c d this]
  show "cap_rep X (recv_release c d e s) R P n" "cap_at (recv_release c d e s) = cap_at s"
    using dq(1) drained_cursor(3) [OF dr] by (simp_all add: rel)
  show "queues (recv_release c d e s) = (queues s)(c := (queues s c)(d := tl (queues s c d)))"
    unfolding rel dq(2) drained_queues [OF dr ok(1) e some] by simp
qed

text \<open>
  A message is discarded: the references of some of its capabilities are given up, and
  the message is taken off the queue.
\<close>

lemma discard_rep:
  fixes js :: "nat list"
  assumes rep: "cap_rep {} s R {} n" and c: "c < CAP_CHAN_MAX" and d: "d < 2" and e: "e = ring_head d (cap_channels s c)"
    and some: "0 < c_qdepth (cap_channels s c) d"
  defines "s' \<equiv> recv_release c d e (upd_msg c d e (\<lambda>m. m\<lparr>m_n_caps := 0\<rparr>) (fold (msg_drain_one c d e) js s))"
  shows "cap_inv s'" and "cap_at s' = cap_at s" and "cap_table_pid s' = cap_table_pid s"
    and "queues s' = (queues s)(c := (queues s c)(d := tl (queues s c d)))"
proof -
  let ?f = "\<lambda>m :: ChanMsg. m\<lparr>m_n_caps := 0\<rparr>"
  note ok = chans_okD [OF cap_repD(7) [OF rep] c d]
  have m: "msg_ok s (msg_at s c d e)"
    using ok(2) front_queues [OF ok(1) some] by (metis e list.set_intros(1))
  define s1 where "s1 = fold (msg_drain_one c d e) js s"
  have t: "\<exists>R' n'. cap_rep {} s1 R' {} n'" "drained c d e s s1" "msg_ok s1 (msg_at s1 c d e)"
    using drain_fold_rep [OF rep c m, of js] unfolding s1_def by blast+
  obtain R1 n1 where r1: "cap_rep {} s1 R1 {} n1"
    using t(1) by blast
  have r2: "cap_rep {} (upd_msg c d e ?f s1) R1 {} n1"
    using t(3) by (intro cap_rep_msg [OF r1 c]) (simp add: msg_ok_def)
  have dr: "drained c d e s (upd_msg c d e ?f s1)"
    using drained_trans [OF t(2) drained_upd_msg] .
  have h: "e = ring_head d (cap_channels (upd_msg c d e ?f s1) c)" "0 < c_qdepth (cap_channels (upd_msg c d e ?f s1) c) d"
    using e some unfolding drained_cursor [OF dr] .
  note rel = recv_release_rep [OF r2 c d h]
  show "cap_inv s'" "cap_at s' = cap_at s"
    using rel(1,2) drained_cursor(3) [OF dr] by (auto simp: s'_def cap_inv_def s1_def)
  show "cap_table_pid s' = cap_table_pid s"
    using drained_cursor(5) [OF dr] by (simp add: s'_def s1_def recv_release_def Let_def)
  show "queues s' = (queues s)(c := (queues s c)(d := tl (queues s c d)))"
    using rel(3) unfolding s'_def s1_def [symmetric] drained_queues [OF dr ok(1) e some]
    by simp
qed

lemma recv_skip_rep:
  assumes "cap_rep {} s R {} n" and "c < CAP_CHAN_MAX" and "d < 2" and "e = ring_head d (cap_channels s c)"
    and "0 < c_qdepth (cap_channels s c) d"
  shows "cap_inv (recv_skip c d e s)" and "cap_at (recv_skip c d e s) = cap_at s"
    and "queues (recv_skip c d e s) = (queues s)(c := (queues s c)(d := tl (queues s c d)))"
  using discard_rep [OF assms] by (simp_all add: recv_skip_def cap_msg_drain_tail_def)

text \<open>A queued capability arrives in a slot; the reference moves with it.\<close>

lemma move_in:
  fixes d e i c' q :: nat
  assumes rep: "cap_rep {} s R {} n" and fnd: "cap_table_find p s = Some ti" and c: "c < CAP_CHAN_MAX"
    and m: "msg_ok s (msg_at s c d e)" and w: "minted s w" "cap_word_obj w = ob" and ob: "o_active (cap_objects s ob)"
    and pop: "cap_slot_pop ti s = Some (idx, s1)" and al: "cap_holder_alloc ob HOLDER_SLOT p idx 0 s1 = Some (hs, s2)"
    and g: "g = (\<lambda>m :: ChanMsg. m\<lparr>m_cap_word := (m_cap_word m)(i := 0)\<rparr>)"
    and t_def: "t = set_slot ti idx w (cap_holder_link hs ob (cap_holder_remove ob HOLDER_QUEUE c' q s2))"
  shows "\<exists>R' n'. cap_rep {} (upd_msg c d e g t) R' {} n'" and "cap_at s p idx = None"
    and "cap_at t = (cap_at s)(p := (cap_at s p)(idx := Some w))" and "cap_channels t = cap_channels s"
    and "msg_ok t (g (msg_at t c d e))" and "objs_ext s t" and "cap_table_pid t = cap_table_pid s"
proof -
  note s1 = cap_slot_pop_state [OF pop]
  from al obtain t2 where al': "cap_holder_alloc ob HOLDER_SLOT p idx 0 s = Some (hs, t2)"
    and s2: "s2 = t2\<lparr>cap_tables := cap_tables s1\<rparr>"
    by (subst (asm) s1) (auto simp: holder_alloc_tables)
  define t3 where "t3 = cap_holder_remove ob HOLDER_QUEUE c' q t2"
  have s3: "cap_holder_remove ob HOLDER_QUEUE c' q s2 = t3\<lparr>cap_tables := cap_tables s1\<rparr>"
    by (simp add: s2 t3_def holder_remove_tables)
  note only1 = cap_holder_alloc_only [OF al']
  have only: "holder_only s t3"
    unfolding t3_def by (rule holder_only_trans [OF only1 cap_holder_remove_only])
  have ob_nx: "ob < cap_obj_next t2"
    using minted_fields(3) [OF w(1)] w(2) by (simp add: holder_only_tables [OF only1])
  have rep2: "cap_rep {} t2 R {hs} (n - 1)"
    using cap_rep_alloc [OF rep al'] by simp
  obtain n3 where rep3: "cap_rep {ob} t3 (R(ob := drop_ref HOLDER_QUEUE c' q (R ob))) {hs} n3"
    using cap_rep_drop_queue [OF rep2 ob_nx] unfolding t3_def by blast
  have pop3: "cap_slot_pop ti t3 = Some (idx, t3\<lparr>cap_tables := cap_tables s1\<rparr>)"
    by (rule cap_slot_pop_tables [OF pop]) (simp add: holder_only_tables [OF only])
  have fnd3: "cap_table_find p t3 = Some ti"
    using fnd cap_table_find_cong [OF holder_only_tables(2) [OF only]] by simp
  have st3: "staged t3 hs ob (HOLDER_SLOT, p, idx, 0)"
    unfolding t3_def using refs_alloc(4) [OF cap_repD(2) [OF rep] al']
    by (intro remove_staged [OF cap_repD(2) [OF rep2] ob_nx]) simp_all
  have m3: "minted t3 w" and a3: "o_active (cap_objects t3 ob)"
    using minted_ext [OF w(1) objs_ext_holder [OF only]] ob holder_only_objects [OF only] by auto
  have t: "t = set_slot ti idx w (cap_holder_link hs ob (t3\<lparr>cap_tables := cap_tables s1\<rparr>))"
    by (simp add: t_def s3)
  note i = cap_rep_install [OF rep3 fnd3 pop3 _ st3 m3 w(2) a3, folded t]
  show ch: "cap_channels t = cap_channels s"
    using holder_only_tables(4) [OF only] holder_only_tables(4) [OF cap_holder_link_only] by (simp add: t)
  obtain R4 n4 where rep4: "cap_rep {} t R4 {} n4"
    using i(1) by auto
  have "objs_ext t3 (cap_holder_link hs ob (t3\<lparr>cap_tables := cap_tables s1\<rparr>))"
    by (rule objs_ext_trans [OF objs_ext_same objs_ext_holder [OF cap_holder_link_only]]) simp_all
  then show ext: "objs_ext s t"
    using objs_ext_trans [OF objs_ext_holder [OF only] objs_ext_trans [OF _ objs_ext_same], of _ t]
    by (simp add: t)
  show m4: "msg_ok t (g (msg_at t c d e))"
    using msg_ok_ext [OF m ext] by (auto simp: ch g msg_ok_def qword_ok_def)
  show "\<exists>R' n'. cap_rep {} (upd_msg c d e g t) R' {} n'"
    using cap_rep_msg [of _ t _ _ _ c g d e, OF rep4 c m4] by auto
  show "cap_at s p idx = None" "cap_at t = (cap_at s)(p := (cap_at s p)(idx := Some w))"
    using i(2,3) by (simp_all add: cap_at_holder [OF only])
  show "cap_table_pid t = cap_table_pid s"
    using holder_only_tables(2) [OF only] holder_only_tables(2) [OF cap_holder_link_only] by (simp add: t)
qed

lemma recv_move_Ok:
  assumes rep: "cap_rep {} s R {} n" and fnd: "cap_table_find p s = Some ti" and p: "p < 65536"
    and c: "c < CAP_CHAN_MAX" and m: "msg_ok s (msg_at s c d e)" and e: "e < CHAN_QUEUE_DEPTH"
    and w: "w = m_cap_word (msg_at s c d e) 0" "minted s w" "cap_word_obj w = ob" and ob: "o_active (cap_objects s ob)"
    and mv: "recv_move p ti c d e ob s = (Ok idx, s')"
  shows "\<exists>R' n'. cap_rep {} s' R' {} n'" and "cap_at s p idx = None"
    and "cap_at s' = (cap_at s)(p := (cap_at s p)(idx := Some w))"
    and "queues s' = queues (upd_msg c d e (\<lambda>m. m\<lparr>m_cap_word := (m_cap_word m)(0 := 0)\<rparr>) s)"
    and "msg_ok s' (msg_at s' c d e)"
    and "\<And>d'. ring_head d' (cap_channels s' c) = ring_head d' (cap_channels s c)"
    and "c_qdepth (cap_channels s' c) = c_qdepth (cap_channels s c)"
proof -
  let ?f = "\<lambda>m :: ChanMsg. m\<lparr>m_cap_word := (m_cap_word m)(0 := 0)\<rparr>"
  let ?q = "u16 (e * CAP_MSG_MAX_CAPS)"
  obtain s1 hs s2 where pop: "cap_slot_pop ti s = Some (idx, s1)"
    and al: "cap_holder_alloc ob HOLDER_SLOT p idx 0 s1 = Some (hs, s2)"
    and s': "s' = upd_msg c d e ?f (set_slot ti idx (m_cap_word (msg_at (cap_holder_link hs ob
               (cap_holder_remove ob HOLDER_QUEUE (u16 c) ?q s2)) c d e) 0)
               (cap_holder_link hs ob (cap_holder_remove ob HOLDER_QUEUE (u16 c) ?q s2)))"
    using mv p by (auto simp: recv_move_def Let_def split: option.splits)
  define t where "t = set_slot ti idx w (cap_holder_link hs ob (cap_holder_remove ob HOLDER_QUEUE (u16 c) ?q s2))"
  note i = move_in [OF rep fnd c m w(2,3) ob pop al refl t_def]
  have "cap_channels (cap_holder_link hs ob (cap_holder_remove ob HOLDER_QUEUE (u16 c) ?q s2)) = cap_channels s"
    using i(4) by (simp add: t_def)
  then have s't: "s' = upd_msg c d e ?f t"
    using w(1) by (simp add: s' t_def)
  show "\<exists>R' n'. cap_rep {} s' R' {} n'" "cap_at s p idx = None" "cap_at s' = (cap_at s)(p := (cap_at s p)(idx := Some w))"
    using i(1,2,3) by (simp_all add: s't)
  show "queues s' = queues (upd_msg c d e ?f s)"
    by (simp add: queues_def fun_eq_iff s't upd_msg_def upd_channel_def i(4))
  show "msg_ok s' (msg_at s' c d e)"
    using i(5) by (simp add: s't msg_ok_upd_msg)
  show "c_qdepth (cap_channels s' c) = c_qdepth (cap_channels s c)"
    "ring_head d' (cap_channels s' c) = ring_head d' (cap_channels s c)" for d'
    by (simp_all add: s't i(4))
qed

lemma recv_move_Err:
  assumes rep: "cap_rep {} s R {} n" and fnd: "cap_table_find p s = Some ti" and p: "p < 65536"
    and mv: "recv_move p ti c d e ob s = (Err r, s')"
  shows "cap_rep {} s' R {} n" and "cap_at s' = cap_at s" and "queues s' = queues s" and "r = ETABLEFULL \<or> r = ENOMEM"
proof -
  have "mint_slot ti ob p 0 s = (Err r, s')"
    using mv p by (auto simp: recv_move_def mint_slot_def cap_holder_insert_def Let_def split: option.splits)
  note e = mint_slot_Err [OF rep fnd p this]
  show "cap_rep {} s' R {} n" "cap_at s' = cap_at s" "r = ETABLEFULL \<or> r = ENOMEM"
    by (rule e)+
  show "queues s' = queues s"
    by (subst e(4)) (simp add: queues_def fun_eq_iff)
qed

text \<open>
  The contract of a receive. Success takes the front of one queue and reports its cookie;
  a capability it carries arrives in a slot that was free. \<open>ECAPREVOKED\<close> also takes the
  front, but installs nothing. Any other error changes neither slots nor queues.
\<close>

definition receives ::
  "cap_state \<Rightarrow> nat \<Rightarrow> unit res \<Rightarrow> 64 word option \<Rightarrow> nat \<Rightarrow> cap_state \<Rightarrow> bool" where
  "receives s pid r cookie slot s' \<longleftrightarrow> cap_inv s' \<and>
     (if r = Ok () \<or> r = Err ECAPREVOKED
      then \<exists>c d m ms. queues s c d = m # ms \<and> queues s' = (queues s)(c := (queues s c)(d := ms)) \<and> cookie = Some (m_cookie m) \<and>
         (if r = Ok () \<and> 0 < m_n_caps m
          then cap_at s pid slot = None \<and> cap_at s' = (cap_at s)(pid := (cap_at s pid)(slot := Some (m_cap_word m 0)))
          else slot = CAP_NONE \<and> cap_at s' = cap_at s)
      else r \<noteq> Oob \<and> cookie = None \<and> slot = CAP_NONE \<and> cap_at s' = cap_at s \<and> queues s' = queues s)"

text \<open>The front messages still carry their first capability.\<close>

definition fronts_whole :: "cap_state \<Rightarrow> bool" where
  "fronts_whole s \<longleftrightarrow> (\<forall>c < CAP_CHAN_MAX. \<forall>d < 2. case queues s c d of [] \<Rightarrow> True | m # _ \<Rightarrow> 0 < m_n_caps m \<longrightarrow> m_cap_word m 0 \<noteq> 0)"

lemma msg_okD: "msg_ok s m \<Longrightarrow> i < CAP_MSG_MAX_CAPS \<Longrightarrow> qword_ok s (m_cap_word m i)"
  by (simp add: msg_ok_def)

lemma fronts_wholeD:
  assumes "fronts_whole s" and "c < CAP_CHAN_MAX" and "d < 2" and q: "queues s c d = m # ms" and "0 < m_n_caps m"
  shows "m_cap_word m 0 \<noteq> 0"
proof -
  have "case queues s c d of [] \<Rightarrow> True | m # _ \<Rightarrow> 0 < m_n_caps m \<longrightarrow> m_cap_word m 0 \<noteq> 0"
    using assms(1-3) unfolding fronts_whole_def by blast
  with assms(5) show ?thesis
    unfolding q by simp
qed

lemma receives_Err:
  "cap_rep {} s' R {} n \<Longrightarrow> e \<noteq> ECAPREVOKED \<Longrightarrow> cap_at s' = cap_at s \<Longrightarrow> queues s' = queues s \<Longrightarrow>
   receives s p (Err e) None CAP_NONE s'"
  unfolding receives_def cap_inv_def by auto

lemma receives_front:
  assumes "cap_inv s'" and "r = Ok () \<or> r = Err ECAPREVOKED" and q: "queues s c d = m # tl (queues s c d)"
    and "queues s' = (queues s)(c := (queues s c)(d := tl (queues s c d)))"
    and "if r = Ok () \<and> 0 < m_n_caps m
         then cap_at s p slot = None \<and> cap_at s' = (cap_at s)(p := (cap_at s p)(slot := Some (m_cap_word m 0)))
         else slot = CAP_NONE \<and> cap_at s' = cap_at s"
  shows "receives s p r (Some (m_cookie m)) slot s'"
  unfolding receives_def if_P [OF assms(2)]
  by (intro conjI exI [of _ c] exI [of _ d] exI [of _ m] exI [of _ "tl (queues s c d)"]) (fact assms refl)+

lemma recv_take_receives:
  assumes rep: "cap_rep {} s R {} n" and fnd: "cap_table_find p s = Some ti" and p: "p < 65536"
    and c: "c < CAP_CHAN_MAX" and d: "d < 2" and some: "0 < c_qdepth (cap_channels s c) d"
    and e: "e = ring_head d (cap_channels s c)" and m: "m = msg_at s c d e" and caps: "0 < m_n_caps m"
    and w: "minted s (m_cap_word m 0)" "cap_word_obj (m_cap_word m 0) = ob" and ob: "o_active (cap_objects s ob)"
    and mv: "recv_move p ti c d e ob s = (Ok idx, s2)"
  shows "receives s p (Ok ()) (Some (m_cookie m)) idx (recv_release c d e (cap_msg_drain_tail c d e s2))"
proof -
  let ?s3 = "cap_msg_drain_tail c d e s2" and ?f = "\<lambda>m :: ChanMsg. m\<lparr>m_cap_word := (m_cap_word m)(0 := 0)\<rparr>"
  note ok = chans_okD [OF cap_repD(7) [OF rep] c d]
  have q: "queues s c d = m # tl (queues s c d)"
    using front_queues [OF ok(1) some] by (simp only: m e)
  then have mok: "msg_ok s (msg_at s c d e)"
    using ok(2) by (metis list.set_intros(1) m)
  have e16: "e < CHAN_QUEUE_DEPTH"
    using ring_tail_bound by (simp add: e)
  note v = recv_move_Ok [OF rep fnd p c mok e16 refl w [unfolded m] ob mv, folded m]
  obtain R2 n2 where rep2: "cap_rep {} s2 R2 {} n2"
    using v(1) by blast
  note t = drain_tail_rep [OF rep2 c v(5)]
  obtain R3 n3 where rep3: "cap_rep {} ?s3 R3 {} n3"
    using t(1) by blast
  have h2: "e = ring_head d (cap_channels s2 c)" "0 < c_qdepth (cap_channels s2 c) d"
    using e some v(6,7) by simp_all
  have h3: "e = ring_head d (cap_channels ?s3 c)" "0 < c_qdepth (cap_channels ?s3 c) d"
    using h2 unfolding drained_cursor [OF t(2)] .
  note rel = recv_release_rep [OF rep3 c d h3]
  have q2: "queues s2 = (queues s)(c := (queues s c)(d := msg_at (upd_msg c d e ?f s) c d e # tl (queues s c d)))"
    unfolding v(4) by (rule drained_queues [OF drained_upd_msg ok(1) e some])
  have q3: "queues ?s3 = (queues s2)(c := (queues s2 c)(d := msg_at ?s3 c d e # tl (queues s2 c d)))"
    by (rule drained_queues [OF t(2) chans_okD(1) [OF cap_repD(7) [OF rep2] c d] h2])
  have "queues (recv_release c d e ?s3) = (queues s)(c := (queues s c)(d := tl (queues s c d)))"
    unfolding rel(3) q3 q2 by simp
  moreover have "cap_at (recv_release c d e ?s3) = (cap_at s)(p := (cap_at s p)(idx := Some (m_cap_word m 0)))"
    using rel(2) drained_cursor(3) [OF t(2)] v(3) by simp
  moreover have "cap_inv (recv_release c d e ?s3)"
    using rel(1) by (auto simp: cap_inv_def)
  ultimately show ?thesis
    using v(2) caps by (intro receives_front [OF _ _ q]) simp_all
qed

lemma recv_front_receives:
  assumes rep: "cap_rep {} s R {} n" and fnd: "cap_table_find p s = Some ti" and p: "p < 65536"
    and c: "c < CAP_CHAN_MAX" and d: "d < 2" and some: "0 < c_qdepth (cap_channels s c) d" and whole: "fronts_whole s"
    and res: "recv_front p ti c d s = (r, ck, slot, s')"
  shows "receives s p r ck slot s'"
proof -
  define e where "e = ring_head d (cap_channels s c)"
  define m where "m = msg_at s c d e"
  let ?w = "m_cap_word m 0"
  note ok = chans_okD [OF cap_repD(7) [OF rep] c d]
  have q: "queues s c d = m # tl (queues s c d)"
    using front_queues [OF ok(1) some] by (simp only: m_def e_def)
  have mok: "msg_ok s m"
    using ok(2) q by (metis list.set_intros(1))
  note skip = recv_skip_rep [OF rep c d e_def some]
  have skipped: "receives s p (Err ECAPREVOKED) (Some (m_cookie m)) CAP_NONE (recv_skip c d e s)"
    using skip(1,2) by (intro receives_front [OF _ _ q skip(3)]) simp_all
  show ?thesis
  proof (cases "0 < m_n_caps m")
    case False
    note rel = recv_release_rep [OF rep c d e_def some]
    have "r = Ok ()" "ck = Some (m_cookie m)" "slot = CAP_NONE" "s' = recv_release c d e s"
      using res False by (simp_all add: recv_front_def Let_def e_def [symmetric] m_def [symmetric])
    moreover have "receives s p (Ok ()) (Some (m_cookie m)) CAP_NONE (recv_release c d e s)"
      using rel(1,2) False by (intro receives_front [OF _ _ q rel(3)]) (auto simp: cap_inv_def)
    ultimately show ?thesis
      by simp
  next
    case caps: True
    show ?thesis
    proof (cases "cap_object_get (cap_word_obj ?w) s")
      case None
      with res caps skipped show ?thesis
        by (simp add: recv_front_def Let_def e_def [symmetric] m_def [symmetric])
    next
      case (Some ob)
      note live = Some [unfolded cap_object_get_iff [OF cap_repD(5) [OF rep]]]
      show ?thesis
      proof (cases "cap_word_state ?w = CAP_STATE_REVOKED \<or> o_revoking (cap_objects s ob)")
        case True
        with res caps skipped Some show ?thesis
          by (simp add: recv_front_def Let_def e_def [symmetric] m_def [symmetric])
      next
        case False
        have "?w \<noteq> 0"
          using fronts_wholeD [OF whole c d q caps] .
        then have mint: "minted s ?w"
          using False msg_okD [OF mok, of 0] by (auto simp: qword_ok_def limits)
        obtain r2 s2 where mv: "recv_move p ti c d e ob s = (r2, s2)"
          by fastforce
        have e16: "e < CHAN_QUEUE_DEPTH"
          using ring_tail_bound by (simp add: e_def)
        have out: "(r, ck, slot, s') = (case r2 of
            Ok nslot \<Rightarrow> (Ok (), Some (m_cookie m), nslot, recv_release c d e (cap_msg_drain_tail c d e s2))
          | Err x \<Rightarrow> (Err x, None, CAP_NONE, s2) | Oob \<Rightarrow> (Oob, None, CAP_NONE, s2))"
          using res caps Some False mv by (simp add: recv_front_def Let_def e_def [symmetric] m_def [symmetric] split: res.splits)
        show ?thesis
        proof (cases r2)
          case (Ok nslot)
          have "receives s p (Ok ()) (Some (m_cookie m)) nslot (recv_release c d e (cap_msg_drain_tail c d e s2))"
            using live mint mv Ok by (intro recv_take_receives [OF rep fnd p c d some e_def m_def caps]) auto
          with out Ok show ?thesis
            by simp
        next
          case (Err x)
          note v = recv_move_Err [OF rep fnd p mv [unfolded Err]]
          with out Err show ?thesis
            by (auto intro!: receives_Err [OF v(1)])
        next
          case Oob
          with mv show ?thesis
            by (auto simp: recv_move_def Let_def split: option.splits)
        qed
      qed
    qed
  qed
qed

lemma recv_channel_Ok:
  assumes rep: "cap_rep X s R P n" and ok: "recv_channel ti i s = Ok cobj"
  shows "o_chan_id (cap_objects s cobj) < CAP_CHAN_MAX"
proof -
  obtain j where "cap_object_get j s = Some cobj" "o_kind (cap_objects s cobj) = KIND_CHAN"
    using ok unfolding recv_channel_def Let_def by (auto split: if_splits option.splits)
  then show ?thesis
    using endpoint_chan [OF rep] by blast
qed

lemma recv_channel_Err: "recv_channel ti i s = Err e \<Longrightarrow> e = EBADF"
  "i < CAP_TABLE_ENTRIES \<Longrightarrow> recv_channel ti i s \<noteq> Oob"
  unfolding recv_channel_def Let_def by (auto split: if_splits option.splits)

lemma receives_bind:
  assumes "receives s1 p r ck slot s'" and "cap_at s1 = cap_at s" and "queues s1 = queues s"
  shows "receives s p r ck slot s'"
  using assms(1) unfolding receives_def assms(2,3) .

lemma recv_receives:
  assumes inv: "cap_inv s" and p: "pid < 65536" and i: "ch_r_idx < CAP_TABLE_ENTRIES" and whole: "fronts_whole s"
    and res: "cap_recv pid ch_r_idx block s = (r, cookie, slot, s')"
  shows "receives s pid r cookie slot s'"
proof -
  obtain R n where rep: "cap_rep {} s R {} n"
    using inv by (auto simp: cap_inv_def)
  obtain oti s1 where i1: "cap_table_index pid s = (oti, s1)"
    by fastforce
  show ?thesis
  proof (cases oti)
    case None
    then have "s1 = s"
      using i1 cap_table_index_None by blast
    with None show ?thesis
      using res i1 receives_Err [OF rep, of ETABLEFULL] by (auto simp: cap_recv_def)
  next
    case (Some ti)
    note b = cap_rep_bind [OF rep i1 [unfolded Some] p]
    have qs: "queues s1 = queues s"
      by (subst b(4)) (simp add: queues_def fun_eq_iff)
    have "receives s1 pid r cookie slot s'"
    proof (cases "recv_channel ti ch_r_idx s1")
      case (Ok cobj)
      define c where "c = o_chan_id (cap_objects s1 cobj)"
      define d :: nat where "d = (if pid = c_end0_pid (cap_channels s1 c) then 0 else 1)"
      have cd: "c < CAP_CHAN_MAX" "d < 2"
        using recv_channel_Ok [OF b(1) Ok] by (simp_all add: c_def d_def)
      have out: "(r, cookie, slot, s') = (if c_qdepth (cap_channels s1 c) d = 0
             then (Err EAGAIN, None, CAP_NONE, if block then log_hook (WaitChan c) s1 else s1)
             else recv_front pid ti c d s1)"
        unfolding res [symmetric] cap_recv_def i1 Some by (simp add: Ok Let_def c_def d_def)
      show ?thesis
      proof (cases "c_qdepth (cap_channels s1 c) d = 0")
        case True
        with out b(1) show ?thesis
          by (cases block) (auto intro!: receives_Err [of _ R n])
      next
        case False
        moreover have "fronts_whole s1"
          using whole by (simp add: fronts_whole_def qs)
        ultimately show ?thesis
          using out recv_front_receives [OF b(1,2) p cd, of r cookie slot s'] by simp
      qed
    next
      case (Err e)
      then show ?thesis
        using res receives_Err [OF b(1), of EBADF] recv_channel_Err(1) [OF Err] by (auto simp: cap_recv_def i1 Some)
    qed (use recv_channel_Err(2) [OF i] in auto)
    then show ?thesis
      by (rule receives_bind) (rule b(3), rule qs)
  qed
qed

end
