(* ===== verification/Cap_Msg.thy ===== *)
theory Cap_Msg
  imports Cap_Recv
begin

text \<open>
  Messages with a staged payload and up to four moved capabilities: \<^verbatim>\<open>cap_send_msg\<close> and
  \<^verbatim>\<open>cap_recv_msg\<close>. The descriptor array of the caller is a list whose length is
  \<^verbatim>\<open>n_caps\<close>, the payload a byte list whose length is \<^verbatim>\<open>payload_len\<close>.
\<close>

record SLSCapDesc =
  d_slot :: nat
  d_offset :: nat
  d_len :: nat
  d_rights :: nat
  d_flags :: nat

section \<open>Sending\<close>

text \<open>Every descriptor names a valid memory capability: its word and object.\<close>

fun send_descs :: "nat \<Rightarrow> SLSCapDesc list \<Rightarrow> cap_state \<Rightarrow> (SLSCapDesc \<times> 64 word \<times> nat) list res" where
  "send_descs ti [] s = Ok []"
| "send_descs ti (x # xs) s =
     (if d_slot x \<ge> CAP_TABLE_ENTRIES then Oob
      else let pw = slot_word s ti (d_slot x)
      in if \<not> cap_word_valid pw \<or> cap_word_type pw \<noteq> CAP_TYPE_MEM then Err EINVAL
         else case cap_object_get (cap_word_obj pw) s of
                None \<Rightarrow> Err EINVAL
              | Some obj \<Rightarrow>
                  (case send_descs ti xs s of
                     Ok ys \<Rightarrow> Ok ((x, pw, obj) # ys)
                   | Err e \<Rightarrow> Err e
                   | Oob \<Rightarrow> Oob))"

definition stage_payload :: "8 word list \<Rightarrow> cap_state \<Rightarrow> nat option \<times> cap_state" where
  "stage_payload payload s =
     (if payload = [] then (Some CAP_NONE, s)
      else case cap_msg_payload_alloc (cap_payload s) of
             None \<Rightarrow> (None, s)
           | Some (pidx, pool) \<Rightarrow>
               (Some pidx, s\<lparr>cap_payload := pool\<lparr>pp_data := (pp_data pool)(pidx :=
                  (\<lambda>i. if i < length payload then payload ! i else pp_data pool pidx i))\<rparr>\<rparr>))"

text \<open>
  The move loop from capability \<open>i\<close> on: how many were moved in all, whether it stopped
  early, and the state.
\<close>

fun msg_move ::
  "nat \<Rightarrow> nat \<Rightarrow> nat \<Rightarrow> nat \<Rightarrow> nat \<Rightarrow> nat \<Rightarrow> (SLSCapDesc \<times> 64 word \<times> nat) list \<Rightarrow> cap_state \<Rightarrow> nat \<times> bool \<times> cap_state" where
  "msg_move pid ti c dest entry i [] s = (i, False, s)"
| "msg_move pid ti c dest entry i ((x, w, obj) # rest) s =
     (if o_revoking (cap_objects s obj) then (i, True, s)
      else case cap_holder_alloc obj HOLDER_QUEUE (u16 c) (u16 (entry * CAP_MSG_MAX_CAPS + i)) (u8 dest) s of
        None \<Rightarrow> (i, True, s)
      | Some (hq, s) \<Rightarrow>
          let s = cap_holder_remove obj HOLDER_SLOT (u16 pid) (d_slot x) s;
              s = set_slot ti (d_slot x) 0 s;
              s = cap_slot_push ti (d_slot x) s;
              s = cap_holder_link hq obj s;
              s = upd_msg c dest entry (\<lambda>m. m\<lparr>m_cap_word := (m_cap_word m)(i := w),
                     m_cap_off := (m_cap_off m)(i := d_offset x), m_cap_len := (m_cap_len m)(i := d_len x),
                     m_cap_rights := (m_cap_rights m)(i := d_rights x),
                     m_cap_flags := (m_cap_flags m)(i := d_flags x)\<rparr>) s
          in msg_move pid ti c dest entry (i + 1) rest s)"

text \<open>Moving capability \<open>i\<close> back into some slot of the sender.\<close>

definition msg_unmove_one ::
  "nat \<Rightarrow> nat \<Rightarrow> nat \<Rightarrow> nat \<Rightarrow> nat \<Rightarrow> (SLSCapDesc \<times> 64 word \<times> nat) list \<Rightarrow> nat \<Rightarrow> cap_state \<Rightarrow> cap_state" where
  "msg_unmove_one pid ti c dest entry items i s =
     (case items ! i of (x, w, obj) \<Rightarrow>
        upd_msg c dest entry (\<lambda>m. m\<lparr>m_cap_word := (m_cap_word m)(i := 0)\<rparr>)
          (case cap_slot_pop ti s of
             None \<Rightarrow> s
           | Some (slot, s) \<Rightarrow>
               let s = cap_holder_remove obj HOLDER_QUEUE (u16 c) (u16 (entry * CAP_MSG_MAX_CAPS + i)) s
               in case cap_holder_alloc obj HOLDER_SLOT (u16 pid) slot 0 s of
                    Some (hs, s) \<Rightarrow> set_slot ti slot w (cap_holder_link hs obj s)
                  | None \<Rightarrow> cap_slot_push ti slot s))"

definition payload_drop :: "nat \<Rightarrow> cap_state \<Rightarrow> cap_state" where
  "payload_drop pidx s =
     (if pidx \<noteq> CAP_NONE then s\<lparr>cap_payload := cap_msg_payload_free pidx (cap_payload s)\<rparr> else s)"

definition msg_rollback ::
  "nat \<Rightarrow> nat \<Rightarrow> nat \<Rightarrow> nat \<Rightarrow> nat \<Rightarrow> (SLSCapDesc \<times> 64 word \<times> nat) list \<Rightarrow> nat \<Rightarrow> nat \<Rightarrow> cap_state \<Rightarrow> cap_state" where
  "msg_rollback pid ti c dest entry items moved pidx s =
     payload_drop pidx
       (upd_msg c dest entry (\<lambda>m. m\<lparr>m_n_caps := 0\<rparr>)
         (fold (msg_unmove_one pid ti c dest entry items) [0..<moved] s))"

definition msg_publish ::
  "nat \<Rightarrow> nat \<Rightarrow> nat \<Rightarrow> nat \<Rightarrow> nat \<Rightarrow> nat \<Rightarrow> nat \<Rightarrow> nat \<Rightarrow> cap_state \<Rightarrow> cap_state" where
  "msg_publish c dest entry n_caps tag flags payload_len pidx s =
     log_hook MaybeHandoff (log_hook (WakeChan c)
       (upd_channel c (ring_put dest)
         (upd_msg c dest entry (\<lambda>m. m\<lparr>m_n_caps := u8 n_caps, m_cookie := of_nat tag, m_flags := u8 flags,
            m_payload_len := u16 payload_len, m_payload_idx := pidx\<rparr>) s)))"

definition send_msg_queue ::
  "nat \<Rightarrow> nat \<Rightarrow> nat \<Rightarrow> nat \<Rightarrow> 8 word list \<Rightarrow> SLSCapDesc list \<Rightarrow> nat \<Rightarrow> nat \<Rightarrow> cap_state \<Rightarrow> unit res \<times> cap_state" where
  "send_msg_queue pid ti c dest payload descs tag flags s =
     (if c_qdepth (cap_channels s c) dest \<ge> CHAN_QUEUE_DEPTH then (Err EAGAIN, s)
      else case send_descs ti descs s of
        Oob \<Rightarrow> (Oob, s)
      | Err e \<Rightarrow> (Err e, s)
      | Ok items \<Rightarrow>
     (case stage_payload payload s of
        (None, s) \<Rightarrow> (Err ENOSPC, s)
      | (Some pidx, s) \<Rightarrow>
          if c_qdepth (cap_channels s c) dest \<ge> CHAN_QUEUE_DEPTH then (Err EAGAIN, payload_drop pidx s)
          else let entry = ring_tail dest (cap_channels s c);
                   s = upd_msg c dest entry msg_clear_caps s
               in case msg_move pid ti c dest entry 0 items s of
                    (moved, True, s) \<Rightarrow> (Err ECAPREVOKED, msg_rollback pid ti c dest entry items moved pidx s)
                  | (moved, False, s) \<Rightarrow>
                      (Ok (), msg_publish c dest entry (length descs) tag flags (length payload) pidx s)))"

definition cap_send_msg ::
  "nat \<Rightarrow> nat \<Rightarrow> 8 word list \<Rightarrow> SLSCapDesc list \<Rightarrow> nat \<Rightarrow> nat \<Rightarrow> cap_state \<Rightarrow> unit res \<times> cap_state" where
  "cap_send_msg pid ch_w_idx payload descs tag flags s =
     (if length descs > CAP_MSG_MAX_CAPS then (Err ERANGE, s)
      else if length payload > CAP_MSG_MAX_PAYLOAD then (Err ERANGE, s)
      else case cap_table_index pid s of
        (None, s) \<Rightarrow> (Err ETABLEFULL, s)
      | (Some ti, s) \<Rightarrow>
     (case send_channel ti ch_w_idx s of
        Oob \<Rightarrow> (Oob, s)
      | Err e \<Rightarrow> (Err e, s)
      | Ok cobj \<Rightarrow>
          let c = o_chan_id (cap_objects s cobj);
              dest = (if pid = c_end0_pid (cap_channels s c) then 1 else 0)
          in send_msg_queue pid ti c dest payload descs tag flags s))"

section \<open>Receiving\<close>

text \<open>
  The part of a memory object a grant maps: the pages of the byte range, clipped to the
  object, or the whole object when the length is 0 or the offset lies outside.
\<close>

definition grant_range :: "CapObject \<Rightarrow> nat \<Rightarrow> nat \<Rightarrow> 64 word \<times> nat" where
  "grant_range ob off len =
     (let region_bytes = o_npages ob * 4096
      in if len \<noteq> 0 \<and> off < region_bytes
         then let len = (if off + len > region_bytes then region_bytes - off else len);
                  first = (o_phys_base ob + of_nat off) AND NOT 0xFFF;
                  last = (o_phys_base ob + of_nat off + of_nat len - 1) AND NOT 0xFFF
              in (first, u32 (unat ((last - first) div 4096) + 1))
         else (o_phys_base ob, o_npages ob))"

definition grant_map :: "cap_env \<Rightarrow> nat \<Rightarrow> nat \<Rightarrow> ChanMsg \<Rightarrow> nat \<Rightarrow> cap_state \<Rightarrow> cap_state" where
  "grant_map e pid obj m i s =
     (if cap_word_type (m_cap_word m i) = CAP_TYPE_MEM \<and> e_proc_cr3 e pid \<noteq> 0
      then let (phys, pages) = grant_range (cap_objects s obj) (m_cap_off m i) (m_cap_len m i)
           in log_hook (ArchIdentityMapUser (e_proc_cr3 e pid) phys pages (m_cap_rights m i)) s
      else s)"

text \<open>
  The install loop over the given indices: the descriptors written to \<^verbatim>\<open>out_caps\<close> so far
  are carried along.
\<close>

fun msg_install ::
  "cap_env \<Rightarrow> nat \<Rightarrow> nat \<Rightarrow> nat \<Rightarrow> nat \<Rightarrow> nat \<Rightarrow> nat list \<Rightarrow> SLSCapDesc list \<Rightarrow> cap_state \<Rightarrow>
   unit res \<times> SLSCapDesc list \<times> cap_state" where
  "msg_install e pid ti c dir entry [] outs s = (Ok (), outs, s)"
| "msg_install e pid ti c dir entry (i # is) outs s =
     (let m = msg_at s c dir entry; w = m_cap_word m i
      in if w = 0 then msg_install e pid ti c dir entry is outs s
         else case cap_object_get (cap_word_obj w) s of
           None \<Rightarrow> msg_install e pid ti c dir entry is outs s
         | Some obj \<Rightarrow>
             if cap_word_state w = CAP_STATE_REVOKED \<or> o_revoking (cap_objects s obj)
             then msg_install e pid ti c dir entry is outs
                    (upd_msg c dir entry (\<lambda>m. m\<lparr>m_cap_word := (m_cap_word m)(i := 0)\<rparr>) s)
             else case cap_slot_pop ti s of
               None \<Rightarrow> (Err ETABLEFULL, outs, s)
             | Some (nslot, s) \<Rightarrow>
                 (case cap_holder_alloc obj HOLDER_SLOT (u16 pid) nslot 0 s of
                    None \<Rightarrow> (Err ENOMEM, outs, cap_slot_push ti nslot s)
                  | Some (hs, s) \<Rightarrow>
                      let s = cap_holder_remove obj HOLDER_QUEUE (u16 c) (u16 (entry * CAP_MSG_MAX_CAPS + i)) s;
                          s = cap_holder_link hs obj s;
                          s = set_slot ti nslot w s;
                          s = grant_map e pid obj m i s;
                          out = \<lparr>d_slot = nslot, d_offset = m_cap_off m i, d_len = m_cap_len m i,
                                  d_rights = m_cap_rights m i, d_flags = m_cap_flags m i\<rparr>;
                          s = upd_msg c dir entry (\<lambda>m. m\<lparr>m_cap_word := (m_cap_word m)(i := 0)\<rparr>) s
                      in msg_install e pid ti c dir entry is (outs @ [out]) s))"

text \<open>What the caller's out-parameters hold afterwards.\<close>

record msg_out =
  mo_buf :: "8 word list"
  mo_payload_len :: nat
  mo_caps :: "SLSCapDesc list"
  mo_n_caps :: nat
  mo_tag :: nat
  mo_flags :: nat

definition msg_out_none :: "SLSCapDesc list \<Rightarrow> msg_out" where
  "msg_out_none caps = \<lparr>mo_buf = [], mo_payload_len = 0, mo_caps = caps, mo_n_caps = 0, mo_tag = 0, mo_flags = 0\<rparr>"

definition msg_consume :: "nat \<Rightarrow> nat \<Rightarrow> nat \<Rightarrow> cap_state \<Rightarrow> cap_state" where
  "msg_consume c dir entry s =
     (let s = s\<lparr>cap_payload := cap_msg_payload_free (m_payload_idx (msg_at s c dir entry)) (cap_payload s)\<rparr>;
          s = upd_msg c dir entry (\<lambda>m. m\<lparr>m_payload_idx := CAP_NONE, m_payload_len := 0, m_n_caps := 0, m_flags := 0\<rparr>) s
      in log_hook (WakeChan c) (upd_channel c (ring_deq dir) s))"

definition recv_msg_front ::
  "cap_env \<Rightarrow> nat \<Rightarrow> nat \<Rightarrow> nat \<Rightarrow> nat \<Rightarrow> nat \<Rightarrow> nat \<Rightarrow> cap_state \<Rightarrow> unit res \<times> msg_out \<times> cap_state" where
  "recv_msg_front e pid ti c dir buf_len max_caps s =
     (let entry = ring_head dir (cap_channels s c)
      in case msg_install e pid ti c dir entry [0..<min (m_n_caps (msg_at s c dir entry)) max_caps] [] s of
           (Ok _, outs, s) \<Rightarrow>
             let s = fold (msg_drain_one c dir entry) [0..<m_n_caps (msg_at s c dir entry)] s;
                 m = msg_at s c dir entry;
                 out = \<lparr>mo_buf = map (pp_data (cap_payload s) (m_payload_idx m)) [0..<min (m_payload_len m) buf_len],
                        mo_payload_len = m_payload_len m, mo_caps = outs, mo_n_caps = length outs,
                        mo_tag = u32 (unat (m_cookie m)), mo_flags = m_flags m\<rparr>
             in (Ok (), out, msg_consume c dir entry s)
         | (r, outs, s) \<Rightarrow> (r, msg_out_none outs, s))"

definition cap_recv_msg ::
  "cap_env \<Rightarrow> nat \<Rightarrow> nat \<Rightarrow> nat \<Rightarrow> nat \<Rightarrow> cap_state \<Rightarrow> unit res \<times> msg_out \<times> cap_state" where
  "cap_recv_msg e pid ch_r_idx buf_len max_caps s =
     (case cap_table_index pid s of
        (None, s) \<Rightarrow> (Err ETABLEFULL, msg_out_none [], s)
      | (Some ti, s) \<Rightarrow>
     (case recv_channel ti ch_r_idx s of
        Oob \<Rightarrow> (Oob, msg_out_none [], s)
      | Err x \<Rightarrow> (Err x, msg_out_none [], s)
      | Ok cobj \<Rightarrow>
          let c = o_chan_id (cap_objects s cobj);
              dir = (if pid = c_end0_pid (cap_channels s c) then 0 else 1)
          in if c_qdepth (cap_channels s c) dir = 0 then (Err EAGAIN, msg_out_none [], s)
             else recv_msg_front e pid ti c dir buf_len (min max_caps CAP_MSG_MAX_CAPS) s))"

end
