(* ===== verification/Cap_Map.thy ===== *)
theory Cap_Map
  imports Cap_Msg
begin

text \<open>
  Mappings of memory capabilities into an address space: \<^verbatim>\<open>cap_map\<close>, \<^verbatim>\<open>cap_unmap\<close> and
  the helpers \<^verbatim>\<open>cap_table_unmap_object\<close> and \<^verbatim>\<open>cap_maps_overlap\<close>. The page-table edits
  themselves are calls of the architecture hooks and are recorded in \<open>hook_log\<close>.
\<close>

section \<open>Operations\<close>

definition page_at :: "64 word \<Rightarrow> nat \<Rightarrow> 64 word" where
  "page_at va i = va + of_nat i * 4096"

definition unmap_pages :: "64 word \<Rightarrow> 64 word \<Rightarrow> nat \<Rightarrow> cap_state \<Rightarrow> cap_state" where
  "unmap_pages cr3 va n = fold (\<lambda>i. log_hook (ArchUnmapPage cr3 (page_at va i))) [0..<n]"

definition upd_map :: "nat \<Rightarrow> nat \<Rightarrow> (CapMap \<Rightarrow> CapMap) \<Rightarrow> cap_state \<Rightarrow> cap_state" where
  "upd_map ti i f = upd_table ti (\<lambda>t. t\<lparr>t_maps := (t_maps t)(i := f (t_maps t i))\<rparr>)"

definition unmap_record :: "64 word \<Rightarrow> nat \<Rightarrow> nat \<Rightarrow> cap_state \<Rightarrow> cap_state" where
  "unmap_record cr3 ti i s =
     (let m = t_maps (cap_tables s ti) i
      in upd_map ti i (\<lambda>m. m\<lparr>mp_active := False\<rparr>) (unmap_pages cr3 (mp_vaddr m) (mp_npages m) s))"

definition cap_table_unmap_object :: "cap_env \<Rightarrow> nat \<Rightarrow> nat \<Rightarrow> cap_state \<Rightarrow> cap_state" where
  "cap_table_unmap_object e ti obj_id s =
     (let cr3 = e_proc_cr3 e (t_pid (cap_tables s ti));
          s = fold (\<lambda>i s. let m = t_maps (cap_tables s ti) i
                          in if \<not> mp_active m \<or> mp_obj_id m \<noteq> obj_id then s else unmap_record cr3 ti i s)
                [0..<CAP_MAP_MAX] s
      in if cr3 \<noteq> 0 then log_hook ArchTlbFlush s else s)"

definition cap_maps_overlap :: "CapTable \<Rightarrow> nat \<Rightarrow> 64 word \<Rightarrow> nat \<Rightarrow> bool" where
  "cap_maps_overlap t except_obj vaddr npages \<longleftrightarrow>
     (let lo = vaddr; hi = page_at vaddr npages
      in list_ex (\<lambda>i. let m = t_maps t i; mlo = mp_vaddr m; mhi = page_at (mp_vaddr m) (mp_npages m)
           in mp_active m \<and> mp_obj_id m \<noteq> except_obj \<and> lo < mhi \<and> mlo < hi) [0..<CAP_MAP_MAX])"

text \<open>The checks of \<^verbatim>\<open>cap_map\<close>: \<open>Ok\<close> with the object, the offset and the length in pages.\<close>

definition map_check :: "nat \<Rightarrow> nat \<Rightarrow> 64 word \<Rightarrow> 32 word \<Rightarrow> cap_state \<Rightarrow> (nat \<times> nat \<times> nat) res" where
  "map_check ti cap_idx vaddr flags s =
     (if cap_idx \<ge> CAP_TABLE_ENTRIES then Oob
      else let w = slot_word s ti cap_idx;
               perms = cap_word_perms w;
               off = cap_word_off w;
               len = cap_word_len w;
               vhi = page_at vaddr len
      in if \<not> cap_word_valid w \<or> cap_word_type w \<noteq> CAP_TYPE_MEM then Err EBADF
         else if perms AND CAP_PERM_MAP = 0 then Err EINVAL
         else if flags = 0 \<or> flags AND NOT (CAP_PERM_R OR CAP_PERM_W OR CAP_PERM_X) \<noteq> 0 then Err EINVAL
         else if flags AND NOT perms \<noteq> 0 then Err EINVAL
         else if vaddr AND 0xFFF \<noteq> 0 then Err EINVAL
         else if len = 0 \<or> vhi \<le> vaddr \<or> vhi > 0x800000000000 then Err ERANGE
         else case cap_object_get (cap_word_obj w) s of
                None \<Rightarrow> Err EINVAL
              | Some obj \<Rightarrow>
                  if o_kind (cap_objects s obj) \<noteq> KIND_MEM then Err EINVAL
                  else if off + len > o_npages (cap_objects s obj) then Err ERANGE
                  else if cap_maps_overlap (cap_tables s ti) obj vaddr len then Err ECONFLICT
                  else if o_revoking (cap_objects s obj) then Err ECAPREVOKED
                  else Ok (obj, off, len))"

text \<open>
  The page loop from page \<open>i\<close> on with \<open>n\<close> pages left. A page the hook refuses rolls
  back the pages before it.
\<close>

fun map_pages ::
  "cap_env \<Rightarrow> 64 word \<Rightarrow> 64 word \<Rightarrow> 64 word \<Rightarrow> 32 word \<Rightarrow> nat \<Rightarrow> nat \<Rightarrow> cap_state \<Rightarrow> int option \<times> cap_state" where
  "map_pages e cr3 va pa flags i 0 s = (None, s)"
| "map_pages e cr3 va pa flags i (Suc n) s =
     (let r = e_map_page e cr3 (page_at va i) (page_at pa i) flags;
          s = log_hook (ArchMapPage cr3 (page_at va i) (page_at pa i) flags) s
      in if r < 0 then (Some r, log_hook ArchTlbFlush (unmap_pages cr3 va i s))
         else map_pages e cr3 va pa flags (i + 1) n s)"

definition map_free_record :: "CapTable \<Rightarrow> nat option" where
  "map_free_record t = List.find (\<lambda>i. \<not> mp_active (t_maps t i)) [0..<CAP_MAP_MAX]"

definition cap_map :: "cap_env \<Rightarrow> nat \<Rightarrow> nat \<Rightarrow> 64 word \<Rightarrow> 32 word \<Rightarrow> cap_state \<Rightarrow> unit res \<times> cap_state" where
  "cap_map e pid cap_idx vaddr flags s =
     (case cap_table_index pid s of
        (None, s) \<Rightarrow> (Err ETABLEFULL, s)
      | (Some ti, s) \<Rightarrow>
     (case map_check ti cap_idx vaddr flags s of
        Oob \<Rightarrow> (Oob, s)
      | Err x \<Rightarrow> (Err x, s)
      | Ok (obj, off, len) \<Rightarrow>
          let cr3 = e_proc_cr3 e pid
          in if cr3 = 0 then (Err ENOSYS, s)
             else case map_pages e cr3 vaddr (page_at (o_phys_base (cap_objects s obj)) off) flags 0 len s of
               (Some r, s) \<Rightarrow> (Err (ARCH r), s)
             | (None, s) \<Rightarrow>
                 let s = log_hook ArchTlbFlush s
                 in case map_free_record (cap_tables s ti) of
                      None \<Rightarrow> (Err ETABLEFULL, s)
                    | Some i \<Rightarrow>
                        (Ok (), upd_map ti i (\<lambda>m. m\<lparr>mp_obj_id := obj, mp_cap_slot := cap_idx,
                           mp_npages := u16 len, mp_vaddr := vaddr, mp_active := True\<rparr>) s)))"

definition cap_unmap :: "cap_env \<Rightarrow> nat \<Rightarrow> nat \<Rightarrow> 64 word \<Rightarrow> cap_state \<Rightarrow> unit res \<times> cap_state" where
  "cap_unmap e pid cap_idx vaddr s =
     (case cap_table_index pid s of
        (None, s) \<Rightarrow> (Err ETABLEFULL, s)
      | (Some ti, s) \<Rightarrow>
          if cap_idx \<ge> CAP_TABLE_ENTRIES then (Oob, s)
          else let w = slot_word s ti cap_idx;
                   word_obj = (if cap_word_valid w \<and> cap_word_type w = CAP_TYPE_MEM then cap_word_obj w else 0)
               in case List.find (\<lambda>i. let m = t_maps (cap_tables s ti) i
                         in mp_active m \<and> mp_vaddr m = vaddr \<and>
                            (mp_cap_slot m = cap_idx \<or> word_obj \<noteq> 0 \<and> mp_obj_id m = word_obj)) [0..<CAP_MAP_MAX] of
                    None \<Rightarrow> (Err EINVAL, s)
                  | Some i \<Rightarrow>
                      let m = t_maps (cap_tables s ti) i;
                          s = unmap_pages (e_proc_cr3 e pid) (mp_vaddr m) (mp_npages m) s;
                          s = log_hook ArchTlbFlush s
                      in (Ok (), upd_map ti i (\<lambda>m. m\<lparr>mp_active := False\<rparr>) s))"

end
