(* ===== verification/Cap_Revoke.thy ===== *)
theory Cap_Revoke
  imports Cap_Map
begin

text \<open>
  Giving capabilities up: \<^verbatim>\<open>cap_arena_free\<close> drops one reference, \<^verbatim>\<open>cap_revoke\<close> takes every
  reference of an object away, \<^verbatim>\<open>cap_drain_queue\<close> empties a queue nobody reads any more
  and \<^verbatim>\<open>cap_table_teardown\<close> reclaims everything a dying process holds. The pointer-chasing
  loops run on fuel \<open>CAP_HOLDER_MAX\<close>: no chain of holder nodes is longer than the pool.
\<close>

section \<open>Dropping one reference\<close>

definition cap_arena_free :: "nat \<Rightarrow> nat \<Rightarrow> cap_state \<Rightarrow> unit res \<times> cap_state" where
  "cap_arena_free pid cap_idx s =
     (case cap_table_index pid s of
        (None, s) \<Rightarrow> (Err ETABLEFULL, s)
      | (Some ti, s) \<Rightarrow>
          if cap_idx \<ge> CAP_TABLE_ENTRIES then (Oob, s)
          else let w = slot_word s ti cap_idx
          in if \<not> cap_word_valid w \<or> cap_word_type w \<noteq> CAP_TYPE_MEM then (Err EINVAL, s)
             else case cap_object_get (cap_word_obj w) s of
                    None \<Rightarrow> (Err EINVAL, s)
                  | Some obj \<Rightarrow>
                      if o_revoking (cap_objects s obj) then (Err ECAPREVOKED, s)
                      else let s = cap_holder_remove obj HOLDER_SLOT (u16 pid) cap_idx s;
                               s = object_reap obj s;
                               s = set_slot ti cap_idx 0 s
                           in (Ok (), cap_slot_push ti cap_idx s))"

section \<open>Revocation\<close>

text \<open>A queued word is stamped; other holders are left to the later phases.\<close>

definition revoke_stamp :: "CapHolder \<Rightarrow> cap_state \<Rightarrow> cap_state" where
  "revoke_stamp node s =
     (if h_kind node = HOLDER_QUEUE
      then let entry = h_ref node div CAP_MSG_MAX_CAPS; cap_i = h_ref node mod CAP_MSG_MAX_CAPS
           in upd_msg (h_pid node) (h_qdir node) entry
                (\<lambda>m. m\<lparr>m_cap_word := (m_cap_word m)(cap_i := cap_word_stamp_revoked (m_cap_word m cap_i))\<rparr>) s
      else s)"

text \<open>Phase 1: the holder list is reversed into the chain \<open>dead\<close>; \<open>n\<close> counts its nodes.\<close>

fun revoke_detach :: "nat \<Rightarrow> nat \<Rightarrow> nat \<Rightarrow> nat \<Rightarrow> cap_state \<Rightarrow> nat \<times> nat \<times> cap_state" where
  "revoke_detach 0 h dead n s = (dead, n, s)"
| "revoke_detach (Suc fuel) h dead n s =
     (if h = CAP_FREELIST_END then (dead, n, s)
      else let nxt = h_next (cap_holders s h);
               s = revoke_stamp (cap_holders s h) s;
               s = upd_holder h (\<lambda>x. x\<lparr>h_next := dead, h_prev := CAP_FREELIST_END\<rparr>) s
           in revoke_detach fuel nxt h (n + 1) s)"

text \<open>Phase 2: the slots of the chain are emptied.\<close>

definition revoke_slot :: "CapHolder \<Rightarrow> cap_state \<Rightarrow> cap_state" where
  "revoke_slot node s =
     (if h_kind node \<noteq> HOLDER_SLOT then s
      else case cap_table_index (h_pid node) s of
             (None, s) \<Rightarrow> s
           | (Some hti, s) \<Rightarrow> cap_slot_push hti (h_ref node) (set_slot hti (h_ref node) 0 s))"

fun revoke_slots :: "nat \<Rightarrow> nat \<Rightarrow> cap_state \<Rightarrow> cap_state" where
  "revoke_slots 0 d s = s"
| "revoke_slots (Suc fuel) d s =
     (if d = CAP_FREELIST_END then s
      else let s = revoke_slot (cap_holders s d) s in revoke_slots fuel (h_next (cap_holders s d)) s)"

text \<open>Phase 4: the nodes of the chain return to the pool.\<close>

fun revoke_free :: "nat \<Rightarrow> nat \<Rightarrow> cap_state \<Rightarrow> cap_state" where
  "revoke_free 0 d s = s"
| "revoke_free (Suc fuel) d s =
     (if d = CAP_FREELIST_END then s
      else let nxt = h_next (cap_holders s d) in revoke_free fuel nxt (cap_holder_free d s))"

definition revoke_object :: "cap_env \<Rightarrow> nat \<Rightarrow> cap_state \<Rightarrow> cap_state" where
  "revoke_object e obj s =
     (let s = upd_object obj (\<lambda>b. b\<lparr>o_revoking := True\<rparr>) s;
          h = o_holder_head (cap_objects s obj);
          s = upd_object obj (\<lambda>b. b\<lparr>o_holder_head := CAP_FREELIST_END\<rparr>) s
      in case revoke_detach CAP_HOLDER_MAX h CAP_FREELIST_END 0 s of
           (dead, n, s) \<Rightarrow>
             let s = revoke_slots CAP_HOLDER_MAX dead s;
                 s = fold (\<lambda>ti. cap_table_unmap_object e ti obj) [0..<CAP_TABLE_MAX] s;
                 s = upd_object obj (\<lambda>b. b\<lparr>o_refcount := (if o_refcount b \<ge> n then o_refcount b - n else 0)\<rparr>) s;
                 s = revoke_free CAP_HOLDER_MAX dead s
             in object_reap obj s)"

definition cap_revoke :: "cap_env \<Rightarrow> nat \<Rightarrow> nat \<Rightarrow> cap_state \<Rightarrow> unit res \<times> cap_state" where
  "cap_revoke e pid cap_idx s =
     (case cap_table_index pid s of
        (None, s) \<Rightarrow> (Err ETABLEFULL, s)
      | (Some ti, s) \<Rightarrow>
          if cap_idx \<ge> CAP_TABLE_ENTRIES then (Oob, s)
          else let w = slot_word s ti cap_idx
          in if \<not> cap_word_valid w then (Err EINVAL, s)
             else case cap_object_get (cap_word_obj w) s of
                    None \<Rightarrow> (Err EINVAL, s)
                  | Some obj \<Rightarrow>
                      if o_revoking (cap_objects s obj) then (Err EALREADY, s)
                      else (Ok (), revoke_object e obj s))"

section \<open>Teardown\<close>

text \<open>One round of \<^verbatim>\<open>cap_drain_queue\<close>: the front message is emptied and removed.\<close>

definition drain_msg :: "nat \<Rightarrow> nat \<Rightarrow> cap_state \<Rightarrow> cap_state" where
  "drain_msg c dir s =
     (let entry = ring_head dir (cap_channels s c);
          s = fold (msg_drain_one c dir entry) [0..<CAP_MSG_MAX_CAPS] s;
          s = upd_msg c dir entry (\<lambda>m. m\<lparr>m_n_caps := 0\<rparr>) s
      in recv_release c dir entry s)"

fun drain_rounds :: "nat \<Rightarrow> nat \<Rightarrow> nat \<Rightarrow> cap_state \<Rightarrow> cap_state" where
  "drain_rounds 0 c dir s = s"
| "drain_rounds (Suc fuel) c dir s =
     (if c_qdepth (cap_channels s c) dir = 0 then s else drain_rounds fuel c dir (drain_msg c dir s))"

definition cap_drain_queue :: "nat \<Rightarrow> nat \<Rightarrow> cap_state \<Rightarrow> cap_state" where
  "cap_drain_queue c dir = drain_rounds CHAN_QUEUE_DEPTH c dir"

text \<open>Step 0: the valid slots and the channels with a read end among them.\<close>

definition teardown_slots :: "nat \<Rightarrow> cap_state \<Rightarrow> nat list" where
  "teardown_slots ti s = filter (\<lambda>i. cap_word_valid (slot_word s ti i)) [0..<CAP_TABLE_ENTRIES]"

definition teardown_chans :: "nat \<Rightarrow> cap_state \<Rightarrow> nat list" where
  "teardown_chans ti s =
     fold (\<lambda>i buf. let w = slot_word s ti i
             in if cap_word_type w = CAP_TYPE_CHAN_R \<and> cap_word_obj w \<notin> set buf \<and> length buf < CAP_CHAN_MAX
                then buf @ [cap_word_obj w] else buf) (teardown_slots ti s) []"

text \<open>Step 1.\<close>

definition teardown_predrain :: "nat \<Rightarrow> nat \<Rightarrow> cap_state \<Rightarrow> cap_state" where
  "teardown_predrain pid oid s =
     (case cap_object_get oid s of
        None \<Rightarrow> s
      | Some co \<Rightarrow>
          if o_kind (cap_objects s co) \<noteq> KIND_CHAN then s
          else let c = o_chan_id (cap_objects s co);
                   dir = (if pid = c_end0_pid (cap_channels s c) then 0 else 1)
               in cap_drain_queue c dir s)"

text \<open>Step 2: one slot; the list collects the channels that die.\<close>

definition teardown_slot :: "nat \<Rightarrow> nat \<Rightarrow> nat \<Rightarrow> nat list \<times> cap_state \<Rightarrow> nat list \<times> cap_state" where
  "teardown_slot pid ti slot x =
     (case x of (dead, s) \<Rightarrow>
        case cap_object_get (cap_word_obj (slot_word s ti slot)) s of
          None \<Rightarrow> (dead, cap_slot_push ti slot (set_slot ti slot 0 s))
        | Some obj \<Rightarrow>
            let s = cap_holder_remove obj HOLDER_SLOT (u16 pid) slot s;
                s = cap_slot_push ti slot (set_slot ti slot 0 s);
                dead = (if o_refcount (cap_objects s obj) = 0 \<and> o_kind (cap_objects s obj) = KIND_CHAN \<and>
                           length dead < CAP_CHAN_MAX
                        then dead @ [o_chan_id (cap_objects s obj)] else dead)
            in (dead, object_reap obj s))"

text \<open>Step 4.\<close>

definition teardown_unmap :: "64 word \<Rightarrow> nat \<Rightarrow> cap_state \<Rightarrow> cap_state" where
  "teardown_unmap cr3 ti =
     fold (\<lambda>i s. if mp_active (t_maps (cap_tables s ti) i) then unmap_record cr3 ti i s else s) [0..<CAP_MAP_MAX]"

text \<open>Step 5.\<close>

definition teardown_unbind :: "nat \<Rightarrow> cap_state \<Rightarrow> cap_state" where
  "teardown_unbind ti s =
     cap_table_freelist_init ti
       (upd_table ti (\<lambda>t. t\<lparr>t_pid := 0\<rparr>) (s\<lparr>cap_table_pid := (cap_table_pid s)(ti := 0)\<rparr>))"

text \<open>Step 6: the far end of every channel of the dead process gets a close event.\<close>

abbreviation (input) CLOSE_PEER :: nat where "CLOSE_PEER \<equiv> 1"
abbreviation (input) CLOSE_PEER_DEAD :: nat where "CLOSE_PEER_DEAD \<equiv> 2"

definition close_end :: "nat \<Rightarrow> nat \<Rightarrow> nat \<Rightarrow> CapChannel \<Rightarrow> CapChannel" where
  "close_end d reason detail ch =
     (let ch = ch\<lparr>c_closed := (c_closed ch)(d := True)\<rparr>
      in if c_close_evt ch (1 - d) then ch
         else ch\<lparr>c_close_evt := (c_close_evt ch)(1 - d := True),
                 c_close_reason := (c_close_reason ch)(1 - d := reason),
                 c_close_detail := (c_close_detail ch)(1 - d := detail)\<rparr>)"

definition teardown_close :: "nat \<Rightarrow> nat \<Rightarrow> cap_state \<Rightarrow> cap_state" where
  "teardown_close pid ci s =
     (let ch = cap_channels s ci
      in if \<not> c_active ch then s
         else if c_end0_pid ch = pid
         then log_hook (WakeChan ci) (upd_channel ci (close_end 0 CLOSE_PEER_DEAD pid) s)
         else if c_end1_pid ch = pid
         then log_hook (WakeChan ci) (upd_channel ci (close_end 1 CLOSE_PEER_DEAD pid) s)
         else s)"

text \<open>Step 7.\<close>

definition teardown_irq :: "nat \<Rightarrow> nat \<Rightarrow> cap_state \<Rightarrow> cap_state" where
  "teardown_irq pid v s =
     (if g_irq_chan s v = CAP_NONE then s
      else if c_end0_pid (cap_channels s (g_irq_chan s v)) = pid
      then s\<lparr>g_irq_chan := (g_irq_chan s)(v := CAP_NONE), g_irq_budget := (g_irq_budget s)(v := 0)\<rparr>
      else s)"

definition table_teardown :: "cap_env \<Rightarrow> nat \<Rightarrow> cap_state \<Rightarrow> cap_state" where
  "table_teardown e pid s =
     (case cap_table_find pid s of
        None \<Rightarrow> s
      | Some ti \<Rightarrow>
          let slots = teardown_slots ti s;
              s = fold (teardown_predrain pid) (teardown_chans ti s) s
          in case fold (teardown_slot pid ti) slots ([], s) of
               (dead, s) \<Rightarrow>
                 let s = fold (\<lambda>c s. cap_drain_queue c 1 (cap_drain_queue c 0 s)) dead s;
                     s = teardown_unmap (e_proc_cr3 e pid) ti s;
                     s = teardown_unbind ti s;
                     s = fold (teardown_close pid) [0..<CAP_CHAN_MAX] s
                 in fold (teardown_irq pid) [0..<CAP_IRQ_VECTORS] s)"

section \<open>Introspection\<close>

definition cap_debug_objid :: "nat \<Rightarrow> nat \<Rightarrow> cap_state \<Rightarrow> nat res \<times> cap_state" where
  "cap_debug_objid pid cap_idx s =
     (case cap_table_index pid s of
        (None, s) \<Rightarrow> (Ok 0xFFFFFFFF, s)
      | (Some ti, s) \<Rightarrow>
          if cap_idx \<ge> CAP_TABLE_ENTRIES then (Oob, s)
          else if \<not> cap_word_valid (slot_word s ti cap_idx) then (Ok 0xFFFFFFFF, s)
          else (Ok (cap_word_obj (slot_word s ti cap_idx)), s))"

definition cap_debug_refcount :: "nat \<Rightarrow> cap_state \<Rightarrow> nat" where
  "cap_debug_refcount obj_id s =
     (case cap_object_get obj_id s of None \<Rightarrow> 0xFFFFFFFF | Some ob \<Rightarrow> o_refcount (cap_objects s ob))"

definition cap_debug_obj_phys :: "nat \<Rightarrow> cap_state \<Rightarrow> 64 word" where
  "cap_debug_obj_phys obj_id s =
     (case cap_object_get obj_id s of
        None \<Rightarrow> 0
      | Some ob \<Rightarrow> if o_kind (cap_objects s ob) \<noteq> KIND_MEM then 0 else o_phys_base (cap_objects s ob))"

definition cap_object_count :: "cap_state \<Rightarrow> nat" where
  "cap_object_count s = length (filter (\<lambda>i. o_active (cap_objects s i)) [0..<CAP_OBJECT_MAX])"

definition cap_arena_free_frames :: "cap_state \<Rightarrow> 32 word" where
  "cap_arena_free_frames s = ar_free_count (cap_arena s)"

end
