(* ===== verification/Cap_Drop.thy ===== *)
theory Cap_Drop
  imports Cap_Revoke
begin

text \<open>
  What giving capabilities up does: \<^verbatim>\<open>cap_arena_free\<close> releases one slot and frees the object
  with its last reference, \<^verbatim>\<open>cap_drain_queue\<close> ends with an empty queue, and
  \<^verbatim>\<open>cap_table_teardown\<close> leaves a process without capabilities and every other process with
  exactly the ones it had.
\<close>

section \<open>Releasing one slot\<close>

lemma reap_fields [simp]:
  "cap_tables (object_reap ob s) = cap_tables s" "cap_table_pid (object_reap ob s) = cap_table_pid s"
  "cap_obj_next (object_reap ob s) = cap_obj_next s"
  by (simp_all add: object_reap_def)

lemma reap_queues [simp]: "queues (object_reap ob s) = queues s"
  by (simp add: object_reap_def queues_def ring_msgs_def fun_eq_iff)

lemma reap_space [simp]: "cap_at (object_reap ob s) = cap_at s"
  by (rule cap_at_cong) simp_all

lemma destroy_tables:
  "cap_object_destroy ob (s\<lparr>cap_tables := T\<rparr>) = (cap_object_destroy ob s)\<lparr>cap_tables := T\<rparr>"
proof -
  have "cap_chan_id_put c (irq_unbind_chan c (s\<lparr>cap_tables := T\<rparr>)) = (cap_chan_id_put c (irq_unbind_chan c s))\<lparr>cap_tables := T\<rparr>" for c
    by (cases "cap_chan_recycled_n s < CAP_CHAN_MAX"; cases "CAP_CHAN_MAX \<le> c") (simp_all add: irq_unbind_chan_def cap_chan_id_put_def cong: if_cong)
  moreover have "upd_object ob f (t\<lparr>cap_tables := T\<rparr>) = (upd_object ob f t)\<lparr>cap_tables := T\<rparr>" for f t
    by (simp add: upd_object_def)
  ultimately show ?thesis
    by (simp add: cap_object_destroy_def Let_def)
qed

lemma free_resources_tables:
  "fst (cap_object_free_resources ob (s\<lparr>cap_tables := T\<rparr>)) = (fst (cap_object_free_resources ob s))\<lparr>cap_tables := T\<rparr>"
  by (simp add: cap_object_free_resources_def state_upd_defs Let_def case_prod_beta)

lemma reap_tables: "object_reap ob (s\<lparr>cap_tables := T\<rparr>) = (object_reap ob s)\<lparr>cap_tables := T\<rparr>"
  by (simp add: object_reap_def free_resources_tables destroy_tables)

lemma release_state:
  "cap_slot_push ti r (set_slot ti r 0 s) =
     s\<lparr>cap_tables := (cap_tables s)(ti := slot_push r ((cap_tables s ti)\<lparr>t_slots := (t_slots (cap_tables s ti))(r := 0)\<rparr>))\<rparr>"
  by (simp add: cap_slot_push_def set_slot_def upd_table_def)

text \<open>Clearing the slot and reaping the object commute.\<close>

lemma reap_release:
  "cap_slot_push ti r (set_slot ti r 0 (object_reap ob s)) = object_reap ob (cap_slot_push ti r (set_slot ti r 0 s))"
  unfolding release_state reap_tables by simp

lemma release_queues [simp]: "queues (cap_slot_push ti r (set_slot ti r w s)) = queues s"
  by (simp add: queues_def fun_eq_iff cap_slot_push_def set_slot_def upd_table_def)

lemma holder_remove_queues [simp]: "queues (cap_holder_remove ob k p r s) = queues s"
  using holder_only_tables(4) [OF cap_holder_remove_only] by (simp add: queues_def fun_eq_iff)

lemma holder_remove_tabs [simp]:
  "cap_tables (cap_holder_remove ob k p r s) = cap_tables s" "cap_table_pid (cap_holder_remove ob k p r s) = cap_table_pid s"
  "cap_obj_next (cap_holder_remove ob k p r s) = cap_obj_next s"
  "o_active (cap_objects (cap_holder_remove ob k p r s) i) = o_active (cap_objects s i)"
  using holder_only_tables [OF cap_holder_remove_only] holder_only_objects [OF cap_holder_remove_only] by simp_all

lemma release_fields [simp]:
  "cap_table_pid (cap_slot_push ti r s) = cap_table_pid s" "cap_table_pid (set_slot ti r w s) = cap_table_pid s"
  "cap_obj_next (cap_slot_push ti r s) = cap_obj_next s" "cap_obj_next (set_slot ti r w s) = cap_obj_next s"
  "cap_objects (cap_slot_push ti r s) = cap_objects s" "cap_objects (set_slot ti r w s) = cap_objects s"
  by (simp_all add: cap_slot_push_def set_slot_def upd_table_def)

lemma cap_rep_drop_slot:
  assumes rep: "cap_rep {} s R {} n" and fnd: "cap_table_find p s = Some ti"
    and at: "cap_at s p r = Some w" and ob: "cap_word_obj w = ob"
  defines "s' \<equiv> object_reap ob (cap_slot_push ti r (set_slot ti r 0 (cap_holder_remove ob HOLDER_SLOT p r s)))"
  shows "\<exists>n'. cap_rep {} s' (R(ob := drop_ref HOLDER_SLOT p r (R ob))) {} n'"
    and "cap_at s' = (cap_at s)(p := (cap_at s p)(r := None))"
    and "queues s' = queues s" and "cap_table_pid s' = cap_table_pid s"
proof -
  let ?s1 = "cap_slot_push ti r (set_slot ti r 0 (cap_holder_remove ob HOLDER_SLOT p r s))"
  note t = cap_rep_take_slot [OF rep fnd at ob]
  have "ob < cap_obj_next s"
    using cap_repD(4) [OF rep] at ob minted_fields(3) by (auto simp: caps_ok_def)
  then show "\<exists>n'. cap_rep {} s' (R(ob := drop_ref HOLDER_SLOT p r (R ob))) {} n'"
    using t(1) object_reap_rep [of ob "{}" ?s1] by (auto simp: s'_def)
  show "cap_at s' = (cap_at s)(p := (cap_at s p)(r := None))"
    using t(2) by (simp add: s'_def)
  show "queues s' = queues s" "cap_table_pid s' = cap_table_pid s"
    by (simp_all add: s'_def)
qed

text \<open>
  The contract of \<^verbatim>\<open>cap_arena_free\<close>: the slot named a memory capability and is free now, no
  other slot changed, no message moved, and the object lives on exactly when it had
  another reference.
\<close>

definition drops :: "cap_state \<Rightarrow> nat \<Rightarrow> nat \<Rightarrow> unit res \<Rightarrow> cap_state \<Rightarrow> bool" where
  "drops s pid idx r s' \<longleftrightarrow> cap_inv s' \<and> queues s' = queues s \<and>
     (if r = Ok ()
      then \<exists>w. cap_at s pid idx = Some w \<and> cap_word_type w = CAP_TYPE_MEM \<and>
             cap_at s' = (cap_at s)(pid := (cap_at s pid)(idx := None)) \<and>
             (o_active (cap_objects s' (cap_word_obj w)) \<longleftrightarrow> 1 < o_refcount (cap_objects s (cap_word_obj w)))
      else r \<noteq> Oob \<and> cap_at s' = cap_at s)"

lemma drop_ref_length:
  "x \<in> set xs \<Longrightarrow> href_is k p r x \<Longrightarrow> length (drop_ref k p r xs) = length xs - 1"
proof (induction xs)
  case (Cons y ys)
  then show ?case
    by (cases y; cases ys) auto
qed simp

lemma reap_active:
  assumes "refs_rep s R P n" and "ob < cap_obj_next s"
  shows "o_active (cap_objects (object_reap ob s) ob) \<longleftrightarrow> o_active (cap_objects s ob) \<and> R ob \<noteq> []"
  using refs_rep_refcount [OF assms] by (simp add: object_reap_def)

lemma reap_rep_refs:
  assumes rep: "cap_rep X s R P n" and p: "cap_at s p r = Some w" "cap_word_obj w = ob"
  shows "(HOLDER_SLOT, p, r, 0) \<in> set (R ob)" and "o_active (cap_objects s ob)" and "ob < cap_obj_next s"
  using refs_match_mem [OF cap_repD(3) [OF rep], of p r 0 ob] p cap_repD(4) [OF rep] minted_fields(3)
  by (auto simp: caps_ok_def)

lemma drop_slot_active:
  assumes rep: "cap_rep {} s R {} n" and fnd: "cap_table_find p s = Some ti"
    and at: "cap_at s p r = Some w" "cap_word_obj w = ob"
  shows "o_active (cap_objects (object_reap ob (cap_slot_push ti r (set_slot ti r 0 (cap_holder_remove ob HOLDER_SLOT p r s)))) ob) \<longleftrightarrow>
    1 < o_refcount (cap_objects s ob)"
proof -
  let ?s1 = "cap_slot_push ti r (set_slot ti r 0 (cap_holder_remove ob HOLDER_SLOT p r s))"
  let ?R = "R(ob := drop_ref HOLDER_SLOT p r (R ob))"
  note f = reap_rep_refs [OF rep at]
  obtain n' where "cap_rep {ob} ?s1 ?R {} n'"
    using cap_rep_take_slot(1) [OF rep fnd at] by auto
  then have r1: "refs_rep ?s1 ?R {} n'"
    by (rule cap_repD)
  have "length (drop_ref HOLDER_SLOT p r (R ob)) = o_refcount (cap_objects s ob) - 1"
    using drop_ref_length [OF f(1)] refs_rep_refcount [OF cap_repD(2) [OF rep] f(3)] by simp
  then have "drop_ref HOLDER_SLOT p r (R ob) \<noteq> [] \<longleftrightarrow> 1 < o_refcount (cap_objects s ob)"
    by (cases "drop_ref HOLDER_SLOT p r (R ob)") auto
  with reap_active [OF r1, of ob] f show ?thesis
    by simp
qed

lemma arena_free_drops:
  assumes inv: "cap_inv s" and p: "pid < 65536" and i: "cap_idx < CAP_TABLE_ENTRIES"
    and res: "cap_arena_free pid cap_idx s = (r, s')"
  shows "drops s pid cap_idx r s'"
proof -
  obtain R n where rep: "cap_rep {} s R {} n"
    using inv by (auto simp: cap_inv_def)
  obtain oti s1 where i1: "cap_table_index pid s = (oti, s1)"
    by fastforce
  show ?thesis
  proof (cases oti)
    case None
    with res i1 inv cap_table_index_None [of pid s s1] show ?thesis
      by (auto simp: cap_arena_free_def drops_def)
  next
    case (Some ti)
    note b = cap_rep_bind [OF rep i1 [unfolded Some] p]
    have same: "queues s1 = queues s" "cap_objects s1 = cap_objects s"
      by (subst b(4), simp add: queues_def fun_eq_iff)+
    have inv1: "cap_inv s1"
      using b(1) by (auto simp: cap_inv_def)
    let ?w = "slot_word s1 ti cap_idx"
    show ?thesis
    proof (cases "cap_word_valid ?w \<and> cap_word_type ?w = CAP_TYPE_MEM")
      case False
      with res i1 Some i inv1 same b(3) show ?thesis
        by (auto simp: cap_arena_free_def drops_def Let_def)
    next
      case w: True
      then have at: "cap_at s1 pid cap_idx = Some ?w"
        using slot_cap [OF b(2) i] by simp
      then have get: "cap_object_get (cap_word_obj ?w) s1 = Some (cap_word_obj ?w)" and nr: "\<not> o_revoking (cap_objects s1 (cap_word_obj ?w))"
        using reap_rep_refs(2,3) [OF b(1) at refl] objs_okD(1,3) [OF cap_repD(5) [OF b(1)]]
        by (auto simp: cap_object_get_iff [OF cap_repD(5) [OF b(1)]])
      have out: "r = Ok ()" "s' = object_reap (cap_word_obj ?w)
          (cap_slot_push ti cap_idx (set_slot ti cap_idx 0 (cap_holder_remove (cap_word_obj ?w) HOLDER_SLOT pid cap_idx s1)))"
        using res i1 Some i w get nr p by (simp_all add: cap_arena_free_def Let_def reap_release)
      note d = cap_rep_drop_slot [OF b(1,2) at refl] and a = drop_slot_active [OF b(1,2) at refl]
      show ?thesis
        unfolding drops_def out using d a w at b(3) same by (auto simp: cap_inv_def)
    qed
  qed
qed

end
