(* ===== verification/Cap_Batch.thy ===== *)
theory Cap_Batch
  imports Cap_Drop
begin

text \<open>
  What \<^verbatim>\<open>cap_send_msg\<close> does. A message takes all its capabilities out of the sender's slots
  or none: when the holder pool runs dry half-way the move is rolled back, which gives every
  capability a slot again, but in the opposite order, because the slot free list is a stack.
\<close>

section \<open>Moving a batch out\<close>

type_synonym msg_item = "SLSCapDesc \<times> 64 word \<times> nat"

abbreviation it_slot :: "msg_item \<Rightarrow> nat" where "it_slot x \<equiv> d_slot (fst x)"
abbreviation it_word :: "msg_item \<Rightarrow> 64 word" where "it_word x \<equiv> fst (snd x)"
abbreviation it_obj :: "msg_item \<Rightarrow> nat" where "it_obj x \<equiv> snd (snd x)"

abbreviation qref :: "nat \<Rightarrow> nat \<Rightarrow> nat" where "qref e i \<equiv> e * CAP_MSG_MAX_CAPS + i"

definition space_minus :: "nat \<Rightarrow> nat set \<Rightarrow> (nat \<Rightarrow> nat \<Rightarrow> 64 word option) \<Rightarrow> nat \<Rightarrow> nat \<Rightarrow> 64 word option" where
  "space_minus p rs C = C(p := (\<lambda>r. if r \<in> rs then None else C p r))"

text \<open>
  The capabilities \<open>its\<close> have left the slots of process \<open>p\<close> for the entries of message
  \<open>e\<close> from index \<open>i\<close> on; nothing has been published.
\<close>

definition moved_out ::
  "nat \<Rightarrow> nat \<Rightarrow> nat \<Rightarrow> nat \<Rightarrow> nat \<Rightarrow> nat \<Rightarrow> msg_item list \<Rightarrow> cap_state \<Rightarrow> (nat \<Rightarrow> href list) \<Rightarrow>
   cap_state \<Rightarrow> (nat \<Rightarrow> href list) \<Rightarrow> bool" where
  "moved_out p ti c d e i its s R s' R' \<longleftrightarrow>
     (\<exists>n. cap_rep {} s' R' {} n) \<and>
     (\<forall>ob r. (HOLDER_QUEUE, r) \<in> set (R ob) \<longrightarrow> (HOLDER_QUEUE, r) \<in> set (R' ob)) \<and>
     (\<forall>j < length its. (HOLDER_QUEUE, c, qref e (i + j), d) \<in> set (R' (it_obj (its ! j)))) \<and>
     cap_at s' = space_minus p (it_slot ` set its) (cap_at s) \<and> queues s' = queues s \<and>
     cap_table_pid s' = cap_table_pid s \<and> objs_ext s s' \<and>
     c_qdepth (cap_channels s' c) = c_qdepth (cap_channels s c) \<and>
     ring_tail d (cap_channels s' c) = ring_tail d (cap_channels s c) \<and>
     m_cap_word (msg_at s' c d e) =
       (\<lambda>j. if i \<le> j \<and> j < i + length its then it_word (its ! (j - i)) else m_cap_word (msg_at s c d e) j) \<and>
     (\<forall>xs. table_rep (cap_tables s ti) xs \<longrightarrow> table_rep (cap_tables s' ti) (rev (map it_slot its) @ xs))"

lemma moved_out_Nil: "cap_rep {} s R {} n \<Longrightarrow> moved_out p ti c d e i [] s R s R"
  by (auto simp: moved_out_def space_minus_def fun_eq_iff)

lemma moved_out_Cons:
  assumes a: "moved_out p ti c d e i [x] s R s1 R1" and b: "moved_out p ti c d e (Suc i) its s1 R1 s' R'"
  shows "moved_out p ti c d e i (x # its) s R s' R'"
proof -
  note a' = a [unfolded moved_out_def] and b' = b [unfolded moved_out_def]
  have "(HOLDER_QUEUE, c, qref e i, d) \<in> set (R1 (it_obj x))"
    using a' by auto
  then have hd: "(HOLDER_QUEUE, c, qref e i, d) \<in> set (R' (it_obj x))"
    using b' by blast
  have refs: "(HOLDER_QUEUE, c, qref e (i + j), d) \<in> set (R' (it_obj ((x # its) ! j)))" if "j < length (x # its)" for j
    using that hd b' by (cases j) auto
  have at: "cap_at s' = space_minus p (it_slot ` set (x # its)) (cap_at s)"
    using a' b' by (auto simp: space_minus_def fun_eq_iff)
  have words: "m_cap_word (msg_at s' c d e) = (\<lambda>j. if i \<le> j \<and> j < i + length (x # its)
      then it_word ((x # its) ! (j - i)) else m_cap_word (msg_at s c d e) j)"
  proof
    fix j
    have "m_cap_word (msg_at s' c d e) j = (if Suc i \<le> j \<and> j < Suc i + length its then it_word (its ! (j - Suc i))
        else if j = i then it_word x else m_cap_word (msg_at s c d e) j)"
      using a' b' by auto
    then show "m_cap_word (msg_at s' c d e) j = (if i \<le> j \<and> j < i + length (x # its)
      then it_word ((x # its) ! (j - i)) else m_cap_word (msg_at s c d e) j)"
      by (cases "j = i") (auto simp: nth_Cons' Suc_le_eq)
  qed
  have tabs: "table_rep (cap_tables s ti) xs \<Longrightarrow> table_rep (cap_tables s' ti) (rev (map it_slot (x # its)) @ xs)" for xs
    using a' b' by auto
  show ?thesis
    unfolding moved_out_def using a' b' refs at words tabs objs_ext_trans [of s s1 s'] by auto
qed

lemma move_one:
  assumes rep: "cap_rep {} s R {} n" and fnd: "cap_table_find p s = Some ti"
    and at: "cap_at s p (it_slot x) = Some (it_word x)" and ob: "cap_word_obj (it_word x) = it_obj x"
    and c: "c < CAP_CHAN_MAX" and d: "d < 2" and i: "i < CAP_MSG_MAX_CAPS"
    and room: "c_qdepth (cap_channels s c) d < CHAN_QUEUE_DEPTH" and e: "e = ring_tail d (cap_channels s c)"
    and al: "cap_holder_alloc (it_obj x) HOLDER_QUEUE c (qref e i) d s = Some (hq, s1)"
    and f: "\<And>m. m_cap_word (f m) = (m_cap_word m)(i := it_word x)"
  shows "\<exists>R'. moved_out p ti c d e i [x] s R (upd_msg c d e f (cap_holder_link hq (it_obj x)
           (cap_slot_push ti (it_slot x) (set_slot ti (it_slot x) 0 (cap_holder_remove (it_obj x) HOLDER_SLOT p (it_slot x) s1))))) R'"
proof -
  let ?r = "it_slot x" and ?ob = "it_obj x"
  let ?R = "R(?ob := (HOLDER_QUEUE, c, qref e i, d) # drop_ref HOLDER_SLOT p ?r (R ?ob))"
  define s2 where "s2 = cap_holder_link hq ?ob (cap_slot_push ti ?r (set_slot ti ?r 0 (cap_holder_remove ?ob HOLDER_SLOT p ?r s1)))"
  have q: "qref e i < CHAN_QUEUE_DEPTH * CAP_MSG_MAX_CAPS"
    using ring_tail_bound(1) [of d "cap_channels s c"] i by (simp add: e limits)
  note m = move_out [OF rep fnd at ob c d q al, folded s2_def]
  obtain n2 where rep2: "cap_rep {} s2 ?R {} n2"
    using m(1) by blast
  have room2: "c_qdepth (cap_channels s2 c) d < CHAN_QUEUE_DEPTH" "e = ring_tail d (cap_channels s2 c)"
    using room e by (simp_all add: m(3))
  note t = cap_rep_tail [OF rep2 c d room2, of f]
  have qs: "queues s2 = queues s"
    by (simp add: queues_def m(3) fun_eq_iff)
  note tabs = holder_only_tables(1,2) [OF cap_holder_link_only] holder_only_tables(1,2) [OF cap_holder_remove_only]
    holder_only_tables(1,2) [OF cap_holder_alloc_only [OF al]]
  have pid: "cap_table_pid s2 = cap_table_pid s"
    by (simp add: s2_def tabs)
  have refs: "(HOLDER_QUEUE, r) \<in> set (?R ob)" if "(HOLDER_QUEUE, r) \<in> set (R ob)" for ob r
    using that drop_ref_other [of HOLDER_SLOT p ?r "(HOLDER_QUEUE, r)" "R ob"] by (cases r) auto
  have tb: "cap_tables s2 ti = slot_push ?r ((cap_tables s ti)\<lparr>t_slots := (t_slots (cap_tables s ti))(?r := 0)\<rparr>)"
    by (simp add: s2_def tabs release_state)
  have "?r < CAP_TABLE_ENTRIES" "cap_word_type (slot_word s ti ?r) \<noteq> CAP_TYPE_NONE"
    using at fnd by (auto simp: cap_at_def split: if_splits)
  then have reps: "table_rep (cap_tables s ti) xs \<Longrightarrow> table_rep (cap_tables s2 ti) (?r # xs)" for xs
    unfolding tb by (intro slot_release_rep)
  have "moved_out p ti c d e i [x] s R (upd_msg c d e f s2) ?R"
    unfolding moved_out_def
    using t(1) refs m(2,4) t(2) qs pid room2 reps objs_ext_trans [OF m(4) objs_ext_same, of "upd_msg c d e f s2"]
    by (auto simp: space_minus_def fun_eq_iff f m(3) e)
  then show ?thesis
    by (auto simp: s2_def)
qed

lemma msg_move_run:
  assumes "cap_rep {} s R {} n" and "cap_table_find p s = Some ti" and p: "p < 65536"
    and c: "c < CAP_CHAN_MAX" and d: "d < 2"
    and "c_qdepth (cap_channels s c) d < CHAN_QUEUE_DEPTH" and "e = ring_tail d (cap_channels s c)"
    and "\<forall>x \<in> set its. cap_at s p (it_slot x) = Some (it_word x) \<and> cap_word_obj (it_word x) = it_obj x"
    and "distinct (map it_slot its)" and "i + length its \<le> CAP_MSG_MAX_CAPS"
    and "msg_move p ti c d e i its s = (moved, fail, s')"
  shows "\<exists>k R'. k \<le> length its \<and> moved = i + k \<and> (fail \<longleftrightarrow> k < length its) \<and>
    moved_out p ti c d e i (take k its) s R s' R'"
  using assms
proof (induction its arbitrary: i s R n)
  case Nil
  then show ?case
    using moved_out_Nil [OF Nil.prems(1)] by (intro exI [of _ 0] exI [of _ R]) simp
next
  case (Cons y its)
  obtain x w ob where y: "y = (x, w, ob)"
    by (cases y)
  note rep = Cons.prems(1) and fnd = Cons.prems(2) and room = Cons.prems(6) and e = Cons.prems(7)
  have at: "cap_at s p (it_slot y) = Some (it_word y)" "cap_word_obj (it_word y) = it_obj y"
    using Cons.prems(8) by simp_all
  have e16: "e < CHAN_QUEUE_DEPTH"
    using ring_tail_bound by (simp add: e)
  have i: "i < CAP_MSG_MAX_CAPS"
    using Cons.prems(10) by simp
  have small: "u16 c = c" "u16 (qref e i) = qref e i" "u8 d = d" "u16 p = p"
    using c d e16 i p by (simp_all add: limits)
  note f = reap_rep_refs [OF rep at]
  have nr: "\<not> o_revoking (cap_objects s ob)"
    using objs_okD(1) [OF cap_repD(5) [OF rep]] objs_okD(3) [OF cap_repD(5) [OF rep], of ob] f by (auto simp: y)
  show ?case
  proof (cases "cap_holder_alloc ob HOLDER_QUEUE c (qref e i) d s")
    case None
    then have "moved = i" "fail" "s' = s"
      using Cons.prems(11) nr by (simp_all add: y small)
    then show ?thesis
      using moved_out_Nil [OF rep] by (intro exI [of _ 0] exI [of _ R]) simp
  next
    case (Some z)
    then obtain hq s1 where al: "cap_holder_alloc (it_obj y) HOLDER_QUEUE c (qref e i) d s = Some (hq, s1)"
      by (cases z) (simp add: y)
    define g where "g = (\<lambda>m :: ChanMsg. m\<lparr>m_cap_word := (m_cap_word m)(i := w),
                     m_cap_off := (m_cap_off m)(i := d_offset x), m_cap_len := (m_cap_len m)(i := d_len x),
                     m_cap_rights := (m_cap_rights m)(i := d_rights x), m_cap_flags := (m_cap_flags m)(i := d_flags x)\<rparr>)"
    define s2 where "s2 = upd_msg c d e g (cap_holder_link hq (it_obj y)
           (cap_slot_push ti (it_slot y) (set_slot ti (it_slot y) 0 (cap_holder_remove (it_obj y) HOLDER_SLOT p (it_slot y) s1))))"
    have run: "msg_move p ti c d e (Suc i) its s2 = (moved, fail, s')"
      using Cons.prems(11) nr al by (simp add: y small Let_def s2_def g_def)
    obtain R2 where one: "moved_out p ti c d e i [y] s R s2 R2"
      unfolding s2_def using move_one [OF rep fnd at c d i room e al, of g] by (auto simp: g_def y)
    then obtain n2 where rep2: "cap_rep {} s2 R2 {} n2"
      unfolding moved_out_def by blast
    have fnd2: "cap_table_find p s2 = Some ti"
      using fnd cap_table_find_cong [of s2 s] one by (simp add: moved_out_def)
    have room2: "c_qdepth (cap_channels s2 c) d < CHAN_QUEUE_DEPTH" "e = ring_tail d (cap_channels s2 c)"
      using room e one by (simp_all add: moved_out_def)
    have "cap_at s2 p r = (if r = it_slot y then None else cap_at s p r)" for r
      using one by (simp add: moved_out_def space_minus_def)
    moreover have "it_slot y \<notin> it_slot ` set its"
      using Cons.prems(9) by simp
    then have "it_slot v \<noteq> it_slot y" if "v \<in> set its" for v
      using imageI [OF that, of "\<lambda>x. it_slot x"] by metis
    ultimately have "\<forall>v \<in> set its. cap_at s2 p (it_slot v) = Some (it_word v) \<and> cap_word_obj (it_word v) = it_obj v"
      using Cons.prems(8) by simp
    from Cons.IH [OF rep2 fnd2 p c d room2 this _ _ run] Cons.prems(9,10)
    obtain k R' where k: "k \<le> length its" "moved = Suc i + k" "fail \<longleftrightarrow> k < length its"
      "moved_out p ti c d e (Suc i) (take k its) s2 R2 s' R'"
      by auto
    show ?thesis
      using k moved_out_Cons [OF one k(4)] by (intro exI [of _ "Suc k"] exI [of _ R']) simp
  qed
qed

section \<open>Rolling a batch back\<close>

text \<open>
  One step back: the node of the queue reference is free again, so the slot reference
  finds one, and the slot is the one that was pushed last.
\<close>

lemma unmove_one:
  assumes rep: "cap_rep {} s R {} n" and fnd: "cap_table_find p s = Some ti" and p: "p < 65536"
    and c: "c < CAP_CHAN_MAX" and d: "d < 2" and i: "i < CAP_MSG_MAX_CAPS"
    and room: "c_qdepth (cap_channels s c) d < CHAN_QUEUE_DEPTH" and e: "e = ring_tail d (cap_channels s c)"
    and it: "its ! i = (x, w, ob)" and w: "minted s w" "cap_word_obj w = ob"
    and ref: "(HOLDER_QUEUE, c, qref e i, d) \<in> set (R ob)" and tb: "table_rep (cap_tables s ti) (slot # xs)"
  defines "s' \<equiv> msg_unmove_one p ti c d e its i s"
  shows "\<exists>n'. cap_rep {} s' (R(ob := (HOLDER_SLOT, p, slot, 0) # drop_ref HOLDER_QUEUE c (qref e i) (R ob))) {} n'"
    and "cap_at s' = (cap_at s)(p := (cap_at s p)(slot := Some w))" and "queues s' = queues s"
    and "cap_table_pid s' = cap_table_pid s" and "objs_ext s s'" and "table_rep (cap_tables s' ti) xs"
    and "c_qdepth (cap_channels s' c) = c_qdepth (cap_channels s c)"
    and "ring_tail d (cap_channels s' c) = ring_tail d (cap_channels s c)"
proof -
  have e16: "e < CHAN_QUEUE_DEPTH"
    using ring_tail_bound by (simp add: e)
  have small: "u16 c = c" "u16 (qref e i) = qref e i" "u16 p = p"
    using c e16 i p by (simp_all add: limits)
  have ob: "ob < cap_obj_next s"
    using minted_fields(3) [OF w(1)] w(2) by simp
  have act: "o_active (cap_objects s ob)"
    using objs_okD(1) [OF cap_repD(5) [OF rep]] objs_okD(6) [OF cap_repD(5) [OF rep], of ob] ref ob
    by (cases "o_active (cap_objects s ob)") auto
  define t1 where "t1 = cap_holder_remove ob HOLDER_QUEUE c (qref e i) s"
  note only1 = cap_holder_remove_only [of s ob HOLDER_QUEUE c "qref e i", folded t1_def]
  let ?R1 = "R(ob := drop_ref HOLDER_QUEUE c (qref e i) (R ob))"
  obtain n1 where rep1: "cap_rep {ob} t1 ?R1 {} n1"
    using cap_rep_drop_queue [OF rep ob] unfolding t1_def by blast
  have "\<exists>v \<in> set (R ob). href_is HOLDER_QUEUE c (qref e i) v"
    using ref by (intro bexI [of _ "(HOLDER_QUEUE, c, qref e i, d)"]) simp_all
  then have "refs_rep t1 ?R1 {} (Suc n)"
    using refs_remove_exact [OF cap_repD(2) [OF rep] ob, of HOLDER_QUEUE c "qref e i"] by (simp add: t1_def)
  then have "n1 = Suc n"
    using refs_rep_unique [OF cap_repD(2) [OF rep1]] by blast
  then obtain hs t2 where al: "cap_holder_alloc ob HOLDER_SLOT p slot 0 t1 = Some (hs, t2)"
    using refs_alloc_None [OF cap_repD(2) [OF rep1], of ob HOLDER_SLOT p slot 0] by (cases "cap_holder_alloc ob HOLDER_SLOT p slot 0 t1") auto
  obtain t' where pop_t: "slot_pop (cap_tables s ti) = Some (slot, t')"
    using sf.pop_None_iff [of "cap_tables s ti" "slot # xs"] tb slot_pop_rep [OF tb]
    by (cases "slot_pop (cap_tables s ti)") (auto simp: table_rep_def)
  define s1 where "s1 = upd_table ti (\<lambda>_. t') s"
  have pop: "cap_slot_pop ti s = Some (slot, s1)"
    by (simp add: cap_slot_pop_def pop_t s1_def)
  note s1 = cap_slot_pop_state [OF pop]
  note only2 = cap_holder_alloc_only [OF al]
  have only: "holder_only s t2"
    using only1 only2 by (rule holder_only_trans)
  have al1: "cap_holder_alloc ob HOLDER_SLOT p slot 0 (cap_holder_remove ob HOLDER_QUEUE c (qref e i) s1) = Some (hs, t2\<lparr>cap_tables := cap_tables s1\<rparr>)"
    using al by (subst s1) (simp add: holder_remove_tables holder_alloc_tables t1_def)
  have rep2: "cap_rep {ob} t2 ?R1 {hs} (n1 - 1)"
    using cap_rep_alloc [OF rep1 al] by simp
  have pop2: "cap_slot_pop ti t2 = Some (slot, t2\<lparr>cap_tables := cap_tables s1\<rparr>)"
    by (rule cap_slot_pop_tables [OF pop]) (simp add: holder_only_tables [OF only])
  have fnd2: "cap_table_find p t2 = Some ti"
    using fnd cap_table_find_cong [OF holder_only_tables(2) [OF only]] by simp
  have m2: "minted t2 w" and a2: "o_active (cap_objects t2 ob)"
    using minted_ext [OF w(1) objs_ext_holder [OF only]] act holder_only_objects [OF only] by auto
  define t3 where "t3 = set_slot ti slot w (cap_holder_link hs ob (t2\<lparr>cap_tables := cap_tables s1\<rparr>))"
  have st: "staged t2 hs ob (HOLDER_SLOT, p, slot, 0)"
    by (rule refs_alloc(4) [OF cap_repD(2) [OF rep1] al])
  note ins = cap_rep_install [OF rep2 fnd2 pop2 _ st m2 w(2) a2, folded t3_def]
  have ch3: "cap_channels t3 = cap_channels s"
    using holder_only_tables(4) [OF only] holder_only_tables(4) [OF cap_holder_link_only] by (simp add: t3_def)
  let ?f = "\<lambda>m :: ChanMsg. m\<lparr>m_cap_word := (m_cap_word m)(i := 0)\<rparr>"
  have s': "s' = upd_msg c d e ?f t3"
    by (simp add: s'_def msg_unmove_one_def it pop small al1 t3_def Let_def)
  have rep3: "cap_rep {} t3 (R(ob := (HOLDER_SLOT, p, slot, 0) # drop_ref HOLDER_QUEUE c (qref e i) (R ob))) {} (n1 - 1)"
    using ins(1) by simp
  have room3: "c_qdepth (cap_channels t3 c) d < CHAN_QUEUE_DEPTH" "e = ring_tail d (cap_channels t3 c)"
    using room e by (simp_all add: ch3)
  note t = cap_rep_tail [OF rep3 c d room3, of ?f, folded s']
  show "\<exists>n'. cap_rep {} s' (R(ob := (HOLDER_SLOT, p, slot, 0) # drop_ref HOLDER_QUEUE c (qref e i) (R ob))) {} n'"
    using t(1) by blast
  show "cap_at s' = (cap_at s)(p := (cap_at s p)(slot := Some w))"
    using ins(2) by (simp add: s' cap_at_holder [OF only])
  show "queues s' = queues s"
    using t(2) by (simp add: queues_def ch3 fun_eq_iff)
  show "cap_table_pid s' = cap_table_pid s"
    by (simp add: s' t3_def holder_only_tables [OF only] holder_only_tables(2) [OF cap_holder_link_only])
  show "c_qdepth (cap_channels s' c) = c_qdepth (cap_channels s c)" "ring_tail d (cap_channels s' c) = ring_tail d (cap_channels s c)"
    by (simp_all add: s' ch3)
  have "objs_ext t2 (cap_holder_link hs ob (t2\<lparr>cap_tables := cap_tables s1\<rparr>))"
    by (rule objs_ext_trans [OF objs_ext_same objs_ext_holder [OF cap_holder_link_only]]) simp_all
  then show "objs_ext s s'"
    using objs_ext_trans [OF objs_ext_holder [OF only] objs_ext_trans [OF _ objs_ext_same], of _ s'] by (simp add: s' t3_def)
  have "cap_tables s' ti = t'\<lparr>t_slots := (t_slots t')(slot := w)\<rparr>"
    by (simp add: s' t3_def holder_only_tables(1) [OF cap_holder_link_only] set_slot_def s1_def upd_table_def)
  then show "table_rep (cap_tables s' ti) xs"
    using slot_install_rep [OF tb pop_t minted_fields(2) [OF w(1)]] by auto
qed

lemma map_upds_override:
  "\<forall>r. r \<notin> set xs \<longrightarrow> f r = g r \<Longrightarrow> length xs = length ys \<Longrightarrow> f(xs [\<mapsto>] ys) = g(xs [\<mapsto>] ys)"
proof (induction xs arbitrary: ys f g)
  case (Cons x xs)
  then obtain y ys' where "ys = y # ys'" "length xs = length ys'"
    by (metis length_Cons length_Suc_conv)
  moreover have "(f(x \<mapsto> y))(xs [\<mapsto>] ys') = (g(x \<mapsto> y))(xs [\<mapsto>] ys')"
    by (rule Cons.IH) (use Cons.prems(1) calculation in auto)
  ultimately show ?case
    by simp
qed auto

lemma unmove_run:
  assumes "cap_rep {} s R {} n" and "cap_table_find p s = Some ti" and p: "p < 65536"
    and c: "c < CAP_CHAN_MAX" and d: "d < 2"
    and "c_qdepth (cap_channels s c) d < CHAN_QUEUE_DEPTH" and "e = ring_tail d (cap_channels s c)"
    and "\<forall>j \<in> set js. j < CAP_MSG_MAX_CAPS \<and> minted s (it_word (its ! j)) \<and>
           cap_word_obj (it_word (its ! j)) = it_obj (its ! j) \<and> (HOLDER_QUEUE, c, qref e j, d) \<in> set (R (it_obj (its ! j)))"
    and "distinct js" and "table_rep (cap_tables s ti) (slots @ xs)" and "length slots = length js"
    and "s' = fold (msg_unmove_one p ti c d e its) js s"
  shows "\<exists>R' n'. cap_rep {} s' R' {} n' \<and>
      cap_at s' = (cap_at s)(p := (cap_at s p)(slots [\<mapsto>] map (\<lambda>j. it_word (its ! j)) js)) \<and> queues s' = queues s \<and>
      c_qdepth (cap_channels s' c) = c_qdepth (cap_channels s c) \<and>
      ring_tail d (cap_channels s' c) = ring_tail d (cap_channels s c)"
  using assms
proof (induction js arbitrary: s R n slots)
  case Nil
  then show ?case
    by auto
next
  case (Cons j js)
  obtain slot slots' where sl: "slots = slot # slots'" "length slots' = length js"
    using Cons.prems(11) by (auto simp: length_Suc_conv)
  obtain x w ob where it: "its ! j = (x, w, ob)"
    by (cases "its ! j")
  have j: "j < CAP_MSG_MAX_CAPS" "minted s w" "cap_word_obj w = ob" "(HOLDER_QUEUE, c, qref e j, d) \<in> set (R ob)"
    using Cons.prems(8) by (auto simp: it)
  define s1 where "s1 = msg_unmove_one p ti c d e its j s"
  let ?R = "R(ob := (HOLDER_SLOT, p, slot, 0) # drop_ref HOLDER_QUEUE c (qref e j) (R ob))"
  have "table_rep (cap_tables s ti) (slot # slots' @ xs)"
    using Cons.prems(10) by (simp add: sl)
  note one = unmove_one [OF Cons.prems(1,2) p c d j(1) Cons.prems(6,7) it j(2,3,4) this, folded s1_def]
  obtain n1 where rep1: "cap_rep {} s1 ?R {} n1"
    using one(1) by blast
  have fnd1: "cap_table_find p s1 = Some ti"
    using Cons.prems(2) cap_table_find_cong [OF one(4)] by simp
  have room1: "c_qdepth (cap_channels s1 c) d < CHAN_QUEUE_DEPTH" "e = ring_tail d (cap_channels s1 c)"
    using Cons.prems(6,7) by (simp_all add: one(7,8))
  have keep: "(HOLDER_QUEUE, c, qref e j', d) \<in> set (?R ob')" if "j' \<in> set js" "(HOLDER_QUEUE, c, qref e j', d) \<in> set (R ob')" for j' ob'
    using that Cons.prems(9) drop_ref_other [of HOLDER_QUEUE c "qref e j" "(HOLDER_QUEUE, c, qref e j', d)" "R ob"] by auto
  have ok1: "\<forall>j \<in> set js. j < CAP_MSG_MAX_CAPS \<and> minted s1 (it_word (its ! j)) \<and>
      cap_word_obj (it_word (its ! j)) = it_obj (its ! j) \<and> (HOLDER_QUEUE, c, qref e j, d) \<in> set (?R (it_obj (its ! j)))"
    using Cons.prems(8) keep minted_ext [OF _ one(5)] by (metis list.set_intros(2))
  have "\<exists>R' n'. cap_rep {} s' R' {} n' \<and>
      cap_at s' = (cap_at s1)(p := (cap_at s1 p)(slots' [\<mapsto>] map (\<lambda>j. it_word (its ! j)) js)) \<and> queues s' = queues s1 \<and>
      c_qdepth (cap_channels s' c) = c_qdepth (cap_channels s1 c) \<and>
      ring_tail d (cap_channels s' c) = ring_tail d (cap_channels s1 c)"
    by (rule Cons.IH [OF rep1 fnd1 p c d room1 ok1 _ one(6) sl(2)]) (use Cons.prems(9,12) in \<open>simp_all add: s1_def\<close>)
  then show ?case
    by (simp add: one(2,3,7,8) sl(1) it)
qed

section \<open>The contract of a batch\<close>

text \<open>
  A batch goes out whole: the named slots are empty and the message at the tail of the queue
  carries their words in order. Or nothing is published; then the space is what it was, save
  that after a rollback the first \<open>k\<close> named slots hold their words in the opposite order.
\<close>

definition sends_batch ::
  "cap_state \<Rightarrow> nat \<Rightarrow> SLSCapDesc list \<Rightarrow> nat \<Rightarrow> unit res \<Rightarrow> cap_state \<Rightarrow> bool" where
  "sends_batch s p descs tag r s' \<longleftrightarrow> cap_inv s' \<and>
     (case r of
        Ok _ \<Rightarrow> (\<exists>c d m. queues s' = (queues s)(c := (queues s c)(d := queues s c d @ [m])) \<and>
          m_cookie m = of_nat tag \<and> m_n_caps m = length descs \<and>
          (\<forall>j < length descs. cap_at s p (d_slot (descs ! j)) = Some (m_cap_word m j)) \<and>
          cap_at s' = space_minus p (d_slot ` set descs) (cap_at s))
      | Err e \<Rightarrow> queues s' = queues s \<and>
          (if e = ECAPREVOKED
           then \<exists>k < length descs. \<exists>ws. map Some ws = map (cap_at s p \<circ> d_slot) (take k descs) \<and>
                  cap_at s' = (cap_at s)(p := (cap_at s p)(rev (map d_slot (take k descs)) [\<mapsto>] ws))
           else cap_at s' = cap_at s)
      | Oob \<Rightarrow> False)"

lemma payload_frame [simp]:
  "queues (s\<lparr>cap_payload := pool\<rparr>) = queues s" "cap_at (s\<lparr>cap_payload := pool\<rparr>) = cap_at s"
proof -
  show "cap_at (s\<lparr>cap_payload := pool\<rparr>) = cap_at s"
    by (rule cap_at_cong) simp_all
qed (simp add: queues_def fun_eq_iff)

lemma payload_drop_rep [simp]:
  "cap_rep X (payload_drop i s) R P n = cap_rep X s R P n" "queues (payload_drop i s) = queues s"
  "cap_at (payload_drop i s) = cap_at s"
  by (simp_all add: payload_drop_def)

lemma stage_payload_state: "stage_payload payload s = (r, s') \<Longrightarrow> s' = s\<lparr>cap_payload := cap_payload s'\<rparr>"
  by (auto simp: stage_payload_def split: if_splits option.splits)

lemma send_descs_Ok:
  assumes rep: "cap_rep X s R P n" and fnd: "cap_table_find p s = Some ti"
  shows "send_descs ti descs s = Ok its \<Longrightarrow> map fst its = descs \<and>
    (\<forall>x \<in> set its. cap_at s p (it_slot x) = Some (it_word x) \<and> cap_word_obj (it_word x) = it_obj x)"
proof (induction descs arbitrary: its)
  case (Cons x descs)
  let ?w = "slot_word s ti (d_slot x)"
  obtain ob its' where a: "d_slot x < CAP_TABLE_ENTRIES" "cap_word_valid ?w" "cap_object_get (cap_word_obj ?w) s = Some ob"
    "send_descs ti descs s = Ok its'" "its = (x, ?w, ob) # its'"
    using Cons.prems by (auto simp: Let_def split: if_splits option.splits res.splits)
  then show ?case
    using Cons.IH [OF a(4)] slot_cap [OF fnd a(1,2)] by (simp add: cap_object_get_iff [OF cap_repD(5) [OF rep]])
qed simp

lemma send_descs_not_Oob: "\<forall>x \<in> set descs. d_slot x < CAP_TABLE_ENTRIES \<Longrightarrow> send_descs ti descs s \<noteq> Oob"
  by (induction descs) (auto simp: Let_def split: option.splits res.splits)

lemma send_descs_error: "send_descs ti descs s = Err e \<Longrightarrow> e = EINVAL"
  by (induction descs) (auto simp: Let_def split: if_splits option.splits res.splits)

lemma msg_publish_rep:
  fixes tag flags len pidx :: nat
  assumes rep: "cap_rep X s R P n" and c: "c < CAP_CHAN_MAX" and d: "d < 2"
    and room: "c_qdepth (cap_channels s c) d < CHAN_QUEUE_DEPTH" and e: "e = ring_tail d (cap_channels s c)"
    and k: "k \<le> CAP_MSG_MAX_CAPS" and ok: "\<forall>j < CAP_MSG_MAX_CAPS. qword_ok s (m_cap_word (msg_at s c d e) j)"
  defines "s' \<equiv> msg_publish c d e k tag flags len pidx s"
  shows "cap_rep X s' R P n" and "cap_at s' = cap_at s"
    and "\<exists>m. queues s' = (queues s)(c := (queues s c)(d := queues s c d @ [m])) \<and>
           m_cookie m = of_nat tag \<and> m_n_caps m = k \<and> m_cap_word m = m_cap_word (msg_at s c d e)"
proof -
  define f where "f = (\<lambda>m :: ChanMsg. m\<lparr>m_n_caps := u8 k, m_cookie := of_nat tag, m_flags := u8 flags,
            m_payload_len := u16 len, m_payload_idx := pidx\<rparr>)"
  let ?s = "upd_msg c d e f s" and ?m = "f (msg_at s c d e)"
  have fin: "s' = log_hook MaybeHandoff (log_hook (WakeChan c) (upd_channel c (ring_put d) ?s))"
    by (simp add: s'_def msg_publish_def f_def)
  have u8: "u8 k = k"
    using k by (simp add: limits)
  note t = cap_rep_tail [OF rep c d room e, of f]
  have "msg_ok ?s ?m"
    using ok k by (simp add: msg_ok_upd_msg f_def msg_ok_def u8)
  note pt = cap_rep_put [OF t(1) c d _ _ this]
  show "cap_rep X s' R P n" "cap_at s' = cap_at s"
    using pt(1) room by (simp_all add: fin e [symmetric])
  have "queues s' = (queues s)(c := (queues s c)(d := queues s c d @ [?m]))"
    using pt(2) room by (simp add: fin e [symmetric] t(2))
  then show "\<exists>m. queues s' = (queues s)(c := (queues s c)(d := queues s c d @ [m])) \<and>
           m_cookie m = of_nat tag \<and> m_n_caps m = k \<and> m_cap_word m = m_cap_word (msg_at s c d e)"
    by (intro exI [of _ ?m]) (simp add: f_def u8)
qed

text \<open>The two ways out of the move loop.\<close>

lemma batch_published:
  assumes mo: "moved_out p ti c d e 0 its (upd_msg c d e msg_clear_caps s) R s2 R'" and fnd: "cap_table_find p s = Some ti"
    and c: "c < CAP_CHAN_MAX" and d: "d < 2" and len: "length its \<le> CAP_MSG_MAX_CAPS"
    and rep: "cap_rep {} s R0 {} n" and qs: "queues (upd_msg c d e msg_clear_caps s) = queues s"
    and room: "c_qdepth (cap_channels s c) d < CHAN_QUEUE_DEPTH" and e: "e = ring_tail d (cap_channels s c)"
    and its: "\<forall>x \<in> set its. cap_at s p (it_slot x) = Some (it_word x)" "map fst its = descs"
  shows "sends_batch s p descs tag (Ok ()) (msg_publish c d e (length descs) tag flags len pidx s2)"
proof -
  let ?s1 = "upd_msg c d e msg_clear_caps s" and ?s' = "msg_publish c d e (length descs) tag flags len pidx s2"
  obtain n2 where rep2: "cap_rep {} s2 R' {} n2"
    using mo unfolding moved_out_def by blast
  have words: "m_cap_word (msg_at s2 c d e) j = (if j < length its then it_word (its ! j) else 0)" if "j < CAP_MSG_MAX_CAPS" for j
    using mo that by (simp add: moved_out_def msg_clear_caps_def)
  have ext: "objs_ext s s2"
    using objs_ext_trans [OF objs_ext_same, of ?s1 s s2] mo by (simp add: moved_out_def)
  have "minted s2 (it_word x)" if "x \<in> set its" for x
    using its(1) that cap_repD(4) [OF rep] minted_ext [OF _ ext] by (auto simp: caps_ok_def)
  then have ok: "\<forall>j < CAP_MSG_MAX_CAPS. qword_ok s2 (m_cap_word (msg_at s2 c d e) j)"
    by (simp add: words qword_ok_def)
  have ld: "length descs = length its"
    using its(2) by (metis length_map)
  have room2: "c_qdepth (cap_channels s2 c) d < CHAN_QUEUE_DEPTH" "e = ring_tail d (cap_channels s2 c)"
    using mo room e by (simp_all add: moved_out_def)
  note f = msg_publish_rep [OF rep2 c d room2 _ ok, of "length descs" tag flags len pidx]
  obtain m where m: "queues ?s' = (queues s2)(c := (queues s2 c)(d := queues s2 c d @ [m]))"
    "m_cookie m = of_nat tag" "m_n_caps m = length descs" "m_cap_word m = m_cap_word (msg_at s2 c d e)"
    using f(3) len ld by auto
  have q2: "queues s2 = queues s"
    using mo qs by (simp add: moved_out_def)
  have at: "cap_at ?s' = space_minus p (d_slot ` set descs) (cap_at s)"
    using f(2) len ld mo by (simp add: moved_out_def its(2) [symmetric] image_image)
  have "cap_at s p (d_slot (descs ! j)) = Some (m_cap_word m j)" if "j < length descs" for j
    using its that len ld by (auto simp: m(4) words)
  then show ?thesis
    using f(1) len ld m(1-3) at unfolding sends_batch_def cap_inv_def q2 by auto
qed

lemma batch_rolled_back:
  assumes mo: "moved_out p ti c d e 0 (take k its) (upd_msg c d e msg_clear_caps s) R s2 R'"
    and k: "k < length its" and fnd: "cap_table_find p s = Some ti" and p: "p < 65536"
    and c: "c < CAP_CHAN_MAX" and d: "d < 2" and len: "length its \<le> CAP_MSG_MAX_CAPS"
    and rep: "cap_rep {} s R0 {} n" and qs: "queues (upd_msg c d e msg_clear_caps s) = queues s"
    and room: "c_qdepth (cap_channels s c) d < CHAN_QUEUE_DEPTH" and e: "e = ring_tail d (cap_channels s c)"
    and its: "\<forall>x \<in> set its. cap_at s p (it_slot x) = Some (it_word x) \<and> cap_word_obj (it_word x) = it_obj x" "map fst its = descs"
  shows "sends_batch s p descs tag (Err ECAPREVOKED) (msg_rollback p ti c d e its k pidx s2)"
proof -
  let ?s1 = "upd_msg c d e msg_clear_caps s"
  define s3 where "s3 = fold (msg_unmove_one p ti c d e its) [0..<k] s2"
  let ?slots = "map it_slot (take k its)" and ?words = "map (\<lambda>j. it_word (its ! j)) [0..<k]"
  obtain n2 where rep2: "cap_rep {} s2 R' {} n2"
    using mo unfolding moved_out_def by blast
  have fnd2: "cap_table_find p s2 = Some ti"
    using fnd cap_table_find_cong [of s2 s] mo by (simp add: moved_out_def)
  have room2: "c_qdepth (cap_channels s2 c) d < CHAN_QUEUE_DEPTH" "e = ring_tail d (cap_channels s2 c)"
    using mo room e by (simp_all add: moved_out_def)
  have ext: "objs_ext s s2"
    using objs_ext_trans [OF objs_ext_same, of ?s1 s s2] mo by (simp add: moved_out_def)
  have "minted s2 (it_word x)" if "x \<in> set its" for x
    using its(1) that cap_repD(4) [OF rep] minted_ext [OF _ ext] by (auto simp: caps_ok_def)
  then have ok: "\<forall>j \<in> set [0..<k]. j < CAP_MSG_MAX_CAPS \<and> minted s2 (it_word (its ! j)) \<and>
      cap_word_obj (it_word (its ! j)) = it_obj (its ! j) \<and> (HOLDER_QUEUE, c, qref e j, d) \<in> set (R' (it_obj (its ! j)))"
    using mo k len its(1) by (auto simp: moved_out_def)
  obtain xs where "table_rep (cap_tables s ti) xs"
    using tabs_invD(2) [OF cap_repD(1) [OF rep] table_find_bound [OF cap_repD(1) [OF rep] fnd]]
    by (auto simp: table_wf_def)
  then have tb: "table_rep (cap_tables s2 ti) (rev ?slots @ xs)"
    using mo by (simp add: moved_out_def)
  obtain R3 n3 where u: "cap_rep {} s3 R3 {} n3" "cap_at s3 = (cap_at s2)(p := (cap_at s2 p)(rev ?slots [\<mapsto>] ?words))"
    "queues s3 = queues s2" "c_qdepth (cap_channels s3 c) = c_qdepth (cap_channels s2 c)"
    "ring_tail d (cap_channels s3 c) = ring_tail d (cap_channels s2 c)"
    using unmove_run [OF rep2 fnd2 p c d room2 ok _ tb _ s3_def] k by auto
  have "c_qdepth (cap_channels s3 c) d < CHAN_QUEUE_DEPTH" "e = ring_tail d (cap_channels s3 c)"
    using room2 by (simp_all add: u)
  note t = cap_rep_tail [OF u(1) c d this, of "\<lambda>m. m\<lparr>m_n_caps := 0\<rparr>"]
  have slots: "map d_slot (take k descs) = ?slots"
    by (simp add: its(2) [symmetric] take_map)
  have words: "map Some ?words = map (cap_at s p \<circ> d_slot) (take k descs)"
    using k its(1) by (auto simp: its(2) [symmetric] intro!: nth_equalityI)
  have "(space_minus p (it_slot ` set (take k its)) (cap_at s) p)(rev ?slots [\<mapsto>] ?words) = (cap_at s p)(rev ?slots [\<mapsto>] ?words)"
    using k by (intro map_upds_override) (auto simp: space_minus_def)
  then have at: "cap_at s3 = (cap_at s)(p := (cap_at s p)(rev ?slots [\<mapsto>] ?words))"
    using mo by (simp add: u(2) moved_out_def) (simp add: space_minus_def)
  have "queues s3 = queues s"
    using mo qs by (simp add: u(3) moved_out_def)
  moreover have "cap_inv (msg_rollback p ti c d e its k pidx s2)"
    using t(1) unfolding msg_rollback_def s3_def [symmetric] cap_inv_def payload_drop_rep(1) by blast
  ultimately show ?thesis
    using t(2) k words at its(2) slots unfolding sends_batch_def
    by (auto simp: msg_rollback_def s3_def [symmetric] intro!: exI [of _ k] exI [of _ ?words])
qed

lemma send_channel_EBADF: "send_channel ti i s = Err e \<Longrightarrow> e = EBADF"
  by (auto simp: send_channel_def Let_def split: if_splits option.splits)

lemma send_msg_queue_batch:
  assumes rep: "cap_rep {} s R {} n" and fnd: "cap_table_find p s = Some ti" and p: "p < 65536"
    and c: "c < CAP_CHAN_MAX" and d: "d < 2" and len: "length descs \<le> CAP_MSG_MAX_CAPS"
    and dist: "distinct (map d_slot descs)" and slots: "\<forall>x \<in> set descs. d_slot x < CAP_TABLE_ENTRIES"
    and res: "send_msg_queue p ti c d payload descs tag flags s = (r, s')"
  shows "sends_batch s p descs tag r s'"
proof -
  have fails: "sends_batch s p descs tag (Err e) s2" if "e \<noteq> ECAPREVOKED" "cap_rep {} s2 R {} n" "queues s2 = queues s" "cap_at s2 = cap_at s" for e s2
    using that unfolding sends_batch_def cap_inv_def by auto
  show ?thesis
  proof (cases "c_qdepth (cap_channels s c) d < CHAN_QUEUE_DEPTH")
    case False
    then show ?thesis
      using res fails [OF _ rep] by (auto simp: send_msg_queue_def)
  next
    case room: True
    show ?thesis
    proof (cases "send_descs ti descs s")
      case (Err e)
      then show ?thesis
        using res room fails [OF _ rep] send_descs_error [OF Err] by (auto simp: send_msg_queue_def)
    next
      case Oob
      then show ?thesis
        using send_descs_not_Oob [OF slots] by simp
    next
      case (Ok its)
      note ok = send_descs_Ok [OF rep fnd Ok]
      obtain opidx s1 where st: "stage_payload payload s = (opidx, s1)"
        by fastforce
      have s1: "s1 = s\<lparr>cap_payload := cap_payload s1\<rparr>"
        by (rule stage_payload_state [OF st])
      have rep1: "cap_rep {} s1 R {} n" and q1: "queues s1 = queues s" and at1: "cap_at s1 = cap_at s"
        and ch1: "cap_channels s1 = cap_channels s" and tp1: "cap_table_pid s1 = cap_table_pid s"
        by (subst s1, simp add: rep)+
      show ?thesis
      proof (cases opidx)
        case None
        then show ?thesis
          using res room Ok st fails [OF _ rep1 q1 at1] by (auto simp: send_msg_queue_def)
      next
        case (Some pidx)
        let ?e = "ring_tail d (cap_channels s1 c)" and ?s2 = "upd_msg c d (ring_tail d (cap_channels s1 c)) msg_clear_caps s1"
        have room1: "c_qdepth (cap_channels s1 c) d < CHAN_QUEUE_DEPTH"
          using room by (simp add: ch1)
        note t = cap_rep_tail [OF rep1 c d room1 refl, of msg_clear_caps]
        have fnd1: "cap_table_find p s1 = Some ti" "cap_table_find p ?s2 = Some ti"
          using fnd cap_table_find_cong [OF tp1] cap_table_find_cong [of ?s2 s1] by simp_all
        obtain moved failed s3 where mv: "msg_move p ti c d ?e 0 its ?s2 = (moved, failed, s3)"
          by (metis prod_cases3)
        have its: "\<forall>x \<in> set its. cap_at s1 p (it_slot x) = Some (it_word x) \<and> cap_word_obj (it_word x) = it_obj x" "map fst its = descs"
          using ok by (simp_all add: at1)
        have dist': "distinct (map it_slot its)" and len': "length its \<le> CAP_MSG_MAX_CAPS"
          using dist len its(2) by (auto simp: comp_def)
        have "\<exists>k R'. k \<le> length its \<and> moved = 0 + k \<and> (failed \<longleftrightarrow> k < length its) \<and> moved_out p ti c d ?e 0 (take k its) ?s2 R s3 R'"
          by (rule msg_move_run [OF t(1) fnd1(2) p c d _ _ _ dist' _ mv]) (use room1 its len' in simp_all)
        then obtain k R' where k: "k \<le> length its" "moved = k" "failed \<longleftrightarrow> k < length its" "moved_out p ti c d ?e 0 (take k its) ?s2 R s3 R'"
          by auto
        have "sends_batch s1 p descs tag r s'"
        proof (cases failed)
          case True
          then have "r = Err ECAPREVOKED" "s' = msg_rollback p ti c d ?e its k pidx s3"
            using res room room1 Ok st Some mv k(2) by (auto simp: send_msg_queue_def Let_def)
          then show ?thesis
            using batch_rolled_back [OF k(4) _ fnd1(1) p c d len' rep1 t(2) room1 refl its] True k(3) by simp
        next
          case False
          then have "r = Ok ()" "s' = msg_publish c d ?e (length descs) tag flags (length payload) pidx s3"
            using res room room1 Ok st Some mv by (auto simp: send_msg_queue_def Let_def)
          moreover have "moved_out p ti c d ?e 0 its ?s2 R s3 R'"
            using k False by simp
          ultimately show ?thesis
            using batch_published [OF _ fnd1(1) c d len' rep1 t(2) room1 refl _ its(2)] its(1) by simp
        qed
        then show ?thesis
          by (simp only: sends_batch_def q1 at1)
      qed
    qed
  qed
qed

lemma send_msg_batch:
  assumes inv: "cap_inv s" and p: "pid < 65536" and i: "ch_w_idx < CAP_TABLE_ENTRIES"
    and dist: "distinct (map d_slot descs)" and slots: "\<forall>x \<in> set descs. d_slot x < CAP_TABLE_ENTRIES"
    and res: "cap_send_msg pid ch_w_idx payload descs tag flags s = (r, s')"
  shows "sends_batch s pid descs tag r s'"
proof -
  obtain R n where rep: "cap_rep {} s R {} n"
    using inv by (auto simp: cap_inv_def)
  have fails: "sends_batch s pid descs tag (Err e) s2" if "e \<noteq> ECAPREVOKED" "cap_rep {} s2 R {} n" "queues s2 = queues s" "cap_at s2 = cap_at s" for e s2
    using that unfolding sends_batch_def cap_inv_def by auto
  obtain oti s1 where i1: "cap_table_index pid s = (oti, s1)"
    by fastforce
  show ?thesis
  proof (cases "length descs > CAP_MSG_MAX_CAPS \<or> length payload > CAP_MSG_MAX_PAYLOAD \<or> oti = None")
    case True
    then show ?thesis
      using res i1 cap_table_index_None [of pid s s1] fails [OF _ rep] by (auto simp: cap_send_msg_def split: if_splits)
  next
    case False
    then obtain ti where ti: "oti = Some ti" and len: "length descs \<le> CAP_MSG_MAX_CAPS" "length payload \<le> CAP_MSG_MAX_PAYLOAD"
      by auto
    note b = cap_rep_bind [OF rep i1 [unfolded ti] p]
    have qs: "queues s1 = queues s"
      by (subst b(4)) (simp add: queues_def fun_eq_iff)
    show ?thesis
    proof (cases "send_channel ti ch_w_idx s1")
      case (Ok cobj)
      define c where "c = o_chan_id (cap_objects s1 cobj)"
      define d :: nat where "d = (if pid = c_end0_pid (cap_channels s1 c) then 1 else 0)"
      have cd: "c < CAP_CHAN_MAX" "d < 2"
        using send_channel_Ok [OF b(1) Ok] by (simp_all add: c_def d_def)
      have "send_msg_queue pid ti c d payload descs tag flags s1 = (r, s')"
        using res len by (simp add: cap_send_msg_def i1 ti Ok Let_def c_def d_def)
      from send_msg_queue_batch [OF b(1,2) p cd len(1) dist slots this] show ?thesis
        by (simp only: sends_batch_def b(3) qs)
    next
      case (Err e)
      then have "r = Err e" "s' = s1"
        using res len by (auto simp: cap_send_msg_def i1 ti)
      then show ?thesis
        using fails [OF _ b(1) qs b(3), of e] send_channel_EBADF [OF Err] by simp
    qed (use send_checks_not_Oob(1) [OF i] in auto)
  qed
qed

end
