(* ===== verification/Cap_Take.thy ===== *)
theory Cap_Take
  imports Cap_Batch
begin

text \<open>
  What \<^verbatim>\<open>cap_recv_msg\<close> does. The capabilities of the front message move one by one into free
  slots of the receiver; what it does not take is dropped, and the message leaves the
  queue. When slots or nodes run out on the way the receiver keeps what it has
  got and the message stays, without the words that were taken.
\<close>

section \<open>Installing capabilities\<close>

lemma map_upds_append:
  "length xs = length us \<Longrightarrow> m(xs @ ys [\<mapsto>] us @ vs) = (m(xs [\<mapsto>] us))(ys [\<mapsto>] vs)"
  by (induction xs us arbitrary: m rule: list_induct2) auto

lemma map_upds_None:
  "length xs = length ys \<Longrightarrow> (m(xs [\<mapsto>] ys)) r = None \<longleftrightarrow> m r = None \<and> r \<notin> set xs"
  by (induction xs ys arbitrary: m rule: list_induct2) auto

text \<open>
  From \<open>s\<close> to \<open>s'\<close> the words at the indices \<open>ks\<close> of a message have moved, in this order,
  into the slots \<open>news\<close> of process \<open>p\<close>; other words of the message stay or are cleared.
\<close>

definition installed ::
  "nat \<Rightarrow> nat \<Rightarrow> nat \<Rightarrow> nat \<Rightarrow> nat list \<Rightarrow> nat list \<Rightarrow> cap_state \<Rightarrow> cap_state \<Rightarrow> bool" where
  "installed p c d e news ks s s' \<longleftrightarrow>
     (\<exists>R n. cap_rep {} s' R {} n) \<and> msg_ok s' (msg_at s' c d e) \<and> objs_ext s s' \<and> touches c d e s s' \<and>
     cap_table_pid s' = cap_table_pid s \<and> length news = length ks \<and> distinct ks \<and> distinct news \<and>
     (\<forall>r \<in> set news. cap_at s p r = None) \<and>
     cap_at s' = (cap_at s)(p := (cap_at s p)(news [\<mapsto>] map (m_cap_word (msg_at s c d e)) ks)) \<and>
     (\<forall>k \<in> set ks. m_cap_word (msg_at s c d e) k \<noteq> 0 \<and> m_cap_word (msg_at s' c d e) k = 0) \<and>
     (\<forall>j. m_cap_word (msg_at s' c d e) j = 0 \<or> m_cap_word (msg_at s' c d e) j = m_cap_word (msg_at s c d e) j) \<and>
     m_n_caps (msg_at s' c d e) = m_n_caps (msg_at s c d e) \<and> m_cookie (msg_at s' c d e) = m_cookie (msg_at s c d e)"

lemma installed_none: "cap_rep {} s R {} n \<Longrightarrow> msg_ok s (msg_at s c d e) \<Longrightarrow> installed p c d e [] [] s s"
  unfolding installed_def by auto

lemma installed_trans:
  assumes a: "installed p c d e us ks s s1" and b: "installed p c d e vs ls s1 s'"
  shows "installed p c d e (us @ vs) (ks @ ls) s s'"
proof -
  note a' = a [unfolded installed_def] and b' = b [unfolded installed_def]
  let ?W = "m_cap_word (msg_at s c d e)" and ?W1 = "m_cap_word (msg_at s1 c d e)"
  have at1: "cap_at s1 = (cap_at s)(p := (cap_at s p)(us [\<mapsto>] map ?W ks))" and len: "length us = length (map ?W ks)"
    using a' by simp_all
  have W1: "?W1 k = ?W k" if "k \<in> set ls" for k
    using a' b' that by metis
  then have ws: "map ?W1 ls = map ?W ls"
    by simp
  have at: "cap_at s' = (cap_at s)(p := (cap_at s p)(us @ vs [\<mapsto>] map ?W (ks @ ls)))"
    using b' len by (simp add: at1 map_upds_append ws)
  have free: "cap_at s p r = None \<and> r \<notin> set us" if "r \<in> set vs" for r
    using b' that map_upds_None [OF len] by (simp add: at1)
  have "set ks \<inter> set ls = {}"
    using a' b' by (metis disjoint_iff)
  moreover have "touches c d e s s'"
    using a' b' by auto
  moreover have "m_cap_word (msg_at s' c d e) j = 0 \<or> m_cap_word (msg_at s' c d e) j = ?W j" for j
    using a' b' by metis
  moreover have "\<forall>k \<in> set (ks @ ls). ?W k \<noteq> 0 \<and> m_cap_word (msg_at s' c d e) k = 0"
    using a' b' W1 by (metis Un_iff set_append)
  ultimately show ?thesis
    unfolding installed_def using a' b' free at objs_ext_trans [of s s1 s'] by auto
qed

lemma installed_clear:
  assumes rep: "cap_rep {} s R {} n" and c: "c < CAP_CHAN_MAX" and ok: "msg_ok s (msg_at s c d e)"
    and f: "f = (\<lambda>m :: ChanMsg. m\<lparr>m_cap_word := (m_cap_word m)(i := 0)\<rparr>)"
  shows "installed p c d e [] [] s (upd_msg c d e f s)"
proof -
  have "msg_ok s (f (msg_at s c d e))"
    using ok by (auto simp: f msg_ok_def qword_ok_def)
  then show ?thesis
    using cap_rep_msg [of _ s _ _ _ c f d e, OF rep c] drained_upd_msg [of c d e s f] unfolding installed_def
    by (auto simp: drained_def msg_ok_upd_msg f)
qed

lemma log_hook_upd_msg: "upd_msg c d e g (log_hook h s) = log_hook h (upd_msg c d e g s)"
  by (simp add: upd_msg_def upd_channel_def log_hook_def)

text \<open>Only these components of the later state matter.\<close>

lemma installed_same:
  assumes a: "installed p c d e us ks s s'" and "cap_rep {} s'' R {} n"
    and eq: "cap_channels s'' = cap_channels s'" "cap_table_pid s'' = cap_table_pid s'" "cap_at s'' = cap_at s'"
    and ob: "cap_objects s'' = cap_objects s'" "cap_obj_next s'' = cap_obj_next s'"
  shows "installed p c d e us ks s s''"
proof -
  have "objs_ext s' s''"
    by (rule objs_ext_same [OF ob])
  then have "objs_ext s s''" "msg_ok s'' (msg_at s' c d e)"
    using a unfolding installed_def by (blast intro: objs_ext_trans msg_ok_ext)+
  with a assms(2) show ?thesis
    unfolding installed_def eq by blast
qed

lemma log_hook_fields:
  "cap_channels (log_hook h s) = cap_channels s" "cap_table_pid (log_hook h s) = cap_table_pid s"
  "cap_objects (log_hook h s) = cap_objects s" "cap_obj_next (log_hook h s) = cap_obj_next s"
  by (simp_all add: log_hook_def)

lemma installed_log: "installed p c d e us ks s s' \<Longrightarrow> installed p c d e us ks s (log_hook h s')"
proof -
  assume a: "installed p c d e us ks s s'"
  then obtain R n where "cap_rep {} (log_hook h s') R {} n"
    unfolding installed_def log_hook_rep by blast
  then show ?thesis
    by (rule installed_same [OF a]) (simp_all add: log_hook_fields)
qed

lemma installed_one:
  fixes i :: nat
  assumes rep: "cap_rep {} s R {} n" and fnd: "cap_table_find p s = Some ti" and c: "c < CAP_CHAN_MAX"
    and ok: "msg_ok s (msg_at s c d e)" and w: "w = m_cap_word (msg_at s c d e) i" "minted s w" "cap_word_obj w = ob"
    and ob: "o_active (cap_objects s ob)"
    and pop: "cap_slot_pop ti s = Some (idx, s1)" and al: "cap_holder_alloc ob HOLDER_SLOT p idx 0 s1 = Some (hs, s2)"
    and g: "g = (\<lambda>m :: ChanMsg. m\<lparr>m_cap_word := (m_cap_word m)(i := 0)\<rparr>)"
    and t: "t = set_slot ti idx w (cap_holder_link hs ob (cap_holder_remove ob HOLDER_QUEUE c' q s2))"
  shows "installed p c d e [idx] [i] s (upd_msg c d e g (grant_map env p ob m i t))"
proof -
  note mv = move_in [OF rep fnd c ok w(2,3) ob pop al g t]
  have ch: "cap_channels t = cap_channels s"
    by (rule mv(4))
  have "installed p c d e [idx] [i] s (upd_msg c d e g t)"
    using mv(1-3,5-7) minted_fields(5) [OF w(2)] objs_ext_trans [OF mv(6) objs_ext_same, of "upd_msg c d e g t"]
      drained_upd_msg [of c d e t g] unfolding installed_def
    by (auto simp: drained_def msg_ok_upd_msg ch w(1) g)
  moreover have "upd_msg c d e g (grant_map env p ob m i t) = upd_msg c d e g t \<or>
      (\<exists>h. upd_msg c d e g (grant_map env p ob m i t) = log_hook h (upd_msg c d e g t))"
    by (auto simp: grant_map_def Let_def log_hook_upd_msg split: prod.splits)
  ultimately show ?thesis
    using installed_log by metis
qed

lemma msg_install_installed:
  assumes "cap_rep {} s R {} n" and "cap_table_find p s = Some ti" and p: "p < 65536" and c: "c < CAP_CHAN_MAX"
    and "msg_ok s (msg_at s c d e)" and "\<forall>j \<in> set js. j < CAP_MSG_MAX_CAPS"
    and "msg_install env p ti c d e js outs s = (r, outs', s')"
  shows "\<exists>news ks. outs' = outs @ news \<and> set ks \<subseteq> set js \<and> installed p c d e (map d_slot news) ks s s' \<and>
    (r = Ok () \<or> r = Err ETABLEFULL \<or> r = Err ENOMEM)"
  using assms
proof (induction js arbitrary: s R n outs)
  case Nil
  then show ?case
    using installed_none [OF Nil.prems(1,5)] by (intro exI [of _ "[]"]) auto
next
  case (Cons i js)
  note rep = Cons.prems(1) and fnd = Cons.prems(2) and ok = Cons.prems(5)
  let ?w = "m_cap_word (msg_at s c d e) i"
  have js: "\<forall>j \<in> set js. j < CAP_MSG_MAX_CAPS"
    using Cons.prems(6) by simp
  have rest: "\<exists>news ks. outs' = outs @ news \<and> set ks \<subseteq> set (i # js) \<and> installed p c d e (map d_slot news) ks s s' \<and>
      (r = Ok () \<or> r = Err ETABLEFULL \<or> r = Err ENOMEM)"
    if one: "installed p c d e (map d_slot x) k s s1" and k: "set k \<subseteq> {i}"
      and run: "msg_install env p ti c d e js (outs @ x) s1 = (r, outs', s')" for x k s1
  proof -
    obtain R1 n1 where r1: "cap_rep {} s1 R1 {} n1"
      using one unfolding installed_def by blast
    have "cap_table_find p s1 = Some ti" "msg_ok s1 (msg_at s1 c d e)"
      using one fnd cap_table_find_cong [of s1 s] by (simp_all add: installed_def)
    from Cons.IH [OF r1 this(1) p c this(2) js run] obtain news ks where
      n: "outs' = (outs @ x) @ news" "set ks \<subseteq> set js" "installed p c d e (map d_slot news) ks s1 s'"
      "r = Ok () \<or> r = Err ETABLEFULL \<or> r = Err ENOMEM"
      by blast
    then show ?thesis
      using k installed_trans [OF one n(3)] by (intro exI [of _ "x @ news"] exI [of _ "k @ ks"]) auto
  qed
  show ?case
  proof (cases "?w = 0 \<or> cap_object_get (cap_word_obj ?w) s = None")
    case True
    then have "msg_install env p ti c d e js (outs @ []) s = (r, outs', s')"
      using Cons.prems(7) by (cases "?w = 0") (simp_all add: Let_def)
    from rest [OF _ _ this] show ?thesis
      using installed_none [OF rep ok] by force
  next
    case False
    then obtain ob where w: "?w \<noteq> 0" and get: "cap_object_get (cap_word_obj ?w) s = Some ob"
      by auto
    then have ob: "cap_word_obj ?w = ob" "o_active (cap_objects s ob)" "\<not> o_revoking (cap_objects s ob)"
      using objs_okD(3) [OF cap_repD(5) [OF rep], of ob] by (auto simp: cap_object_get_iff [OF cap_repD(5) [OF rep]])
    show ?thesis
    proof (cases "cap_word_state ?w = CAP_STATE_REVOKED")
      case True
      then have "msg_install env p ti c d e js (outs @ []) (upd_msg c d e (\<lambda>m. m\<lparr>m_cap_word := (m_cap_word m)(i := 0)\<rparr>) s) = (r, outs', s')"
        using Cons.prems(7) w get by (simp add: Let_def)
      from rest [OF _ _ this] show ?thesis
        using installed_clear [OF rep c ok refl] by force
    next
      case False
      then have mint: "minted s ?w"
        using msg_okD [OF ok, of i] Cons.prems(6) w by (auto simp: qword_ok_def)
      show ?thesis
      proof (cases "\<exists>x. cap_slot_pop ti s = Some x \<and> cap_holder_alloc ob HOLDER_SLOT p (fst x) 0 (snd x) \<noteq> None")
        case True
        then obtain idx s1 hs s2 where pop: "cap_slot_pop ti s = Some (idx, s1)"
          and al: "cap_holder_alloc ob HOLDER_SLOT p idx 0 s1 = Some (hs, s2)"
          by auto
        let ?x = "\<lparr>d_slot = idx, d_offset = m_cap_off (msg_at s c d e) i, d_len = m_cap_len (msg_at s c d e) i,
                    d_rights = m_cap_rights (msg_at s c d e) i, d_flags = m_cap_flags (msg_at s c d e) i\<rparr>"
        define t where "t = set_slot ti idx ?w (cap_holder_link hs ob (cap_holder_remove ob HOLDER_QUEUE (u16 c) (u16 (qref e i)) s2))"
        have "msg_install env p ti c d e js (outs @ [?x]) (upd_msg c d e (\<lambda>m. m\<lparr>m_cap_word := (m_cap_word m)(i := 0)\<rparr>)
            (grant_map env p ob (msg_at s c d e) i t)) = (r, outs', s')"
          using Cons.prems(7) w get False ob(3) pop al p by (simp add: Let_def t_def)
        from rest [OF _ _ this] show ?thesis
          using installed_one [OF rep fnd c ok refl mint ob(1,2) pop al refl t_def] by force
      next
        case short: False
        then obtain x where "mint_slot ti ob p 0 s = (Err x, s')" and x: "r = Err x" "outs' = outs"
          using Cons.prems(7) w get False ob(3) p
          by (auto simp: Let_def mint_slot_def cap_holder_insert_def split: option.splits)
        note m = mint_slot_Err [OF rep fnd p this(1)]
        have same: "cap_channels s' = cap_channels s" "cap_table_pid s' = cap_table_pid s" "cap_objects s' = cap_objects s"
          "cap_obj_next s' = cap_obj_next s"
          by (subst m(4), simp)+
        have "installed p c d e [] [] s s'"
          by (rule installed_same [OF installed_none [OF rep ok] m(1) same(1,2) m(2) same(3,4)])
        then show ?thesis
          using m(3) x by (intro exI [of _ "[]"]) auto
      qed
    qed
  qed
qed

section \<open>The contract of a receive\<close>

text \<open>
  Success takes the front message of one queue. Its capabilities at the indices \<open>ks\<close> are in
  the slots the caller is told about, which were free. \<open>ETABLEFULL\<close> and \<open>ENOMEM\<close>
  can leave capabilities behind in slots the caller is not told about, with the message
  still at the front. No other error changes anything, and no other
  process gains or loses a capability.
\<close>

definition takes ::
  "cap_state \<Rightarrow> nat \<Rightarrow> unit res \<Rightarrow> msg_out \<Rightarrow> cap_state \<Rightarrow> bool" where
  "takes s p r out s' \<longleftrightarrow> cap_inv s' \<and>
     (case r of
        Ok _ \<Rightarrow> (\<exists>c d m ms ks. queues s c d = m # ms \<and> queues s' = (queues s)(c := (queues s c)(d := ms)) \<and>
          mo_n_caps out = length ks \<and> length (mo_caps out) = length ks \<and> distinct ks \<and> set ks \<subseteq> {..<m_n_caps m} \<and>
          mo_tag out = u32 (unat (m_cookie m)) \<and>
          distinct (map d_slot (mo_caps out)) \<and> (\<forall>x \<in> set (mo_caps out). cap_at s p (d_slot x) = None) \<and>
          cap_at s' = (cap_at s)(p := (cap_at s p)(map d_slot (mo_caps out) [\<mapsto>] map (m_cap_word m) ks)))
      | Err e \<Rightarrow>
          if e = ETABLEFULL \<or> e = ENOMEM
          then cap_at s' = cap_at s \<and> queues s' = queues s \<or>
            (\<exists>c d m ms m' ks news. queues s c d = m # ms \<and> queues s' = (queues s)(c := (queues s c)(d := m' # ms)) \<and>
               distinct ks \<and> length news = length ks \<and> (\<forall>r \<in> set news. cap_at s p r = None) \<and>
               (\<forall>k \<in> set ks. m_cap_word m' k = 0) \<and>
               (\<forall>j. m_cap_word m' j = 0 \<or> m_cap_word m' j = m_cap_word m j) \<and>
               cap_at s' = (cap_at s)(p := (cap_at s p)(news [\<mapsto>] map (m_cap_word m) ks)))
          else cap_at s' = cap_at s \<and> queues s' = queues s
      | Oob \<Rightarrow> False)"

lemma takes_OkI:
  assumes "cap_inv s'" and "queues s c d = m # ms" and "queues s' = (queues s)(c := (queues s c)(d := ms))"
    and "mo_n_caps out = length ks" "length (mo_caps out) = length ks" "distinct ks" "set ks \<subseteq> {..<m_n_caps m}"
    and "mo_tag out = u32 (unat (m_cookie m))" "distinct (map d_slot (mo_caps out))"
    and "\<forall>x \<in> set (mo_caps out). cap_at s p (d_slot x) = None"
    and "cap_at s' = (cap_at s)(p := (cap_at s p)(map d_slot (mo_caps out) [\<mapsto>] map (m_cap_word m) ks))"
  shows "takes s p (Ok ()) out s'"
  unfolding takes_def res.case using assms by blast

lemma takes_ErrI:
  assumes "cap_inv s'" and "queues s c d = m # ms" and "queues s' = (queues s)(c := (queues s c)(d := m' # ms))"
    and "distinct ks" "length news = length ks" "\<forall>r \<in> set news. cap_at s p r = None" "\<forall>k \<in> set ks. m_cap_word m' k = 0"
    and "\<forall>j. m_cap_word m' j = 0 \<or> m_cap_word m' j = m_cap_word m j"
    and "cap_at s' = (cap_at s)(p := (cap_at s p)(news [\<mapsto>] map (m_cap_word m) ks))"
    and r: "r = Err ETABLEFULL \<or> r = Err ENOMEM"
  shows "takes s p r out s'"
proof -
  have "takes s p (Err e) out s'" if "e = ETABLEFULL \<or> e = ENOMEM" for e
    unfolding takes_def res.case if_P [OF that] using assms(1-9) by blast
  with r show ?thesis
    by blast
qed

lemma msg_consume_rep:
  assumes rep: "cap_rep X s R P n" and c: "c < CAP_CHAN_MAX" and d: "d < 2" and e: "e = ring_head d (cap_channels s c)"
    and some: "0 < c_qdepth (cap_channels s c) d"
  shows "cap_rep X (msg_consume c d e s) R P n" and "cap_at (msg_consume c d e s) = cap_at s"
    and "queues (msg_consume c d e s) = (queues s)(c := (queues s c)(d := tl (queues s c d)))"
proof -
  let ?f = "\<lambda>m :: ChanMsg. m\<lparr>m_payload_idx := CAP_NONE, m_payload_len := 0, m_n_caps := 0, m_flags := 0\<rparr>"
  note ok = chans_okD [OF cap_repD(7) [OF rep] c d]
  have m: "msg_ok s (msg_at s c d e)"
    using ok(2) front_queues [OF ok(1) some] by (metis e list.set_intros(1))
  define s1 where "s1 = s\<lparr>cap_payload := cap_msg_payload_free (m_payload_idx (msg_at s c d e)) (cap_payload s)\<rparr>"
  define s2 where "s2 = upd_msg c d e ?f s1"
  have rel: "msg_consume c d e s = log_hook (WakeChan c) (upd_channel c (ring_deq d) s2)"
    by (simp add: msg_consume_def s1_def s2_def Let_def)
  have r1: "cap_rep X s1 R P n"
    using rep by (simp add: s1_def)
  have "msg_ok s1 (?f (msg_at s1 c d e))"
    using msg_ok_ext [OF m objs_ext_same, of s1] by (simp add: s1_def msg_ok_def)
  then have r2: "cap_rep X s2 R P n"
    unfolding s2_def by (intro cap_rep_msg [OF r1 c])
  have "drained c d e s s1"
    using objs_ext_same [of s1 s] by (simp add: drained_def s1_def)
  then have dr: "drained c d e s s2"
    using drained_trans [OF _ drained_upd_msg [of c d e s1 ?f]] by (simp add: s2_def)
  have "0 < c_qdepth (cap_channels s2 c) d"
    using some unfolding drained_cursor [OF dr] .
  note dq = cap_rep_deq [OF r2 c d this]
  show "cap_rep X (msg_consume c d e s) R P n" "cap_at (msg_consume c d e s) = cap_at s"
    using dq(1) drained_cursor(3) [OF dr] by (simp_all add: rel)
  show "queues (msg_consume c d e s) = (queues s)(c := (queues s c)(d := tl (queues s c d)))"
    unfolding rel log_hook_queues dq(2) drained_queues [OF dr ok(1) e some] by simp
qed

lemma recv_msg_front_takes:
  assumes rep: "cap_rep {} s R {} n" and fnd: "cap_table_find p s = Some ti" and p: "p < 65536"
    and c: "c < CAP_CHAN_MAX" and d: "d < 2" and some: "0 < c_qdepth (cap_channels s c) d"
    and res: "recv_msg_front env p ti c d buf_len max_caps s = (r, out, s')"
  shows "takes s p r out s'"
proof -
  define e where "e = ring_head d (cap_channels s c)"
  define m where "m = msg_at s c d e"
  note ok = chans_okD [OF cap_repD(7) [OF rep] c d]
  have q: "queues s c d = m # tl (queues s c d)"
    using front_queues [OF ok(1) some] by (simp add: m_def e_def)
  then have mok: "msg_ok s m"
    using ok(2) by (metis list.set_intros(1))
  obtain r1 outs s1 where ins: "msg_install env p ti c d e [0..<min (m_n_caps m) max_caps] [] s = (r1, outs, s1)"
    by (metis prod_cases3)
  have "\<exists>news ks. outs = [] @ news \<and> set ks \<subseteq> set [0..<min (m_n_caps m) max_caps] \<and> installed p c d e (map d_slot news) ks s s1 \<and>
      (r1 = Ok () \<or> r1 = Err ETABLEFULL \<or> r1 = Err ENOMEM)"
    by (rule msg_install_installed [OF rep fnd p c _ _ ins]) (use mok in \<open>auto simp: m_def msg_ok_def\<close>)
  then obtain ks where "set ks \<subseteq> set [0..<min (m_n_caps m) max_caps]" and i: "installed p c d e (map d_slot outs) ks s s1"
    and r1: "r1 = Ok () \<or> r1 = Err ETABLEFULL \<or> r1 = Err ENOMEM"
    by auto
  then have ks: "set ks \<subseteq> {..<m_n_caps m}"
    by auto
  note i' = i [unfolded installed_def]
  have at1: "cap_at s1 = (cap_at s)(p := (cap_at s p)(map d_slot outs [\<mapsto>] map (m_cap_word m) ks))"
    using i' by (simp add: m_def)
  obtain R1 n1 where rep1: "cap_rep {} s1 R1 {} n1"
    using i' by blast
  have q1: "queues s1 = (queues s)(c := (queues s c)(d := msg_at s1 c d e # tl (queues s c d)))"
    using i' by (intro touches_queues [OF _ ok(1) e_def some]) blast
  show ?thesis
  proof (cases "r1 = Ok ()")
    case True
    define s2 where "s2 = fold (msg_drain_one c d e) [0..<m_n_caps (msg_at s1 c d e)] s1"
    have ok1: "msg_ok s1 (msg_at s1 c d e)"
      using i' by blast
    have t: "\<exists>R' n'. cap_rep {} s2 R' {} n'" "drained c d e s1 s2" "m_cookie (msg_at s2 c d e) = m_cookie (msg_at s1 c d e)"
      using drain_fold_rep [OF rep1 c ok1, of "[0..<m_n_caps (msg_at s1 c d e)]"] unfolding s2_def by blast+
    obtain R2 n2 where rep2: "cap_rep {} s2 R2 {} n2"
      using t(1) by blast
    have h1: "e = ring_head d (cap_channels s1 c)" "0 < c_qdepth (cap_channels s1 c) d"
      using i' some by (simp_all add: e_def ring_head_def)
    then have h: "e = ring_head d (cap_channels s2 c)" "0 < c_qdepth (cap_channels s2 c) d"
      using drained_cursor(1,2) [OF t(2)] by simp_all
    have wf1: "ring_wf d (cap_channels s1 c)"
      using chans_okD [OF cap_repD(7) [OF rep1] c d] by blast
    note con = msg_consume_rep [OF rep2 c d h]
    have rs: "r = Ok ()" "s' = msg_consume c d e s2" "mo_caps out = outs" "mo_n_caps out = length outs"
      "mo_tag out = u32 (unat (m_cookie (msg_at s2 c d e)))"
      using res ins True by (auto simp: recv_msg_front_def Let_def e_def [symmetric] m_def [symmetric] s2_def [symmetric])
    have at: "cap_at s' = (cap_at s)(p := (cap_at s p)(map d_slot outs [\<mapsto>] map (m_cap_word m) ks))"
      using con(2) drained_cursor(3) [OF t(2)] at1 by (simp add: rs(2))
    have qs: "queues s' = (queues s)(c := (queues s c)(d := tl (queues s c d)))"
      using con(3) drained_queues [OF t(2) wf1 h1] by (simp add: rs(2) q1)
    have ck: "m_cookie (msg_at s2 c d e) = m_cookie m"
      using t(3) i' by (simp add: m_def)
    have "cap_inv s'"
      using con(1) unfolding rs(2) cap_inv_def by blast
    moreover have "length outs = length ks" "distinct ks" "distinct (map d_slot outs)" "\<forall>x \<in> set outs. cap_at s p (d_slot x) = None"
      using i' by auto
    ultimately show ?thesis
      using q qs at ks ck unfolding rs(1) by (intro takes_OkI [of _ s c d m "tl (queues s c d)" _ ks]) (simp_all add: rs(3-5))
  next
    case False
    then have rs: "r = r1" "s' = s1"
      using res ins r1 by (auto simp: recv_msg_front_def Let_def e_def [symmetric] m_def [symmetric])
    have "cap_inv s1"
      using rep1 unfolding cap_inv_def by blast
    then show ?thesis
      using False r1 q q1 at1 i' unfolding rs
      by (intro takes_ErrI [of _ s c d m "tl (queues s c d)" "msg_at s1 c d e" ks "map d_slot outs"]) (simp_all add: m_def)
  qed
qed

lemma recv_msg_takes:
  assumes inv: "cap_inv s" and p: "pid < 65536" and i: "ch_r_idx < CAP_TABLE_ENTRIES"
    and res: "cap_recv_msg env pid ch_r_idx buf_len max_caps s = (r, out, s')"
  shows "takes s pid r out s'"
proof -
  obtain R n where rep: "cap_rep {} s R {} n"
    using inv by (auto simp: cap_inv_def)
  have fails: "takes s pid (Err e) out s2" if "cap_rep {} s2 R {} n" "queues s2 = queues s" "cap_at s2 = cap_at s" for e s2
    using that unfolding takes_def cap_inv_def by auto
  obtain oti s1 where i1: "cap_table_index pid s = (oti, s1)"
    by fastforce
  show ?thesis
  proof (cases oti)
    case None
    then show ?thesis
      using res i1 cap_table_index_None [of pid s s1] fails [OF rep] by (auto simp: cap_recv_msg_def)
  next
    case (Some ti)
    note b = cap_rep_bind [OF rep i1 [unfolded Some] p]
    have qs: "queues s1 = queues s"
      by (subst b(4)) (simp add: queues_def fun_eq_iff)
    show ?thesis
    proof (cases "recv_channel ti ch_r_idx s1")
      case (Ok cobj)
      define c where "c = o_chan_id (cap_objects s1 cobj)"
      define d :: nat where "d = (if pid = c_end0_pid (cap_channels s1 c) then 0 else 1)"
      have cd: "c < CAP_CHAN_MAX" "d < 2"
        using recv_channel_Ok [OF b(1) Ok] by (simp_all add: c_def d_def)
      show ?thesis
      proof (cases "c_qdepth (cap_channels s1 c) d = 0")
        case True
        then show ?thesis
          using res fails [OF b(1) qs b(3)] by (simp add: cap_recv_msg_def i1 Some Ok Let_def c_def [symmetric] d_def [symmetric]) auto
      next
        case False
        then have "recv_msg_front env pid ti c d buf_len (min max_caps CAP_MSG_MAX_CAPS) s1 = (r, out, s')"
          using res by (simp add: cap_recv_msg_def i1 Some Ok Let_def c_def [symmetric] d_def [symmetric])
        from recv_msg_front_takes [OF b(1,2) p cd _ this] False show ?thesis
          by (simp only: takes_def b(3) qs)
      qed
    next
      case (Err e)
      then show ?thesis
        using res fails [OF b(1) qs b(3)] by (auto simp: cap_recv_msg_def i1 Some)
    qed (use recv_channel_Err(2) [OF i] in auto)
  qed
qed

end
