(* ===== verification/Cap_Tear.thy ===== *)
theory Cap_Tear
  imports Cap_Drop
begin

text \<open>
  Draining and teardown. \<^verbatim>\<open>cap_drain_queue\<close> stops with an empty queue within
  \<^verbatim>\<open>CHAN_QUEUE_DEPTH\<close> rounds; \<^verbatim>\<open>cap_table_teardown\<close> keeps the invariant, takes every
  capability of the dying process and nothing else, frees its table, and tells the far
  end of each of its channels.
\<close>

section \<open>Draining a queue\<close>

lemma queue_length: "length (queues s c d) = c_qdepth (cap_channels s c) d"
  by (simp add: queues_def ring_msgs_def)

lemma queue_empty: "c_qdepth (cap_channels s c) d = 0 \<longleftrightarrow> queues s c d = []"
  by (simp flip: queue_length)

lemma drain_msg_rep:
  assumes "cap_inv s" and "c < CAP_CHAN_MAX" and "d < 2" and "queues s c d \<noteq> []"
  shows "cap_inv (drain_msg c d s)" and "cap_at (drain_msg c d s) = cap_at s"
    and "cap_table_pid (drain_msg c d s) = cap_table_pid s"
    and "queues (drain_msg c d s) = (queues s)(c := (queues s c)(d := tl (queues s c d)))"
proof -
  obtain R n where rep: "cap_rep {} s R {} n"
    using assms(1) by (auto simp: cap_inv_def)
  have "0 < c_qdepth (cap_channels s c) d"
    using assms(4) by (simp flip: queue_empty)
  from discard_rep [OF rep assms(2,3) refl this]
  show "cap_inv (drain_msg c d s)" "cap_at (drain_msg c d s) = cap_at s"
    "cap_table_pid (drain_msg c d s) = cap_table_pid s"
    "queues (drain_msg c d s) = (queues s)(c := (queues s c)(d := tl (queues s c d)))"
    by (simp_all add: drain_msg_def Let_def)
qed

lemma drain_rounds_rep:
  assumes "cap_inv s" and "c < CAP_CHAN_MAX" and "d < 2" and "length (queues s c d) \<le> fuel"
  shows "cap_inv (drain_rounds fuel c d s) \<and> cap_at (drain_rounds fuel c d s) = cap_at s \<and>
    cap_table_pid (drain_rounds fuel c d s) = cap_table_pid s \<and>
    queues (drain_rounds fuel c d s) = (queues s)(c := (queues s c)(d := []))"
  using assms
proof (induction fuel arbitrary: s)
  case 0
  then show ?case
    by (auto simp: fun_eq_iff)
next
  case (Suc fuel)
  show ?case
  proof (cases "queues s c d = []")
    case True
    then show ?thesis
      using Suc.prems(1) by (auto simp: fun_eq_iff queue_empty)
  next
    case False
    note m = drain_msg_rep [OF Suc.prems(1-3) False]
    have "length (queues (drain_msg c d s) c d) \<le> fuel"
      using Suc.prems(4) by (simp add: m(4))
    moreover have "drain_rounds (Suc fuel) c d s = drain_rounds fuel c d (drain_msg c d s)"
      using False by (simp add: queue_empty)
    ultimately show ?thesis
      using Suc.IH [OF m(1) Suc.prems(2,3)] by (simp only: m(2-4) fun_upd_upd fun_upd_same)
  qed
qed

lemma drain_queue_rep:
  assumes inv: "cap_inv s" and c: "c < CAP_CHAN_MAX" and d: "d < 2"
  shows "cap_inv (cap_drain_queue c d s)" and "cap_at (cap_drain_queue c d s) = cap_at s"
    and "cap_table_pid (cap_drain_queue c d s) = cap_table_pid s"
    and "queues (cap_drain_queue c d s) = (queues s)(c := (queues s c)(d := []))"
proof -
  obtain R n where "cap_rep {} s R {} n"
    using inv by (auto simp: cap_inv_def)
  then have "length (queues s c d) \<le> CHAN_QUEUE_DEPTH"
    using chans_okD(1) [OF cap_repD(7) c d] by (simp add: queue_length ring_wf_def)
  from drain_rounds_rep [OF inv c d this]
  show "cap_inv (cap_drain_queue c d s)" "cap_at (cap_drain_queue c d s) = cap_at s"
    "cap_table_pid (cap_drain_queue c d s) = cap_table_pid s"
    "queues (cap_drain_queue c d s) = (queues s)(c := (queues s c)(d := []))"
    by (simp_all add: cap_drain_queue_def)
qed

section \<open>Teardown, step by step\<close>

text \<open>The steps that move no capability keep this.\<close>

definition steady :: "cap_state \<Rightarrow> cap_state \<Rightarrow> bool" where
  "steady s s' \<longleftrightarrow> cap_inv s' \<and> cap_at s' = cap_at s \<and> cap_table_pid s' = cap_table_pid s"

lemma steady_refl: "cap_inv s \<Longrightarrow> steady s s"
  by (simp add: steady_def)

lemma steady_trans: "steady s s' \<Longrightarrow> steady s' s'' \<Longrightarrow> steady s s''"
  by (simp add: steady_def)

lemma steady_fold:
  assumes "cap_inv s" and "\<And>x t. x \<in> set xs \<Longrightarrow> cap_inv t \<Longrightarrow> steady t (f x t)"
  shows "steady s (fold f xs s)"
  using assms
proof (induction xs arbitrary: s)
  case (Cons x ys)
  then have one: "steady s (f x s)"
    by simp
  with Cons have "steady (f x s) (fold f ys (f x s))"
    by (simp add: steady_def)
  with one show ?case
    using steady_trans by auto
qed (simp add: steady_refl)

lemma drain_steady: "cap_inv s \<Longrightarrow> c < CAP_CHAN_MAX \<Longrightarrow> d < 2 \<Longrightarrow> steady s (cap_drain_queue c d s)"
  using drain_queue_rep [of s c d] by (simp add: steady_def)

lemma drain_both_steady:
  assumes "cap_inv s" and "c < CAP_CHAN_MAX"
  shows "steady s (cap_drain_queue c 1 (cap_drain_queue c 0 s))"
proof -
  have "steady s (cap_drain_queue c 0 s)"
    using assms by (intro drain_steady) simp_all
  with steady_trans [OF this drain_steady] assms(2) show ?thesis
    by (simp add: steady_def)
qed

lemma predrain_steady:
  assumes "cap_inv s"
  shows "steady s (teardown_predrain pid oid s)"
proof -
  obtain R n where rep: "cap_rep {} s R {} n"
    using assms by (auto simp: cap_inv_def)
  show ?thesis
    using steady_refl [OF assms] drain_steady [OF assms] endpoint_chan(3) [OF rep, of oid]
    by (auto simp: teardown_predrain_def Let_def split: option.splits)
qed

lemma cap_rep_tabs:
  assumes rep: "cap_rep X s R P n" and tabs: "tabs_inv s'" and at: "cap_at s' = cap_at s"
    and objs: "cap_objects s' = cap_objects s" "cap_obj_next s' = cap_obj_next s"
    and "cap_holders s' = cap_holders s" "cap_holder_free_head s' = cap_holder_free_head s"
    and ids: "cap_chan_next s' = cap_chan_next s" "cap_chan_recycled s' = cap_chan_recycled s"
      "cap_chan_recycled_n s' = cap_chan_recycled_n s" and chans: "cap_channels s' = cap_channels s"
  shows "cap_rep X s' R P n"
proof (rule cap_repI)
  note d = cap_repD [OF rep]
  show "refs_rep s' R P n"
    using d(2) by (rule refs_rep_cong) (simp_all add: assms)
  show "refs_match (cap_at s') R"
    using d(3) by (simp add: at)
  show "caps_ok s'"
    using d(4) objs_ext_same [OF objs] at by (rule caps_ok_ext) (simp add: objs)
  show "objs_ok X s' R"
    using d(5) objs by (rule objs_ok_cong)
  show "chans_ok s'"
    using d(7) objs_ext_same [OF objs] chans by (rule chans_ok_ext)
  show "ids_ok s'"
    using d(8) ids live_chan_cong [OF objs] by (rule ids_ok_cong)
qed (use tabs cap_repD(6) [OF rep] in auto)

text \<open>Dropping the slots one by one; the channels that die have valid ids.\<close>

lemma teardown_slot_step:
  assumes inv: "cap_inv s" and fnd: "cap_table_find pid s = Some ti" and p: "pid < 65536"
    and at: "cap_at s pid r = Some w" and dead: "\<forall>c \<in> set dead. c < CAP_CHAN_MAX"
    and step: "teardown_slot pid ti r (dead, s) = (dead', s')"
  shows "cap_inv s'" and "cap_at s' = (cap_at s)(pid := (cap_at s pid)(r := None))"
    and "cap_table_pid s' = cap_table_pid s" and "\<forall>c \<in> set dead'. c < CAP_CHAN_MAX"
proof -
  obtain R n where rep: "cap_rep {} s R {} n"
    using inv by (auto simp: cap_inv_def)
  have w: "slot_word s ti r = w"
    using at fnd by (auto simp: cap_at_def split: if_splits)
  let ?ob = "cap_word_obj w"
  let ?s1 = "cap_slot_push ti r (set_slot ti r 0 (cap_holder_remove ?ob HOLDER_SLOT pid r s))"
  note f = reap_rep_refs [OF rep at refl] and ok = cap_repD(5) [OF rep]
  have get: "cap_object_get ?ob s = Some ?ob"
    using f objs_okD(1) [OF ok] by (auto simp: cap_object_get_iff [OF ok])
  have s': "s' = object_reap ?ob ?s1"
    and d': "set dead' \<subseteq> set dead \<union> (if o_kind (cap_objects s ?ob) = KIND_CHAN then {o_chan_id (cap_objects s ?ob)} else {})"
    using step get p holder_only_objects [OF cap_holder_remove_only [of s ?ob HOLDER_SLOT pid r]]
    by (auto simp: teardown_slot_def w Let_def split: if_splits)
  note d = cap_rep_drop_slot [OF rep fnd at refl, folded s']
  show "cap_inv s'" "cap_at s' = (cap_at s)(pid := (cap_at s pid)(r := None))" "cap_table_pid s' = cap_table_pid s"
    using d by (auto simp: cap_inv_def)
  show "\<forall>c \<in> set dead'. c < CAP_CHAN_MAX"
    using d' dead objs_okD(7) [OF ok f(3)] by (auto split: if_splits)
qed

lemma teardown_slots_fold:
  assumes "cap_inv s" and "cap_table_find pid s = Some ti" and "pid < 65536" and "distinct slots"
    and "\<forall>r \<in> set slots. cap_at s pid r \<noteq> None" and "\<forall>c \<in> set dead. c < CAP_CHAN_MAX"
    and "fold (teardown_slot pid ti) slots (dead, s) = (dead', s')"
  shows "cap_inv s' \<and> cap_at s' = (cap_at s)(pid := (\<lambda>r. if r \<in> set slots then None else cap_at s pid r)) \<and>
    cap_table_pid s' = cap_table_pid s \<and> (\<forall>c \<in> set dead'. c < CAP_CHAN_MAX)"
  using assms
proof (induction slots arbitrary: s dead)
  case Nil
  then show ?case
    by (auto simp: fun_eq_iff)
next
  case (Cons r rs)
  obtain dead1 s1 where step: "teardown_slot pid ti r (dead, s) = (dead1, s1)"
    by fastforce
  obtain w where "cap_at s pid r = Some w"
    using Cons.prems(5) by auto
  note o1 = teardown_slot_step [OF Cons.prems(1-3) this Cons.prems(6) step]
  have "cap_table_find pid s1 = Some ti"
    using Cons.prems(2) cap_table_find_cong [OF o1(3)] by simp
  moreover have "\<forall>q \<in> set rs. cap_at s1 pid q \<noteq> None"
    using Cons.prems(4,5) by (auto simp: o1(2))
  moreover have "fold (teardown_slot pid ti) rs (dead1, s1) = (dead', s')"
    using Cons.prems(7) step by simp
  ultimately have "cap_inv s' \<and> cap_at s' = (cap_at s1)(pid := (\<lambda>r. if r \<in> set rs then None else cap_at s1 pid r)) \<and>
    cap_table_pid s' = cap_table_pid s1 \<and> (\<forall>c \<in> set dead'. c < CAP_CHAN_MAX)"
    using Cons.prems(3,4) o1(1,4) by (intro Cons.IH) auto
  then show ?case
    by (auto simp: o1(2,3) fun_eq_iff)
qed

text \<open>Map records and the free slots of a table are no capabilities.\<close>

lemma table_wf_maps: "table_wf (t\<lparr>t_maps := m\<rparr>) \<longleftrightarrow> table_wf t"
proof -
  have "slot_link (t\<lparr>t_maps := m\<rparr>) = slot_link t"
    by (simp add: slot_link_def fun_eq_iff)
  then show ?thesis
    by (simp add: table_wf_def table_rep_def sf.freelist_def)
qed

lemma slots_space:
  assumes "\<And>j. t_slots (cap_tables s' j) = t_slots (cap_tables s j)" and "cap_table_pid s' = cap_table_pid s"
  shows "cap_at s' = cap_at s"
  using cap_table_find_cong [OF assms(2)] assms(1) by (simp add: cap_at_def fun_eq_iff split: option.splits)

lemma tabs_inv_maps:
  assumes inv: "tabs_inv s" and maps: "\<And>j. \<exists>m. cap_tables s' j = (cap_tables s j)\<lparr>t_maps := m\<rparr>"
    and pid: "cap_table_pid s' = cap_table_pid s"
  shows "tabs_inv s'"
proof -
  have "t_slots (cap_tables s' j) = t_slots (cap_tables s j)" "t_pid (cap_tables s' j) = t_pid (cap_tables s j)"
    "table_wf (cap_tables s' j) = table_wf (cap_tables s j)" for j
    using maps [of j] by (auto simp: table_wf_maps)
  then show ?thesis
    using inv by (simp add: tabs_inv_def pid)
qed

lemma unmap_pages_fields: "\<exists>L. unmap_pages cr3 va k s = s\<lparr>hook_log := L\<rparr>"
proof -
  have "\<exists>L. fold (\<lambda>p. log_hook (g p)) ps s = s\<lparr>hook_log := L\<rparr>" for g :: "nat \<Rightarrow> hook" and ps s
  proof (induction ps arbitrary: s)
    case Nil
    show ?case
      by (rule exI [of _ "hook_log s"]) simp
  next
    case (Cons p ps)
    from Cons.IH [of "log_hook (g p) s"] show ?case
      by (auto simp: log_hook_def)
  qed
  then show ?thesis
    by (simp add: unmap_pages_def)
qed

lemma teardown_unbind_rep:
  assumes inv: "cap_inv s" and fnd: "cap_table_find pid s = Some ti" and none: "cap_at s pid = (\<lambda>_. None)"
  shows "cap_inv (teardown_unbind ti s)" and "cap_at (teardown_unbind ti s) = cap_at s"
    and "cap_table_pid (teardown_unbind ti s) = (cap_table_pid s)(ti := 0)"
proof -
  let ?s = "teardown_unbind ti s"
  obtain R n where rep: "cap_rep {} s R {} n"
    using inv by (auto simp: cap_inv_def)
  note ti = cap_repD(1) [OF rep] and tb = tabs_invD [OF cap_repD(1) [OF rep]]
  have lt: "ti < CAP_TABLE_MAX" and pid: "cap_table_pid s ti = pid"
    using table_find_bound [OF ti fnd] table_find_pid [OF ti fnd] by simp_all
  show pd: "cap_table_pid ?s = (cap_table_pid s)(ti := 0)"
    by (simp add: teardown_unbind_def cap_table_freelist_init_def upd_table_def)
  let ?t = "table_freelist_init ((cap_tables s ti)\<lparr>t_pid := 0\<rparr>)"
  have tabs: "cap_tables ?s = (cap_tables s)(ti := ?t)"
    by (simp add: teardown_unbind_def cap_table_freelist_init_def upd_table_def)
  have rept: "table_rep ?t [0..<CAP_TABLE_ENTRIES]"
    by (rule table_freelist_init_rep)
  then have free: "cap_word_type (t_slots ?t r) = CAP_TYPE_NONE" if "r < CAP_TABLE_ENTRIES" for r
    using that by (auto simp: table_rep_def)
  have tpid: "t_pid ?t = 0"
    by (simp add: table_freelist_init_def table_freelist_init_slots)
  have tabs': "tabs_inv ?s"
    unfolding tabs_inv_def pd tabs
  proof (intro conjI allI impI)
    show "((cap_table_pid s)(ti := 0)) 0 = 0"
      using tb(1) by simp
    show "table_wf (((cap_tables s)(ti := ?t)) j)" "t_pid (((cap_tables s)(ti := ?t)) j) = ((cap_table_pid s)(ti := 0)) j"
      "((cap_table_pid s)(ti := 0)) j < 65536" if "j < CAP_TABLE_MAX" for j
      using tb(2-4) [OF that] rept tpid by (cases "j = ti"; auto simp: table_wf_def)+
    show "i = j" if "i < CAP_TABLE_MAX" "j < CAP_TABLE_MAX"
      "((cap_table_pid s)(ti := 0)) i = ((cap_table_pid s)(ti := 0)) j \<and> ((cap_table_pid s)(ti := 0)) i \<noteq> 0" for i j
      using that(3) tb(5) [OF that(1,2)] by (auto split: if_splits)
    show "cap_word_type (t_slots (((cap_tables s)(ti := ?t)) j) r) = CAP_TYPE_NONE"
      if "0 < j \<and> j < CAP_TABLE_MAX \<and> ((cap_table_pid s)(ti := 0)) j = 0" "r < CAP_TABLE_ENTRIES" for j r
      using that free tb(6) [of j r] by (cases "j = ti") auto
  qed
  have "cap_at ?s p r = cap_at s p r" for p r
  proof (cases "p = pid")
    case True
    have "j = ti" if "cap_table_find pid ?s = Some j" for j
      using that fnd tb(5) [of j ti] lt pid unfolding table_find_iff [OF tabs'] table_find_iff [OF ti] pd
      by (auto split: if_splits)
    then have "cap_at ?s pid r = None"
      using free by (auto simp: cap_at_def tabs split: option.splits)
    with True none show ?thesis
      by simp
  next
    case False
    then have ne: "j \<noteq> ti" if "cap_table_find p s = Some j" for j
      using that fnd table_find_inj [OF ti] by blast
    have "cap_table_find p ?s = Some j \<longleftrightarrow> cap_table_find p s = Some j" for j
      using False ne [of j] pid unfolding table_find_iff [OF tabs'] table_find_iff [OF ti] pd by auto
    then have "cap_table_find p ?s = cap_table_find p s"
      by (metis option.exhaust)
    with ne show ?thesis
      by (auto simp: cap_at_def tabs split: option.splits)
  qed
  then show at: "cap_at ?s = cap_at s"
    by (simp add: fun_eq_iff)
  have "cap_rep {} ?s R {} n"
    by (rule cap_rep_tabs [OF rep tabs' at]) (simp_all add: teardown_unbind_def cap_table_freelist_init_def upd_table_def)
  then show "cap_inv ?s"
    by (auto simp: cap_inv_def)
qed

text \<open>Steps that change only map records and the hook log.\<close>

definition tab_quiet :: "cap_state \<Rightarrow> cap_state \<Rightarrow> bool" where
  "tab_quiet s s' \<longleftrightarrow> (tabs_inv s \<longrightarrow> tabs_inv s') \<and> cap_at s' = cap_at s \<and>
     (\<exists>T L. s' = s\<lparr>cap_tables := T, hook_log := L\<rparr>)"

lemma tab_quiet_refl: "tab_quiet s s"
proof -
  have "s = s\<lparr>cap_tables := cap_tables s, hook_log := hook_log s\<rparr>"
    by simp
  then show ?thesis
    unfolding tab_quiet_def by blast
qed

lemma tab_quiet_trans: "tab_quiet s s' \<Longrightarrow> tab_quiet s' s'' \<Longrightarrow> tab_quiet s s''"
  unfolding tab_quiet_def by fastforce

lemma tab_quiet_fold:
  assumes "\<And>x t. tab_quiet t (f x t)"
  shows "tab_quiet s (fold f xs s)"
proof (induction xs arbitrary: s)
  case (Cons x xs)
  show ?case
    using tab_quiet_trans [OF assms Cons.IH] by simp
qed (simp add: tab_quiet_refl)

lemma tab_quiet_steady:
  assumes "tab_quiet s s'" and "cap_inv s"
  shows "steady s s'"
proof -
  obtain R n where rep: "cap_rep {} s R {} n"
    using assms(2) by (auto simp: cap_inv_def)
  obtain T L where s': "s' = s\<lparr>cap_tables := T, hook_log := L\<rparr>"
    using assms(1) unfolding tab_quiet_def by blast
  have "cap_rep {} s' R {} n"
    using assms(1) cap_repD(1) [OF rep] by (intro cap_rep_tabs [OF rep]) (simp_all add: tab_quiet_def, simp_all add: s')
  then show ?thesis
    using assms(1) s' by (auto simp: steady_def tab_quiet_def cap_inv_def)
qed

lemma log_hook_quiet: "tab_quiet s (log_hook x s)"
proof -
  have "log_hook x s = s\<lparr>cap_tables := cap_tables s, hook_log := x # hook_log s\<rparr>"
    by (simp add: log_hook_def)
  moreover have "cap_at (log_hook x s) = cap_at s" "tabs_inv (log_hook x s) = tabs_inv s"
    using cap_at_cong [of "log_hook x s" s] by (simp_all add: log_hook_def tabs_inv_def)
  ultimately show ?thesis
    unfolding tab_quiet_def by blast
qed

lemma unmap_record_quiet: "tab_quiet s (unmap_record cr3 ti i s)"
proof -
  obtain L where L: "unmap_pages cr3 (mp_vaddr (t_maps (cap_tables s ti) i)) (mp_npages (t_maps (cap_tables s ti) i)) s = s\<lparr>hook_log := L\<rparr>"
    using unmap_pages_fields by blast
  let ?t = "(cap_tables s ti)\<lparr>t_maps := (t_maps (cap_tables s ti))(i := (t_maps (cap_tables s ti) i)\<lparr>mp_active := False\<rparr>)\<rparr>"
  have s': "unmap_record cr3 ti i s = s\<lparr>cap_tables := (cap_tables s)(ti := ?t), hook_log := L\<rparr>"
    by (simp add: unmap_record_def Let_def L upd_map_def upd_table_def)
  have at: "cap_at (unmap_record cr3 ti i s) = cap_at s"
    by (rule slots_space) (simp_all add: s')
  have m: "\<exists>m. cap_tables (unmap_record cr3 ti i s) j = (cap_tables s j)\<lparr>t_maps := m\<rparr>" for j
    by (cases "j = ti") (auto simp: s' intro: exI [of _ "t_maps (cap_tables s j)"])
  have "tabs_inv s \<Longrightarrow> tabs_inv (unmap_record cr3 ti i s)"
    using tabs_inv_maps [OF _ m] by (simp add: s')
  with at s' show ?thesis
    unfolding tab_quiet_def by blast
qed

lemma unmap_object_quiet: "tab_quiet s (cap_table_unmap_object e ti ob s)"
proof -
  have "tab_quiet t (let m = t_maps (cap_tables t ti) i
      in if \<not> mp_active m \<or> mp_obj_id m \<noteq> ob then t else unmap_record cr3 ti i t)" for t i cr3
    by (simp add: Let_def tab_quiet_refl unmap_record_quiet)
  then have "tab_quiet s (fold (\<lambda>i s. let m = t_maps (cap_tables s ti) i
      in if \<not> mp_active m \<or> mp_obj_id m \<noteq> ob then s else unmap_record cr3 ti i s) [0..<CAP_MAP_MAX] s)" for cr3
    by (intro tab_quiet_fold)
  then show ?thesis
    unfolding cap_table_unmap_object_def Let_def [of "e_proc_cr3 e (t_pid (cap_tables s ti))"]
      Let_def [of "fold _ _ _"]
    using tab_quiet_trans [OF _ log_hook_quiet] by auto
qed

lemma teardown_unmap_steady:
  assumes "cap_inv s"
  shows "steady s (teardown_unmap cr3 ti s)"
  unfolding teardown_unmap_def
  by (intro tab_quiet_steady [OF _ assms] tab_quiet_fold) (simp add: tab_quiet_refl unmap_record_quiet)

text \<open>Close events touch no queue.\<close>

lemma close_end_queue:
  "c_q (close_end d r x ch) = c_q ch" "c_qhead (close_end d r x ch) = c_qhead ch"
  "c_qtail (close_end d r x ch) = c_qtail ch" "c_qdepth (close_end d r x ch) = c_qdepth ch"
  "c_active (close_end d r x ch) = c_active ch" "c_end0_pid (close_end d r x ch) = c_end0_pid ch"
  "c_end1_pid (close_end d r x ch) = c_end1_pid ch"
  by (simp_all add: close_end_def Let_def)

lemma close_steady:
  assumes inv: "cap_inv s" and c: "ci < CAP_CHAN_MAX"
  shows "steady s (teardown_close pid ci s)"
proof -
  obtain R n where rep: "cap_rep {} s R {} n"
    using inv by (auto simp: cap_inv_def)
  have "steady s (log_hook (WakeChan ci) (upd_channel ci (close_end d r x) s))" for d r x
  proof -
    have "cap_rep {} (upd_channel ci (close_end d r x) s) R {} n"
      using cap_repD(7) [OF rep] c by (intro cap_rep_channel [OF rep]) (simp add: chans_ok_def queue_ok_def close_end_queue)
    then have "cap_rep {} (log_hook (WakeChan ci) (upd_channel ci (close_end d r x) s)) R {} n"
      by (rule cap_rep_frame_chans) (simp_all add: log_hook_def)
    moreover have "cap_at (log_hook (WakeChan ci) (upd_channel ci (close_end d r x) s)) = cap_at s"
      by (rule cap_at_cong) (simp_all add: log_hook_def upd_channel_def)
    ultimately show ?thesis
      by (auto simp: steady_def cap_inv_def log_hook_def upd_channel_def)
  qed
  with steady_refl [OF inv] show ?thesis
    by (simp add: teardown_close_def Let_def)
qed

lemma irq_steady:
  assumes inv: "cap_inv s"
  shows "steady s (teardown_irq pid v s)"
proof -
  obtain R n where rep: "cap_rep {} s R {} n"
    using inv by (auto simp: cap_inv_def)
  let ?s = "s\<lparr>g_irq_chan := (g_irq_chan s)(v := CAP_NONE), g_irq_budget := (g_irq_budget s)(v := 0)\<rparr>"
  have "cap_rep {} ?s R {} n"
    by (rule cap_rep_frame_chans [OF rep]) simp_all
  moreover have "cap_at ?s = cap_at s"
    by (rule cap_at_cong) simp_all
  ultimately show ?thesis
    using steady_refl [OF inv] by (auto simp: teardown_irq_def steady_def cap_inv_def)
qed

section \<open>Teardown\<close>

lemma teardown_slots_all:
  assumes rep: "cap_rep X s R P n" and fnd: "cap_table_find pid s = Some ti"
  shows "r \<in> set (teardown_slots ti s) \<longleftrightarrow> cap_at s pid r \<noteq> None"
proof -
  have "cap_word_valid (slot_word s ti r)" if "cap_at s pid r = Some w" for w
  proof -
    have "cap_word_valid w"
      using that cap_repD(4) [OF rep] minted_fields(1) unfolding caps_ok_def by blast
    with that fnd show ?thesis
      by (auto simp: cap_at_def split: if_splits)
  qed
  then show ?thesis
    using slot_cap [OF fnd, of r] fnd by (fastforce simp: teardown_slots_def cap_at_def split: if_splits)
qed

lemma table_teardown_rep:
  assumes inv: "cap_inv s" and p: "pid < 65536"
  shows "cap_inv (table_teardown e pid s)" and "cap_at (table_teardown e pid s) = (cap_at s)(pid := (\<lambda>_. None))"
    and "pid \<noteq> 0 \<Longrightarrow> cap_table_find pid (table_teardown e pid s) = None"
proof -
  let ?s' = "table_teardown e pid s"
  have "cap_inv ?s' \<and> cap_at ?s' = (cap_at s)(pid := (\<lambda>_. None)) \<and> (pid \<noteq> 0 \<longrightarrow> cap_table_find pid ?s' = None)"
  proof (cases "cap_table_find pid s")
    case None
    with inv show ?thesis
      by (auto simp: table_teardown_def cap_at_def fun_eq_iff)
  next
    case fnd: (Some ti)
    obtain R n where rep: "cap_rep {} s R {} n"
      using inv by (auto simp: cap_inv_def)
    define s1 where "s1 = fold (teardown_predrain pid) (teardown_chans ti s) s"
    have st1: "steady s s1"
      unfolding s1_def using inv predrain_steady by (intro steady_fold)
    then have at1: "cap_at s1 = cap_at s" and pid1: "cap_table_pid s1 = cap_table_pid s"
      by (simp_all add: steady_def)
    obtain dead s2 where s2: "fold (teardown_slot pid ti) (teardown_slots ti s) ([], s1) = (dead, s2)"
      by fastforce
    have "cap_inv s2 \<and> cap_at s2 = (cap_at s)(pid := (\<lambda>r. if r \<in> set (teardown_slots ti s) then None else cap_at s pid r)) \<and>
      cap_table_pid s2 = cap_table_pid s \<and> (\<forall>c \<in> set dead. c < CAP_CHAN_MAX)"
      unfolding at1 [symmetric] pid1 [symmetric]
      using st1 fnd cap_table_find_cong [OF pid1] teardown_slots_all [OF rep fnd]
      by (intro teardown_slots_fold [OF _ _ p _ _ _ s2]) (auto simp: steady_def teardown_slots_def)
    moreover have "(\<lambda>r. if r \<in> set (teardown_slots ti s) then None else cap_at s pid r) = (\<lambda>_. None)"
      using teardown_slots_all [OF rep fnd] by (auto simp: fun_eq_iff)
    ultimately have s2': "cap_inv s2" "cap_at s2 = (cap_at s)(pid := (\<lambda>_. None))" "cap_table_pid s2 = cap_table_pid s"
      "\<forall>c \<in> set dead. c < CAP_CHAN_MAX"
      by simp_all
    define s3 where "s3 = teardown_unmap (e_proc_cr3 e pid) ti (fold (\<lambda>c s. cap_drain_queue c 1 (cap_drain_queue c 0 s)) dead s2)"
    have "steady s2 (fold (\<lambda>c s. cap_drain_queue c 1 (cap_drain_queue c 0 s)) dead s2)"
      using s2'(4) drain_both_steady by (intro steady_fold [OF s2'(1)]) blast
    then have st3: "steady s2 s3"
      unfolding s3_def using teardown_unmap_steady steady_trans by (meson steady_def)
    have s3: "cap_inv s3" "cap_at s3 = (cap_at s)(pid := (\<lambda>_. None))" "cap_table_pid s3 = cap_table_pid s"
      using st3 s2' by (simp_all add: steady_def)
    have f3: "cap_table_find pid s3 = Some ti"
      using fnd cap_table_find_cong [OF s3(3)] by simp
    define s4 where "s4 = teardown_unbind ti s3"
    have s4: "cap_inv s4" "cap_at s4 = (cap_at s)(pid := (\<lambda>_. None))" "cap_table_pid s4 = (cap_table_pid s)(ti := 0)"
      using teardown_unbind_rep [OF s3(1) f3] s3 by (simp_all add: s4_def)
    define s5 where "s5 = fold (teardown_close pid) [0..<CAP_CHAN_MAX] s4"
    have st5: "steady s4 s5"
      unfolding s5_def using close_steady by (intro steady_fold [OF s4(1)]) auto
    have st6: "steady s5 ?s'"
      using st5 irq_steady unfolding table_teardown_def fnd option.case Let_def s1_def [symmetric] s2 prod.case
        s3_def [symmetric] s4_def [symmetric] s5_def [symmetric] by (intro steady_fold) (auto simp: steady_def)
    then have fin: "cap_inv ?s'" "cap_at ?s' = (cap_at s)(pid := (\<lambda>_. None))" "cap_table_pid ?s' = (cap_table_pid s)(ti := 0)"
      using st5 s4 by (simp_all add: steady_def)
    then obtain R' n' where rep': "cap_rep {} ?s' R' {} n'"
      by (auto simp: cap_inv_def)
    have "cap_table_find pid ?s' = None" if "pid \<noteq> 0"
    proof (rule ccontr)
      assume "cap_table_find pid ?s' \<noteq> None"
      then obtain j where "cap_table_find pid ?s' = Some j"
        by blast
      with that fin(3) have "j \<noteq> ti" "cap_table_find pid s = Some j"
        unfolding table_find_iff [OF cap_repD(1) [OF rep']] table_find_iff [OF cap_repD(1) [OF rep]] by (auto split: if_splits)
      with fnd show False
        by simp
    qed
    with fin show ?thesis
      by blast
  qed
  then show "cap_inv ?s'" "cap_at ?s' = (cap_at s)(pid := (\<lambda>_. None))"
    "pid \<noteq> 0 \<Longrightarrow> cap_table_find pid ?s' = None"
    by blast+
qed

text \<open>What the survivors of a teardown see.\<close>

definition end_closed :: "nat \<Rightarrow> CapChannel \<Rightarrow> bool" where
  "end_closed pid ch \<longleftrightarrow> (c_active ch \<longrightarrow>
     (if c_end0_pid ch = pid then c_closed ch 0 \<and> c_close_evt ch 1
      else c_end1_pid ch = pid \<longrightarrow> c_closed ch 1 \<and> c_close_evt ch 0))"

lemma teardown_close_one:
  "end_closed pid (cap_channels (teardown_close pid ci s) ci)"
  "c \<noteq> ci \<Longrightarrow> cap_channels (teardown_close pid ci s) c = cap_channels s c"
  by (auto simp: end_closed_def teardown_close_def Let_def log_hook_def upd_channel_def close_end_def)

lemma teardown_close_fold:
  "(\<forall>c \<in> set cs. end_closed pid (cap_channels (fold (teardown_close pid) cs s) c)) \<and>
   (\<forall>c. c \<notin> set cs \<longrightarrow> cap_channels (fold (teardown_close pid) cs s) c = cap_channels s c)"
proof (induction cs rule: rev_induct)
  case (snoc c cs)
  have "end_closed pid (cap_channels (fold (teardown_close pid) (cs @ [c]) s) x)" if "x \<in> set (cs @ [c])" for x
    using that snoc teardown_close_one [where ci = c and s = "fold (teardown_close pid) cs s" and pid = pid] by (cases "x = c") auto
  moreover have "cap_channels (fold (teardown_close pid) (cs @ [c]) s) x = cap_channels s x" if "x \<notin> set (cs @ [c])" for x
    using that snoc teardown_close_one(2) [of x c pid] by auto
  ultimately show ?case
    by blast
qed simp

lemma teardown_irq_fold:
  "cap_channels (fold (teardown_irq pid) vs s) = cap_channels s \<and>
   (\<forall>v. g_irq_chan (fold (teardown_irq pid) vs s) v =
      (if v \<in> set vs \<and> g_irq_chan s v \<noteq> CAP_NONE \<and> c_end0_pid (cap_channels s (g_irq_chan s v)) = pid
       then CAP_NONE else g_irq_chan s v))"
proof (induction vs rule: rev_induct)
  case (snoc v vs)
  then show ?case
    by (auto simp: teardown_irq_def)
qed simp

lemma table_teardown_close:
  assumes "cap_table_find pid s \<noteq> None" and "c < CAP_CHAN_MAX"
  shows "end_closed pid (cap_channels (table_teardown e pid s) c)"
    and "v < CAP_IRQ_VECTORS \<Longrightarrow> g_irq_chan (table_teardown e pid s) v = CAP_NONE \<or>
           c_end0_pid (cap_channels (table_teardown e pid s) (g_irq_chan (table_teardown e pid s) v)) \<noteq> pid"
proof -
  obtain t where t: "table_teardown e pid s =
      fold (teardown_irq pid) [0..<CAP_IRQ_VECTORS] (fold (teardown_close pid) [0..<CAP_CHAN_MAX] t)"
    using assms(1) unfolding table_teardown_def Let_def case_prod_beta by (auto split: option.splits)
  note f = teardown_irq_fold [of pid "[0..<CAP_IRQ_VECTORS]" "fold (teardown_close pid) [0..<CAP_CHAN_MAX] t", folded t]
  show "end_closed pid (cap_channels (table_teardown e pid s) c)"
    using f teardown_close_fold [of "[0..<CAP_CHAN_MAX]" pid t] assms(2) by simp
  show "g_irq_chan (table_teardown e pid s) v = CAP_NONE \<or>
        c_end0_pid (cap_channels (table_teardown e pid s) (g_irq_chan (table_teardown e pid s) v)) \<noteq> pid"
    if "v < CAP_IRQ_VECTORS"
    using f that by (auto split: if_splits)
qed

end
