(* ===== verification/Cap_Sever.thy ===== *)
theory Cap_Sever
  imports Cap_Tear
begin

text \<open>
  Revocation. The three loops of \<^verbatim>\<open>cap_revoke\<close> run over the holder list of the object: the
  first reverses it into a private chain and stamps queued words, the second empties the
  slots, the third returns the nodes. Together they take the object out of every slot, and
  the object dies.
\<close>

section \<open>The loops as folds\<close>

lemma revoke_stamp_holders:
  "revoke_stamp x (s\<lparr>cap_holders := N\<rparr>) = (revoke_stamp x s)\<lparr>cap_holders := N\<rparr>"
  by (simp add: revoke_stamp_def Let_def upd_msg_def upd_channel_def)

lemma stamps_holders:
  "fold revoke_stamp xs (s\<lparr>cap_holders := N\<rparr>) = (fold revoke_stamp xs s)\<lparr>cap_holders := N\<rparr>"
  by (induction xs arbitrary: s) (simp_all add: revoke_stamp_holders)

lemma revoke_stamp_fields: "\<exists>C. revoke_stamp x s = s\<lparr>cap_channels := C\<rparr>"
proof (cases "h_kind x = HOLDER_QUEUE")
  case False
  then show ?thesis
    by (intro exI [of _ "cap_channels s"]) (simp add: revoke_stamp_def)
qed (auto simp: revoke_stamp_def Let_def upd_msg_def upd_channel_def)

lemma stamps_fields: "\<exists>C. fold revoke_stamp xs s = s\<lparr>cap_channels := C\<rparr>"
proof (induction xs arbitrary: s)
  case Nil
  show ?case
    by (rule exI [of _ "cap_channels s"]) simp
next
  case (Cons x xs)
  obtain C where "revoke_stamp x s = s\<lparr>cap_channels := C\<rparr>"
    using revoke_stamp_fields by blast
  with Cons.IH [of "s\<lparr>cap_channels := C\<rparr>"] show ?case
    by auto
qed

text \<open>What the detached nodes keep.\<close>

definition node_same :: "CapHolder \<Rightarrow> CapHolder \<Rightarrow> bool" where
  "node_same x y \<longleftrightarrow> hdata y = hdata x \<and> h_obj_id y = h_obj_id x \<and> h_active y = h_active x"

lemma detach_run:
  assumes "chain (\<lambda>x. h_next (cap_holders s x)) h xs" and "length xs \<le> fuel"
    and "chain (\<lambda>x. h_next (cap_holders s x)) dead ys" and "set xs \<inter> set ys = {}"
  shows "\<exists>N dead'. revoke_detach fuel h dead n s = (dead', n + length xs,
      (fold revoke_stamp (map (cap_holders s) xs) s)\<lparr>cap_holders := N\<rparr>) \<and>
    chain (\<lambda>x. h_next (N x)) dead' (rev xs @ ys) \<and> (\<forall>x. x \<notin> set xs \<longrightarrow> N x = cap_holders s x) \<and>
    (\<forall>x. node_same (cap_holders s x) (N x))"
  using assms
proof (induction xs arbitrary: s h dead ys n fuel)
  case Nil
  have "revoke_detach fuel h dead n s = (dead, n, s\<lparr>cap_holders := cap_holders s\<rparr>)"
    using Nil by (cases fuel) auto
  with Nil show ?case
    by (intro exI [of _ "cap_holders s"] exI [of _ dead]) (auto simp: node_same_def)
next
  case (Cons x xs)
  let ?x = "(cap_holders s x)\<lparr>h_next := dead, h_prev := CAP_FREELIST_END\<rparr>"
  define s1 where "s1 = (revoke_stamp (cap_holders s x) s)\<lparr>cap_holders := (cap_holders s)(x := ?x)\<rparr>"
  have h: "h = x" "x \<noteq> CAP_FREELIST_END" and ch: "chain (\<lambda>x. h_next (cap_holders s x)) (h_next (cap_holders s x)) xs"
    using Cons.prems(1) by simp_all
  have x: "x \<notin> set xs" "x \<notin> set ys"
    using chain_distinct [OF Cons.prems(1)] Cons.prems(4) by auto
  obtain f where fuel: "fuel = Suc f" "length xs \<le> f"
    using Cons.prems(2) by (cases fuel) auto
  obtain C where C: "revoke_stamp (cap_holders s x) s = s\<lparr>cap_channels := C\<rparr>"
    using revoke_stamp_fields by blast
  have N1: "cap_holders s1 = (cap_holders s)(x := ?x)"
    by (simp add: s1_def)
  have step: "revoke_detach fuel h dead n s = revoke_detach f (h_next (cap_holders s x)) x (n + 1) s1"
    using h by (simp add: fuel(1) Let_def C upd_holder_def s1_def)
  have same: "chain (\<lambda>y. h_next (cap_holders s1 y)) a zs \<longleftrightarrow> chain (\<lambda>y. h_next (cap_holders s y)) a zs"
    if "x \<notin> set zs" for a zs
    using that by (intro chain_cong) (auto simp: N1)
  have "chain (\<lambda>x. h_next (cap_holders s1 x)) x (x # ys)"
    using Cons.prems(3) h(2) same [OF x(2)] by (simp add: N1)
  moreover have "set xs \<inter> set (x # ys) = {}"
    using Cons.prems(4) x(1) by auto
  ultimately obtain N dead' where ih: "revoke_detach f (h_next (cap_holders s x)) x (n + 1) s1 = (dead', n + 1 + length xs,
      (fold revoke_stamp (map (cap_holders s1) xs) s1)\<lparr>cap_holders := N\<rparr>)"
    "chain (\<lambda>x. h_next (N x)) dead' (rev xs @ x # ys)" "\<forall>y. y \<notin> set xs \<longrightarrow> N y = cap_holders s1 y"
    "\<forall>y. node_same (cap_holders s1 y) (N y)"
    using Cons.IH [of s1 "h_next (cap_holders s x)" f x "x # ys" "n + 1"] ch same [OF x(1)] fuel(2) by blast
  have mp: "map (cap_holders s1) xs = map (cap_holders s) xs"
    using x(1) by (auto simp: N1)
  have st: "(fold revoke_stamp (map (cap_holders s1) xs) s1)\<lparr>cap_holders := N\<rparr> =
      (fold revoke_stamp (map (cap_holders s) (x # xs)) s)\<lparr>cap_holders := N\<rparr>"
    unfolding mp by (simp add: s1_def stamps_holders)
  have "node_same (cap_holders s y) (cap_holders s1 y)" for y
    by (simp add: N1 node_same_def hdata_def)
  with ih(4) have "node_same (cap_holders s y) (N y)" for y
    by (simp add: node_same_def)
  moreover have "N y = cap_holders s y" if "y \<notin> set (x # xs)" for y
    using that ih(3) by (simp add: N1)
  ultimately show ?case
    using ih(1,2) by (intro exI [of _ N] exI [of _ dead']) (auto simp: step st)
qed

lemma revoke_slot_holders: "cap_holders (revoke_slot x s) = cap_holders s"
proof -
  have "cap_holders (snd (cap_table_index p s)) = cap_holders s" for p
    by (auto simp: cap_table_index_def upd_table_def split: option.splits)
  from this [of "h_pid x"] show ?thesis
    by (auto simp: revoke_slot_def cap_slot_push_def set_slot_def upd_table_def split: option.splits prod.splits)
qed

lemma revoke_slots_run:
  assumes "chain (\<lambda>x. h_next (cap_holders s x)) d ys" and "length ys \<le> fuel"
  shows "revoke_slots fuel d s = fold revoke_slot (map (cap_holders s) ys) s"
  using assms
proof (induction ys arbitrary: s d fuel)
  case Nil
  then show ?case
    by (cases fuel) auto
next
  case (Cons y ys)
  then obtain f where f: "fuel = Suc f" "length ys \<le> f"
    by (cases fuel) auto
  let ?s = "revoke_slot (cap_holders s y) s"
  have "chain (\<lambda>x. h_next (cap_holders ?s x)) (h_next (cap_holders s y)) ys"
    using Cons.prems(1) by (simp add: revoke_slot_holders)
  from Cons.IH [OF this f(2)] show ?case
    using Cons.prems(1) by (simp add: f(1) Let_def revoke_slot_holders)
qed

lemma revoke_free_run:
  assumes "chain (\<lambda>x. h_next (cap_holders s x)) d ys" and "length ys \<le> fuel"
  shows "revoke_free fuel d s = fold cap_holder_free ys s"
  using assms
proof (induction ys arbitrary: s d fuel)
  case Nil
  then show ?case
    by (cases fuel) auto
next
  case (Cons y ys)
  then obtain f where f: "fuel = Suc f" "length ys \<le> f"
    by (cases fuel) auto
  have "y \<notin> set ys"
    using chain_distinct [OF Cons.prems(1)] by simp
  then have "chain (\<lambda>x. h_next (cap_holders (cap_holder_free y s) x)) a ys \<longleftrightarrow> chain (\<lambda>x. h_next (cap_holders s x)) a ys" for a
    by (intro chain_cong) auto
  then have "chain (\<lambda>x. h_next (cap_holders (cap_holder_free y s) x)) (h_next (cap_holders s y)) ys"
    using Cons.prems(1) by simp
  from Cons.IH [OF this f(2)] show ?case
    using Cons.prems(1) by (simp add: f(1) Let_def)
qed

section \<open>Effect on the slots\<close>

definition slot_node :: "nat \<Rightarrow> nat \<Rightarrow> CapHolder \<Rightarrow> bool" where
  "slot_node p r x \<longleftrightarrow> h_kind x = HOLDER_SLOT \<and> h_pid x = p \<and> h_ref x = r"

lemma table_index_bound: "cap_table_find p s = Some ti \<Longrightarrow> cap_table_index p s = (Some ti, s)"
  by (simp add: cap_table_find_def cap_table_index_def split: if_splits)

lemma revoke_slot_space:
  assumes inv: "tabs_inv s" and x: "h_kind x = HOLDER_SLOT \<Longrightarrow> cap_at s (h_pid x) (h_ref x) \<noteq> None"
  shows "tabs_inv (revoke_slot x s)"
    and "cap_at (revoke_slot x s) = (\<lambda>p r. if slot_node p r x then None else cap_at s p r)"
    and "\<exists>T. revoke_slot x s = s\<lparr>cap_tables := T\<rparr>"
proof -
  have "tabs_inv (revoke_slot x s) \<and> cap_at (revoke_slot x s) = (\<lambda>p r. if slot_node p r x then None else cap_at s p r) \<and>
    (\<exists>T. revoke_slot x s = s\<lparr>cap_tables := T\<rparr>)"
  proof (cases "h_kind x = HOLDER_SLOT")
    case False
    then have "revoke_slot x s = s"
      by (simp add: revoke_slot_def)
    with False inv show ?thesis
      using exI [of "\<lambda>T. s = s\<lparr>cap_tables := T\<rparr>" "cap_tables s"] by (simp add: slot_node_def)
  next
    case True
    obtain ti where fnd: "cap_table_find (h_pid x) s = Some ti"
      using x [OF True] by (auto simp: cap_at_def split: option.splits)
    have r: "revoke_slot x s = cap_slot_push ti (h_ref x) (set_slot ti (h_ref x) 0 s)"
      using True by (simp add: revoke_slot_def table_index_bound [OF fnd])
    note rel = slot_release [OF inv fnd x [OF True] refl refl, of 0, folded r]
    have "cap_at (revoke_slot x s) = (\<lambda>p r. if slot_node p r x then None else cap_at s p r)"
      using True by (auto simp: rel(2) slot_node_def fun_eq_iff)
    with rel(1) show ?thesis
      by (auto simp: r release_state)
  qed
  then show "tabs_inv (revoke_slot x s)" "cap_at (revoke_slot x s) = (\<lambda>p r. if slot_node p r x then None else cap_at s p r)"
    "\<exists>T. revoke_slot x s = s\<lparr>cap_tables := T\<rparr>"
    by blast+
qed

text \<open>Each slot is named by one node, so every node finds its slot occupied.\<close>

lemma revoke_slots_space:
  assumes "tabs_inv s" and "\<forall>x \<in> set ns. h_kind x = HOLDER_SLOT \<longrightarrow> cap_at s (h_pid x) (h_ref x) \<noteq> None"
    and "\<And>p r. length (filter (slot_node p r) ns) \<le> 1"
  shows "tabs_inv (fold revoke_slot ns s) \<and>
    cap_at (fold revoke_slot ns s) = (\<lambda>p r. if \<exists>x \<in> set ns. slot_node p r x then None else cap_at s p r) \<and>
    (\<exists>T. fold revoke_slot ns s = s\<lparr>cap_tables := T\<rparr>)"
  using assms
proof (induction ns arbitrary: s)
  case Nil
  then show ?case
    using exI [of "\<lambda>T. s = s\<lparr>cap_tables := T\<rparr>" "cap_tables s"] by simp
next
  case (Cons x xs)
  let ?s = "revoke_slot x s"
  note one = revoke_slot_space [OF Cons.prems(1), of x]
  have at: "cap_at ?s = (\<lambda>p r. if slot_node p r x then None else cap_at s p r)" and T: "\<exists>T. ?s = s\<lparr>cap_tables := T\<rparr>"
    and inv: "tabs_inv ?s"
    using one Cons.prems(2) by auto
  have "cap_at ?s (h_pid y) (h_ref y) \<noteq> None" if "y \<in> set xs" "h_kind y = HOLDER_SLOT" for y
  proof -
    have "y \<in> set (filter (slot_node (h_pid y) (h_ref y)) xs)"
      using that by (simp add: slot_node_def)
    then have "filter (slot_node (h_pid y) (h_ref y)) xs \<noteq> []"
      by force
    then have "\<not> slot_node (h_pid y) (h_ref y) x"
      using Cons.prems(3) [of "h_pid y" "h_ref y"] by (auto split: if_splits)
    then show ?thesis
      using that Cons.prems(2) by (simp add: at)
  qed
  moreover have "length (filter (slot_node p r) xs) \<le> 1" for p r
    using Cons.prems(3) [of p r] by (auto split: if_splits)
  ultimately have "tabs_inv (fold revoke_slot xs ?s) \<and>
    cap_at (fold revoke_slot xs ?s) = (\<lambda>p r. if \<exists>x \<in> set xs. slot_node p r x then None else cap_at ?s p r) \<and>
    (\<exists>T. fold revoke_slot xs ?s = ?s\<lparr>cap_tables := T\<rparr>)"
    using inv by (intro Cons.IH) auto
  with T show ?case
    by (auto simp: at fun_eq_iff)
qed

section \<open>Effect on the queues\<close>

lemma ring_msgs_set_in:
  assumes "m' \<in> set (ring_msgs d' (ring_set d e m ch))"
  shows "m' \<in> set (ring_msgs d' ch) \<or> m' = m \<and> d' = d \<and> c_q ch d e \<in> set (ring_msgs d ch)"
  using assms by (auto simp: ring_msgs_def ring_set_def split: if_splits)

lemma msg_ok_stamp:
  "msg_ok s m \<Longrightarrow> msg_ok s (m\<lparr>m_cap_word := (m_cap_word m)(i := cap_word_stamp_revoked (m_cap_word m i))\<rparr>)"
  by (auto simp: msg_ok_def qword_ok_def word_fields)

lemma chans_ok_stamp: "chans_ok s \<Longrightarrow> chans_ok (revoke_stamp x s)"
proof (cases "h_kind x = HOLDER_QUEUE")
  case True
  assume ok: "chans_ok s"
  let ?c = "h_pid x" and ?d = "h_qdir x" and ?e = "h_ref x div CAP_MSG_MAX_CAPS" and ?i = "h_ref x mod CAP_MSG_MAX_CAPS"
  let ?f = "\<lambda>m. m\<lparr>m_cap_word := (m_cap_word m)(?i := cap_word_stamp_revoked (m_cap_word m ?i))\<rparr>"
  have st: "revoke_stamp x s = upd_channel ?c (\<lambda>ch. ring_set ?d ?e (?f (c_q ch ?d ?e)) ch) s"
    using True by (simp add: revoke_stamp_def Let_def upd_msg_ring)
  have ext: "objs_ext s (revoke_stamp x s)"
    by (rule objs_ext_same) (simp_all add: st upd_channel_def)
  show ?thesis
    unfolding chans_ok_def queue_ok_ring
  proof (intro allI impI conjI ballI)
    fix c d assume c: "c < CAP_CHAN_MAX" and d: "d < (2 :: nat)"
    note k = chans_okD [OF ok c d]
    show "ring_wf d (cap_channels (revoke_stamp x s) c)"
      using k(1) by (auto simp: st upd_channel_def ring_other)
    fix m' assume m': "m' \<in> set (ring_msgs d (cap_channels (revoke_stamp x s) c))"
    have "msg_ok s m'"
    proof (cases "c = ?c")
      case False
      with m' k(2) show ?thesis
        by (simp add: st upd_channel_def queues_def)
    next
      case True
      from ring_msgs_set_in [of m' d ?d ?e _ "cap_channels s c"] m' True
      have "m' \<in> set (queues s c d) \<or> m' = ?f (c_q (cap_channels s c) ?d ?e) \<and> d = ?d \<and> c_q (cap_channels s c) ?d ?e \<in> set (queues s c d)"
        by (auto simp: st upd_channel_def queues_def)
      then show ?thesis
        using k(2) msg_ok_stamp by blast
    qed
    then show "msg_ok (revoke_stamp x s) m'"
      using ext by (rule msg_ok_ext)
  qed
qed (simp add: revoke_stamp_def)

lemma chans_ok_stamps: "chans_ok s \<Longrightarrow> chans_ok (fold revoke_stamp ns s)"
  by (induction ns arbitrary: s) (simp_all add: chans_ok_stamp)

section \<open>Effect on the references\<close>

lemma node_partition_drop:
  assumes "node_partition HL FL P"
  shows "node_partition (HL(ob := [])) FL (P \<union> set (HL ob))"
proof -
  have "(\<Union>x. set (HL x)) = set (HL ob) \<union> (\<Union>x. set ((HL(ob := [])) x))"
    by (auto split: if_splits)
  then show ?thesis
    using assms node_partitionD(4) [OF assms, of _ ob] unfolding node_partition_def by (auto split: if_splits)
qed

lemma refs_free_all:
  assumes "refs_rep s R P n" and "distinct ys" and "set ys \<subseteq> P"
  shows "refs_rep (fold cap_holder_free ys s) R (P - set ys) (n + length ys)"
  using assms
proof (induction ys arbitrary: s P n)
  case (Cons y ys)
  then have "refs_rep (cap_holder_free y s) R (P - {y}) (Suc n)"
    using refs_free(1) by simp
  moreover have "P - {y} - set ys = P - set (y # ys)" "set ys \<subseteq> P - {y}" "distinct ys"
    using Cons.prems by auto
  ultimately show ?case
    using Cons.IH [of "cap_holder_free y s" "P - {y}" "Suc n"] by simp
qed simp

text \<open>
  A state whose nodes are those of \<open>s\<close> except that the list of \<open>ob\<close> was cut off: its
  nodes wait to be freed and the object has no reference left.
\<close>

lemma refs_detached:
  assumes rep: "holders_rep s HL FL {}" and R: "R = (\<lambda>o'. map (\<lambda>h. hdata (cap_holders s h)) (HL o'))"
    and nodes: "\<And>x. x \<notin> set (HL ob) \<Longrightarrow> cap_holders t x = cap_holders s x"
    and free: "cap_holder_free_head t = cap_holder_free_head s" and nx: "cap_obj_next t = cap_obj_next s"
    and ob: "o_holder_head (cap_objects t ob) = CAP_FREELIST_END" "o_refcount (cap_objects t ob) = 0"
    and others: "\<And>o'. o' \<noteq> ob \<Longrightarrow> cap_objects t o' = cap_objects s o'"
  shows "refs_rep t (R(ob := [])) (set (HL ob)) (length FL)"
proof -
  note part = holders_repD(2) [OF rep]
  have FL: "x \<notin> set (HL ob)" if "x \<in> set FL" for x
    using node_partitionD(6) [OF part that] by blast
  have HL: "x \<notin> set (HL ob)" if "x \<in> set (HL o')" "o' \<noteq> ob" for x o'
    using node_partitionD(4) [OF part, of x ob o'] that by blast
  have "holders_rep t (HL(ob := [])) FL (set (HL ob))"
    unfolding holders_rep_def nx
  proof (intro conjI allI impI)
    show "hf.freelist t FL"
      by (rule hf_freelist_nodes [OF holders_repD(1) [OF rep] free]) (simp add: nodes FL)
    show "object_list t o' ((HL(ob := [])) o')" if "o' < cap_obj_next s" for o'
    proof (cases "o' = ob")
      case True
      then show ?thesis
        by (simp add: object_list_def ob)
    next
      case False
      then show ?thesis
        using object_list_cong [OF holders_repD(3) [OF rep that], of t] others nodes HL by simp
    qed
    show "(HL(ob := [])) o' = []" if "o' \<ge> cap_obj_next s" for o'
      using holders_repD(4) [OF rep that] by simp
    show "node_partition (HL(ob := [])) FL (set (HL ob))"
      using node_partition_drop [OF part] by simp
  qed
  moreover have "R(ob := []) = (\<lambda>o'. map (\<lambda>h. hdata (cap_holders t h)) ((HL(ob := [])) o'))"
    using nodes HL by (auto simp: R fun_eq_iff)
  ultimately show ?thesis
    unfolding refs_rep_def by blast
qed

section \<open>Revocation\<close>

lemma frees_fields: "\<exists>N F. fold cap_holder_free ys s = s\<lparr>cap_holders := N, cap_holder_free_head := F\<rparr>"
proof (induction ys arbitrary: s)
  case Nil
  show ?case
    by (rule exI [of _ "cap_holders s"], rule exI [of _ "cap_holder_free_head s"]) simp
next
  case (Cons y ys)
  obtain N F where 1: "cap_holder_free y s = s\<lparr>cap_holders := N, cap_holder_free_head := F\<rparr>"
    by (simp add: cap_holder_free_def upd_holder_def Let_def)
  obtain N' F' where "fold cap_holder_free ys (cap_holder_free y s) = (cap_holder_free y s)\<lparr>cap_holders := N', cap_holder_free_head := F'\<rparr>"
    using Cons.IH by blast
  then show ?case
    by (intro exI [of _ N'] exI [of _ F']) (simp add: 1)
qed

text \<open>The flag that marks the revocation is overwritten when the object dies.\<close>

lemma reap_revoking:
  assumes "o_refcount (cap_objects s ob) = 0"
  shows "object_reap ob (upd_object ob (\<lambda>b. b\<lparr>o_revoking := v\<rparr>) s) = object_reap ob s"
proof -
  let ?f = "\<lambda>s. upd_object ob (\<lambda>b. b\<lparr>o_revoking := v\<rparr>) s"
  have 1: "fst (cap_object_free_resources ob (?f s)) = ?f (fst (cap_object_free_resources ob s))"
    by (simp add: cap_object_free_resources_def Let_def upd_object_def upd_channel_def case_prod_beta)
  have put: "cap_chan_id_put c (irq_unbind_chan c (?f t)) = ?f (cap_chan_id_put c (irq_unbind_chan c t))" for c t
    by (cases "cap_chan_recycled_n t < CAP_CHAN_MAX"; cases "CAP_CHAN_MAX \<le> c")
      (simp_all add: irq_unbind_chan_def cap_chan_id_put_def upd_object_def cong: if_cong)
  have 2: "cap_object_destroy ob (?f t) = cap_object_destroy ob t" for t
  proof -
    have "o_active (cap_objects (?f t) ob) = o_active (cap_objects t ob)" "o_kind (cap_objects (?f t) ob) = o_kind (cap_objects t ob)"
      "o_chan_id (cap_objects (?f t) ob) = o_chan_id (cap_objects t ob)"
      by (simp_all add: upd_object_def)
    moreover have "upd_object ob (\<lambda>b. b\<lparr>o_active := False, o_revoking := True, o_holder_head := CAP_FREELIST_END, o_refcount := 0\<rparr>) (?f t) =
        upd_object ob (\<lambda>b. b\<lparr>o_active := False, o_revoking := True, o_holder_head := CAP_FREELIST_END, o_refcount := 0\<rparr>) t" for t
      by (simp add: upd_object_def)
    ultimately show ?thesis
      by (simp only: cap_object_destroy_def Let_def put if_distrib [of ?f, symmetric] split: if_split)
  qed
  have "o_refcount (cap_objects (?f s) ob) = 0"
    using assms by (simp add: upd_object_def)
  with assms show ?thesis
    by (simp add: object_reap_def 1 2)
qed

lemma slot_nodes_one:
  assumes m: "refs_match C R" and R: "R ob = map (\<lambda>h. hdata (N h)) xs"
  shows "length (filter (slot_node p r) (map N (rev xs))) \<le> 1"
    and "(\<exists>x \<in> set (map N (rev xs)). slot_node p r x) \<longleftrightarrow> (\<exists>w. C p r = Some w \<and> cap_word_obj w = ob)"
proof -
  have node: "slot_node p r (N h) \<longleftrightarrow> hdata (N h) = (HOLDER_SLOT, p, r, 0)" if "h \<in> set xs" for h
  proof -
    have "hdata (N h) \<in> set (R ob)"
      using that by (auto simp: R)
    then show ?thesis
      using refs_match_mem [OF m, of "h_pid (N h)" "h_ref (N h)" "h_qdir (N h)" ob]
      by (auto simp: slot_node_def hdata_def)
  qed
  have "length (filter (slot_node p r) (map N (rev xs))) = length (filter (\<lambda>h. slot_node p r (N h)) xs)"
    by (simp add: filter_map o_def rev_filter [symmetric])
  also have "\<dots> = length (filter (\<lambda>h. (HOLDER_SLOT, p, r, 0) = hdata (N h)) xs)"
    using node by (intro arg_cong [of _ _ length] filter_cong) auto
  also have "\<dots> = count_list (R ob) (HOLDER_SLOT, p, r, 0)"
    by (simp add: R count_list_eq_length_filter filter_map o_def)
  also have "\<dots> \<le> 1"
    using m unfolding refs_match_def by simp
  finally show "length (filter (slot_node p r) (map N (rev xs))) \<le> 1" .
  have "(\<exists>x \<in> set (map N (rev xs)). slot_node p r x) \<longleftrightarrow> (HOLDER_SLOT, p, r, 0) \<in> set (R ob)"
    using node by (auto simp: R) (metis image_eqI)
  also have "\<dots> \<longleftrightarrow> (\<exists>w. C p r = Some w \<and> cap_word_obj w = ob)"
    using refs_match_mem [OF m] by simp
  finally show "(\<exists>x \<in> set (map N (rev xs)). slot_node p r x) \<longleftrightarrow> (\<exists>w. C p r = Some w \<and> cap_word_obj w = ob)" .
qed

text \<open>What is left of the capability space.\<close>

definition space_without :: "nat \<Rightarrow> (nat \<Rightarrow> nat \<Rightarrow> 64 word option) \<Rightarrow> nat \<Rightarrow> nat \<Rightarrow> 64 word option" where
  "space_without ob C p r = (case C p r of None \<Rightarrow> None | Some w \<Rightarrow> if cap_word_obj w = ob then None else Some w)"

lemma space_without_Some:
  "space_without ob C p r = Some w \<longleftrightarrow> C p r = Some w \<and> cap_word_obj w \<noteq> ob"
  by (auto simp: space_without_def split: option.splits)

lemma refs_match_without: "refs_match C R \<Longrightarrow> refs_match (space_without ob C) (R(ob := []))"
  unfolding refs_match_def space_without_Some by auto

text \<open>The state before the object is reaped, up to the revoking flag.\<close>

lemma revoke_cut:
  assumes rep: "cap_rep {} s R {} n" and ob: "ob < cap_obj_next s" and act: "o_active (cap_objects s ob)"
  obtains t T L C N F k where "revoke_object e ob s = object_reap ob t"
    and "t = s\<lparr>cap_tables := T, hook_log := L, cap_channels := C, cap_holders := N, cap_holder_free_head := F,
          cap_objects := (cap_objects s)(ob := (cap_objects s ob)\<lparr>o_holder_head := CAP_FREELIST_END, o_refcount := 0\<rparr>)\<rparr>"
    and "tabs_inv t" and "cap_at t = space_without ob (cap_at s)" and "chans_ok t" and "refs_rep t (R(ob := [])) {} k"
proof -
  note d = cap_repD [OF rep]
  obtain HL FL where hr: "holders_rep s HL FL {}" and R: "R = (\<lambda>o'. map (\<lambda>h. hdata (cap_holders s h)) (HL o'))"
    using d(2) unfolding refs_rep_def by blast
  define xs where "xs = HL ob"
  have ol: "object_list s ob xs"
    using holders_repD(3) [OF hr ob] by (simp add: xs_def)
  have len: "length xs \<le> CAP_HOLDER_MAX"
    using HL_length [OF hr] by (simp add: xs_def)
  define sB where "sB = upd_object ob (\<lambda>b. b\<lparr>o_holder_head := CAP_FREELIST_END\<rparr>) (upd_object ob (\<lambda>b. b\<lparr>o_revoking := True\<rparr>) s)"
  have B: "sB = s\<lparr>cap_objects := (cap_objects s)(ob := (cap_objects s ob)\<lparr>o_revoking := True, o_holder_head := CAP_FREELIST_END\<rparr>)\<rparr>"
    by (simp add: sB_def upd_object_def)
  have "chain (\<lambda>x. h_next (cap_holders sB x)) (o_holder_head (cap_objects s ob)) xs"
    using hseg_chain ol by (auto simp: B object_list_def)
  from detach_run [OF this len, of CAP_FREELIST_END "[]" 0] obtain N dead where det: "revoke_detach CAP_HOLDER_MAX (o_holder_head (cap_objects s ob)) CAP_FREELIST_END 0 sB = (dead, length xs,
      (fold revoke_stamp (map (cap_holders sB) xs) sB)\<lparr>cap_holders := N\<rparr>)"
    and ch: "chain (\<lambda>x. h_next (N x)) dead (rev xs)" and N: "\<forall>x. x \<notin> set xs \<longrightarrow> N x = cap_holders sB x"
    "\<forall>x. node_same (cap_holders sB x) (N x)"
    by auto
  obtain C where C: "fold revoke_stamp (map (cap_holders sB) xs) sB = sB\<lparr>cap_channels := C\<rparr>"
    using stamps_fields by blast
  define sC where "sC = sB\<lparr>cap_channels := C, cap_holders := N\<rparr>"
  have RN: "R ob = map (\<lambda>h. hdata (N h)) xs"
    using N(2) by (simp add: R xs_def node_same_def B)
  have atC: "cap_at sC = cap_at s" and tiC: "tabs_inv sC"
    using cap_at_cong [of sC s] tabs_inv_cong [OF d(1), of sC] by (simp_all add: sC_def B)
  note one = slot_nodes_one [OF d(3) RN]
  have occ: "\<forall>x \<in> set (map N (rev xs)). h_kind x = HOLDER_SLOT \<longrightarrow> cap_at sC (h_pid x) (h_ref x) \<noteq> None"
    using one(2) atC by (fastforce simp: slot_node_def)
  note sp = revoke_slots_space [OF tiC occ one(1)]
  then obtain T where D: "fold revoke_slot (map N (rev xs)) sC = sC\<lparr>cap_tables := T\<rparr>"
    by blast
  have tiD: "tabs_inv (sC\<lparr>cap_tables := T\<rparr>)"
    and atD: "cap_at (sC\<lparr>cap_tables := T\<rparr>) = (\<lambda>p r. if \<exists>x \<in> set (map N (rev xs)). slot_node p r x then None else cap_at s p r)"
    using sp unfolding D atC by blast+
  have atD': "cap_at (sC\<lparr>cap_tables := T\<rparr>) = space_without ob (cap_at s)"
    unfolding atD one(2) by (auto simp: space_without_def fun_eq_iff split: option.splits)
  have "tab_quiet (sC\<lparr>cap_tables := T\<rparr>) (fold (\<lambda>ti. cap_table_unmap_object e ti ob) [0..<CAP_TABLE_MAX] (sC\<lparr>cap_tables := T\<rparr>))"
    using unmap_object_quiet by (rule tab_quiet_fold)
  then obtain T' L where E: "fold (\<lambda>ti. cap_table_unmap_object e ti ob) [0..<CAP_TABLE_MAX] (sC\<lparr>cap_tables := T\<rparr>) = sC\<lparr>cap_tables := T', hook_log := L\<rparr>"
    and tiE: "tabs_inv (sC\<lparr>cap_tables := T', hook_log := L\<rparr>)" and atE: "cap_at (sC\<lparr>cap_tables := T', hook_log := L\<rparr>) = space_without ob (cap_at s)"
    using tiD atD' unfolding tab_quiet_def by auto
  define sF where "sF = sC\<lparr>cap_tables := T', hook_log := L,
      cap_objects := (cap_objects sC)(ob := (cap_objects sC ob)\<lparr>o_refcount := 0\<rparr>)\<rparr>"
  have rc: "o_refcount (cap_objects sC ob) = length xs"
    using ol by (simp add: sC_def B object_list_def)
  have refF: "refs_rep sF (R(ob := [])) (set xs) (length FL)"
    unfolding xs_def using N(1) by (intro refs_detached [OF hr R]) (simp_all add: sF_def sC_def B xs_def)
  define sG where "sG = fold cap_holder_free (rev xs) sF"
  obtain N' F where G: "sG = sF\<lparr>cap_holders := N', cap_holder_free_head := F\<rparr>"
    unfolding sG_def using frees_fields by blast
  have refG: "refs_rep sG (R(ob := [])) {} (length FL + length xs)"
    unfolding sG_def using refs_free_all [OF refF, of "rev xs"] hseg_distinct ol by (auto simp: object_list_def)
  define t where "t = upd_object ob (\<lambda>b. b\<lparr>o_revoking := False\<rparr>) sG"
  have t: "t = s\<lparr>cap_tables := T', hook_log := L, cap_channels := C, cap_holders := N', cap_holder_free_head := F,
      cap_objects := (cap_objects s)(ob := (cap_objects s ob)\<lparr>o_holder_head := CAP_FREELIST_END, o_refcount := 0\<rparr>)\<rparr>"
  proof -
    have "\<not> o_revoking (cap_objects s ob)"
      using objs_okD(1,3) [OF d(5)] ob act by auto
    then have "(cap_objects s ob)\<lparr>o_holder_head := CAP_FREELIST_END, o_refcount := 0, o_revoking := False\<rparr> =
        (cap_objects s ob)\<lparr>o_holder_head := CAP_FREELIST_END, o_refcount := 0\<rparr>"
      by (intro CapObject.equality) simp_all
    then show ?thesis
      by (simp add: t_def G sF_def sC_def B upd_object_def)
  qed
  show thesis
  proof
    have "revoke_slots CAP_HOLDER_MAX dead sC = sC\<lparr>cap_tables := T\<rparr>"
      using revoke_slots_run [of sC dead "rev xs"] ch len D by (simp add: sC_def)
    moreover have "revoke_free CAP_HOLDER_MAX dead sF = sG"
      using revoke_free_run [of sF dead "rev xs"] ch len by (simp add: sG_def sF_def sC_def)
    moreover have "upd_object ob (\<lambda>b. b\<lparr>o_refcount := (if o_refcount b \<ge> length xs then o_refcount b - length xs else 0)\<rparr>)
        (sC\<lparr>cap_tables := T', hook_log := L\<rparr>) = sF"
      using rc by (simp add: sF_def upd_object_def)
    moreover have "o_holder_head (cap_objects (upd_object ob (\<lambda>b. b\<lparr>o_revoking := True\<rparr>) s) ob) = o_holder_head (cap_objects s ob)"
      by (simp add: upd_object_def)
    ultimately have "revoke_object e ob s = object_reap ob sG"
      unfolding revoke_object_def Let_def by (simp add: sB_def [symmetric] det C sC_def [symmetric] E)
    also have "\<dots> = object_reap ob t"
      unfolding t_def by (rule reap_revoking [symmetric]) (simp add: G sF_def)
    finally show "revoke_object e ob s = object_reap ob t" .
    show "tabs_inv t" "cap_at t = space_without ob (cap_at s)"
      using tabs_inv_cong [OF tiE, of t] cap_at_cong [of t "sC\<lparr>cap_tables := T', hook_log := L\<rparr>"] atE by (simp_all add: t sC_def B)
    have "chans_ok sB"
      using d(7) by (rule chans_ok_ext) (simp_all add: B objs_ext_def)
    then have "chans_ok (sB\<lparr>cap_channels := C\<rparr>)"
      unfolding C [symmetric] by (rule chans_ok_stamps)
    then show "chans_ok t"
      by (rule chans_ok_ext) (simp_all add: t B objs_ext_def)
    show "refs_rep t (R(ob := [])) {} (length FL + length xs)"
      using refG by (rule refs_rep_cong) (simp_all add: t_def upd_object_def)
  qed (fact t)
qed

lemma revoke_object_rep:
  assumes rep: "cap_rep {} s R {} n" and ob: "ob < cap_obj_next s" and act: "o_active (cap_objects s ob)"
  shows "cap_inv (revoke_object e ob s)" and "cap_at (revoke_object e ob s) = space_without ob (cap_at s)"
    and "o_active (cap_objects (revoke_object e ob s) o') \<longleftrightarrow> o' \<noteq> ob \<and> o_active (cap_objects s o')"
    and "cap_obj_next (revoke_object e ob s) = cap_obj_next s"
proof -
  note d = cap_repD [OF rep]
  obtain t T L C N F k where rv: "revoke_object e ob s = object_reap ob t"
    and t: "t = s\<lparr>cap_tables := T, hook_log := L, cap_channels := C, cap_holders := N, cap_holder_free_head := F,
          cap_objects := (cap_objects s)(ob := (cap_objects s ob)\<lparr>o_holder_head := CAP_FREELIST_END, o_refcount := 0\<rparr>)\<rparr>"
    and c: "tabs_inv t" "cap_at t = space_without ob (cap_at s)" "chans_ok t" "refs_rep t (R(ob := [])) {} k"
    by (rule revoke_cut [OF rep ob act])
  have ext: "objs_ext s t"
    by (simp add: objs_ext_def t)
  have act': "o_active (cap_objects t o') = o_active (cap_objects s o')" for o'
    by (simp add: t)
  have live: "live_chan t o' x = live_chan s o' x" for o' x
    by (simp add: live_chan_def t)
  have "cap_rep {ob} t (R(ob := [])) {} k"
  proof (rule cap_repI)
    show "refs_match (cap_at t) (R(ob := []))"
      unfolding c(2) using d(3) by (rule refs_match_without)
    show "caps_ok t"
      using d(4) minted_ext [OF _ ext] by (auto simp: caps_ok_def c(2) space_without_Some act')
    show "objs_ok {ob} t (R(ob := []))"
      using d(5) by (auto simp: objs_ok_def t)
    show "qrefs_ok (R(ob := []))"
      using d(6) by (auto simp: qrefs_ok_def)
    show "ids_ok t"
      using d(8) by (rule ids_ok_cong) (simp_all add: t live [unfolded t])
  qed (fact c)+
  then have "cap_rep {} (object_reap ob t) (R(ob := [])) {} k"
    using ob by (intro object_reap_rep) (simp_all add: t)
  then show "cap_inv (revoke_object e ob s)"
    by (auto simp: cap_inv_def rv)
  show "cap_at (revoke_object e ob s) = space_without ob (cap_at s)"
    by (simp add: rv c(2))
  show "o_active (cap_objects (revoke_object e ob s) o') \<longleftrightarrow> o' \<noteq> ob \<and> o_active (cap_objects s o')"
    by (simp add: rv object_reap_def) (simp add: t)
  show "cap_obj_next (revoke_object e ob s) = cap_obj_next s"
    by (simp add: rv) (simp add: t)
qed

text \<open>
  The contract of \<^verbatim>\<open>cap_revoke\<close>: the caller held a capability, its object is dead, no slot of
  any process refers to it, and every other capability and object is as before.
\<close>

definition severs :: "cap_state \<Rightarrow> nat \<Rightarrow> nat \<Rightarrow> unit res \<Rightarrow> cap_state \<Rightarrow> bool" where
  "severs s pid idx r s' \<longleftrightarrow> cap_inv s' \<and> cap_obj_next s' = cap_obj_next s \<and>
     (if r = Ok ()
      then \<exists>w. cap_at s pid idx = Some w \<and> cap_at s' = space_without (cap_word_obj w) (cap_at s) \<and>
             (\<forall>ob. o_active (cap_objects s' ob) \<longleftrightarrow> ob \<noteq> cap_word_obj w \<and> o_active (cap_objects s ob))
      else r \<noteq> Oob \<and> cap_at s' = cap_at s \<and> (\<forall>ob. o_active (cap_objects s' ob) = o_active (cap_objects s ob)))"

lemma revoke_severs:
  assumes inv: "cap_inv s" and p: "pid < 65536" and i: "cap_idx < CAP_TABLE_ENTRIES"
    and res: "cap_revoke e pid cap_idx s = (r, s')"
  shows "severs s pid cap_idx r s'"
proof -
  obtain R n where rep: "cap_rep {} s R {} n"
    using inv by (auto simp: cap_inv_def)
  obtain oti s1 where i1: "cap_table_index pid s = (oti, s1)"
    by fastforce
  show ?thesis
  proof (cases oti)
    case None
    with res i1 inv cap_table_index_None [of pid s s1] show ?thesis
      by (auto simp: cap_revoke_def severs_def)
  next
    case (Some ti)
    note b = cap_rep_bind [OF rep i1 [unfolded Some] p]
    have same: "cap_obj_next s1 = cap_obj_next s" "cap_objects s1 = cap_objects s"
      by (subst b(4), simp)+
    have inv1: "cap_inv s1"
      using b(1) by (auto simp: cap_inv_def)
    let ?w = "slot_word s1 ti cap_idx"
    show ?thesis
    proof (cases "cap_word_valid ?w")
      case False
      with res i1 Some i inv1 same b(3) show ?thesis
        by (auto simp: cap_revoke_def severs_def Let_def)
    next
      case w: True
      then have at: "cap_at s1 pid cap_idx = Some ?w"
        using slot_cap [OF b(2) i] by simp
      note f = reap_rep_refs(2,3) [OF b(1) at refl]
      have "cap_object_get (cap_word_obj ?w) s1 = Some (cap_word_obj ?w)" and "\<not> o_revoking (cap_objects s1 (cap_word_obj ?w))"
        using f objs_okD(1,3) [OF cap_repD(5) [OF b(1)]] by (auto simp: cap_object_get_iff [OF cap_repD(5) [OF b(1)]])
      then have out: "r = Ok ()" "s' = revoke_object e (cap_word_obj ?w) s1"
        using res i1 Some i w by (simp_all add: cap_revoke_def Let_def)
      show ?thesis
        unfolding severs_def out using revoke_object_rep [OF b(1) f(2,1)] at b(3) same by auto
    qed
  qed
qed

end
