(* ===== verification/Cap_Window.thy ===== *)
theory Cap_Window
  imports Cap_Tear
begin

text \<open>
  What \<^verbatim>\<open>cap_map\<close> and \<^verbatim>\<open>cap_unmap\<close> do: which pages they hand to the page tables, that a
  refused page undoes the ones before it, and that the windows of different objects in one
  address space never overlap.
\<close>

section \<open>Pages\<close>

lemma unmap_pages_log:
  "unmap_pages cr3 va n s = s\<lparr>hook_log := rev (map (\<lambda>i. ArchUnmapPage cr3 (page_at va i)) [0..<n]) @ hook_log s\<rparr>"
proof (induction n)
  case 0
  then show ?case
    by (simp add: unmap_pages_def)
next
  case (Suc n)
  have "unmap_pages cr3 va (Suc n) s = log_hook (ArchUnmapPage cr3 (page_at va n)) (unmap_pages cr3 va n s)"
    by (simp add: unmap_pages_def)
  then show ?case
    by (simp add: Suc.IH log_hook_def)
qed

text \<open>The trace of a page loop that succeeds, newest call first.\<close>

definition map_trace :: "64 word \<Rightarrow> 64 word \<Rightarrow> 64 word \<Rightarrow> 32 word \<Rightarrow> nat list \<Rightarrow> hook list" where
  "map_trace cr3 va pa flags is = rev (map (\<lambda>i. ArchMapPage cr3 (page_at va i) (page_at pa i) flags) is)"

definition unmap_trace :: "64 word \<Rightarrow> 64 word \<Rightarrow> nat \<Rightarrow> hook list" where
  "unmap_trace cr3 va n = rev (map (\<lambda>i. ArchUnmapPage cr3 (page_at va i)) [0..<n])"

lemma map_trace_Cons:
  "i < j \<Longrightarrow> map_trace cr3 va pa flags [i..<j] =
     map_trace cr3 va pa flags [Suc i..<j] @ [ArchMapPage cr3 (page_at va i) (page_at pa i) flags]"
  by (simp add: map_trace_def upt_conv_Cons)

lemma map_pages_log:
  assumes "map_pages e cr3 va pa flags i n s = (r, s')"
  shows "case r of
     None \<Rightarrow> s' = s\<lparr>hook_log := map_trace cr3 va pa flags [i..<i + n] @ hook_log s\<rparr>
   | Some err \<Rightarrow> err < 0 \<and> (\<exists>k. i \<le> k \<and> k < i + n \<and> e_map_page e cr3 (page_at va k) (page_at pa k) flags = err \<and>
       s' = s\<lparr>hook_log := ArchTlbFlush # unmap_trace cr3 va k @ map_trace cr3 va pa flags [i..<Suc k] @ hook_log s\<rparr>)"
  using assms
proof (induction n arbitrary: i s)
  case 0
  then show ?case
    by (auto simp: map_trace_def)
next
  case (Suc n)
  let ?r = "e_map_page e cr3 (page_at va i) (page_at pa i) flags"
  let ?s = "log_hook (ArchMapPage cr3 (page_at va i) (page_at pa i) flags) s"
  show ?case
  proof (cases "?r < 0")
    case True
    then have "r = Some ?r" "s' = log_hook ArchTlbFlush (unmap_pages cr3 va i ?s)"
      using Suc.prems by (simp_all add: Let_def)
    then show ?thesis
      using True by (auto simp: unmap_pages_log log_hook_def unmap_trace_def map_trace_def intro!: exI [of _ i])
  next
    case False
    then have "map_pages e cr3 va pa flags (Suc i) n ?s = (r, s')"
      using Suc.prems by (simp add: Let_def)
    note ih = Suc.IH [OF this]
    show ?thesis
    proof (cases r)
      case None
      then show ?thesis
        using ih by (simp add: map_trace_Cons [of i "Suc (i + n)"] log_hook_def del: upt_Suc)
    next
      case (Some err)
      then obtain k where "err < 0" "Suc i \<le> k" "k < Suc i + n" "e_map_page e cr3 (page_at va k) (page_at pa k) flags = err"
        "s' = ?s\<lparr>hook_log := ArchTlbFlush # unmap_trace cr3 va k @ map_trace cr3 va pa flags [Suc i..<Suc k] @ hook_log ?s\<rparr>"
        using ih by auto
      with Some show ?thesis
        by (auto simp: map_trace_Cons [of i "Suc k"] log_hook_def simp del: upt_Suc intro!: exI [of _ k])
    qed
  qed
qed

section \<open>Windows\<close>

text \<open>
  Live windows do not wrap around and those of different objects are disjoint.
\<close>

definition window :: "CapMap \<Rightarrow> 64 word set" where
  "window m = {a. mp_vaddr m \<le> a \<and> a < page_at (mp_vaddr m) (mp_npages m)}"

definition maps_apart :: "CapTable \<Rightarrow> bool" where
  "maps_apart t \<longleftrightarrow> (\<forall>i < CAP_MAP_MAX. \<forall>j < CAP_MAP_MAX. mp_active (t_maps t i) \<and> mp_active (t_maps t j) \<and>
     mp_obj_id (t_maps t i) \<noteq> mp_obj_id (t_maps t j) \<longrightarrow> window (t_maps t i) \<inter> window (t_maps t j) = {})"

lemma no_overlap_window:
  assumes "\<not> cap_maps_overlap t ob va n" and "i < CAP_MAP_MAX" and "mp_active (t_maps t i)" and "mp_obj_id (t_maps t i) \<noteq> ob"
  shows "window (t_maps t i) \<inter> {a. va \<le> a \<and> a < page_at va n} = {}"
proof -
  have "\<not> (va < page_at (mp_vaddr (t_maps t i)) (mp_npages (t_maps t i)) \<and> mp_vaddr (t_maps t i) < page_at va n)"
    using assms by (auto simp: cap_maps_overlap_def Let_def list_ex_iff)
  then show ?thesis
    by (auto simp: window_def)
qed

lemma map_check_Ok:
  assumes "map_check ti idx va flags s = Ok (ob, off, len)"
  shows "idx < CAP_TABLE_ENTRIES" and "cap_word_valid (slot_word s ti idx)" and "cap_word_type (slot_word s ti idx) = CAP_TYPE_MEM"
    and "flags AND NOT (cap_word_perms (slot_word s ti idx)) = 0" and "cap_word_perms (slot_word s ti idx) AND CAP_PERM_MAP \<noteq> 0"
    and "0 < len" and "len = cap_word_len (slot_word s ti idx)" and "va < page_at va len" and "page_at va len \<le> 0x800000000000"
    and "o_active (cap_objects s ob)" and "off + len \<le> o_npages (cap_objects s ob)"
    and "\<not> cap_maps_overlap (cap_tables s ti) ob va len" and "cap_object_get (cap_word_obj (slot_word s ti idx)) s = Some ob"
    and "va AND 0xFFF = 0" and "o_kind (cap_objects s ob) = KIND_MEM"
  using assms by (auto simp: map_check_def Let_def cap_object_get_def not_le split: if_splits option.splits)

lemma upd_map_fields [simp]:
  "cap_table_pid (upd_map ti i f s) = cap_table_pid s" "cap_channels (upd_map ti i f s) = cap_channels s"
  "hook_log (upd_map ti i f s) = hook_log s" "cap_objects (upd_map ti i f s) = cap_objects s"
  by (simp_all add: upd_map_def upd_table_def)

lemma upd_map_quiet: "tab_quiet s (upd_map ti i f s)"
proof -
  let ?s = "upd_map ti i f s"
  let ?t = "(cap_tables s ti)\<lparr>t_maps := (t_maps (cap_tables s ti))(i := f (t_maps (cap_tables s ti) i))\<rparr>"
  have s': "?s = s\<lparr>cap_tables := (cap_tables s)(ti := ?t), hook_log := hook_log s\<rparr>"
    by (simp add: upd_map_def upd_table_def)
  have at: "cap_at ?s = cap_at s"
    by (rule slots_space) (simp_all add: upd_map_def upd_table_def)
  have m: "\<exists>m. cap_tables ?s j = (cap_tables s j)\<lparr>t_maps := m\<rparr>" for j
    by (cases "j = ti") (auto simp: upd_map_def upd_table_def intro: exI [of _ "t_maps (cap_tables s j)"])
  have "tabs_inv s \<Longrightarrow> tabs_inv ?s"
    using tabs_inv_maps [OF _ m] by simp
  with at s' show ?thesis
    unfolding tab_quiet_def by blast
qed

lemma hook_quiet: "tab_quiet s (s\<lparr>hook_log := L\<rparr>)"
proof -
  have "s\<lparr>hook_log := L\<rparr> = s\<lparr>cap_tables := cap_tables s, hook_log := L\<rparr>"
    by simp
  moreover have "cap_at (s\<lparr>hook_log := L\<rparr>) = cap_at s"
    by (rule cap_at_cong) simp_all
  moreover have "tabs_inv s \<Longrightarrow> tabs_inv (s\<lparr>hook_log := L\<rparr>)"
    by (rule tabs_inv_cong) simp_all
  ultimately show ?thesis
    unfolding tab_quiet_def by blast
qed

text \<open>
  The contract of \<^verbatim>\<open>cap_map\<close>. No capability moves. A mapping that succeeds shows the
  process exactly the pages its capability covers, within the object, with rights the
  capability has; a refused page leaves the trace of its undoing.
\<close>

definition maps_window ::
  "cap_env \<Rightarrow> nat \<Rightarrow> nat \<Rightarrow> 64 word \<Rightarrow> 32 word \<Rightarrow> cap_state \<Rightarrow> unit res \<Rightarrow> cap_state \<Rightarrow> bool" where
  "maps_window e pid idx va flags s r s' \<longleftrightarrow> cap_inv s' \<and> cap_at s' = cap_at s \<and> queues s' = queues s \<and> r \<noteq> Oob \<and>
     (let cr3 = e_proc_cr3 e pid
      in case r of
         Ok _ \<Rightarrow> (\<exists>w ob off len. cap_at s pid idx = Some w \<and> cap_word_type w = CAP_TYPE_MEM \<and> cap_word_obj w = ob \<and>
           flags AND NOT (cap_word_perms w) = 0 \<and> cap_word_perms w AND CAP_PERM_MAP \<noteq> 0 \<and>
           o_active (cap_objects s ob) \<and> len = cap_word_len w \<and> 0 < len \<and> off + len \<le> o_npages (cap_objects s ob) \<and>
           hook_log s' = ArchTlbFlush # map_trace cr3 va (page_at (o_phys_base (cap_objects s ob)) off) flags [0..<len] @ hook_log s)
       | Err x \<Rightarrow>
           if \<exists>n. x = ARCH n
           then \<exists>pa k. hook_log s' = ArchTlbFlush # unmap_trace cr3 va k @ map_trace cr3 va pa flags [0..<Suc k] @ hook_log s
           else x = ETABLEFULL \<or> hook_log s' = hook_log s
       | Oob \<Rightarrow> False)"

lemma quiet_keeps:
  assumes "tab_quiet s s'" and "cap_inv s"
  shows "cap_inv s'" and "cap_at s' = cap_at s" and "queues s' = queues s" and "cap_table_pid s' = cap_table_pid s"
proof -
  obtain T L where "s' = s\<lparr>cap_tables := T, hook_log := L\<rparr>"
    using assms(1) unfolding tab_quiet_def by blast
  then show "queues s' = queues s"
    by (simp add: queues_def fun_eq_iff)
qed (use tab_quiet_steady [OF assms] in \<open>simp_all add: steady_def\<close>)

lemma map_check_fails: "map_check ti idx va flags s = Err x \<Longrightarrow> x \<noteq> ETABLEFULL \<and> (\<forall>n. x \<noteq> ARCH n)"
  by (auto simp: map_check_def Let_def split: if_splits option.splits)

lemma map_bound:
  assumes rep: "cap_rep {} s R {} n" and fnd: "cap_table_find pid s = Some ti" and idx: "idx < CAP_TABLE_ENTRIES"
    and ti: "cap_table_index pid s0 = (Some ti, s)" and res: "cap_map e pid idx va flags s0 = (r, s')"
  shows "maps_window e pid idx va flags s r s'"
proof -
  have inv: "cap_inv s"
    using rep unfolding cap_inv_def by blast
  show ?thesis
  proof (cases "map_check ti idx va flags s")
    case Oob
    then show ?thesis
      using idx by (auto simp: map_check_def Let_def split: if_splits option.splits)
  next
    case (Err e)
    then show ?thesis
      using inv map_check_fails [OF Err] res by (auto simp: cap_map_def ti maps_window_def Let_def)
  next
    case (Ok y)
    obtain ob off len where y: "y = (ob, off, len)"
      by (cases y)
    note ck = map_check_Ok [OF Ok [unfolded y]]
    let ?w = "slot_word s ti idx" and ?cr3 = "e_proc_cr3 e pid"
    let ?pa = "page_at (o_phys_base (cap_objects s ob)) off"
    have at: "cap_at s pid idx = Some ?w"
      by (rule slot_cap [OF fnd ck(1,2)])
    have ob: "cap_word_obj ?w = ob"
      using ck(13) by (simp add: cap_object_get_iff [OF cap_repD(5) [OF rep]])
    obtain pr s1 where mp: "map_pages e ?cr3 va ?pa flags 0 len s = (pr, s1)"
      by fastforce
    note lg = map_pages_log [OF mp]
    show ?thesis
    proof (cases "?cr3 = 0")
      case True
      then show ?thesis
        using inv res by (auto simp: cap_map_def ti Ok y maps_window_def)
    next
      case cr3: False
      show ?thesis
      proof (cases pr)
        case (Some err)
        then obtain k where k: "s1 = s\<lparr>hook_log := ArchTlbFlush # unmap_trace ?cr3 va k @ map_trace ?cr3 va ?pa flags [0..<Suc k] @ hook_log s\<rparr>"
          using lg by auto
        have "r = Err (ARCH err)" "s' = s1"
          using cr3 Some mp res by (simp_all add: cap_map_def ti Ok y)
        moreover have "tab_quiet s s1"
          unfolding k by (rule hook_quiet)
        ultimately show ?thesis
          using quiet_keeps [OF _ inv, of s1] k unfolding maps_window_def Let_def by auto
      next
        case None
        define s2 where "s2 = log_hook ArchTlbFlush s1"
        have s2: "s2 = s\<lparr>hook_log := ArchTlbFlush # map_trace ?cr3 va ?pa flags [0..<len] @ hook_log s\<rparr>"
          using lg None by (simp add: s2_def log_hook_def)
        have q2: "tab_quiet s s2"
          unfolding s2 by (rule hook_quiet)
        show ?thesis
        proof (cases "map_free_record (cap_tables s2 ti)")
          case no_rec: None
          then have "r = Err ETABLEFULL" "s' = s2"
            using cr3 None mp res by (simp_all add: cap_map_def ti Ok y s2_def [symmetric])
          then show ?thesis
            using quiet_keeps [OF q2 inv] unfolding maps_window_def Let_def by auto
        next
          case (Some i)
          let ?f = "\<lambda>m :: CapMap. m\<lparr>mp_obj_id := ob, mp_cap_slot := idx, mp_npages := u16 len, mp_vaddr := va, mp_active := True\<rparr>"
          have r: "r = Ok ()" "s' = upd_map ti i ?f s2"
            using cr3 None mp Some res by (simp_all add: cap_map_def ti Ok y s2_def [symmetric])
          note k = quiet_keeps [OF tab_quiet_trans [OF q2 upd_map_quiet] inv, of ti i ?f]
          have "hook_log s' = ArchTlbFlush # map_trace ?cr3 va ?pa flags [0..<len] @ hook_log s"
            unfolding r by (simp add: s2)
          then show ?thesis
            using k(1-3) at ob ck(3-7,10,11) unfolding maps_window_def Let_def r by auto
        qed
      qed
    qed
  qed
qed

lemma map_maps_window:
  assumes inv: "cap_inv s" and p: "pid < 65536" and idx: "idx < CAP_TABLE_ENTRIES"
    and res: "cap_map e pid idx va flags s = (r, s')"
  shows "maps_window e pid idx va flags s r s'"
proof -
  obtain R n where rep: "cap_rep {} s R {} n"
    using inv by (auto simp: cap_inv_def)
  obtain oti s1 where i1: "cap_table_index pid s = (oti, s1)"
    by fastforce
  show ?thesis
  proof (cases oti)
    case None
    then show ?thesis
      using res i1 cap_table_index_None [of pid s s1] inv by (auto simp: cap_map_def maps_window_def Let_def)
  next
    case (Some ti)
    note b = cap_rep_bind [OF rep i1 [unfolded Some] p]
    have same: "queues s1 = queues s" "cap_objects s1 = cap_objects s" "hook_log s1 = hook_log s"
      by (subst b(4), simp add: queues_def fun_eq_iff)+
    show ?thesis
      using map_bound [OF b(1,2) idx i1 [unfolded Some] res] unfolding maps_window_def b(3) same .
  qed
qed

section \<open>Windows stay apart\<close>

lemma maps_apart_cong: "t_maps t' = t_maps t \<Longrightarrow> maps_apart t' = maps_apart t"
  by (simp add: maps_apart_def)

lemma maps_apart_add:
  assumes "maps_apart t" and "\<not> cap_maps_overlap t ob va len" and "len < 65536"
  shows "maps_apart (t\<lparr>t_maps := (t_maps t)(i := (t_maps t i)\<lparr>mp_obj_id := ob, mp_cap_slot := idx, mp_npages := u16 len,
    mp_vaddr := va, mp_active := True\<rparr>)\<rparr>)"
proof -
  let ?t = "(t_maps t)(i := (t_maps t i)\<lparr>mp_obj_id := ob, mp_cap_slot := idx, mp_npages := u16 len, mp_vaddr := va, mp_active := True\<rparr>)"
  have "window (t_maps t j) \<inter> {a. va \<le> a \<and> a < page_at va len} = {}"
    if "j < CAP_MAP_MAX" "mp_active (t_maps t j)" "mp_obj_id (t_maps t j) \<noteq> ob" for j
    using no_overlap_window [OF assms(2) that] .
  then have new: "window (t_maps t j) \<inter> window (?t i) = {}" if "j < CAP_MAP_MAX" "mp_active (t_maps t j)" "mp_obj_id (t_maps t j) \<noteq> ob" for j
    using that assms(3) by (simp add: window_def)
  show ?thesis
    unfolding maps_apart_def
  proof (intro allI impI)
    fix j k
    let ?u = "t_maps (t\<lparr>t_maps := ?t\<rparr>)"
    assume j: "j < CAP_MAP_MAX" "k < CAP_MAP_MAX"
      and a: "mp_active (?u j) \<and> mp_active (?u k) \<and> mp_obj_id (?u j) \<noteq> mp_obj_id (?u k)"
    show "window (?u j) \<inter> window (?u k) = {}"
    proof (cases "j = i \<or> k = i")
      case True
      then show ?thesis
        using a j new [of j] new [of k] by (auto split: if_splits)
    next
      case False
      then show ?thesis
        using assms(1) a j unfolding maps_apart_def by simp
    qed
  qed
qed

lemma maps_apart_drop:
  "maps_apart t \<Longrightarrow> maps_apart (t\<lparr>t_maps := (t_maps t)(i := (t_maps t i)\<lparr>mp_active := False\<rparr>)\<rparr>)"
  by (auto simp: maps_apart_def)

lemma map_index_maps:
  "cap_table_index pid s = (oti, s1) \<Longrightarrow> t_maps (cap_tables s1 j) = t_maps (cap_tables s j)"
  by (auto simp: cap_table_index_def upd_table_def split: if_splits option.splits)

lemma map_keeps_apart:
  assumes ok: "\<And>j. maps_apart (cap_tables s j)" and res: "cap_map e pid idx va flags s = (r, s')"
  shows "maps_apart (cap_tables s' j)"
proof -
  obtain oti s1 where i1: "cap_table_index pid s = (oti, s1)"
    by fastforce
  have ok1: "maps_apart (cap_tables s1 j)" for j
    using ok [of j] maps_apart_cong [OF map_index_maps [OF i1]] by simp
  show ?thesis
  proof (cases "\<exists>ti ob off len. oti = Some ti \<and> map_check ti idx va flags s1 = Ok (ob, off, len)")
    case False
    then have "s' = s1"
      using res i1 by (auto simp: cap_map_def split: option.splits res.splits)
    with ok1 show ?thesis
      by simp
  next
    case True
    then obtain ti ob off len where ti: "oti = Some ti" and ck: "map_check ti idx va flags s1 = Ok (ob, off, len)"
      by blast
    obtain pr s2 where mp: "map_pages e (e_proc_cr3 e pid) va (page_at (o_phys_base (cap_objects s1 ob)) off) flags 0 len s1 = (pr, s2)"
      by fastforce
    have t2: "cap_tables s2 = cap_tables s1"
      using map_pages_log [OF mp] by (auto split: option.splits)
    have "cap_tables s' = cap_tables s1 \<or> (\<exists>i. cap_tables s' = (cap_tables s1)(ti := (cap_tables s1 ti)\<lparr>t_maps :=
        (t_maps (cap_tables s1 ti))(i := (t_maps (cap_tables s1 ti) i)\<lparr>mp_obj_id := ob, mp_cap_slot := idx, mp_npages := u16 len,
          mp_vaddr := va, mp_active := True\<rparr>)\<rparr>))"
      using res i1 ti ck mp t2
      by (auto simp: cap_map_def Let_def upd_map_def upd_table_def log_hook_def split: option.splits if_splits)
    moreover have "len < 65536"
      using map_check_Ok(7) [OF ck] cap_word_len_bound [of "slot_word s1 ti idx"] by simp
    ultimately show ?thesis
      using ok1 maps_apart_add [OF ok1 map_check_Ok(12) [OF ck]] by auto
  qed
qed

lemma unmap_form:
  assumes "cap_table_index pid s = (oti, s1)" and "cap_unmap e pid idx va s = (r, s')"
  shows "s' = s1 \<or> (\<exists>i L. oti \<noteq> None \<and> s' = upd_map (the oti) i (\<lambda>m. m\<lparr>mp_active := False\<rparr>) (s1\<lparr>hook_log := L\<rparr>))"
  using assms by (auto simp: cap_unmap_def Let_def log_hook_def unmap_pages_log split: option.splits if_splits)

lemma unmap_keeps_apart:
  assumes ok: "\<And>j. maps_apart (cap_tables s j)" and res: "cap_unmap e pid idx va s = (r, s')"
  shows "maps_apart (cap_tables s' j)"
proof -
  obtain oti s1 where i1: "cap_table_index pid s = (oti, s1)"
    by fastforce
  have ok1: "maps_apart (cap_tables s1 j)" for j
    using ok [of j] maps_apart_cong [OF map_index_maps [OF i1]] by simp
  have "s' = s1 \<or> (\<exists>ti i L. s' = upd_map ti i (\<lambda>m. m\<lparr>mp_active := False\<rparr>) (s1\<lparr>hook_log := L\<rparr>))"
    using unmap_form [OF i1 res] by blast
  then show ?thesis
    using ok1 maps_apart_drop [OF ok1] by (auto simp: upd_map_def upd_table_def)
qed

lemma unmap_keeps:
  assumes inv: "cap_inv s" and p: "pid < 65536" and res: "cap_unmap e pid idx va s = (r, s')"
  shows "cap_inv s'" and "cap_at s' = cap_at s" and "queues s' = queues s"
proof -
  obtain R n where rep: "cap_rep {} s R {} n"
    using inv by (auto simp: cap_inv_def)
  obtain oti s1 where i1: "cap_table_index pid s = (oti, s1)"
    by fastforce
  have "cap_inv s' \<and> cap_at s' = cap_at s \<and> queues s' = queues s"
  proof (cases oti)
    case None
    then show ?thesis
      using res i1 cap_table_index_None [of pid s s1] inv by (auto simp: cap_unmap_def)
  next
    case (Some ti)
    note b = cap_rep_bind [OF rep i1 [unfolded Some] p]
    have same: "queues s1 = queues s"
      by (subst b(4)) (simp add: queues_def fun_eq_iff)
    have inv1: "cap_inv s1"
      using b(1) unfolding cap_inv_def by blast
    have "tab_quiet s1 s'"
      using unmap_form [OF i1 res] tab_quiet_refl tab_quiet_trans [OF hook_quiet upd_map_quiet] by blast
    then show ?thesis
      using quiet_keeps [OF _ inv1] by (simp add: b(3) same)
  qed
  then show "cap_inv s'" "cap_at s' = cap_at s" "queues s' = queues s"
    by blast+
qed

end
