(* ===== verification/Cap_Dead.thy ===== *)
theory Cap_Dead
  imports Cap_Take Cap_Sever Cap_Window
begin

text \<open>
  Object identifiers are never reused: an object that has died stays dead, whatever operation
  runs next. Together with the contracts of the operations this makes revocation
  permanent.
\<close>

definition dead :: "nat \<Rightarrow> cap_state \<Rightarrow> bool" where
  "dead ob s \<longleftrightarrow> ob < cap_obj_next s \<and> \<not> o_active (cap_objects s ob)"

section \<open>Primitives\<close>

lemma dead_frame [simp]:
  "dead ob (upd_table ti tf s) = dead ob s" "dead ob (set_slot ti i w s) = dead ob s" "dead ob (cap_slot_push ti i s) = dead ob s"
  "dead ob (upd_map ti i mf s) = dead ob s" "dead ob (upd_channel c cf s) = dead ob s" "dead ob (upd_msg c d e f s) = dead ob s"
  "dead ob (log_hook h s) = dead ob s" "dead ob (s\<lparr>cap_payload := p\<rparr>) = dead ob s" "dead ob (s\<lparr>cap_arena := a\<rparr>) = dead ob s"
  "dead ob (s\<lparr>hook_log := L\<rparr>) = dead ob s" "dead ob (s\<lparr>g_irq_chan := ic, g_irq_budget := ib\<rparr>) = dead ob s"
  "dead ob (s\<lparr>cap_table_pid := tp\<rparr>) = dead ob s" "dead ob (cap_table_freelist_init ti s) = dead ob s"
  by (simp_all add: dead_def upd_table_def set_slot_def cap_slot_push_def upd_map_def upd_channel_def upd_msg_def log_hook_def
      cap_table_freelist_init_def)

lemma dead_holder: "holder_only s s' \<Longrightarrow> dead ob s' = dead ob s"
  by (simp add: dead_def holder_only_tables holder_only_objects)

lemma dead_holders [simp]:
  "dead ob (cap_holder_remove x k p r s) = dead ob s" "dead ob (cap_holder_link h x s) = dead ob s" "dead ob (cap_holder_free h s) = dead ob s"
  by (rule dead_holder, rule cap_holder_remove_only cap_holder_link_only cap_holder_free_only)+

lemma dead_index: "cap_table_index p s = (oti, s') \<Longrightarrow> dead ob s' = dead ob s"
  by (auto simp: cap_table_index_def split: if_splits option.splits)

lemma dead_pop: "cap_slot_pop ti s = Some (i, s') \<Longrightarrow> dead ob s' = dead ob s"
  by (auto simp: cap_slot_pop_def split: option.splits)

lemma dead_holder_alloc: "cap_holder_alloc x k p r d s = Some (h, s') \<Longrightarrow> dead ob s' = dead ob s"
  by (rule dead_holder [OF cap_holder_alloc_only])

lemma dead_take: "cap_chan_id_take s = (c, s') \<Longrightarrow> dead ob s' = dead ob s"
  by (auto simp: cap_chan_id_take_def dead_def split: if_splits)

lemma dead_insert: "cap_holder_insert x k p r d s = Some s' \<Longrightarrow> dead ob s' = dead ob s"
  by (auto simp: cap_holder_insert_def dead_holder_alloc split: option.splits)

lemma dead_stage: "stage_payload pl s = (pidx, s') \<Longrightarrow> dead ob s' = dead ob s"
  by (subst stage_payload_state) simp_all

lemmas dead_results = dead_index dead_pop dead_holder_alloc dead_take dead_insert dead_stage

lemma dead_id_put [simp]: "dead ob (cap_chan_id_put c s) = dead ob s" "dead ob (irq_unbind_chan c s) = dead ob s"
  by (simp_all add: dead_def cap_chan_id_put_def irq_unbind_chan_def)

lemma dead_upd_object: "(\<And>x. o_active (f x) \<Longrightarrow> o_active x) \<Longrightarrow> dead ob s \<Longrightarrow> dead ob (upd_object i f s)"
  by (auto simp: dead_def upd_object_def)

lemma dead_destroy: "dead ob s \<Longrightarrow> dead ob (cap_object_destroy i s)"
  by (auto simp: cap_object_destroy_def Let_def intro!: dead_upd_object)

lemma dead_free: "dead ob s \<Longrightarrow> dead ob (fst (cap_object_free_resources i s))"
  by (auto simp: cap_object_free_resources_def Let_def split: prod.splits)

lemma dead_reap: "dead ob s \<Longrightarrow> dead ob (object_reap i s)"
  by (simp add: object_reap_def dead_destroy dead_free)

lemma dead_alloc: "cap_object_alloc k s = Some (i, s') \<Longrightarrow> dead ob s \<Longrightarrow> dead ob s'"
  by (auto simp: cap_object_alloc_def dead_def upd_object_def Let_def split: if_splits)

lemma dead_fold: "(\<And>x s. dead ob s \<Longrightarrow> dead ob (f x s)) \<Longrightarrow> dead ob s \<Longrightarrow> dead ob (fold f xs s)"
  by (induction xs arbitrary: s) auto

lemmas dead_keeps = dead_destroy dead_free dead_reap dead_alloc

section \<open>Operations\<close>

lemma dead_mint: "mint_slot ti x p w s = (r, s') \<Longrightarrow> dead ob s' = dead ob s"
  by (auto simp: mint_slot_def dead_results split: option.splits)

lemma dead_create_mem: "cap_create_mem e pid base np perm s = (r, s') \<Longrightarrow> dead ob s \<Longrightarrow> dead ob s'"
  by (auto simp: cap_create_mem_def Let_def dead_results dead_mint
      intro!: dead_destroy dead_upd_object split: option.splits prod.splits res.splits dest!: dead_mint dead_results dead_alloc)

lemma dead_arena_alloc: "cap_arena_alloc pid np perm s = (r, s') \<Longrightarrow> dead ob s \<Longrightarrow> dead ob s'"
  by (auto simp: cap_arena_alloc_def Let_def dead_results dead_mint
      intro!: dead_destroy dead_upd_object split: if_splits option.splits prod.splits res.splits dest!: dead_mint dead_results dead_alloc)

lemma dead_stage_holders: "chan_stage_holders x p fp s = (hs, s') \<Longrightarrow> dead ob s' = dead ob s"
  by (auto simp: chan_stage_holders_def dead_results split: option.splits)

lemma dead_two_slots: "chan_two_slots ti x s = (sl, s') \<Longrightarrow> dead ob s' = dead ob s"
  by (auto simp: chan_two_slots_def dead_results split: option.splits)

lemma dead_four_slots: "chan_four_slots ti x s = (sl, s') \<Longrightarrow> dead ob s' = dead ob s"
  by (auto simp: chan_four_slots_def dead_results split: option.splits)

lemma dead_chan_slots: "chan_slots fti ti x s = (sl, s') \<Longrightarrow> dead ob s' = dead ob s"
  by (auto simp: chan_slots_def dead_four_slots dead_two_slots split: option.splits prod.splits)

lemma dead_upd_holder [simp]: "dead ob (upd_holder h f s) = dead ob s"
  by (simp add: dead_def upd_holder_def)

lemma dead_provision: "chan_provision fti ti x c p fp s = (r, s') \<Longrightarrow> dead ob s \<Longrightarrow> dead ob s'"
  by (auto simp: chan_provision_def Let_def chan_rollback_def chan_stitch_def
      intro!: dead_destroy split: option.splits prod.splits dest!: dead_stage_holders dead_chan_slots)

lemma dead_chan_create: "cap_chan_create pid fp s = (r, s') \<Longrightarrow> dead ob s \<Longrightarrow> dead ob s'"
  by (auto simp: cap_chan_create_def Let_def
      intro!: dead_upd_object elim!: dead_provision split: option.splits prod.splits if_splits dest!: dead_results dead_alloc)

lemma dead_send_move: "send_move pid ti i c d e x w s = (r, s') \<Longrightarrow> dead ob s' = dead ob s"
  by (auto simp: send_move_def Let_def dead_results split: option.splits if_splits)

lemma dead_send: "cap_send pid chw i ck s = (r, s') \<Longrightarrow> dead ob s \<Longrightarrow> dead ob s'"
  by (auto simp: cap_send_def send_queue_def send_finish_def Let_def
      split: option.splits prod.splits if_splits res.splits dest!: dead_results dead_send_move)

lemma dead_drain_one: "dead ob s \<Longrightarrow> dead ob (msg_drain_one c d e i s)"
  by (simp add: msg_drain_one_def Let_def dead_reap split: option.splits)

lemma dead_release [simp]: "dead ob (recv_release c d e s) = dead ob s"
  by (simp add: recv_release_def Let_def)

lemma dead_drain_tail: "dead ob s \<Longrightarrow> dead ob (cap_msg_drain_tail c d e s)"
  unfolding cap_msg_drain_tail_def by (rule dead_fold [OF dead_drain_one])

lemma dead_recv_move: "recv_move p ti c d e x s = (r, s') \<Longrightarrow> dead ob s' = dead ob s"
  by (auto simp: recv_move_def Let_def dead_results split: option.splits)

lemma dead_recv: "cap_recv pid chr blk s = (r, ck, slot, s') \<Longrightarrow> dead ob s \<Longrightarrow> dead ob s'"
  by (auto simp: cap_recv_def recv_front_def recv_skip_def Let_def
      intro!: dead_drain_tail split: option.splits prod.splits if_splits res.splits dest!: dead_results dead_recv_move)

lemma dead_msg_move: "msg_move p ti c d e i its s = (k, fl, s') \<Longrightarrow> dead ob s' = dead ob s"
  by (induction p ti c d e i its s rule: msg_move.induct) (auto simp: Let_def dead_results split: option.splits if_splits)

lemma dead_unmove [simp]: "dead ob (msg_unmove_one p ti c d e its i s) = dead ob s"
  by (auto simp: msg_unmove_one_def Let_def dead_results split: option.splits prod.splits)

lemma dead_payload_drop [simp]: "dead ob (payload_drop i s) = dead ob s"
  by (simp add: payload_drop_def)

lemma dead_send_msg: "cap_send_msg pid chw pl ds tag fl s = (r, s') \<Longrightarrow> dead ob s \<Longrightarrow> dead ob s'"
  by (auto simp: cap_send_msg_def send_msg_queue_def msg_rollback_def msg_publish_def Let_def
      intro!: dead_fold split: option.splits prod.splits if_splits res.splits bool.splits dest!: dead_results dead_msg_move)

lemma dead_grant [simp]: "dead ob (grant_map e p x m i s) = dead ob s"
  by (simp add: grant_map_def split: prod.splits)

lemma dead_install: "msg_install e p ti c d en js outs s = (r, outs', s') \<Longrightarrow> dead ob s' = dead ob s"
  by (induction e p ti c d en js outs s rule: msg_install.induct) (auto simp: Let_def dead_results split: option.splits if_splits)

lemma dead_consume [simp]: "dead ob (msg_consume c d e s) = dead ob s"
  by (simp add: msg_consume_def Let_def)

lemma dead_recv_msg: "cap_recv_msg e pid chr bl mc s = (r, out, s') \<Longrightarrow> dead ob s \<Longrightarrow> dead ob s'"
  by (auto simp: cap_recv_msg_def recv_msg_front_def Let_def
      intro!: dead_fold dead_drain_one split: option.splits prod.splits if_splits res.splits dest!: dead_results dead_install)

lemma dead_arena_free: "cap_arena_free pid i s = (r, s') \<Longrightarrow> dead ob s \<Longrightarrow> dead ob s'"
  by (auto simp: cap_arena_free_def Let_def intro!: dead_reap split: option.splits prod.splits if_splits dest!: dead_results)

lemma dead_revoke:
  assumes "cap_inv s" and "pid < 65536" and "i < CAP_TABLE_ENTRIES" and "cap_revoke e pid i s = (r, s')" and "dead ob s"
  shows "dead ob s'"
  using revoke_severs [OF assms(1-4)] assms(5) by (auto simp: severs_def dead_def split: if_splits)

lemma dead_map_pages: "map_pages e cr3 va pa fl i n s = (r, s') \<Longrightarrow> dead ob s' = dead ob s"
  using map_pages_log [of e cr3 va pa fl i n s r s'] by (auto split: option.splits)

lemma dead_map: "cap_map e pid i va fl s = (r, s') \<Longrightarrow> dead ob s \<Longrightarrow> dead ob s'"
  by (auto simp: cap_map_def Let_def split: option.splits prod.splits if_splits res.splits dest!: dead_results dead_map_pages)

lemma dead_unmap: "cap_unmap e pid i va s = (r, s') \<Longrightarrow> dead ob s \<Longrightarrow> dead ob s'"
  by (auto simp: cap_unmap_def Let_def unmap_pages_log split: option.splits prod.splits if_splits dest!: dead_results)

lemma dead_drain_queue: "dead ob s \<Longrightarrow> dead ob (cap_drain_queue c d s)"
proof -
  have "dead ob s \<Longrightarrow> dead ob (drain_rounds n c d s)" for n
    by (induction n arbitrary: s) (simp_all add: drain_msg_def Let_def dead_fold [OF dead_drain_one])
  then show "dead ob s \<Longrightarrow> dead ob (cap_drain_queue c d s)"
    by (simp add: cap_drain_queue_def)
qed

lemma dead_predrain: "dead ob s \<Longrightarrow> dead ob (teardown_predrain p x s)"
  by (simp add: teardown_predrain_def Let_def dead_drain_queue split: option.splits)

lemma dead_teardown_slots: "dead ob (snd x) \<Longrightarrow> dead ob (snd (fold (teardown_slot p ti) js x))"
proof (induction js arbitrary: x)
  case (Cons j js)
  have "dead ob (snd (teardown_slot p ti j x))"
    using Cons.prems by (auto simp: teardown_slot_def Let_def dead_reap split: prod.splits option.splits)
  then show ?case
    using Cons.IH by simp
qed simp

lemma dead_unmap_record [simp]: "dead ob (unmap_record cr3 ti i s) = dead ob s"
  by (simp add: unmap_record_def Let_def unmap_pages_log)

lemma dead_close: "dead ob s \<Longrightarrow> dead ob (teardown_close p c s)"
  by (simp add: teardown_close_def Let_def)

lemma dead_irq: "dead ob s \<Longrightarrow> dead ob (teardown_irq p v s)"
  by (simp add: teardown_irq_def)

lemma dead_teardown: "dead ob s \<Longrightarrow> dead ob (table_teardown e pid s)"
proof (cases "cap_table_find pid s")
  case (Some ti)
  assume d: "dead ob s"
  define s1 where "s1 = fold (teardown_predrain pid) (teardown_chans ti s) s"
  obtain ds s2 where s2: "fold (teardown_slot pid ti) (teardown_slots ti s) ([], s1) = (ds, s2)"
    by fastforce
  have "dead ob s1"
    unfolding s1_def by (rule dead_fold [OF dead_predrain d])
  then have "dead ob s2"
    using dead_teardown_slots [of ob "([], s1)" pid ti "teardown_slots ti s"] by (simp add: s2)
  then have "dead ob (teardown_unbind ti (teardown_unmap (e_proc_cr3 e pid) ti
      (fold (\<lambda>c s. cap_drain_queue c 1 (cap_drain_queue c 0 s)) ds s2)))"
    unfolding teardown_unbind_def teardown_unmap_def dead_frame
    by (intro dead_fold) (simp_all add: dead_drain_queue)
  then show ?thesis
    by (simp add: table_teardown_def Some Let_def s1_def [symmetric] s2 dead_fold [OF dead_close] dead_fold [OF dead_irq])
qed (simp add: table_teardown_def)

end
