(* ===== verification/Cap_Run.thy ===== *)
theory Cap_Run
  imports Cap_Batch Cap_Sever
begin

text \<open>
  Sample runs: the state a machine boots into and a few states reached from it, with closed
  forms from which they are evaluated. They show that the contracts apply to states
  the program does reach.
\<close>

definition boot_env :: cap_env where
  "boot_env = \<lparr>e_proc_cr3 = (\<lambda>pid. of_nat pid * 4096), e_map_page = (\<lambda>_ _ _ _. 0),
     e_kernel_image_end = 2097152, e_arena_carve = 1073741824\<rparr>"

definition boot :: cap_state where
  "boot = cap_init boot_env zero_state"

definition boot_slot :: "nat \<Rightarrow> 64 word" where
  "boot_slot r = (if r < CAP_TABLE_ENTRIES then free_slot_word (if Suc r = CAP_TABLE_ENTRIES then CAP_FREELIST_END else Suc r) else 0)"

definition boot_table :: "nat \<Rightarrow> CapTable" where
  "boot_table i = \<lparr>t_pid = 0, t_freelist_head = 0, t_slots = (\<lambda>r. if i < CAP_TABLE_MAX then boot_slot r else 0),
     t_maps = (\<lambda>_. \<lparr>mp_obj_id = 0, mp_cap_slot = 0, mp_npages = 0, mp_vaddr = 0, mp_active = False\<rparr>)\<rparr>"

definition boot_holder :: "nat \<Rightarrow> CapHolder" where
  "boot_holder i = \<lparr>h_obj_id = 0, h_next = (if i < CAP_HOLDER_MAX then if i = CAP_HOLDER_MAX - 1 then CAP_FREELIST_END else u16 (i + 1) else 0),
     h_prev = 0, h_pid = 0, h_ref = 0, h_kind = HOLDER_SLOT, h_qdir = 0, h_active = False\<rparr>"

lemma boot_eq [code]:
  "boot = zero_state\<lparr>
     cap_tables := boot_table, cap_holders := boot_holder, cap_holder_free_head := 0,
     g_irq_chan := (\<lambda>v. if v < CAP_IRQ_VECTORS then CAP_NONE else 0),
     cap_arena := \<lparr>ar_base = 1073741824, ar_bitmap = (\<lambda>_. 0), ar_owner = (\<lambda>_. 0), ar_free_count = of_nat CAP_ARENA_FRAMES\<rparr>,
     cap_payload := \<lparr>pp_data = (\<lambda>_ _. 0), pp_next = (\<lambda>i. if i < CAP_MSG_PAYLOAD_POOL - 1 then u16 (i + 1)
                       else if i = CAP_MSG_PAYLOAD_POOL - 1 then CAP_FREELIST_END else 0), pp_free_head = 0\<rparr>\<rparr>"
  by (auto simp: boot_def cap_init_def Let_def table_init_fold zero_state_def boot_env_def boot_table_def boot_slot_def boot_holder_def
      cap_arena_init_def cap_msg_payload_init_def table_freelist_init_def table_freelist_init_slots fun_eq_iff limits cong: if_cong)

lemma boot_inv: "cap_inv boot"
  unfolding boot_def by (rule cap_init_inv)

section \<open>A memory capability\<close>

lemma run_nums: "(2 :: nat) = Suc 1" "(3 :: nat) = Suc 2" "(4 :: nat) = Suc 3" "(5 :: nat) = Suc 4" "(6 :: nat) = Suc 5"
  by simp_all

definition bind_run :: "nat \<Rightarrow> nat \<Rightarrow> cap_state \<Rightarrow> cap_state" where
  "bind_run pid ti s = upd_table ti (\<lambda>t. t\<lparr>t_pid := pid\<rparr>) (s\<lparr>cap_table_pid := (cap_table_pid s)(ti := pid)\<rparr>)"

lemma boot_fields [simp]:
  "cap_table_pid boot = (\<lambda>_. 0)" "cap_obj_next boot = 0" "cap_holder_free_head boot = 0" "cap_tables boot = boot_table"
  "cap_holders boot = boot_holder" "cap_chan_next boot = 0" "cap_chan_recycled_n boot = 0" "ar_base (cap_arena boot) = 1073741824"
  "o_active (cap_objects boot i) = False"
  by (simp_all add: boot_eq zero_state_def)

lemma boot_bind: "cap_table_index 7 boot = (Some 1, bind_run 7 1 boot)"
  by (simp add: cap_table_index_def find_upt_step limits bind_run_def)

lemma boot_check: "create_mem_check boot_env 0x400000 2 0xB boot = None"
  by (simp add: create_mem_check_def boot_env_def perm_ok_def mem_overlap_def list_ex_iff limits)

definition mem_word :: "64 word" where "mem_word = cap_word_make CAP_TYPE_MEM 0 0xB 0 2"

lemma boot_rows:
  "boot_table (Suc 0) = \<lparr>t_pid = 0, t_freelist_head = 0, t_slots = boot_slot, t_maps = t_maps (boot_table 0)\<rparr>"
  "boot_table 2 = \<lparr>t_pid = 0, t_freelist_head = 0, t_slots = boot_slot, t_maps = t_maps (boot_table 0)\<rparr>"
  by (simp_all add: boot_table_def limits)

lemma boot_link: "r < 511 \<Longrightarrow> cap_word_obj (boot_slot r) = Suc r"
  by (simp add: boot_slot_def limits word_fields)

lemma boot_node: "i < 8191 \<Longrightarrow> boot_holder i = \<lparr>h_obj_id = 0, h_next = Suc i, h_prev = 0, h_pid = 0, h_ref = 0,
    h_kind = HOLDER_SLOT, h_qdir = 0, h_active = False\<rparr>"
  by (simp add: boot_holder_def limits)

definition node :: "nat \<Rightarrow> nat \<Rightarrow> nat \<Rightarrow> nat \<Rightarrow> nat \<Rightarrow> CapHolder" where
  "node ob nxt prv pid ref = \<lparr>h_obj_id = ob, h_next = nxt, h_prev = prv, h_pid = pid, h_ref = ref, h_kind = HOLDER_SLOT,
     h_qdir = 0, h_active = True\<rparr>"

definition live :: "nat \<Rightarrow> obj_kind \<Rightarrow> nat \<Rightarrow> nat \<Rightarrow> 32 word \<Rightarrow> 64 word \<Rightarrow> nat \<Rightarrow> nat \<Rightarrow> CapObject" where
  "live i kind h rc perms base np c = \<lparr>o_id = i, o_kind = kind, o_revoking = False, o_active = True, o_holder_head = h,
     o_refcount = rc, o_max_perms = perms, o_phys_base = base, o_npages = np, o_chan_id = c\<rparr>"

definition mem_run :: cap_state where
  "mem_run = boot\<lparr>
     cap_tables := boot_table(Suc 0 := \<lparr>t_pid = 7, t_freelist_head = Suc 0, t_slots = boot_slot(0 := mem_word), t_maps = t_maps (boot_table 0)\<rparr>),
     cap_table_pid := (\<lambda>_. 0)(Suc 0 := 7),
     cap_objects := (cap_objects boot)(0 := live 0 KIND_MEM 0 1 0xB 0x400000 2 CAP_OBJ_CHAN_NONE),
     cap_obj_next := Suc 0,
     cap_holders := boot_holder(0 := node 0 CAP_FREELIST_END CAP_FREELIST_END 7 0),
     cap_holder_free_head := Suc 0\<rparr>"

lemmas run_pool = cap_object_alloc_def cap_slot_pop_def slot_pop_def cap_holder_insert_def cap_holder_alloc_def holder_pop_def
  cap_holder_link_def
lemmas run_upd = upd_table_def upd_object_def upd_holder_def upd_channel_def set_slot_def Let_def
lemmas run_boot = boot_rows boot_link boot_node limits node_def live_def

lemma create_run: "cap_create_mem boot_env 7 0x400000 2 0xB boot = (Ok 0, mem_run)"
  by (simp add: cap_create_mem_def boot_check boot_bind [simplified] mint_slot_def bind_run_def run_pool run_upd run_boot mem_word_def mem_run_def)
    (simp add: boot_eq zero_state_def)

lemma mem_run_fields [simp]:
  "cap_tables mem_run = boot_table(Suc 0 := \<lparr>t_pid = 7, t_freelist_head = Suc 0, t_slots = boot_slot(0 := mem_word), t_maps = t_maps (boot_table 0)\<rparr>)"
  "cap_table_pid mem_run = (\<lambda>_. 0)(Suc 0 := 7)" "cap_obj_next mem_run = Suc 0" "cap_holder_free_head mem_run = Suc 0"
  "cap_objects mem_run = (cap_objects boot)(0 := live 0 KIND_MEM 0 1 0xB 0x400000 2 CAP_OBJ_CHAN_NONE)"
  "cap_holders mem_run = boot_holder(0 := node 0 CAP_FREELIST_END CAP_FREELIST_END 7 0)"
  "cap_chan_next mem_run = 0" "cap_chan_recycled_n mem_run = 0" "cap_channels mem_run = (\<lambda>_. zero_channel)"
  by (simp_all add: mem_run_def) (simp add: boot_eq zero_state_def)

section \<open>A channel\<close>

text \<open>The steps of \<^verbatim>\<open>cap_chan_create\<close> one by one.\<close>

definition chan_run1 :: cap_state where
  "chan_run1 = mem_run\<lparr>
     cap_tables := (cap_tables mem_run)(2 := \<lparr>t_pid = 8, t_freelist_head = 0, t_slots = boot_slot, t_maps = t_maps (boot_table 0)\<rparr>),
     cap_table_pid := (\<lambda>_. 0)(Suc 0 := 7, 2 := 8),
     cap_objects := (cap_objects mem_run)(Suc 0 := live 1 KIND_CHAN CAP_FREELIST_END 0 0 0 0 0),
     cap_obj_next := 2,
     cap_channels := (\<lambda>_. zero_channel)(0 := chan_reset 7 8 zero_channel),
     cap_chan_next := Suc 0\<rparr>"

lemma run_bind:
  "cap_table_index 7 mem_run = (Some (Suc 0), mem_run)" "cap_table_index 8 mem_run = (Some 2, bind_run 8 2 mem_run)"
  by (simp_all add: cap_table_index_def find_upt_step limits bind_run_def numeral_2_eq_2)

lemma chan_run_body: "cap_chan_create 7 8 mem_run = chan_provision (Some 2) (Suc 0) (Suc 0) 0 7 8 chan_run1"
  by (simp add: cap_chan_create_def run_bind, simp add: bind_run_def run_upd cap_chan_id_take_def cap_object_alloc_def limits boot_rows,
      simp add: chan_run1_def live_def, simp add: mem_run_def boot_eq zero_state_def numeral_2_eq_2)

lemma chan_run1_fields [simp]:
  "cap_tables chan_run1 = (cap_tables mem_run)(2 := \<lparr>t_pid = 8, t_freelist_head = 0, t_slots = boot_slot, t_maps = t_maps (boot_table 0)\<rparr>)"
  "cap_holder_free_head chan_run1 = Suc 0" "cap_holders chan_run1 = boot_holder(0 := node 0 CAP_FREELIST_END CAP_FREELIST_END 7 0)"
  "cap_objects chan_run1 = (cap_objects mem_run)(Suc 0 := live 1 KIND_CHAN CAP_FREELIST_END 0 0 0 0 0)"
  by (simp_all add: chan_run1_def)

definition chan_run2 :: cap_state where
  "chan_run2 = chan_run1\<lparr>
     cap_holder_free_head := 5,
     cap_holders := (cap_holders chan_run1)(Suc 0 := node 1 CAP_FREELIST_END CAP_FREELIST_END 7 0, 2 := node 1 CAP_FREELIST_END CAP_FREELIST_END 7 1,
       3 := node 1 CAP_FREELIST_END CAP_FREELIST_END 8 2, 4 := node 1 CAP_FREELIST_END CAP_FREELIST_END 8 3)\<rparr>"

lemma stage_run: "chan_stage_holders (Suc 0) 7 8 chan_run1 = (Some (1, 2, 3, 4), chan_run2)"
  by (simp add: chan_stage_holders_def cap_holder_alloc_def holder_pop_def run_upd boot_node node_def chan_run2_def)
    (simp add: run_nums)

lemma chan_run2_fields [simp]:
  "cap_tables chan_run2 = cap_tables chan_run1" "cap_objects chan_run2 = cap_objects chan_run1"
  "cap_holders chan_run2 = (cap_holders chan_run1)(Suc 0 := node 1 CAP_FREELIST_END CAP_FREELIST_END 7 0, 2 := node 1 CAP_FREELIST_END CAP_FREELIST_END 7 1,
       3 := node 1 CAP_FREELIST_END CAP_FREELIST_END 8 2, 4 := node 1 CAP_FREELIST_END CAP_FREELIST_END 8 3)"
  by (simp_all add: chan_run2_def)

definition chan_run3 :: cap_state where
  "chan_run3 = chan_run2\<lparr>
     cap_holders := (cap_holders chan_run1)(Suc 0 := node 1 CAP_FREELIST_END 2 7 0, 2 := node 1 1 3 7 1,
       4 := node 1 3 CAP_FREELIST_END 8 3, 3 := node 1 2 4 8 2),
     cap_objects := (cap_objects mem_run)(Suc 0 := live 1 KIND_CHAN 4 4 0 0 0 0)\<rparr>"

lemma link_run:
  "cap_holder_link 4 (Suc 0) (cap_holder_link 3 (Suc 0) (cap_holder_link 2 (Suc 0) (cap_holder_link (Suc 0) (Suc 0) chan_run2))) = chan_run3"
  by (simp add: cap_holder_link_def run_upd node_def live_def chan_run3_def) (simp add: run_nums)

lemma chan_run3_fields [simp]:
  "cap_tables chan_run3 = cap_tables chan_run1" "cap_objects chan_run3 = (cap_objects mem_run)(Suc 0 := live 1 KIND_CHAN 4 4 0 0 0 0)"
  "cap_holders chan_run3 = (cap_holders chan_run1)(Suc 0 := node 1 CAP_FREELIST_END 2 7 0, 2 := node 1 1 3 7 1,
       4 := node 1 3 CAP_FREELIST_END 8 3, 3 := node 1 2 4 8 2)"
  by (simp_all add: chan_run3_def)

definition chan_run :: cap_state where
  "chan_run = chan_run3\<lparr>
     cap_tables := boot_table(
       2 := \<lparr>t_pid = 8, t_freelist_head = 2, t_slots = boot_slot(0 := chan_r_word 1, Suc 0 := chan_w_word 1), t_maps = t_maps (boot_table 0)\<rparr>,
       Suc 0 := \<lparr>t_pid = 7, t_freelist_head = 3, t_slots = boot_slot(0 := mem_word, Suc 0 := chan_r_word 1, 2 := chan_w_word 1),
         t_maps = t_maps (boot_table 0)\<rparr>),
     cap_holders := (cap_holders chan_run1)(Suc 0 := node 1 CAP_FREELIST_END 2 7 1, 2 := node 1 1 3 7 2, 3 := node 1 2 4 8 0,
       4 := node 1 3 CAP_FREELIST_END 8 1)\<rparr>"

lemma chan_run_eq: "cap_chan_create 7 8 mem_run = (Ok (1, 2, 0, 1), chan_run)"
  by (simp add: chan_run_body chan_provision_def stage_run [simplified] link_run chan_slots_def,
      simp add: chan_two_slots_def cap_slot_pop_def slot_pop_def run_upd boot_link,
      simp add: chan_stitch_def run_upd node_def chan_run_def, simp add: run_nums)

lemma chan_run_fields [simp]:
  "cap_tables chan_run = boot_table(
       2 := \<lparr>t_pid = 8, t_freelist_head = 2, t_slots = boot_slot(0 := chan_r_word 1, Suc 0 := chan_w_word 1), t_maps = t_maps (boot_table 0)\<rparr>,
       Suc 0 := \<lparr>t_pid = 7, t_freelist_head = 3, t_slots = boot_slot(0 := mem_word, Suc 0 := chan_r_word 1, 2 := chan_w_word 1),
         t_maps = t_maps (boot_table 0)\<rparr>)"
  "cap_table_pid chan_run = (\<lambda>_. 0)(Suc 0 := 7, 2 := 8)"
  "cap_objects chan_run = (cap_objects mem_run)(Suc 0 := live 1 KIND_CHAN 4 4 0 0 0 0)"
  "cap_holders chan_run = (cap_holders chan_run1)(Suc 0 := node 1 CAP_FREELIST_END 2 7 1, 2 := node 1 1 3 7 2, 3 := node 1 2 4 8 0,
       4 := node 1 3 CAP_FREELIST_END 8 1)"
  "cap_holder_free_head chan_run = 5" "cap_channels chan_run = (\<lambda>_. zero_channel)(0 := chan_reset 7 8 zero_channel)"
  by (simp_all add: chan_run_def) (simp_all add: chan_run3_def chan_run2_def chan_run1_def)

lemma run_words:
  "cap_word_type (chan_w_word 1) = CAP_TYPE_CHAN_W" "cap_word_valid (chan_w_word 1)" "cap_word_obj (chan_w_word 1) = 1"
  "cap_word_perms (chan_w_word 1) AND CAP_PERM_SEND \<noteq> 0"
  "cap_word_type (chan_r_word 1) = CAP_TYPE_CHAN_R" "cap_word_valid (chan_r_word 1)" "cap_word_obj (chan_r_word 1) = 1"
  "cap_word_perms (chan_r_word 1) AND CAP_PERM_RECV \<noteq> 0"
  "cap_word_type mem_word = CAP_TYPE_MEM" "cap_word_valid mem_word" "cap_word_obj mem_word = 0"
  by (simp_all add: chan_w_word_def chan_r_word_def mem_word_def word_fields)

lemma holder_find_step:
  "holder_find n k p r N h = (if n = 0 \<or> h = CAP_FREELIST_END then None
     else if h_kind (N h) = k \<and> h_pid (N h) = p \<and> h_ref (N h) = r then Some h else holder_find (n - 1) k p r N (h_next (N h)))"
  by (cases n) simp_all

section \<open>A message\<close>

lemma send_run_checks:
  "cap_table_index 7 chan_run = (Some (Suc 0), chan_run)" "send_channel (Suc 0) 2 chan_run = Ok 1"
  "send_payload (Suc 0) 0 chan_run = Ok (Some (mem_word, 0))"
  subgoal by (simp add: cap_table_index_def find_upt_step limits)
  subgoal using run_words by (simp add: send_channel_def Let_def limits cap_object_get_def live_def chan_reset_def)
  subgoal using run_words by (simp add: send_payload_def Let_def limits cap_object_get_def live_def)
  done

definition send_run1 :: cap_state where
  "send_run1 = (upd_msg 0 1 0 msg_clear_caps chan_run)\<lparr>cap_holder_free_head := 6,
     cap_holders := (cap_holders chan_run)(5 := \<lparr>h_obj_id = 0, h_next = CAP_FREELIST_END, h_prev = CAP_FREELIST_END, h_pid = 0, h_ref = 0,
       h_kind = HOLDER_QUEUE, h_qdir = 1, h_active = True\<rparr>)\<rparr>"

definition send_run2 :: cap_state where
  "send_run2 = cap_holder_link 5 0 (cap_slot_push (Suc 0) 0 (set_slot (Suc 0) 0 0 (cap_holder_remove 0 HOLDER_SLOT 7 0 send_run1)))"

definition send_run :: cap_state where
  "send_run = send_finish 0 1 0 99 (upd_msg 0 1 0 (\<lambda>m. m\<lparr>m_cap_word := (m_cap_word m)(0 := mem_word), m_n_caps := 1\<rparr>) send_run2)"

lemma upd_msg_fields:
  "cap_holder_free_head (upd_msg c d e f s) = cap_holder_free_head s" "cap_holders (upd_msg c d e f s) = cap_holders s"
  "cap_objects (upd_msg c d e f s) = cap_objects s" "cap_tables (upd_msg c d e f s) = cap_tables s"
  by (simp_all add: upd_msg_def upd_channel_def)

lemma send_run_alloc:
  "cap_holder_alloc 0 HOLDER_QUEUE 0 0 1 (upd_msg 0 1 0 msg_clear_caps chan_run) = Some (5, send_run1)"
  by (simp add: cap_holder_alloc_def holder_pop_def upd_msg_fields upd_holder_def boot_node send_run1_def)

lemma send_run_eq: "cap_send 7 2 0 99 chan_run = (Ok (), send_run)"
  by (simp add: cap_send_def send_run_checks [simplified] live_def chan_reset_def,
      simp add: send_queue_def send_run_checks [simplified] Let_def chan_reset_def zero_channel_def ring_tail_def limits,
      simp add: send_move_def live_def send_run_alloc [simplified] upd_msg_fields send_run2_def send_run_def)

lemma send_run1_fields [simp]:
  "cap_tables send_run1 = cap_tables chan_run" "cap_objects send_run1 = cap_objects chan_run" "cap_holder_free_head send_run1 = 6"
  "cap_table_pid send_run1 = cap_table_pid chan_run"
  "cap_holders send_run1 = (cap_holders chan_run)(5 := \<lparr>h_obj_id = 0, h_next = CAP_FREELIST_END, h_prev = CAP_FREELIST_END, h_pid = 0, h_ref = 0,
       h_kind = HOLDER_QUEUE, h_qdir = 1, h_active = True\<rparr>)"
  by (simp_all add: send_run1_def upd_msg_fields)

lemma send_run2_fields:
  "cap_tables send_run2 2 = \<lparr>t_pid = 8, t_freelist_head = 2, t_slots = boot_slot(0 := chan_r_word 1, Suc 0 := chan_w_word 1),
     t_maps = t_maps (boot_table 0)\<rparr>"
  "cap_objects send_run2 (Suc 0) = live 1 KIND_CHAN 4 4 0 0 0 0"
  "cap_objects send_run2 0 = live 0 KIND_MEM 5 1 0xB 0x400000 2 CAP_OBJ_CHAN_NONE"
  "cap_holder_free_head send_run2 = 0" "cap_table_pid send_run2 = (\<lambda>_. 0)(Suc 0 := 7, 2 := 8)"
  "cap_channels send_run2 = cap_channels (upd_msg 0 1 0 msg_clear_caps chan_run)"
  by (simp_all add: send_run2_def cap_holder_link_def cap_slot_push_def slot_push_def cap_holder_remove_def holder_find_step holder_unlink_def
    cap_holder_free_def run_upd node_def live_def limits) (simp_all add: send_run1_def)

lemma send_run_fields:
  "cap_tables send_run = cap_tables send_run2" "cap_objects send_run = cap_objects send_run2" "cap_table_pid send_run = cap_table_pid send_run2"
  "cap_holder_free_head send_run = cap_holder_free_head send_run2"
  by (simp_all add: send_run_def send_finish_def upd_msg_def upd_channel_def log_hook_def)

lemma send_run_channel:
  "c_qdepth (cap_channels send_run 0) (Suc 0) = 1" "c_qhead (cap_channels send_run 0) (Suc 0) = 0" "c_active (cap_channels send_run 0)"
  "c_end0_pid (cap_channels send_run 0) = 7" "m_n_caps (msg_at send_run 0 (Suc 0) 0) = 1" "m_cookie (msg_at send_run 0 (Suc 0) 0) = 99"
  "m_cap_word (msg_at send_run 0 (Suc 0) 0) 0 = mem_word" "c_qdepth (cap_channels send_run 0) 0 = 0"
  "c \<noteq> 0 \<Longrightarrow> cap_channels send_run c = zero_channel"
  by (simp_all add: send_run_def send_finish_def upd_msg_def upd_channel_def log_hook_def send_run2_fields ring_put_def chan_reset_def
      zero_channel_def)

lemma recv_run_checks:
  "cap_table_index 8 send_run = (Some 2, send_run)" "recv_channel 2 0 send_run = Ok 1"
  subgoal by (simp add: cap_table_index_def send_run_fields send_run2_fields find_upt_step limits numeral_2_eq_2)
  subgoal using run_words by (simp add: recv_channel_def Let_def limits cap_object_get_def live_def send_run_fields send_run2_fields send_run_channel)
  done

lemma recv_run_move: "\<exists>s'. recv_move 8 2 0 (Suc 0) 0 0 send_run = (Ok 2, s')"
  by (simp add: recv_move_def cap_slot_pop_def slot_pop_def Let_def send_run_fields send_run2_fields boot_link cap_holder_alloc_def holder_pop_def
      upd_table_def)

lemma recv_run: "\<exists>s'. cap_recv 8 0 False send_run = (Ok (), Some 99, 2, s')"
proof -
  obtain s' where "recv_move 8 2 0 (Suc 0) 0 0 send_run = (Ok 2, s')"
    using recv_run_move by blast
  moreover have "cap_word_state mem_word \<noteq> CAP_STATE_REVOKED" "cap_object_get (cap_word_obj mem_word) send_run = Some 0"
    using run_words by (simp_all add: mem_word_def word_fields cap_object_get_def send_run_fields send_run2_fields live_def limits)
  ultimately show ?thesis
    by (simp add: cap_recv_def recv_run_checks [simplified] send_run_fields send_run2_fields live_def send_run_channel recv_front_def ring_head_def Let_def)
qed

lemma send_run_whole: "fronts_whole send_run"
proof -
  have "case queues send_run c d of [] \<Rightarrow> True | m # _ \<Rightarrow> 0 < m_n_caps m \<longrightarrow> m_cap_word m 0 \<noteq> 0" if "d < 2" for c d
  proof (cases "c = 0 \<and> d = 1")
    case True
    then have "queues send_run c d = [msg_at send_run 0 (Suc 0) 0]"
      by (simp add: queues_def ring_msgs_def send_run_channel)
    then show ?thesis
      using run_words by (auto simp: send_run_channel cap_word_valid_def)
  next
    case False
    then have "queues send_run c d = []"
      using that by (cases "c = 0") (auto simp: queues_def ring_msgs_def send_run_channel zero_channel_def less_2_cases_iff)
    then show ?thesis
      by simp
  qed
  then show ?thesis
    unfolding fronts_whole_def by blast
qed

section \<open>The invariant along the run\<close>

lemma mem_run_inv: "cap_inv mem_run"
  using create_mem_mints [OF boot_inv _ create_run] by (simp add: mints_def)

lemma mem_run_room: "caller_room mem_run 7"
proof -
  have "cap_at mem_run = (cap_at boot)(7 := (cap_at boot 7)(0 := Some mem_word))"
    using create_mem_mints [OF boot_inv _ create_run] by (simp add: mints_def mem_word_def)
  then have "cap_at mem_run 7 1 = None" "cap_at mem_run 7 2 = None"
    by (simp_all add: boot_def init_no_caps)
  then show ?thesis
    unfolding caller_room_def by (intro exI [of _ 1] exI [of _ 2]) (simp add: limits)
qed

lemma chan_run_inv: "cap_inv chan_run"
  using chan_create_pairs [OF mem_run_inv _ _ _ chan_run_eq] mem_run_room by (simp add: pairs_def)

lemma send_run_inv: "cap_inv send_run"
  using send_sends [OF chan_run_inv _ _ _ send_run_eq] by (simp add: sends_def limits)

end
