(* ===== verification/Cap_Step.thy ===== *)
theory Cap_Step
  imports Cap_Dead Cap_Run
begin

text \<open>
  The memory and channel operations of the capability layer as the steps of one machine. Every
  state a run from boot reaches satisfies the invariant, capabilities are not forged,
  and a revoked object is never seen again.
\<close>

datatype cap_op =
    CreateMem nat "64 word" nat "32 word"
  | ArenaAlloc nat nat "32 word"
  | ChanCreate nat nat
  | Send nat nat nat "64 word"
  | SendMsg nat nat "8 word list" "SLSCapDesc list" nat nat
  | Recv nat nat bool
  | RecvMsg nat nat nat nat
  | ArenaFree nat nat
  | Revoke nat nat
  | MapCap nat nat "64 word" "32 word"
  | UnmapCap nat nat "64 word"
  | Teardown nat

fun cap_exec :: "cap_env \<Rightarrow> cap_op \<Rightarrow> cap_state \<Rightarrow> cap_state" where
  "cap_exec e (CreateMem pid base np perm) s = snd (cap_create_mem e pid base np perm s)"
| "cap_exec e (ArenaAlloc pid np perm) s = snd (cap_arena_alloc pid np perm s)"
| "cap_exec e (ChanCreate pid far) s = snd (cap_chan_create pid far s)"
| "cap_exec e (Send pid chw idx ck) s = snd (cap_send pid chw idx ck s)"
| "cap_exec e (SendMsg pid chw pl ds tag fl) s = snd (cap_send_msg pid chw pl ds tag fl s)"
| "cap_exec e (Recv pid chr blk) s = snd (snd (snd (cap_recv pid chr blk s)))"
| "cap_exec e (RecvMsg pid chr bl mc) s = snd (snd (cap_recv_msg e pid chr bl mc s))"
| "cap_exec e (ArenaFree pid idx) s = snd (cap_arena_free pid idx s)"
| "cap_exec e (Revoke pid idx) s = snd (cap_revoke e pid idx s)"
| "cap_exec e (MapCap pid idx va fl) s = snd (cap_map e pid idx va fl s)"
| "cap_exec e (UnmapCap pid idx va) s = snd (cap_unmap e pid idx va s)"
| "cap_exec e (Teardown pid) s = table_teardown e pid s"

text \<open>
  What a caller must respect. Process numbers fit the 16-bit fields that store them and slot
  numbers lie in the table, which the source does not check; a channel with a far
  end needs room for the caller's two ends, a batch names a slot once, and the
  single-capability receive meets no message another receive has left half taken.
\<close>

fun cap_guard :: "cap_op \<Rightarrow> cap_state \<Rightarrow> bool" where
  "cap_guard (CreateMem pid base np perm) s \<longleftrightarrow> pid < 65536"
| "cap_guard (ArenaAlloc pid np perm) s \<longleftrightarrow> pid < 65536"
| "cap_guard (ChanCreate pid far) s \<longleftrightarrow> pid < 65536 \<and> far < 65536 \<and> (far = 0 \<or> far = pid \<or> caller_room s pid)"
| "cap_guard (Send pid chw idx ck) s \<longleftrightarrow> pid < 65536 \<and> chw < CAP_TABLE_ENTRIES \<and> (idx = CAP_NONE \<or> idx < CAP_TABLE_ENTRIES)"
| "cap_guard (SendMsg pid chw pl ds tag fl) s \<longleftrightarrow> pid < 65536 \<and> chw < CAP_TABLE_ENTRIES \<and>
     distinct (map d_slot ds) \<and> (\<forall>x \<in> set ds. d_slot x < CAP_TABLE_ENTRIES)"
| "cap_guard (Recv pid chr blk) s \<longleftrightarrow> pid < 65536 \<and> chr < CAP_TABLE_ENTRIES \<and> fronts_whole s"
| "cap_guard (RecvMsg pid chr bl mc) s \<longleftrightarrow> pid < 65536 \<and> chr < CAP_TABLE_ENTRIES"
| "cap_guard (ArenaFree pid idx) s \<longleftrightarrow> pid < 65536 \<and> idx < CAP_TABLE_ENTRIES"
| "cap_guard (Revoke pid idx) s \<longleftrightarrow> pid < 65536 \<and> idx < CAP_TABLE_ENTRIES"
| "cap_guard (MapCap pid idx va fl) s \<longleftrightarrow> pid < 65536 \<and> idx < CAP_TABLE_ENTRIES"
| "cap_guard (UnmapCap pid idx va) s \<longleftrightarrow> pid < 65536 \<and> idx < CAP_TABLE_ENTRIES"
| "cap_guard (Teardown pid) s \<longleftrightarrow> pid < 65536"

text \<open>Where a capability in a slot can come from.\<close>

definition sourced :: "nat \<Rightarrow> 64 word \<Rightarrow> cap_state \<Rightarrow> bool" where
  "sourced p w s \<longleftrightarrow> (\<exists>r. cap_at s p r = Some w) \<or> cap_obj_next s \<le> cap_word_obj w \<or>
     (\<exists>c d m i. m \<in> set (queues s c d) \<and> w = m_cap_word m i)"

definition step_ok :: "cap_state \<Rightarrow> cap_state \<Rightarrow> bool" where
  "step_ok s s' \<longleftrightarrow> cap_inv s' \<and> (\<forall>p r w. cap_at s' p r = Some w \<longrightarrow> sourced p w s) \<and> (\<forall>ob. dead ob s \<longrightarrow> dead ob s')"

lemma map_upds_Some: "(m(xs [\<mapsto>] ys)) r = Some w \<Longrightarrow> m r = Some w \<or> w \<in> set ys"
proof (induction xs arbitrary: m ys)
  case (Cons x xs)
  then show ?case
    by (cases ys) (fastforce split: if_splits)+
qed simp

lemma step_okI:
  assumes "cap_inv s'" and "\<And>p r w. cap_at s' p r = Some w \<Longrightarrow> sourced p w s" and "\<And>ob. dead ob s \<Longrightarrow> dead ob s'"
  shows "step_ok s s'"
  using assms unfolding step_ok_def by blast

lemma sourced_slot: "cap_at s p r = Some w \<Longrightarrow> sourced p w s"
  unfolding sourced_def by blast

lemma sourced_queue: "queues s c d = m # ms \<Longrightarrow> sourced p (m_cap_word m i) s"
  unfolding sourced_def by (metis list.set_intros(1))

lemma inv_next: "cap_inv s \<Longrightarrow> cap_obj_next s \<le> 1024"
  using objs_okD(1) [OF cap_repD(5)] by (auto simp: cap_inv_def limits)

lemma mints_ok:
  assumes "cap_inv s" and "mints s pid perm np r s'" and d: "\<And>ob. dead ob s \<Longrightarrow> dead ob s'"
  shows "step_ok s s'"
proof (rule step_okI [OF _ _ d])
  show "cap_inv s'"
    using assms(2) by (simp add: mints_def)
  have "cap_obj_next s \<le> cap_word_obj (cap_word_make CAP_TYPE_MEM (cap_obj_next s) perm 0 np)"
    using inv_next [OF assms(1)] by (simp add: word_fields)
  then show "sourced p w s" if "cap_at s' p r' = Some w" for p r' w
    using assms(2) that unfolding mints_def sourced_def by (auto split: res.splits if_splits)
qed

lemma pairs_ok:
  assumes "cap_inv s" and "pairs s pid far r s'" and d: "\<And>ob. dead ob s \<Longrightarrow> dead ob s'"
  shows "step_ok s s'"
proof (rule step_okI [OF _ _ d])
  show "cap_inv s'"
    using assms(2) by (simp add: pairs_def)
  have "cap_obj_next s \<le> cap_word_obj (chan_w_word (cap_obj_next s))" "cap_obj_next s \<le> cap_word_obj (chan_r_word (cap_obj_next s))"
    using inv_next [OF assms(1)] by (simp_all add: chan_w_word_def chan_r_word_def word_fields)
  then show "sourced p w s" if "cap_at s' p r' = Some w" for p r' w
    using assms(2) that unfolding pairs_def sourced_def
    by (auto simp: chan_caps_def put_cap_def split: res.splits if_splits prod.splits)
qed

lemma sends_ok:
  assumes "sends s pid i ck r s'" and d: "\<And>ob. dead ob s \<Longrightarrow> dead ob s'"
  shows "step_ok s s'"
  by (rule step_okI [OF _ _ d], use assms(1) in \<open>simp add: sends_def\<close>, rule sourced_slot)
    (use assms(1) in \<open>auto simp: sends_def split: res.splits if_splits\<close>)

lemma batch_ok:
  assumes b: "sends_batch s pid ds tag r s'" and d: "\<And>ob. dead ob s \<Longrightarrow> dead ob s'"
  shows "step_ok s s'"
proof (rule step_okI [OF _ _ d])
  show "cap_inv s'"
    using b by (simp add: sends_batch_def)
  show "sourced p w s" if at: "cap_at s' p x = Some w" for p x w
  proof (cases "r = Err ECAPREVOKED \<and> p = pid")
    case True
    then obtain k ws where ws: "map Some ws = map (cap_at s pid \<circ> d_slot) (take k ds)"
      and at': "cap_at s' = (cap_at s)(pid := (cap_at s pid)(rev (map d_slot (take k ds)) [\<mapsto>] ws))"
      using b unfolding sends_batch_def by auto
    have "cap_at s pid x = Some w \<or> w \<in> set ws"
      using at True by (intro map_upds_Some) (simp add: at')
    moreover have "\<exists>y. cap_at s pid y = Some w" if "w \<in> set ws"
    proof -
      have "Some w \<in> set (map (cap_at s pid \<circ> d_slot) (take k ds))"
        using that unfolding ws [symmetric] by simp
      then show ?thesis
        by (metis comp_apply imageE list.set_map)
    qed
    ultimately show ?thesis
      using True sourced_slot by blast
  next
    case False
    then show ?thesis
      using b at by (intro sourced_slot [of _ _ x]) (auto simp: sends_batch_def space_minus_def split: res.splits if_splits)
  qed
qed

lemma receives_ok:
  assumes b: "receives s pid r ck slot s'" and d: "\<And>ob. dead ob s \<Longrightarrow> dead ob s'"
  shows "step_ok s s'"
proof (rule step_okI [OF _ _ d])
  show "cap_inv s'"
    using b by (simp add: receives_def)
  show "sourced p w s" if "cap_at s' p x = Some w" for p x w
    using b that sourced_slot [of s p x] sourced_queue [of s _ _ _ _ p 0]
    unfolding receives_def by (auto split: if_splits)
qed

lemma takes_ok:
  assumes b: "takes s pid r out s'" and d: "\<And>ob. dead ob s \<Longrightarrow> dead ob s'"
  shows "step_ok s s'"
proof (rule step_okI [OF _ _ d])
  show "cap_inv s'"
    using b by (simp add: takes_def)
  have main: "sourced p w s" if at: "cap_at s' p x = Some w" and q: "queues s c d = m # ms"
    and at': "cap_at s' = (cap_at s)(pid := (cap_at s pid)(news [\<mapsto>] map (m_cap_word m) ks))" for p x w c d m ms news ks
  proof (cases "p = pid")
    case True
    then have "cap_at s pid x = Some w \<or> w \<in> set (map (m_cap_word m) ks)"
      using at by (intro map_upds_Some) (simp add: at')
    then show ?thesis
      using True sourced_slot sourced_queue [OF q] by auto
  qed (use at sourced_slot in \<open>auto simp: at'\<close>)
  show "sourced p w s" if at: "cap_at s' p x = Some w" for p x w
  proof (cases r)
    case (Ok u)
    then show ?thesis
      using b main [OF at] unfolding takes_def by auto
  next
    case (Err y)
    then have "cap_at s' = cap_at s \<or> (\<exists>c d m ms news ks. queues s c d = m # ms \<and>
        cap_at s' = (cap_at s)(pid := (cap_at s pid)(news [\<mapsto>] map (m_cap_word m) ks)))"
      using b unfolding takes_def Err res.case by (cases "y = ETABLEFULL \<or> y = ENOMEM"; simp only: if_True if_False; blast)
    then show ?thesis
      using main [OF at] sourced_slot [of s p x w] at by auto
  next
    case Oob
    then show ?thesis
      using b by (simp add: takes_def)
  qed
qed

lemma same_ok:
  assumes "cap_inv s'" and "\<And>p r w. cap_at s' p r = Some w \<Longrightarrow> cap_at s p r = Some w" and "\<And>ob. dead ob s \<Longrightarrow> dead ob s'"
  shows "step_ok s s'"
  by (rule step_okI) (use assms sourced_slot in blast)+

lemma drops_ok: "drops s pid i r s' \<Longrightarrow> (\<And>ob. dead ob s \<Longrightarrow> dead ob s') \<Longrightarrow> step_ok s s'"
  by (rule same_ok) (auto simp: drops_def split: if_splits)

lemma severs_ok: "severs s pid i r s' \<Longrightarrow> (\<And>ob. dead ob s \<Longrightarrow> dead ob s') \<Longrightarrow> step_ok s s'"
  by (rule same_ok) (auto simp: severs_def space_without_Some split: if_splits)

lemma exec_ok:
  assumes inv: "cap_inv s" and g: "cap_guard op s"
  shows "step_ok s (cap_exec e op s)"
proof (cases op)
  case (CreateMem pid base np perm)
  obtain r s' where run: "cap_create_mem e pid base np perm s = (r, s')"
    by (metis surj_pair)
  then show ?thesis
    using g mints_ok [OF inv create_mem_mints [OF inv _ run] dead_create_mem [OF run]]
    by (simp add: CreateMem)
next
  case (ArenaAlloc pid np perm)
  obtain r s' where run: "cap_arena_alloc pid np perm s = (r, s')"
    by (metis surj_pair)
  then show ?thesis
    using g mints_ok [OF inv arena_alloc_mints [OF inv _ run] dead_arena_alloc [OF run]]
    by (simp add: ArenaAlloc)
next
  case (ChanCreate pid far)
  obtain r s' where run: "cap_chan_create pid far s = (r, s')"
    by (metis surj_pair)
  then show ?thesis
    using g pairs_ok [OF inv chan_create_pairs [OF inv _ _ _ run] dead_chan_create [OF run]]
    by (simp add: ChanCreate)
next
  case (Send pid chw idx ck)
  obtain r s' where run: "cap_send pid chw idx ck s = (r, s')"
    by (metis surj_pair)
  then show ?thesis
    using g sends_ok [OF send_sends [OF inv _ _ _ run] dead_send [OF run]]
    by (simp add: Send)
next
  case (SendMsg pid chw pl ds tag fl)
  obtain r s' where run: "cap_send_msg pid chw pl ds tag fl s = (r, s')"
    by (metis surj_pair)
  then show ?thesis
    using g batch_ok [OF send_msg_batch [OF inv _ _ _ _ run] dead_send_msg [OF run]]
    by (simp add: SendMsg)
next
  case (Recv pid chr blk)
  obtain r ck slot s' where run: "cap_recv pid chr blk s = (r, ck, slot, s')"
    by (metis surj_pair)
  then show ?thesis
    using g receives_ok [OF recv_receives [OF inv _ _ _ run] dead_recv [OF run]]
    by (simp add: Recv)
next
  case (RecvMsg pid chr bl mc)
  obtain r out s' where run: "cap_recv_msg e pid chr bl mc s = (r, out, s')"
    by (metis surj_pair)
  then show ?thesis
    using g takes_ok [OF recv_msg_takes [OF inv _ _ run] dead_recv_msg [OF run]]
    by (simp add: RecvMsg)
next
  case (ArenaFree pid idx)
  obtain r s' where run: "cap_arena_free pid idx s = (r, s')"
    by (metis surj_pair)
  then show ?thesis
    using g drops_ok [OF arena_free_drops [OF inv _ _ run] dead_arena_free [OF run]]
    by (simp add: ArenaFree)
next
  case (Revoke pid idx)
  obtain r s' where run: "cap_revoke e pid idx s = (r, s')"
    by (metis surj_pair)
  then show ?thesis
    using g severs_ok [OF revoke_severs [OF inv _ _ run] dead_revoke [OF inv _ _ run]]
    by (simp add: Revoke)
next
  case (MapCap pid idx va fl)
  obtain r s' where run: "cap_map e pid idx va fl s = (r, s')"
    by (metis surj_pair)
  then show ?thesis
    using g same_ok [OF _ _ dead_map [OF run]] map_maps_window [OF inv _ _ run]
    by (simp add: MapCap maps_window_def)
next
  case (UnmapCap pid idx va)
  obtain r s' where run: "cap_unmap e pid idx va s = (r, s')"
    by (metis surj_pair)
  then show ?thesis
    using g same_ok [OF _ _ dead_unmap [OF run]] unmap_keeps [OF inv _ run]
    by (simp add: UnmapCap)
next
  case (Teardown pid)
  then show ?thesis
    using g table_teardown_rep [OF inv] dead_teardown by (auto intro!: same_ok split: if_splits)
qed

section \<open>Runs\<close>

inductive cap_run :: "cap_env \<Rightarrow> cap_state \<Rightarrow> cap_state \<Rightarrow> bool" for e where
  run_stop: "cap_run e s s"
| run_step: "cap_run e s s' \<Longrightarrow> cap_guard op s' \<Longrightarrow> cap_run e s (cap_exec e op s')"

inductive_cases cap_runE: "cap_run e s s'"

lemma run_inv: "cap_run e s s' \<Longrightarrow> cap_inv s \<Longrightarrow> cap_inv s'"
  by (induction rule: cap_run.induct) (auto dest: exec_ok simp: step_ok_def)

lemma run_dead: "cap_run e s s' \<Longrightarrow> cap_inv s \<Longrightarrow> dead ob s \<Longrightarrow> dead ob s'"
proof (induction rule: cap_run.induct)
  case (run_step s s' op)
  then show ?case
    using exec_ok [OF run_inv [OF run_step.hyps(1)]] by (simp add: step_ok_def)
qed

lemma dead_unheld: "cap_inv s \<Longrightarrow> dead ob s \<Longrightarrow> cap_at s p r = Some w \<Longrightarrow> cap_word_obj w \<noteq> ob"
  using cap_repD(4) by (fastforce simp: cap_inv_def caps_ok_def dead_def)

end
