(* ===== verification/Cap_Laws.thy ===== *)
theory Cap_Laws
  imports Cap_Step
begin

text \<open>
  The properties of the capability layer as a whole, each with an application to a state of the
  sample run.
\<close>

section \<open>Runs of the machine\<close>





text \<open>
  C2. Revocation is permanent: once \<^verbatim>\<open>cap_revoke\<close> succeeds, the object is dead and in no later
  state does any process hold a capability for it, not even one that was in flight in
  a message.
\<close>

theorem revoke_forever:
  assumes "cap_inv s" and "pid < 65536" and "idx < CAP_TABLE_ENTRIES"
    and "cap_revoke e pid idx s = (Ok (), s1)" and "cap_run e s1 s'"
  shows "\<exists>w. cap_at s pid idx = Some w \<and> \<not> o_active (cap_objects s' (cap_word_obj w)) \<and>
    (\<forall>p r v. cap_at s' p r = Some v \<longrightarrow> cap_word_obj v \<noteq> cap_word_obj w)"
proof -
  have sv: "severs s pid idx (Ok ()) s1"
    by (rule revoke_severs [OF assms(1-4)])
  then obtain w where w: "cap_at s pid idx = Some w" "\<not> o_active (cap_objects s1 (cap_word_obj w))"
    and inv: "cap_inv s1" and nx: "cap_obj_next s1 = cap_obj_next s"
    by (auto simp: severs_def)
  obtain R n where "cap_rep {} s R {} n"
    using assms(1) by (auto simp: cap_inv_def)
  then have "dead (cap_word_obj w) s1"
    using w nx minted_fields(3) cap_repD(4) by (fastforce simp: dead_def caps_ok_def)
  then have "dead (cap_word_obj w) s'"
    by (rule run_dead [OF assms(5) inv])
  then show ?thesis
    using w(1) dead_unheld [OF run_inv [OF assms(5) inv]] by (auto simp: dead_def)
qed

lemma revoke_run: "\<exists>s1. cap_revoke boot_env 7 0 chan_run = (Ok (), s1)"
  using run_words by (simp add: cap_revoke_def send_run_checks Let_def limits cap_object_get_def live_def)

theorem revoke_forever_witness:
  "\<exists>s1. cap_revoke boot_env 7 0 chan_run = (Ok (), s1) \<and>
     (\<exists>w. cap_at chan_run 7 0 = Some w \<and> (\<forall>p r v. cap_at s1 p r = Some v \<longrightarrow> cap_word_obj v \<noteq> cap_word_obj w))"
proof -
  obtain s1 where s1: "cap_revoke boot_env 7 0 chan_run = (Ok (), s1)"
    using revoke_run by blast
  show ?thesis
    using revoke_forever [OF chan_run_inv _ _ s1 run_stop] s1 by (auto simp: limits)
qed

text \<open>
  C4. Capabilities are not forged: whatever an operation does, a capability a process holds
  afterwards was in one of its own slots, or travelled in a queued message, or names an
  object that did not exist before.
\<close>

theorem no_forgery:
  assumes "cap_inv s" and "cap_guard op s" and "cap_at (cap_exec e op s) p r = Some w"
  shows "sourced p w s"
  using exec_ok [OF assms(1,2), of e] assms(3) by (simp add: step_ok_def)

theorem no_forgery_witness:
  "cap_inv boot \<and> (\<exists>w. cap_at (cap_exec boot_env (CreateMem 7 0x400000 2 0xB) boot) 7 0 = Some w \<and> sourced 7 w boot)"
proof -
  have "cap_at mem_run 7 0 = Some mem_word"
    using create_mem_mints [OF boot_inv _ create_run] by (simp add: mints_def mem_word_def)
  then have "cap_at (cap_exec boot_env (CreateMem 7 0x400000 2 0xB) boot) 7 0 = Some mem_word"
    by (simp add: create_run)
  from no_forgery [OF boot_inv _ this] this boot_inv show ?thesis
    by auto
qed

section \<open>Messages\<close>

text \<open>
  C6. Sending moves the capability: on success \<^verbatim>\<open>cap_send\<close> empties the sender's slot and appends
  to one queue a message with the cookie and the very word that was in the slot; a message
  without a capability moves none; on every error path slots and queues are as before.
\<close>

theorem send_moves:
  assumes "cap_inv s" and "pid < 65536" and "w_idx < CAP_TABLE_ENTRIES" and "idx = CAP_NONE \<or> idx < CAP_TABLE_ENTRIES"
  shows "sends s pid idx cookie (fst (cap_send pid w_idx idx cookie s)) (snd (cap_send pid w_idx idx cookie s))"
  by (rule send_sends [OF assms prod.collapse [symmetric]])

theorem send_moves_witness: "cap_inv chan_run \<and> sends chan_run 7 0 99 (Ok ()) send_run"
  using send_moves [OF chan_run_inv, of 7 2 0 99] chan_run_inv by (simp add: limits send_run_eq)



text \<open>
  C3. A capability survives the round trip through a channel: when no other message is in flight,
  what a successful \<^verbatim>\<open>cap_recv\<close> of any process delivers after a successful \<^verbatim>\<open>cap_send\<close> is the sender's
  cookie and bit for bit the sender's word, in a slot of the receiver and no longer in the
  sender's; nothing stays in the queues.
\<close>

theorem transfer_roundtrip:
  assumes "cap_inv s" and "p < 65536" and "q < 65536" and "wi < CAP_TABLE_ENTRIES" and "ri < CAP_TABLE_ENTRIES"
    and "idx < CAP_TABLE_ENTRIES" and empty: "queues s = (\<lambda>c d. [])"
    and snd: "cap_send p wi idx ck s = (Ok (), s1)" and "fronts_whole s1"
    and rcv: "cap_recv q ri blk s1 = (Ok (), ck', slot, s2)"
  shows "ck' = Some ck \<and> queues s2 = queues s \<and> (\<exists>w. cap_at s p idx = Some w \<and>
    (let sp = (cap_at s)(p := (cap_at s p)(idx := None)) in sp q slot = None \<and> cap_at s2 = sp(q := (sp q)(slot := Some w))))"
proof -
  have "idx \<noteq> CAP_NONE"
    using assms(6) by (simp add: limits)
  then obtain c d m where q1: "queues s1 = (queues s)(c := (queues s c)(d := queues s c d @ [m]))"
    and m: "m_cookie m = ck" "m_n_caps m = 1" "cap_at s p idx = Some (m_cap_word m 0)"
    and sp: "cap_at s1 = (cap_at s)(p := (cap_at s p)(idx := None))" and inv: "cap_inv s1"
    using send_sends [OF assms(1,2,4) disjI2 [OF assms(6)] snd] by (auto simp: sends_def)
  obtain c' d' m' ms where q2: "queues s1 c' d' = m' # ms" "queues s2 = (queues s1)(c' := (queues s1 c')(d' := ms))"
    and ck: "ck' = Some (m_cookie m')"
    and at: "if 0 < m_n_caps m' then cap_at s1 q slot = None \<and> cap_at s2 = (cap_at s1)(q := (cap_at s1 q)(slot := Some (m_cap_word m' 0)))
      else slot = CAP_NONE \<and> cap_at s2 = cap_at s1"
    using recv_receives [OF inv assms(3,5,9) rcv] by (auto simp: receives_def)
  have "c' = c \<and> d' = d \<and> m' = m \<and> ms = []"
    using q2(1) by (auto simp: q1 empty split: if_splits)
  then show ?thesis
    using q2(2) ck at m by (auto simp: q1 empty sp fun_eq_iff Let_def)
qed

lemma chan_run_idle: "queues chan_run = (\<lambda>c d. [])"
  by (simp add: fun_eq_iff queues_def ring_msgs_def chan_reset_def zero_channel_def)

theorem transfer_roundtrip_witness:
  "\<exists>s2. cap_recv 8 0 False send_run = (Ok (), Some 99, 2, s2) \<and> cap_at s2 8 2 = cap_at chan_run 7 0 \<and> cap_at s2 7 0 = None"
proof -
  obtain s2 where r: "cap_recv 8 0 False send_run = (Ok (), Some 99, 2, s2)"
    using recv_run by blast
  then show ?thesis
    using transfer_roundtrip [OF chan_run_inv _ _ _ _ _ chan_run_idle send_run_eq send_run_whole r]
    by (auto simp: limits Let_def)
qed





text \<open>
  C8. The message rings refine a bounded queue: in any sequence of guarded sends
  (\<^term>\<open>Some m\<close>) and receives (\<^term>\<open>None\<close>) on one direction of a channel, the messages that went in,
  appended to what was there, are the messages that came out followed by what is left, in
  order, although the cursors are free-running 32-bit counters.
\<close>

theorem ring_refines_queue:
  assumes "ring_wf d ch" and "ring.runs d ops ch = (ins, outs, ch')"
  shows "ring_wf d ch' \<and> ring_msgs d ch @ ins = outs @ ring_msgs d ch' \<and> length (ring_msgs d ch') \<le> CHAN_QUEUE_DEPTH"
  using ring.fifo_runs [OF assms] ring.bounded ring.depth_contents by metis

theorem ring_refines_queue_witness:
  "\<exists>ins outs ch'. ring.runs 0 [Some zero_msg, None, None, Some zero_msg] zero_channel = (ins, outs, ch') \<and> outs = [zero_msg] \<and>
     ring_msgs 0 zero_channel @ ins = outs @ ring_msgs 0 ch'"
proof -
  obtain ins outs ch' where r: "ring.runs 0 [Some zero_msg, None, None, Some zero_msg] zero_channel = (ins, outs, ch')"
    by (rule prod_cases3)
  moreover have "outs = [zero_msg]"
    using r [unfolded ring.runs.simps]
    by (auto simp: Let_def ring_enq_def ring_deq_def ring_put_def ring_set_def ring_tail_def ring_head_def ring_front_def zero_channel_def limits)
  moreover have "ring_wf 0 zero_channel"
    by (simp add: ring_wf_def zero_channel_def)
  ultimately show ?thesis
    using ring_refines_queue by blast
qed

section \<open>Objects and mappings\<close>



text \<open>
  C18. \<^verbatim>\<open>cap_create_mem\<close> and \<^verbatim>\<open>cap_arena_alloc\<close> mint exactly one capability: success fills one
  empty slot of the caller with a memory word for the next unused object id, the requested
  rights and the requested length; an error leaves the capability space as it was.
\<close>

theorem mem_mints:
  assumes "cap_inv s" and "pid < 65536"
  shows "mints s pid perm npages (fst (cap_create_mem e pid base npages perm s)) (snd (cap_create_mem e pid base npages perm s)) \<and>
    mints s pid perm npages (fst (cap_arena_alloc pid npages perm s)) (snd (cap_arena_alloc pid npages perm s))"
  using create_mem_mints [OF assms prod.collapse [symmetric]] arena_alloc_mints [OF assms prod.collapse [symmetric]] by blast

theorem mem_mints_witness: "cap_inv boot \<and> mints boot 7 0xB 2 (Ok 0) mem_run"
  using mem_mints [OF boot_inv, of 7 "0xB" 2 boot_env "0x400000"] boot_inv by (simp add: create_run)



text \<open>
  C19. \<^verbatim>\<open>cap_arena_free\<close> gives up one memory capability: the slot is emptied and the object dies
  exactly when this was its last reference, so the frames of an object are released
  only when nobody else holds it.
\<close>

theorem arena_free_last:
  assumes "cap_inv s" and "pid < 65536" and "idx < CAP_TABLE_ENTRIES"
  shows "drops s pid idx (fst (cap_arena_free pid idx s)) (snd (cap_arena_free pid idx s))"
  by (rule arena_free_drops [OF assms prod.collapse [symmetric]])

theorem arena_free_last_witness: "cap_inv mem_run \<and> (let r = cap_arena_free 7 0 mem_run in drops mem_run 7 0 (fst r) (snd r))"
  using arena_free_last [OF mem_run_inv, of 7 0] mem_run_inv by (simp add: limits Let_def)

text \<open>
  C11. Process teardown leaves nothing behind: after \<^verbatim>\<open>cap_table_teardown\<close> the process holds no
  capability, its table is unbound, every other process holds what it held, every
  active channel it had an end of is marked closed with a close event for the peer, and no interrupt
  vector is bound to a channel of it.
\<close>

theorem teardown_complete:
  assumes "cap_inv s" and "pid < 65536" and "pid \<noteq> 0" and "cap_table_find pid s \<noteq> None"
  shows "cap_inv (table_teardown e pid s) \<and> cap_at (table_teardown e pid s) = (cap_at s)(pid := (\<lambda>_. None)) \<and>
    cap_table_find pid (table_teardown e pid s) = None \<and>
    (\<forall>c < CAP_CHAN_MAX. end_closed pid (cap_channels (table_teardown e pid s) c)) \<and>
    (\<forall>v < CAP_IRQ_VECTORS. g_irq_chan (table_teardown e pid s) v = CAP_NONE \<or>
       c_end0_pid (cap_channels (table_teardown e pid s) (g_irq_chan (table_teardown e pid s) v)) \<noteq> pid)"
  using table_teardown_rep [OF assms(1,2)] table_teardown_close(1) [OF assms(4)]
    table_teardown_close(2) [OF assms(4), of 0] assms(3) by (simp add: limits)

theorem teardown_complete_witness:
  "cap_inv (table_teardown boot_env 7 chan_run) \<and> cap_at (table_teardown boot_env 7 chan_run) 7 0 = None \<and>
   cap_at (table_teardown boot_env 7 chan_run) 8 = cap_at chan_run 8"
proof -
  have "cap_table_find 7 chan_run \<noteq> None"
    by (simp add: cap_table_find_def find_upt_step limits)
  from teardown_complete [OF chan_run_inv _ _ this, of boot_env] show ?thesis
    by simp
qed

text \<open>
  C16. Draining a queue terminates with the queue empty: \<^verbatim>\<open>cap_drain_queue\<close>'s loop consumes every
  message within the ring's capacity of rounds, keeps the invariant, and touches neither a
  slot nor another queue.
\<close>

theorem drain_empties:
  assumes "cap_inv s" and "c < CAP_CHAN_MAX" and "d < 2"
  shows "cap_inv (cap_drain_queue c d s) \<and> queues (cap_drain_queue c d s) = (queues s)(c := (queues s c)(d := [])) \<and>
    cap_at (cap_drain_queue c d s) = cap_at s"
  using drain_queue_rep [OF assms] by blast

theorem drain_empties_witness:
  "queues send_run 0 1 \<noteq> [] \<and> queues (cap_drain_queue 0 1 send_run) 0 1 = [] \<and> cap_inv (cap_drain_queue 0 1 send_run)"
proof -
  have "queues send_run 0 1 \<noteq> []"
    by (simp add: queues_def ring_msgs_def send_run_channel)
  then show ?thesis
    using drain_empties [OF send_run_inv, of 0 1] by (simp add: limits)
qed

text \<open>
  C14. \<^verbatim>\<open>cap_map\<close> installs exactly the pages of the view: on success the page-table calls are
  one per page of the capability, in order, at consecutive addresses inside the object,
  with flags within the capability's rights, followed by the flush; when an installation fails,
  the pages installed before are removed again; the other errors but a full map table
  make no call; capabilities and queues never change.
\<close>

theorem map_exact:
  assumes "cap_inv s" and "pid < 65536" and "idx < CAP_TABLE_ENTRIES"
  shows "maps_window e pid idx va flags s (fst (cap_map e pid idx va flags s)) (snd (cap_map e pid idx va flags s))"
  by (rule map_maps_window [OF assms prod.collapse [symmetric]])

theorem map_exact_witness:
  "cap_inv mem_run \<and> (let r = cap_map boot_env 7 0 0x10000 0x9 mem_run in maps_window boot_env 7 0 0x10000 0x9 mem_run (fst r) (snd r))"
  using map_exact [OF mem_run_inv, of 7 0 boot_env "0x10000" "0x9"] mem_run_inv by (simp add: limits Let_def)

lemma push_slots_maps: "t_maps (foldl (\<lambda>t i. slot_push i t) t xs) = t_maps t"
  by (induction xs arbitrary: t) (simp_all add: slot_push_def)

lemma init_tables_maps:
  "t_maps (cap_tables (foldl (\<lambda>s i. cap_table_freelist_init i (upd_table i (\<lambda>t. t\<lparr>t_pid := 0\<rparr>)
     (s\<lparr>cap_table_pid := (cap_table_pid s)(i := 0)\<rparr>))) s xs) j) = t_maps (cap_tables s j)"
  by (induction xs arbitrary: s) (simp_all add: cap_table_freelist_init_def table_freelist_init_def upd_table_def push_slots_maps)

text \<open>
  C15. Views of different objects never overlap in a process: this holds of the mapping records
  at boot and is kept by \<^verbatim>\<open>cap_map\<close> and \<^verbatim>\<open>cap_unmap\<close>, whatever they return.
\<close>

theorem views_apart:
  assumes "\<And>j. maps_apart (cap_tables s j)"
  shows "maps_apart (cap_tables (snd (cap_map e pid idx va flags s)) j) \<and> maps_apart (cap_tables (snd (cap_unmap e pid idx va s)) j) \<and>
    maps_apart (cap_tables (cap_init e zero_state) j)"
proof -
  have "maps_apart (cap_tables (cap_init e zero_state) j)"
    by (simp add: cap_init_def maps_apart_def Let_def init_tables_maps, simp add: zero_state_def)
  then show ?thesis
    using map_keeps_apart [OF assms prod.collapse [symmetric]] unmap_keeps_apart [OF assms prod.collapse [symmetric]] by simp
qed

theorem views_apart_witness:
  "maps_apart (cap_tables (snd (cap_map boot_env 7 0 0x10000 0x9 mem_run)) 1)"
proof -
  have "maps_apart (cap_tables mem_run j)" for j
    by (simp add: maps_apart_def boot_table_def)
  from views_apart [OF this, of boot_env 7 0 "0x10000" "0x9" 1] show ?thesis
    by blast
qed

section \<open>Words and frames\<close>

text \<open>
  C20. Capability words round-trip: \<^verbatim>\<open>cap_word_make\<close> of fields that fit their widths yields a valid
  word whose accessors return them, and a valid word is rebuilt from its fields.
\<close>

theorem word_roundtrip:
  assumes "t < 8" and "ob < 131072" and "off < 65536" and "len < 4096" and "p AND 0xFF = p" and "cap_word_valid w"
  shows "(let v = cap_word_make t ob p off len in cap_word_type v = t \<and> cap_word_obj v = ob \<and> cap_word_perms v = p \<and>
      cap_word_off v = off \<and> cap_word_len v = len \<and> (cap_word_valid v \<longleftrightarrow> t \<noteq> 0)) \<and>
    cap_word_make (cap_word_type w) (cap_word_obj w) (cap_word_perms w) (cap_word_off w) (cap_word_len w) = w"
  using assms cap_word_make_fields by (simp add: Let_def word_fields)

theorem word_roundtrip_witness:
  "cap_word_valid mem_word \<and> cap_word_len (cap_word_make 1 1023 0x1F 65535 4095) = 4095 \<and>
   cap_word_make (cap_word_type mem_word) (cap_word_obj mem_word) (cap_word_perms mem_word) (cap_word_off mem_word) (cap_word_len mem_word) = mem_word"
  using word_roundtrip [of 1 1023 65535 4095 "0x1F" mem_word] run_words by (simp add: Let_def)

text \<open>
  C13. The arena's run search is first fit and complete: it fails exactly when there is no run of
  that many free frames, and otherwise returns the lowest such run inside the arena, claims
  exactly its frames for the owner and lowers the free count by its length.
\<close>

theorem arena_first_fit:
  "(case cap_arena_alloc_run n ow a of
      None \<Rightarrow> n = 0 \<or> \<not> (\<exists>s. s + n \<le> CAP_ARENA_FRAMES \<and> {s..<s + n} \<subseteq> free_frames a)
    | Some (start, a') \<Rightarrow> start + n \<le> CAP_ARENA_FRAMES \<and> {start..<start + n} \<subseteq> free_frames a \<and>
        (\<nexists>s. s < start \<and> {s..<s + n} \<subseteq> free_frames a) \<and>
        free_frames a' = free_frames a - {start..<start + n} \<and> ar_free_count a' = ar_free_count a - of_nat n \<and>
        ar_owner a' = (\<lambda>f. if f \<in> {start..<start + n} then ow else ar_owner a f))"
proof (cases "cap_arena_alloc_run n ow a")
  case None
  then show ?thesis
    using alloc_run_None [of n ow a] by auto
next
  case (Some p)
  then obtain start a' where "cap_arena_alloc_run n ow a = Some (start, a')"
    by (cases p) auto
  note r = this alloc_run_Some [OF this]
  then show ?thesis
    by (auto simp: fun_eq_iff)
qed

theorem arena_first_fit_witness:
  "\<exists>a'. cap_arena_alloc_run 3 9 (cap_arena boot) = Some (0, a') \<and> free_frames a' = free_frames (cap_arena boot) - {0..<3}"
proof -
  have f: "{0..<3} \<subseteq> free_frames (cap_arena boot)"
    by (auto simp: free_frames_def frame_free_bit boot_eq limits)
  show ?thesis
  proof (cases "cap_arena_alloc_run 3 9 (cap_arena boot)")
    case None
    then have "\<not> (\<exists>s. s + 3 \<le> CAP_ARENA_FRAMES \<and> {s..<s + 3} \<subseteq> free_frames (cap_arena boot))"
      using arena_first_fit [where n = 3 and ow = 9 and a = "cap_arena boot"] by simp
    then have False
      using f by (auto simp: limits dest!: spec [of _ 0])
    then show ?thesis ..
  next
    case (Some p)
    then obtain start a' where p: "cap_arena_alloc_run 3 9 (cap_arena boot) = Some (start, a')"
      by (cases p) auto
    then have "\<nexists>s. s < start \<and> {s..<s + 3} \<subseteq> free_frames (cap_arena boot)"
      and fr: "free_frames a' = free_frames (cap_arena boot) - {start..<start + 3}"
      using arena_first_fit [where n = 3 and ow = 9 and a = "cap_arena boot"] by simp_all
    then have "start = 0"
      using f by (auto dest!: spec [of _ 0])
    with p fr show ?thesis
      by auto
  qed
qed

end
