(* ===== verification/Chan_Transport.thy ===== *)
theory Chan_Transport
  imports Cap_Revoke
begin

text \<open>
  The sidecar-facing channel transport \<^verbatim>\<open>kernel/chan.c\<close>: slot resolution, the mapping of
  error codes, deadlines, \<^verbatim>\<open>k_chan_wait\<close>, \<^verbatim>\<open>k_chan_recv\<close>, \<^verbatim>\<open>k_chan_send\<close>,
  \<^verbatim>\<open>k_chan_close\<close>, \<^verbatim>\<open>k_cap_info\<close>, mediated port access and \<^verbatim>\<open>k_dev_mmap\<close>. Errors are the
  positive \<^verbatim>\<open>CAP_ERR_*\<close> codes, carried on the left of a sum.
\<close>

section \<open>Error codes\<close>

datatype chan_err =
    CE_NOTFOUND | CE_REVOKED | CE_RIGHTS | CE_RANGE | CE_BUDGET | CE_SPACE | CE_TARGET | CE_STATE
  | CE_TYPE | CE_PROTO | CE_NOMEM | CE_BUFSZ | CE_TIMEOUT

fun chan_errno :: "chan_err \<Rightarrow> nat" where
  "chan_errno CE_NOTFOUND = 1"
| "chan_errno CE_REVOKED = 2"
| "chan_errno CE_RIGHTS = 3"
| "chan_errno CE_RANGE = 4"
| "chan_errno CE_BUDGET = 5"
| "chan_errno CE_SPACE = 6"
| "chan_errno CE_TARGET = 7"
| "chan_errno CE_STATE = 8"
| "chan_errno CE_TYPE = 9"
| "chan_errno CE_PROTO = 10"
| "chan_errno CE_NOMEM = 11"
| "chan_errno CE_BUFSZ = 12"
| "chan_errno CE_TIMEOUT = 13"

fun chan_map_err :: "cap_err \<Rightarrow> chan_err" where
  "chan_map_err EBADF = CE_NOTFOUND"
| "chan_map_err ECAPREVOKED = CE_REVOKED"
| "chan_map_err EINVAL = CE_TYPE"
| "chan_map_err EAGAIN = CE_TIMEOUT"
| "chan_map_err ENOMEM = CE_NOMEM"
| "chan_map_err ENOSPC = CE_NOMEM"
| "chan_map_err ERANGE = CE_RANGE"
| "chan_map_err ETABLEFULL = CE_SPACE"
| "chan_map_err _ = CE_PROTO"

section \<open>Resolution\<close>

definition chan_table_for_pid :: "nat \<Rightarrow> cap_state \<Rightarrow> nat option" where
  "chan_table_for_pid pid s = List.find (\<lambda>i. t_pid (cap_tables s i) = pid) [0..<CAP_TABLE_MAX]"

definition chan_word_valid :: "64 word \<Rightarrow> bool" where
  "chan_word_valid w \<longleftrightarrow> cap_word_type w \<noteq> CAP_TYPE_NONE \<and> cap_word_state w = CAP_STATE_VALID \<and> cap_word_rsvd w = 0"

text \<open>\<open>want_type\<close> 0 accepts either end. The result is the channel and the caller's end.\<close>

definition chan_resolve :: "nat \<Rightarrow> nat \<Rightarrow> nat \<Rightarrow> cap_state \<Rightarrow> chan_err + (nat \<times> nat)" where
  "chan_resolve pid slot want_type s =
     (case chan_table_for_pid pid s of
        None \<Rightarrow> Inl CE_NOTFOUND
      | Some ti \<Rightarrow>
          if slot \<ge> CAP_TABLE_ENTRIES then Inl CE_RANGE
          else let w = slot_word s ti slot; ty = cap_word_type w; obj_id = cap_word_obj w
          in if \<not> chan_word_valid w then Inl CE_REVOKED
             else if ty \<noteq> CAP_TYPE_CHAN_R \<and> ty \<noteq> CAP_TYPE_CHAN_W then Inl CE_TYPE
             else if want_type \<noteq> 0 \<and> ty \<noteq> want_type then Inl CE_TYPE
             else if want_type = CAP_TYPE_CHAN_R \<and> cap_word_perms w AND CAP_PERM_RECV = 0 then Inl CE_RIGHTS
             else if want_type = CAP_TYPE_CHAN_W \<and> cap_word_perms w AND CAP_PERM_SEND = 0 then Inl CE_RIGHTS
             else if obj_id \<ge> CAP_OBJECT_MAX then Inl CE_REVOKED
             else if \<not> o_active (cap_objects s obj_id) \<or> o_kind (cap_objects s obj_id) \<noteq> KIND_CHAN then Inl CE_REVOKED
             else let chan_id = o_chan_id (cap_objects s obj_id)
                  in if chan_id \<ge> CAP_CHAN_MAX then Inl CE_REVOKED
                     else if \<not> c_active (cap_channels s chan_id) then Inl CE_STATE
                     else Inr (chan_id, if pid = c_end0_pid (cap_channels s chan_id) then 0 else 1))"

section \<open>Deadlines\<close>

definition KERNEL_TICK_NS :: "64 word" where "KERNEL_TICK_NS = 10000000"

definition chan_deadline_from_ns :: "64 word \<Rightarrow> 64 word \<Rightarrow> 64 word" where
  "chan_deadline_from_ns now timeout_ns =
     (let add = KERNEL_TICK_NS - 1;
          ticks = (if timeout_ns > - 1 - add then - 1 div KERNEL_TICK_NS
                   else (timeout_ns + add) div KERNEL_TICK_NS)
      in if now > - 1 - ticks then - 1 else now + ticks)"

section \<open>Waiting\<close>

datatype ch_kind = CH_KIND_MSG | CH_KIND_CLOSE | CH_KIND_NEW_CHANNEL | CH_KIND_NONE

definition CHAN_WAIT_MAX_CHANS :: nat where [limits]: "CHAN_WAIT_MAX_CHANS = 8"

definition chan_ready :: "nat \<Rightarrow> nat \<Rightarrow> cap_state \<Rightarrow> ch_kind option" where
  "chan_ready c dir s =
     (if c_qdepth (cap_channels s c) dir > 0 then Some CH_KIND_MSG
      else if c_close_evt (cap_channels s c) dir then Some CH_KIND_CLOSE
      else None)"

text \<open>The first ready endpoint among resolved ones.\<close>

fun chan_poll :: "nat \<Rightarrow> (nat \<times> nat) list \<Rightarrow> cap_state \<Rightarrow> (nat \<times> ch_kind) option" where
  "chan_poll i [] s = None"
| "chan_poll i ((c, dir) # rest) s =
     (case chan_ready c dir s of
        Some k \<Rightarrow> Some (i, k)
      | None \<Rightarrow> chan_poll (i + 1) rest s)"

text \<open>
  The first pass resolves each handle as it goes and stops at the first that is ready;
  \<open>Inr (Inr _)\<close> is the list of resolved endpoints when none is.
\<close>

fun wait_scan :: "nat \<Rightarrow> nat \<Rightarrow> nat list \<Rightarrow> cap_state \<Rightarrow> chan_err + ((nat \<times> ch_kind) + (nat \<times> nat) list)" where
  "wait_scan pid i [] s = Inr (Inr [])"
| "wait_scan pid i (slot # slots) s =
     (case chan_resolve pid slot CAP_TYPE_CHAN_R s of
        Inl e \<Rightarrow> Inl e
      | Inr (c, dir) \<Rightarrow>
          (case chan_ready c dir s of
             Some k \<Rightarrow> Inr (Inl (i, k))
           | None \<Rightarrow>
               (case wait_scan pid (i + 1) slots s of
                  Inr (Inr rest) \<Rightarrow> Inr (Inr ((c, dir) # rest))
                | r \<Rightarrow> r)))"

text \<open>
  The park loop. \<open>wakes\<close> lists what the process finds each time \<^verbatim>\<open>cap_wait_chans\<close> comes
  back from a park: the state and the tick counter; its end stands for the call that
  could not park.
\<close>

fun wait_loop :: "(nat \<times> nat) list \<Rightarrow> 64 word \<Rightarrow> (cap_state \<times> 64 word) list \<Rightarrow> chan_err + (nat \<times> ch_kind)" where
  "wait_loop eps deadline [] = Inl CE_TIMEOUT"
| "wait_loop eps deadline ((s, now) # wakes) =
     (case chan_poll 0 eps s of
        Some r \<Rightarrow> Inr r
      | None \<Rightarrow>
          if deadline \<noteq> 0 \<and> now \<ge> deadline
          then (case chan_poll 0 eps s of Some r \<Rightarrow> Inr r | None \<Rightarrow> Inl CE_TIMEOUT)
          else wait_loop eps deadline wakes)"

text \<open>
  \<open>taken\<close> is what \<^verbatim>\<open>cap_park_deadline_take\<close> returns (0 on a fresh call), \<open>now\<close> the tick
  counter.
\<close>

definition wait_deadline :: "64 word \<Rightarrow> 64 word \<Rightarrow> 64 word \<Rightarrow> 64 word" where
  "wait_deadline now taken timeout_ns =
     (if taken = 0 \<and> timeout_ns \<noteq> - 1 then chan_deadline_from_ns now timeout_ns else taken)"

definition k_chan_wait ::
  "nat \<Rightarrow> nat list \<Rightarrow> 64 word \<Rightarrow> 64 word \<Rightarrow> 64 word \<Rightarrow> (cap_state \<times> 64 word) list \<Rightarrow> cap_state \<Rightarrow>
   chan_err + (nat \<times> ch_kind)" where
  "k_chan_wait pid chans timeout_ns taken now wakes s =
     (if chans = [] \<or> length chans > CHAN_WAIT_MAX_CHANS then Inl CE_PROTO
      else let deadline = wait_deadline now taken timeout_ns
      in case wait_scan pid 0 chans s of
           Inl e \<Rightarrow> Inl e
         | Inr (Inl r) \<Rightarrow> Inr r
         | Inr (Inr eps) \<Rightarrow>
             if deadline \<noteq> 0 \<and> now \<ge> deadline
             then (case chan_poll 0 eps s of Some r \<Rightarrow> Inr r | None \<Rightarrow> Inl CE_TIMEOUT)
             else wait_loop eps deadline wakes)"

section \<open>Receiving\<close>

record chan_cap_ref =
  cr_handle :: nat
  cr_rights :: nat
  cr_flags :: nat
  cr_base :: "64 word"
  cr_len :: nat

record chan_recv_out =
  ro_kind :: ch_kind
  ro_flags :: nat
  ro_tag :: nat
  ro_len :: nat
  ro_n_caps :: nat
  ro_needed :: nat
  ro_buf :: "8 word list"
  ro_slots :: "chan_cap_ref list"

definition recv_out_none :: chan_recv_out where
  "recv_out_none = \<lparr>ro_kind = CH_KIND_NONE, ro_flags = 0, ro_tag = 0, ro_len = 0, ro_n_caps = 0,
     ro_needed = 0, ro_buf = [], ro_slots = []\<rparr>"

text \<open>The 8-byte body of a close event.\<close>

definition close_body :: "nat \<Rightarrow> nat \<Rightarrow> 8 word list" where
  "close_body reason detail =
     [of_nat (reason mod 256), of_nat (reason div 256), of_nat (detail mod 256), of_nat (detail div 256 mod 256),
      of_nat (detail div 65536 mod 256), of_nat (detail div 16777216 mod 256), 0, 0]"

definition recv_ref :: "nat \<Rightarrow> SLSCapDesc \<Rightarrow> cap_state \<Rightarrow> chan_cap_ref" where
  "recv_ref pid x s =
     (let oid = (case cap_debug_objid pid (d_slot x) s of (Ok i, _) \<Rightarrow> i | _ \<Rightarrow> 0xFFFFFFFF);
          pbase = (if oid \<noteq> 0xFFFFFFFF then cap_debug_obj_phys oid s else 0)
      in \<lparr>cr_handle = d_slot x, cr_rights = d_rights x, cr_flags = d_flags x,
          cr_base = pbase + of_nat (d_offset x), cr_len = d_len x\<rparr>)"

definition k_chan_recv ::
  "cap_env \<Rightarrow> nat \<Rightarrow> nat \<Rightarrow> nat \<Rightarrow> nat \<Rightarrow> cap_state \<Rightarrow> (chan_err + unit) \<times> chan_recv_out \<times> cap_state" where
  "k_chan_recv e pid chan buf_len n_slots s =
     (case chan_resolve pid chan CAP_TYPE_CHAN_R s of
        Inl x \<Rightarrow> (Inl x, recv_out_none, s)
      | Inr (c, dir) \<Rightarrow>
          let ch = cap_channels s c
          in if c_qdepth ch dir = 0
             then (if c_close_evt ch dir
                   then (if buf_len < 8 then (Inl CE_BUFSZ, recv_out_none\<lparr>ro_needed := 8\<rparr>, s)
                         else (Inr (), recv_out_none\<lparr>ro_kind := CH_KIND_CLOSE, ro_len := 8,
                                 ro_buf := close_body (c_close_reason ch dir) (c_close_detail ch dir)\<rparr>,
                               upd_channel c (\<lambda>ch. ch\<lparr>c_close_evt := (c_close_evt ch)(dir := False)\<rparr>) s))
                   else (Inl CE_STATE, recv_out_none, s))
             else let m = ring_front dir ch
                  in if buf_len < m_payload_len m \<or> n_slots < m_n_caps m
                     then (Inl CE_BUFSZ, recv_out_none\<lparr>ro_needed :=
                             (m_n_caps m mod 65536) * 65536 + m_payload_len m mod 65536\<rparr>, s)
                     else case cap_recv_msg e pid chan buf_len (u16 n_slots) s of
                            (Err x, _, s) \<Rightarrow> (Inl (chan_map_err x), recv_out_none, s)
                          | (Oob, _, s) \<Rightarrow> (Inl CE_PROTO, recv_out_none, s)
                          | (Ok _, mo, s) \<Rightarrow>
                              (Inr (), recv_out_none\<lparr>ro_kind := CH_KIND_MSG,
                                 ro_flags := (if odd (mo_flags mo) then 2 else 0), ro_tag := mo_tag mo,
                                 ro_len := mo_payload_len mo, ro_n_caps := mo_n_caps mo, ro_buf := mo_buf mo,
                                 ro_slots := map (\<lambda>x. recv_ref pid x s) (take n_slots (mo_caps mo))\<rparr>, s))"

section \<open>Sending and closing\<close>

definition send_resolve :: "nat \<Rightarrow> nat \<Rightarrow> cap_state \<Rightarrow> chan_err + (nat \<times> nat)" where
  "send_resolve pid chan s =
     (case chan_resolve pid chan CAP_TYPE_CHAN_W s of
        Inl CE_TYPE \<Rightarrow> chan_resolve pid chan CAP_TYPE_CHAN_R s
      | r \<Rightarrow> r)"

text \<open>
  A full queue parks the caller, which re-runs the call when it wakes; \<open>ParkedSend\<close>
  records the wait on the channel with the deadline. \<open>SendOob\<close> is the descriptor slot
  outside the table, which the source does not check.
\<close>

datatype send_result = SendOk | SendErr chan_err | ParkedSend nat "64 word" | SendOob

definition k_chan_send ::
  "nat \<Rightarrow> nat \<Rightarrow> nat \<Rightarrow> nat \<Rightarrow> 8 word list \<Rightarrow> SLSCapDesc list \<Rightarrow> 64 word \<Rightarrow> 64 word \<Rightarrow> 64 word \<Rightarrow> bool \<Rightarrow> cap_state \<Rightarrow>
   send_result \<times> cap_state" where
  "k_chan_send pid chan tag flags payload caps timeout_ns taken now can_park s =
     (if length payload > CAP_MSG_MAX_PAYLOAD then (SendErr CE_RANGE, s)
      else if length caps > CAP_MSG_MAX_CAPS then (SendErr CE_RANGE, s)
      else if odd (flags div 2) \<and> caps \<noteq> [] then (SendErr CE_PROTO, s)
      else let deadline = (if taken = 0 \<and> timeout_ns \<noteq> 0 \<and> timeout_ns \<noteq> - 1
                           then chan_deadline_from_ns now timeout_ns else taken)
      in case send_resolve pid chan s of
           Inl x \<Rightarrow> (SendErr x, s)
         | Inr (c, dir) \<Rightarrow>
             if c_closed (cap_channels s c) dir \<or> c_closed (cap_channels s c) (1 - dir) then (SendErr CE_STATE, s)
             else case cap_send_msg pid chan payload caps tag (if odd (flags div 2) then 1 else 0) s of
                    (Ok _, s) \<Rightarrow> (SendOk, s)
                  | (Err EAGAIN, s) \<Rightarrow>
                      if deadline \<noteq> 0 \<and> now \<ge> deadline then (SendErr CE_TIMEOUT, s)
                      else if can_park then (ParkedSend c deadline, s)
                      else (SendErr (chan_map_err EAGAIN), s)
                  | (Err x, s) \<Rightarrow> (SendErr (chan_map_err x), s)
                  | (Oob, s) \<Rightarrow> (SendOob, s))"

definition k_chan_close :: "nat \<Rightarrow> nat \<Rightarrow> nat \<Rightarrow> nat \<Rightarrow> cap_state \<Rightarrow> (chan_err + unit) \<times> cap_state" where
  "k_chan_close pid chan reason detail s =
     (case chan_resolve pid chan 0 s of
        Inl x \<Rightarrow> (Inl x, s)
      | Inr (c, dir) \<Rightarrow>
          if c_closed (cap_channels s c) dir then (Inr (), s)
          else (Inr (), log_hook MaybeHandoff (log_hook (WakeChan c)
                  (upd_channel c (\<lambda>ch. ch\<lparr>c_closed := (c_closed ch)(dir := True),
                     c_close_evt := (c_close_evt ch)(1 - dir := True),
                     c_close_reason := (c_close_reason ch)(1 - dir := reason),
                     c_close_detail := (c_close_detail ch)(1 - dir := detail)\<rparr>) s))))"

section \<open>Introspection and devices\<close>

record cap_info =
  ci_ty :: nat
  ci_rights :: nat
  ci_base :: "64 word"
  ci_len :: nat

definition k_cap_info :: "nat \<Rightarrow> nat \<Rightarrow> cap_state \<Rightarrow> chan_err + cap_info" where
  "k_cap_info pid handle s =
     (case chan_table_for_pid pid s of
        None \<Rightarrow> Inl CE_NOTFOUND
      | Some ti \<Rightarrow>
          if handle \<ge> CAP_TABLE_ENTRIES then Inl CE_RANGE
          else let w = slot_word s ti handle; ty = cap_word_type w; ob = cap_word_obj w
          in if \<not> chan_word_valid w then Inl CE_REVOKED
             else if ob < CAP_OBJECT_MAX \<and> o_active (cap_objects s ob) \<and> (ty = CAP_TYPE_MEM \<or> ty = CAP_TYPE_DEV)
             then Inr \<lparr>ci_ty = ty, ci_rights = unat (cap_word_perms w), ci_base = o_phys_base (cap_objects s ob),
                        ci_len = o_npages (cap_objects s ob) * 4096\<rparr>
             else Inr \<lparr>ci_ty = ty, ci_rights = unat (cap_word_perms w), ci_base = 0, ci_len = 0\<rparr>)"

definition io_resolve :: "nat \<Rightarrow> nat \<Rightarrow> 32 word \<Rightarrow> nat \<Rightarrow> nat \<Rightarrow> cap_state \<Rightarrow> chan_err + nat" where
  "io_resolve pid slot want_perm index sz s =
     (case chan_table_for_pid pid s of
        None \<Rightarrow> Inl CE_NOTFOUND
      | Some ti \<Rightarrow>
          if slot \<ge> CAP_TABLE_ENTRIES then Inl CE_RANGE
          else let w = slot_word s ti slot
          in if \<not> chan_word_valid w then Inl CE_REVOKED
             else if cap_word_type w \<noteq> CAP_TYPE_IO then Inl CE_TYPE
             else if cap_word_perms w AND want_perm = 0 then Inl CE_RIGHTS
             else if index + sz > cap_word_len w then Inl CE_RANGE
             else Inr (u16 (cap_word_obj w + index)))"

text \<open>The port \<^verbatim>\<open>k_io_in\<close> reads, and the port \<^verbatim>\<open>k_io_out\<close> writes.\<close>

definition k_io_in :: "nat \<Rightarrow> nat \<Rightarrow> nat \<Rightarrow> nat \<Rightarrow> cap_state \<Rightarrow> chan_err + nat" where
  "k_io_in pid slot index sz s =
     (if sz \<noteq> 1 \<and> sz \<noteq> 2 \<and> sz \<noteq> 4 then Inl CE_RANGE
      else io_resolve pid slot CAP_PERM_R index sz s)"

definition k_io_out :: "nat \<Rightarrow> nat \<Rightarrow> nat \<Rightarrow> nat \<Rightarrow> cap_state \<Rightarrow> chan_err + nat" where
  "k_io_out pid slot index sz s =
     (if sz \<noteq> 1 \<and> sz \<noteq> 2 \<and> sz \<noteq> 4 then Inl CE_RANGE
      else io_resolve pid slot CAP_PERM_W index sz s)"

definition dev_mmaps_overlap :: "CapTable \<Rightarrow> 64 word \<Rightarrow> nat \<Rightarrow> bool" where
  "dev_mmaps_overlap t vaddr npages \<longleftrightarrow>
     (let lo = vaddr; hi = page_at vaddr npages
      in list_ex (\<lambda>i. let m = t_maps t i; mlo = mp_vaddr m; mhi = page_at (mp_vaddr m) (mp_npages m)
           in mp_active m \<and> lo < mhi \<and> mlo < hi) [0..<CAP_MAP_MAX])"

abbreviation (input) DEV_MMAP_USER_LIMIT :: "64 word" where "DEV_MMAP_USER_LIMIT \<equiv> 0x800000000000"
abbreviation (input) DEV_MMAP_WINDOW_BASE :: "64 word" where "DEV_MMAP_WINDOW_BASE \<equiv> 0x100000000"

text \<open>The first window from \<open>v\<close> upward that overlaps no mapping.\<close>

function dev_scan :: "CapTable \<Rightarrow> nat \<Rightarrow> 64 word \<Rightarrow> 64 word" where
  "dev_scan t len v =
     (if v < DEV_MMAP_USER_LIMIT
      then if dev_mmaps_overlap t v len then dev_scan t len (v + 0x1000) else v
      else v)"
  by auto
termination
proof (relation "measure (\<lambda>(t, len, v). unat (DEV_MMAP_USER_LIMIT + 0x1000 - v))")
  fix t :: CapTable and len :: nat and v :: "64 word"
  assume v: "v < DEV_MMAP_USER_LIMIT"
  then have "unat v < 0x800000000000"
    by (simp add: word_less_nat_alt)
  then have "unat (v + 0x1000) = unat v + 0x1000"
    by (simp add: unat_word_ariths)
  with \<open>unat v < 0x800000000000\<close> have "v \<le> DEV_MMAP_USER_LIMIT + 0x1000" "v + 0x1000 \<le> DEV_MMAP_USER_LIMIT + 0x1000"
    "unat (v + 0x1000) = unat v + 0x1000"
    by (simp_all add: word_le_nat_alt)
  then have "unat (DEV_MMAP_USER_LIMIT + 0x1000 - (v + 0x1000)) < unat (DEV_MMAP_USER_LIMIT + 0x1000 - v)"
    using \<open>unat v < 0x800000000000\<close> by (simp only: unat_sub) simp
  then show "((t, len, v + 0x1000), t, len, v) \<in> measure (\<lambda>(t, len, v). unat (DEV_MMAP_USER_LIMIT + 0x1000 - v))"
    by simp
qed simp

declare dev_scan.simps [simp del]

definition dev_window :: "CapTable \<Rightarrow> nat \<Rightarrow> 64 word \<Rightarrow> 64 word" where
  "dev_window t len hint =
     (if hint \<ge> DEV_MMAP_WINDOW_BASE \<and> hint AND 0xFFF = 0 \<and> page_at hint len \<le> DEV_MMAP_USER_LIMIT \<and>
         \<not> dev_mmaps_overlap t hint len
      then hint else dev_scan t len DEV_MMAP_WINDOW_BASE)"

definition dev_map_perms :: "32 word \<Rightarrow> 32 word \<Rightarrow> 32 word" where
  "dev_map_perms perms flags =
     perms AND (CAP_PERM_R OR CAP_PERM_W) OR (if flags AND 1 \<noteq> 0 then 0x10 else 0) OR (if flags AND 2 \<noteq> 0 then 0x20 else 0)"

definition dev_check :: "nat \<Rightarrow> nat \<Rightarrow> cap_state \<Rightarrow> chan_err + (nat \<times> nat \<times> nat \<times> 32 word)" where
  "dev_check ti slot s =
     (let w = slot_word s ti slot; perms = cap_word_perms w; obj_id = cap_word_obj w;
          off = cap_word_off w; len = cap_word_len w
      in if \<not> chan_word_valid w then Inl CE_REVOKED
         else if cap_word_type w \<noteq> CAP_TYPE_DEV then Inl CE_TYPE
         else if perms AND (CAP_PERM_R OR CAP_PERM_W) = 0 then Inl CE_RIGHTS
         else if obj_id \<ge> CAP_OBJECT_MAX then Inl CE_TYPE
         else if \<not> o_active (cap_objects s obj_id) \<or> o_kind (cap_objects s obj_id) \<noteq> KIND_DEV then Inl CE_TYPE
         else if len = 0 then Inl CE_RANGE
         else if off + len * 4096 > o_npages (cap_objects s obj_id) * 4096 then Inl CE_RANGE
         else Inr (obj_id, off, len, perms))"

definition k_dev_mmap ::
  "cap_env \<Rightarrow> nat \<Rightarrow> nat \<Rightarrow> 32 word \<Rightarrow> 64 word \<Rightarrow> cap_state \<Rightarrow> (chan_err + 64 word) \<times> cap_state" where
  "k_dev_mmap e pid slot flags hint s =
     (if flags AND NOT 3 \<noteq> 0 then (Inl CE_RANGE, s)
      else case chan_table_for_pid pid s of
        None \<Rightarrow> (Inl CE_NOTFOUND, s)
      | Some ti \<Rightarrow>
          if slot \<ge> CAP_TABLE_ENTRIES then (Inl CE_RANGE, s)
          else case dev_check ti slot s of
            Inl x \<Rightarrow> (Inl x, s)
          | Inr (obj_id, off, len, perms) \<Rightarrow>
              let t = cap_tables s ti
              in case List.find (\<lambda>i. mp_active (t_maps t i) \<and> mp_obj_id (t_maps t i) = obj_id) [0..<CAP_MAP_MAX] of
                   Some i \<Rightarrow> (Inr (mp_vaddr (t_maps t i)), s)
                 | None \<Rightarrow>
                     let vaddr = dev_window t len hint; cr3 = e_proc_cr3 e pid
                     in if cr3 = 0 then (Inl CE_STATE, s)
                        else case map_pages e cr3 vaddr (o_phys_base (cap_objects s obj_id) + of_nat off)
                                    (dev_map_perms perms flags) 0 len s of
                          (Some _, s) \<Rightarrow> (Inl CE_NOMEM, s)
                        | (None, s) \<Rightarrow>
                            let s = log_hook ArchTlbFlush s
                            in case map_free_record (cap_tables s ti) of
                                 None \<Rightarrow> (Inl CE_SPACE, s)
                               | Some i \<Rightarrow>
                                   (Inr vaddr, upd_map ti i (\<lambda>m. m\<lparr>mp_obj_id := obj_id, mp_cap_slot := slot,
                                      mp_npages := u16 len, mp_vaddr := vaddr, mp_active := True\<rparr>) s))"

end
