(* ===== verification/Chan_Irq.thy ===== *)
theory Chan_Irq
  imports Chan_Transport
begin

text \<open>
  Interrupt notification channels of \<^verbatim>\<open>kernel/cap.c\<close>: the interrupt path latches a vector
  (\<^verbatim>\<open>cap_irq_notify\<close>), a process-context drainer delivers it as a message
  (\<^verbatim>\<open>cap_irq_drain_pending\<close>, \<^verbatim>\<open>cap_irq_notify_locked\<close>), and drivers bind, unbind and mask
  a vector (\<^verbatim>\<open>k_irq_bind\<close>, \<^verbatim>\<open>k_irq_unbind\<close>, \<^verbatim>\<open>k_irq_mask\<close>). The pending bitmap is a
  predicate on vectors.
\<close>

section \<open>Delivery\<close>

definition cap_irq_notify :: "nat \<Rightarrow> cap_state \<Rightarrow> cap_state" where
  "cap_irq_notify vector s =
     (if vector \<ge> CAP_IRQ_VECTORS then log_hook (IrqEoi vector) s
      else let s = (if vector \<ge> 0x21 then log_hook (IrqSetMask vector True) s else s);
               s = s\<lparr>g_irq_pending := (g_irq_pending s)(vector := True)\<rparr>
           in log_hook (IrqEoi vector) s)"

definition irq_message :: "nat \<Rightarrow> nat \<Rightarrow> ChanMsg \<Rightarrow> ChanMsg" where
  "irq_message vector pidx m =
     (msg_clear_caps m)\<lparr>m_n_caps := 0, m_cookie := of_nat vector, m_flags := 0, m_payload_len := 1, m_payload_idx := pidx\<rparr>"

definition cap_irq_notify_locked :: "nat \<Rightarrow> cap_state \<Rightarrow> cap_state" where
  "cap_irq_notify_locked vector s =
     (let chan_id = g_irq_chan s vector
      in if chan_id = CAP_NONE then s
         else if \<not> c_active (cap_channels s chan_id) then s
         else let budget = (if g_irq_budget s vector = 0 then CHAN_QUEUE_DEPTH else g_irq_budget s vector)
              in if c_qdepth (cap_channels s chan_id) 0 \<ge> budget then s
                 else case cap_msg_payload_alloc (cap_payload s) of
                        None \<Rightarrow> s
                      | Some (pidx, pool) \<Rightarrow>
                          let s = s\<lparr>cap_payload := pool\<lparr>pp_data := (pp_data pool)(pidx :=
                                     (pp_data pool pidx)(0 := of_nat (vector mod 256)))\<rparr>\<rparr>;
                              entry = ring_tail 0 (cap_channels s chan_id);
                              s = upd_msg chan_id 0 entry (irq_message vector pidx) s
                          in log_hook (WakeChan chan_id) (upd_channel chan_id (ring_put 0) s))"

definition irq_drain_one :: "nat \<Rightarrow> cap_state \<Rightarrow> cap_state" where
  "irq_drain_one v s =
     (if g_irq_pending s v
      then cap_irq_notify_locked v (s\<lparr>g_irq_pending := (g_irq_pending s)(v := False)\<rparr>)
      else s)"

definition cap_irq_drain_pending :: "cap_state \<Rightarrow> cap_state" where
  "cap_irq_drain_pending s = fold irq_drain_one [0..<CAP_IRQ_VECTORS] s"

section \<open>Binding\<close>

definition irq_bind_check :: "nat \<Rightarrow> nat \<Rightarrow> cap_state \<Rightarrow> chan_err + nat" where
  "irq_bind_check ti slot s =
     (if slot \<ge> CAP_TABLE_ENTRIES then Inl CE_RANGE
      else let w = slot_word s ti slot; vector = cap_word_obj w
      in if \<not> cap_word_valid w then Inl CE_REVOKED
         else if cap_word_type w \<noteq> CAP_TYPE_IRQ then Inl CE_TYPE
         else if cap_word_perms w AND CAP_PERM_BIND = 0 then Inl CE_RIGHTS
         else if vector \<ge> CAP_IRQ_VECTORS then Inl CE_RANGE
         else if g_irq_chan s vector \<noteq> CAP_NONE then Inl CE_STATE
         else Inr vector)"

definition irq_deactivate :: "nat \<Rightarrow> cap_state \<Rightarrow> cap_state" where
  "irq_deactivate c = upd_channel c (\<lambda>ch. ch\<lparr>c_active := False\<rparr>)"

definition irq_channel :: "nat \<Rightarrow> nat \<Rightarrow> cap_state \<Rightarrow> (chan_err + (nat \<times> nat)) \<times> cap_state" where
  "irq_channel pid ti s =
     (case cap_chan_id_take s of
        (None, s) \<Rightarrow> (Inl CE_SPACE, s)
      | (Some c, s) \<Rightarrow>
          let s = upd_channel c (chan_reset pid 0) s
          in case cap_object_alloc KIND_CHAN s of
               None \<Rightarrow> (Inl CE_NOMEM, irq_deactivate c s)
             | Some (obj_id, s) \<Rightarrow>
                 let s = upd_object obj_id (\<lambda>b. b\<lparr>o_chan_id := u16 c\<rparr>) s
                 in case cap_slot_pop ti s of
                      None \<Rightarrow> (Inl CE_SPACE, irq_deactivate c (cap_object_destroy obj_id s))
                    | Some (rd, s) \<Rightarrow>
                        let s = set_slot ti rd (chan_r_word obj_id) s
                        in case cap_holder_alloc obj_id HOLDER_SLOT (u16 pid) rd 0 s of
                             None \<Rightarrow> (Inl CE_NOMEM, irq_deactivate c (cap_object_destroy obj_id
                                       (cap_slot_push ti rd (set_slot ti rd 0 s))))
                           | Some (hs, s) \<Rightarrow> (Inr (rd, c), cap_holder_link hs obj_id s))"

definition k_irq_bind :: "nat \<Rightarrow> nat \<Rightarrow> nat \<Rightarrow> cap_state \<Rightarrow> (chan_err + nat) \<times> cap_state" where
  "k_irq_bind pid slot budget s =
     (if budget > CHAN_QUEUE_DEPTH then (Inl CE_RANGE, s)
      else case cap_table_index pid s of
        (None, s) \<Rightarrow> (Inl CE_NOTFOUND, s)
      | (Some ti, s) \<Rightarrow>
     (case irq_bind_check ti slot s of
        Inl x \<Rightarrow> (Inl x, s)
      | Inr vector \<Rightarrow>
          let w = slot_word s ti slot
          in case irq_channel pid ti s of
               (Inl x, s) \<Rightarrow> (Inl x, s)
             | (Inr (rd, c), s) \<Rightarrow>
                 let s = s\<lparr>g_irq_chan := (g_irq_chan s)(vector := u16 c),
                            g_irq_budget := (g_irq_budget s)(vector := u16 budget)\<rparr>;
                     s = log_hook (IrqUnmask vector) s
                 in (Inr rd, set_slot ti slot (cap_word_stamp_revoked w) s)))"

text \<open>The channel a read end names, and the vector it is registered under.\<close>

definition irq_vector :: "nat \<Rightarrow> nat \<Rightarrow> cap_state \<Rightarrow> chan_err + (nat \<times> nat)" where
  "irq_vector ti chan_r s =
     (if chan_r \<ge> CAP_TABLE_ENTRIES then Inl CE_RANGE
      else let w = slot_word s ti chan_r; obj_id = cap_word_obj w
      in if \<not> cap_word_valid w then Inl CE_REVOKED
         else if cap_word_type w \<noteq> CAP_TYPE_CHAN_R then Inl CE_TYPE
         else if obj_id \<ge> CAP_OBJECT_MAX then Inl CE_REVOKED
         else if \<not> o_active (cap_objects s obj_id) \<or> o_kind (cap_objects s obj_id) \<noteq> KIND_CHAN then Inl CE_REVOKED
         else let chan_id = o_chan_id (cap_objects s obj_id)
              in if chan_id \<ge> CAP_CHAN_MAX then Inl CE_REVOKED
                 else case List.find (\<lambda>v. g_irq_chan s v = chan_id) [0..<CAP_IRQ_VECTORS] of
                        None \<Rightarrow> Inl CE_STATE
                      | Some v \<Rightarrow> Inr (chan_id, v))"

definition k_irq_unbind :: "nat \<Rightarrow> nat \<Rightarrow> cap_state \<Rightarrow> (chan_err + nat) \<times> cap_state" where
  "k_irq_unbind pid chan_r s =
     (case cap_table_index pid s of
        (None, s) \<Rightarrow> (Inl CE_NOTFOUND, s)
      | (Some ti, s) \<Rightarrow>
     (case irq_vector ti chan_r s of
        Inl x \<Rightarrow> (Inl x, s)
      | Inr (c, vector) \<Rightarrow>
          if \<not> c_active (cap_channels s c) then (Inl CE_STATE, s)
          else let s = s\<lparr>g_irq_chan := (g_irq_chan s)(vector := CAP_NONE),
                          g_irq_budget := (g_irq_budget s)(vector := 0)\<rparr>;
                   s = snd (k_chan_close pid chan_r CLOSE_PEER vector s);
                   s = upd_channel c (\<lambda>ch. ch\<lparr>c_closed := (c_closed ch)(1 := True)\<rparr>) s
               in (Inr vector, log_hook (WakeChan c) s)))"

definition k_irq_mask :: "nat \<Rightarrow> nat \<Rightarrow> bool \<Rightarrow> cap_state \<Rightarrow> (chan_err + unit) \<times> cap_state" where
  "k_irq_mask pid chan_r masked s =
     (case cap_table_index pid s of
        (None, s) \<Rightarrow> (Inl CE_NOTFOUND, s)
      | (Some ti, s) \<Rightarrow>
     (case irq_vector ti chan_r s of
        Inl x \<Rightarrow> (Inl x, s)
      | Inr (c, vector) \<Rightarrow>
          let s = log_hook (IrqSetMask vector masked) s
          in (Inr (), if masked then s else cap_irq_drain_pending s)))"

end
