(* ===== verification/Cap_Tramp.thy ===== *)
theory Cap_Tramp
  imports Cap_Revoke
begin

text \<open>
  Trampoline capabilities of \<^verbatim>\<open>kernel/cap.c\<close>: a table of entry points, each named by a
  \<^verbatim>\<open>CAP_TYPE_TRAMP\<close> word whose object field is the trampoline's index. Protection keys
  come from the architecture hook \<^verbatim>\<open>cap_arch_alloc_pkey\<close>, whose answer is a parameter.
\<close>

definition CAP_TRAMP_MAX :: nat where [limits]: "CAP_TRAMP_MAX = 64"

abbreviation (input) CAP_TRAMP_MPK_SUPPORTED :: "32 word" where "CAP_TRAMP_MPK_SUPPORTED \<equiv> 1"
abbreviation (input) CAP_TRAMP_MPK_ENABLED :: "32 word" where "CAP_TRAMP_MPK_ENABLED \<equiv> 2"

record CapTrampoline =
  tr_entry_vaddr :: "64 word"
  tr_callee_pkey :: int
  tr_caller_pkey_mask :: nat
  tr_data_pkey :: nat
  tr_flags :: nat
  tr_max_stack_bytes :: nat
  tr_callee_pid :: nat
  tr_caller_pid :: nat
  tr_active :: bool

record tramp_state =
  cap_trampolines :: "nat \<Rightarrow> CapTrampoline"
  cap_tramp_next :: nat
  g_mpk_flags :: "32 word"

definition cap_trampoline_init :: "32 word \<Rightarrow> tramp_state \<Rightarrow> tramp_state" where
  "cap_trampoline_init detected ts =
     (let ts = ts\<lparr>g_mpk_flags := detected\<rparr>
      in if detected AND CAP_TRAMP_MPK_SUPPORTED \<noteq> 0
         then ts\<lparr>g_mpk_flags := detected OR CAP_TRAMP_MPK_ENABLED\<rparr> else ts)"

definition tramp_word :: "nat \<Rightarrow> 64 word" where
  "tramp_word slot = push_bit 61 (of_nat CAP_TYPE_TRAMP) OR push_bit 40 (of_nat slot) OR push_bit 32 5"

definition cap_trampoline_create ::
  "int \<Rightarrow> nat \<Rightarrow> nat \<Rightarrow> 64 word \<Rightarrow> nat \<Rightarrow> tramp_state \<Rightarrow> cap_state \<Rightarrow> nat res \<times> tramp_state \<times> cap_state" where
  "cap_trampoline_create pkey pid callee_pid entry_vaddr max_stack_bytes ts s =
     (if g_mpk_flags ts AND CAP_TRAMP_MPK_ENABLED = 0 then (Err ENOSYS, ts, s)
      else if callee_pid = 0 \<or> callee_pid = pid then (Err EINVAL, ts, s)
      else if entry_vaddr = 0 \<or> entry_vaddr \<ge> 0x100000000 then (Err EINVAL, ts, s)
      else if max_stack_bytes = 0 \<or> max_stack_bytes > 1048576 then (Err ERANGE, ts, s)
      else if pkey < 0 then (Err ENOMEM, ts, s)
      else if cap_tramp_next ts \<ge> CAP_TRAMP_MAX then (Err ETABLEFULL, ts, s)
      else let slot = cap_tramp_next ts;
               ts = ts\<lparr>cap_tramp_next := slot + 1,
                       cap_trampolines := (cap_trampolines ts)(slot := (cap_trampolines ts slot)
                         \<lparr>tr_entry_vaddr := entry_vaddr, tr_callee_pkey := pkey, tr_data_pkey := 3,
                          tr_max_stack_bytes := max_stack_bytes, tr_flags := 1, tr_caller_pkey_mask := 0,
                          tr_callee_pid := callee_pid, tr_caller_pid := pid, tr_active := True\<rparr>)\<rparr>
           in case cap_table_index pid s of
                (None, s) \<Rightarrow> (Err ETABLEFULL, ts, s)
              | (Some ti, s) \<Rightarrow>
                  (case cap_slot_pop ti s of
                     None \<Rightarrow> (Err ETABLEFULL, ts, s)
                   | Some (idx, s) \<Rightarrow> (Ok idx, ts, set_slot ti idx (tramp_word slot) s)))"

text \<open>The call itself is a stub of the source: a valid capability gets \<^verbatim>\<open>CAP_ENOSYS\<close>.\<close>

definition cap_trampoline_call :: "nat \<Rightarrow> nat \<Rightarrow> tramp_state \<Rightarrow> cap_state \<Rightarrow> cap_err \<times> cap_state" where
  "cap_trampoline_call pid tramp_idx ts s =
     (case cap_table_index pid s of
        (None, s) \<Rightarrow> (EINVAL, s)
      | (Some ti, s) \<Rightarrow>
          if tramp_idx \<ge> CAP_TABLE_ENTRIES then (EBADF, s)
          else let w = slot_word s ti tramp_idx
          in if cap_word_type w \<noteq> CAP_TYPE_TRAMP then (EBADF, s)
             else if cap_word_state w \<noteq> CAP_STATE_VALID then (ECAPREVOKED, s)
             else if cap_word_obj w \<ge> cap_tramp_next ts \<or> \<not> tr_active (cap_trampolines ts (cap_word_obj w))
             then (EBADF, s)
             else (ENOSYS, s))"

end
