(* ===== verification/Cap_Sidecar.thy ===== *)
theory Cap_Sidecar
  imports Cap_Revoke
begin

text \<open>
  The sidecar registry of \<^verbatim>\<open>kernel/cap.c\<close> (name and partition to process, with boot
  generations that survive teardown), the string helpers it uses, the CRC-32 of manifests
  and the writer of BootInfoBlock capability entries. A C string is the list of its
  characters before the terminator.
\<close>

section \<open>Strings\<close>

fun sidecar_streq :: "string \<Rightarrow> string \<Rightarrow> bool" where
  "sidecar_streq (a # as) (b # bs) = (if a \<noteq> b then False else sidecar_streq as bs)"
| "sidecar_streq [] [] = True"
| "sidecar_streq _ _ = False"

fun sidecar_prefix :: "string \<Rightarrow> string \<Rightarrow> bool" where
  "sidecar_prefix s [] = True"
| "sidecar_prefix [] (p # ps) = False"
| "sidecar_prefix (c # s) (p # ps) = (if c \<noteq> p then False else sidecar_prefix s ps)"

definition sidecar_strcpy :: "string \<Rightarrow> nat \<Rightarrow> string" where
  "sidecar_strcpy s n = take (n - 1) s"

section \<open>CRC-32\<close>

definition crc_bit :: "32 word \<Rightarrow> 32 word" where
  "crc_bit crc = drop_bit 1 crc XOR (0xEDB88320 AND (if crc AND 1 = 1 then - 1 else 0))"

definition crc_byte :: "8 word \<Rightarrow> 32 word \<Rightarrow> 32 word" where
  "crc_byte d crc = (crc_bit ^^ 8) (crc XOR ucast d)"

definition cap_sidecar_crc32 :: "8 word list \<Rightarrow> 32 word" where
  "cap_sidecar_crc32 data = fold crc_byte data 0xFFFFFFFF XOR 0xFFFFFFFF"

section \<open>Registry\<close>

definition SIDECAR_REGISTRY_MAX :: nat where [limits]: "SIDECAR_REGISTRY_MAX = 16"
definition SIDECAR_REGISTRY_NAME_LEN :: nat where [limits]: "SIDECAR_REGISTRY_NAME_LEN = 64"

record SidecarRegistryEntry =
  re_name :: string
  re_pid :: nat
  re_partition :: nat
  re_gen :: nat
  re_active :: bool

record SidecarGenCounter =
  gc_name :: string
  gc_partition :: nat
  gc_seen :: nat

record registry =
  sidecar_registry :: "nat \<Rightarrow> SidecarRegistryEntry"
  sidecar_gen_counters :: "nat \<Rightarrow> SidecarGenCounter"

definition sidecar_registry_init :: "registry \<Rightarrow> registry" where
  "sidecar_registry_init g =
     g\<lparr>sidecar_registry := (\<lambda>i. if i < SIDECAR_REGISTRY_MAX
          then (sidecar_registry g i)\<lparr>re_active := False, re_gen := 0\<rparr> else sidecar_registry g i),
       sidecar_gen_counters := (\<lambda>i. if i < SIDECAR_REGISTRY_MAX
          then (sidecar_gen_counters g i)\<lparr>gc_seen := 0\<rparr> else sidecar_gen_counters g i)\<rparr>"

definition gen_match :: "string \<Rightarrow> nat \<Rightarrow> SidecarGenCounter \<Rightarrow> bool" where
  "gen_match name part x \<longleftrightarrow> gc_seen x \<noteq> 0 \<and> gc_partition x = part \<and> sidecar_streq (gc_name x) name"

definition sidecar_gen_next :: "string \<Rightarrow> nat \<Rightarrow> registry \<Rightarrow> nat \<times> registry" where
  "sidecar_gen_next name part g =
     (if name = [] then (0, g)
      else case List.find (\<lambda>i. gen_match name part (sidecar_gen_counters g i)) [0..<SIDECAR_REGISTRY_MAX] of
        Some i \<Rightarrow> (gc_seen (sidecar_gen_counters g i),
                   g\<lparr>sidecar_gen_counters := (sidecar_gen_counters g)(i := (sidecar_gen_counters g i)
                      \<lparr>gc_seen := u32 (gc_seen (sidecar_gen_counters g i) + 1)\<rparr>)\<rparr>)
      | None \<Rightarrow>
          (case List.find (\<lambda>i. gc_seen (sidecar_gen_counters g i) = 0) [0..<SIDECAR_REGISTRY_MAX] of
             Some i \<Rightarrow> (0, g\<lparr>sidecar_gen_counters := (sidecar_gen_counters g)(i :=
                \<lparr>gc_name = sidecar_strcpy name SIDECAR_REGISTRY_NAME_LEN, gc_partition = part, gc_seen = 1\<rparr>)\<rparr>)
           | None \<Rightarrow> (0, g)))"

definition reg_match :: "string \<Rightarrow> nat \<Rightarrow> SidecarRegistryEntry \<Rightarrow> bool" where
  "reg_match name part x \<longleftrightarrow> re_active x \<and> re_partition x = part \<and> sidecar_streq (re_name x) name"

definition reg_find :: "string \<Rightarrow> nat \<Rightarrow> registry \<Rightarrow> nat option" where
  "reg_find name part g = List.find (\<lambda>i. reg_match name part (sidecar_registry g i)) [0..<SIDECAR_REGISTRY_MAX]"

definition upd_entry :: "nat \<Rightarrow> (SidecarRegistryEntry \<Rightarrow> SidecarRegistryEntry) \<Rightarrow> registry \<Rightarrow> registry" where
  "upd_entry i f g = g\<lparr>sidecar_registry := (sidecar_registry g)(i := f (sidecar_registry g i))\<rparr>"

definition sidecar_registry_register :: "string \<Rightarrow> nat \<Rightarrow> nat \<Rightarrow> registry \<Rightarrow> bool \<times> registry" where
  "sidecar_registry_register name pid part g =
     (if name = [] \<or> pid = 0 then (False, g)
      else case reg_find name part g of
        Some i \<Rightarrow>
          let g = upd_entry i (\<lambda>x. x\<lparr>re_pid := pid\<rparr>) g
          in case sidecar_gen_next name part g of (gen, g) \<Rightarrow> (True, upd_entry i (\<lambda>x. x\<lparr>re_gen := gen\<rparr>) g)
      | None \<Rightarrow>
          (case List.find (\<lambda>i. \<not> re_active (sidecar_registry g i)) [0..<SIDECAR_REGISTRY_MAX] of
             Some i \<Rightarrow>
               let g = upd_entry i (\<lambda>x. x\<lparr>re_name := sidecar_strcpy name SIDECAR_REGISTRY_NAME_LEN,
                         re_pid := pid, re_partition := part\<rparr>) g
               in case sidecar_gen_next name part g of
                    (gen, g) \<Rightarrow> (True, upd_entry i (\<lambda>x. x\<lparr>re_gen := gen, re_active := True\<rparr>) g)
           | None \<Rightarrow> (False, g)))"

definition sidecar_registry_resolve :: "string \<Rightarrow> nat \<Rightarrow> registry \<Rightarrow> nat" where
  "sidecar_registry_resolve name part g =
     (case reg_find name part g of Some i \<Rightarrow> re_pid (sidecar_registry g i) | None \<Rightarrow> 0)"

definition sidecar_registry_gen_of :: "nat \<Rightarrow> registry \<Rightarrow> nat" where
  "sidecar_registry_gen_of pid g =
     (if pid = 0 then 0
      else case List.find (\<lambda>i. re_active (sidecar_registry g i) \<and> re_pid (sidecar_registry g i) = pid)
                  [0..<SIDECAR_REGISTRY_MAX] of
             Some i \<Rightarrow> re_gen (sidecar_registry g i)
           | None \<Rightarrow> 0)"

definition sidecar_registry_count :: "registry \<Rightarrow> nat" where
  "sidecar_registry_count g = length (filter (\<lambda>i. re_active (sidecar_registry g i)) [0..<SIDECAR_REGISTRY_MAX])"

definition sidecar_registry_remove_pid :: "nat \<Rightarrow> registry \<Rightarrow> registry" where
  "sidecar_registry_remove_pid pid g =
     g\<lparr>sidecar_registry := (\<lambda>i. if i < SIDECAR_REGISTRY_MAX \<and> re_active (sidecar_registry g i) \<and>
            re_pid (sidecar_registry g i) = pid
          then (sidecar_registry g i)\<lparr>re_active := False\<rparr> else sidecar_registry g i)\<rparr>"

definition sys_sls_boot_gen :: "nat \<Rightarrow> registry \<Rightarrow> 64 word" where
  "sys_sls_boot_gen pid g = of_nat (sidecar_registry_gen_of pid g)"

section \<open>Restore holds\<close>

text \<open>The partitions whose next Linux child is held, in the order they were armed.\<close>

definition CAP_LINUX_RESTORE_HOLD_MAX :: nat where [limits]: "CAP_LINUX_RESTORE_HOLD_MAX = 8"

fun cap_linux_hold_has :: "nat \<Rightarrow> nat list \<Rightarrow> bool" where
  "cap_linux_hold_has p [] = False"
| "cap_linux_hold_has p (x # xs) = (if x = p then True else cap_linux_hold_has p xs)"

definition cap_linux_restore_arm :: "nat \<Rightarrow> nat list \<Rightarrow> nat list" where
  "cap_linux_restore_arm p xs =
     (if cap_linux_hold_has p xs then xs
      else if length xs \<ge> CAP_LINUX_RESTORE_HOLD_MAX then xs
      else xs @ [p])"

fun cap_linux_restore_disarm :: "nat \<Rightarrow> nat list \<Rightarrow> nat list" where
  "cap_linux_restore_disarm p [] = []"
| "cap_linux_restore_disarm p (x # xs) = (if x \<noteq> p then x # cap_linux_restore_disarm p xs else xs)"

section \<open>Teardown\<close>

text \<open>Teardown drops the registry entry first.\<close>

definition cap_table_teardown :: "cap_env \<Rightarrow> nat \<Rightarrow> registry \<times> cap_state \<Rightarrow> registry \<times> cap_state" where
  "cap_table_teardown e pid x = (case x of (g, s) \<Rightarrow> (sidecar_registry_remove_pid pid g, table_teardown e pid s))"

section \<open>BootInfoBlock entries\<close>

text \<open>Little-endian bytes of an unsigned value.\<close>

fun le_bytes :: "nat \<Rightarrow> nat \<Rightarrow> 8 word list" where
  "le_bytes 0 v = []"
| "le_bytes (Suc n) v = of_nat (v mod 256) # le_bytes n (v div 256)"

text \<open>
  The bytes one call appends; \<open>None\<close> is the 0 the source returns when the entry does not
  fit. The offset advances by their number.
\<close>

definition bib_put_entry ::
  "nat \<Rightarrow> nat \<Rightarrow> 8 word list \<Rightarrow> nat \<Rightarrow> nat \<Rightarrow> nat \<Rightarrow> 64 word \<Rightarrow> 64 word \<Rightarrow> 8 word list option" where
  "bib_put_entry off buf_cap name slot ty rights base len =
     (if off + 2 + length name + 2 + 1 + 1 + 8 + 8 > buf_cap then None
      else Some (le_bytes 2 (length name) @ name @ le_bytes 2 slot @ le_bytes 1 ty @ le_bytes 1 rights @
                 le_bytes 8 (unat base) @ le_bytes 8 (unat len)))"

end
