(* ===== verification/Cap_Syscall.thy ===== *)
theory Cap_Syscall
  imports Chan_Irq Cap_Tramp Cap_Sidecar
begin

text \<open>
  The system-call entry points of \<^verbatim>\<open>kernel/cap.c\<close> and \<^verbatim>\<open>kernel/chan.c\<close>: each takes the
  fields of its request, runs the operation for the calling process \<open>pid\<close>
  (\<^verbatim>\<open>cap_current_pid()\<close>) and encodes the outcome in one 64-bit word. The word is \<open>None\<close>
  when the operation indexed outside the slot array. A null request pointer is not
  modelled.
\<close>

section \<open>Return words\<close>

text \<open>
  \<^verbatim>\<open>(uint64_t)(int64_t)r\<close> sign-extends the negative error codes of the capability layer;
  the transport's codes are non-negative.
\<close>

definition err_word :: "cap_err \<Rightarrow> 64 word" where
  "err_word x = word_of_int (cap_errno x)"

definition ret_idx :: "nat res \<Rightarrow> 64 word option" where
  "ret_idx r = (case r of Ok i \<Rightarrow> Some (of_nat i) | Err x \<Rightarrow> Some (err_word x) | Oob \<Rightarrow> None)"

definition ret_unit :: "'a res \<Rightarrow> 64 word option" where
  "ret_unit r = (case r of Ok _ \<Rightarrow> Some 0 | Err x \<Rightarrow> Some (err_word x) | Oob \<Rightarrow> None)"

definition ret_chan :: "chan_err + 'a \<Rightarrow> 64 word" where
  "ret_chan r = (case r of Inl x \<Rightarrow> of_nat (chan_errno x) | Inr _ \<Rightarrow> 0)"

section \<open>Capability calls\<close>

definition sys_sls_cap_create_mem where
  "sys_sls_cap_create_mem e pid phys_base npages perm s =
     (case cap_create_mem e pid phys_base npages perm s of (r, s') \<Rightarrow> (ret_idx r, s'))"

definition sys_sls_cap_arena_alloc where
  "sys_sls_cap_arena_alloc pid npages perm s =
     (case cap_arena_alloc pid npages perm s of (r, s') \<Rightarrow> (ret_idx r, s'))"

text \<open>The four slots are written to the request only on success.\<close>

definition sys_sls_chan_create where
  "sys_sls_chan_create pid far_pid s =
     (case cap_chan_create pid far_pid s of
        (r, s') \<Rightarrow> (ret_unit r, (case r of Ok slots \<Rightarrow> Some slots | _ \<Rightarrow> None), s'))"

definition sys_sls_cap_send where
  "sys_sls_cap_send pid ch_w_idx cap_idx cookie s =
     (case cap_send pid ch_w_idx cap_idx cookie s of (r, s') \<Rightarrow> (ret_unit r, s'))"

definition sys_sls_cap_recv where
  "sys_sls_cap_recv pid ch_r_idx block release_pid s =
     (let s = (if release_pid \<noteq> 0 then log_hook (ReleasePid release_pid) s else s)
      in case cap_recv pid ch_r_idx block s of
           (r, cookie, slot, s') \<Rightarrow>
             ((case r of Ok _ \<Rightarrow> Some (of_nat slot) | Err x \<Rightarrow> Some (err_word x) | Oob \<Rightarrow> None), cookie, s'))"

definition sys_sls_cap_revoke where
  "sys_sls_cap_revoke e pid cap_idx s = (case cap_revoke e pid cap_idx s of (r, s') \<Rightarrow> (ret_unit r, s'))"

definition sys_sls_cap_map where
  "sys_sls_cap_map e pid cap_idx vaddr flags s =
     (case cap_map e pid cap_idx vaddr flags s of (r, s') \<Rightarrow> (ret_unit r, s'))"

definition sys_sls_cap_unmap where
  "sys_sls_cap_unmap e pid cap_idx vaddr s =
     (case cap_unmap e pid cap_idx vaddr s of (r, s') \<Rightarrow> (ret_unit r, s'))"

definition sys_sls_cap_send_msg where
  "sys_sls_cap_send_msg pid ch_w_idx payload caps tag flags s =
     (case cap_send_msg pid ch_w_idx payload caps tag flags s of (r, s') \<Rightarrow> (ret_unit r, s'))"

definition sys_sls_cap_recv_msg where
  "sys_sls_cap_recv_msg e pid ch_r_idx buf_len max_caps s =
     (case cap_recv_msg e pid ch_r_idx buf_len max_caps s of (r, out, s') \<Rightarrow> (ret_unit r, out, s'))"

definition sys_sls_cap_arena_free where
  "sys_sls_cap_arena_free pid cap_idx s = (case cap_arena_free pid cap_idx s of (r, s') \<Rightarrow> (ret_unit r, s'))"

section \<open>Interrupt and trampoline calls\<close>

definition sys_sls_irq_bind where
  "sys_sls_irq_bind pid slot budget s =
     (case k_irq_bind pid slot budget s of
        (r, s') \<Rightarrow> (ret_chan r, (case r of Inr chan_r \<Rightarrow> chan_r | Inl _ \<Rightarrow> CAP_NONE), s'))"

definition sys_sls_irq_unbind where
  "sys_sls_irq_unbind pid chan_r s = (case k_irq_unbind pid chan_r s of (r, s') \<Rightarrow> (ret_chan r, s'))"

definition sys_sls_irq_mask where
  "sys_sls_irq_mask pid chan_r masked s = (case k_irq_mask pid chan_r masked s of (r, s') \<Rightarrow> (ret_chan r, s'))"

definition sys_sls_trampoline_create where
  "sys_sls_trampoline_create pkey pid callee_pid entry_vaddr max_stack_bytes ts s =
     (case cap_trampoline_create pkey pid callee_pid entry_vaddr max_stack_bytes ts s of
        (r, ts', s') \<Rightarrow> (ret_idx r, ts', s'))"

definition sys_sls_trampoline_call where
  "sys_sls_trampoline_call pid tramp_idx ts s =
     (case cap_trampoline_call pid tramp_idx ts s of (x, s') \<Rightarrow> (err_word x, s'))"

section \<open>Transport calls\<close>

definition sys_sls_chan_wait where
  "sys_sls_chan_wait pid chans timeout_ns taken now wakes s =
     (let r = k_chan_wait pid chans timeout_ns taken now wakes s
      in (ret_chan r, (case r of Inr out \<Rightarrow> out | Inl _ \<Rightarrow> (0, CH_KIND_NONE))))"

definition sys_sls_chan_recv where
  "sys_sls_chan_recv e pid chan buf_len n_slots s =
     (case k_chan_recv e pid chan buf_len n_slots s of (r, out, s') \<Rightarrow> (ret_chan r, out, s'))"

text \<open>A sender that parked does not return.\<close>

definition sys_sls_chan_send where
  "sys_sls_chan_send pid chan tag flags payload caps timeout_ns taken now can_park s =
     (case k_chan_send pid chan tag flags payload caps timeout_ns taken now can_park s of
        (SendOk, s') \<Rightarrow> (Some 0, s')
      | (SendErr x, s') \<Rightarrow> (Some (of_nat (chan_errno x)), s')
      | (ParkedSend c d, s') \<Rightarrow> (None, s')
      | (SendOob, s') \<Rightarrow> (None, s'))"

definition sys_sls_chan_close where
  "sys_sls_chan_close pid chan reason detail s =
     (case k_chan_close pid chan reason detail s of (r, s') \<Rightarrow> (ret_chan r, s'))"

definition sys_sls_cap_info where
  "sys_sls_cap_info pid handle s = (ret_chan (k_cap_info pid handle s), k_cap_info pid handle s)"

text \<open>\<open>port_in\<close> is the value the port hook reads.\<close>

definition sys_sls_io_in ::
  "(nat \<Rightarrow> nat \<Rightarrow> 32 word) \<Rightarrow> nat \<Rightarrow> nat \<Rightarrow> nat \<Rightarrow> nat \<Rightarrow> cap_state \<Rightarrow> 64 word \<times> 32 word" where
  "sys_sls_io_in port_in pid slot index sz s =
     (let r = k_io_in pid slot index sz s
      in (ret_chan r, (case r of Inr port \<Rightarrow> port_in port sz | Inl _ \<Rightarrow> 0)))"

text \<open>The write reaches the port hook as \<open>(port, size, value)\<close>.\<close>

definition sys_sls_io_out where
  "sys_sls_io_out pid slot index sz (val :: 32 word) s =
     (let r = k_io_out pid slot index sz s
      in (ret_chan r, (case r of Inr port \<Rightarrow> Some (port, sz, val) | Inl _ \<Rightarrow> None)))"

definition sys_sls_dev_mmap where
  "sys_sls_dev_mmap e pid slot flags vaddr_hint s =
     (case k_dev_mmap e pid slot flags vaddr_hint s of
        (r, s') \<Rightarrow> (ret_chan r, (case r of Inr v \<Rightarrow> v | Inl _ \<Rightarrow> of_nat CAP_NONE), s'))"

end
