(* ===== verification/Chan_Laws.thy ===== *)
theory Chan_Laws
  imports Cap_Laws Cap_Syscall
begin

text \<open>
  Properties of the transport layer (\<^verbatim>\<open>kernel/chan.c\<close>), of interrupt delivery and of the
  sidecar registry.
\<close>

section \<open>Deadlines and waiting\<close>

lemma tick_sum: "timeout \<le> - 1 - (KERNEL_TICK_NS - 1) \<Longrightarrow> unat (timeout + (KERNEL_TICK_NS - 1)) = unat timeout + 9999999"
  by (simp add: KERNEL_TICK_NS_def unat_word_ariths word_le_nat_alt)

lemma unat_word64: "unat w < 2 ^ 64" for w :: "64 word"
  using unsigned_less [of w] by simp

lemma saturating_add:
  "unat (if now > - 1 - t then - 1 else now + t) = min (2 ^ 64 - 1) (unat now + unat t)" for t :: "64 word"
proof -
  have top: "unat (- 1 :: 64 word) = 2 ^ 64 - 1"
    by (simp add: unsigned_minus_1_eq_mask mask_eq_exp_minus_1)
  have b: "unat t < 2 ^ 64" "unat now < 2 ^ 64"
    using unat_word64 [of t] unat_word64 [of now] by simp_all
  have "unat (- 1 - t) = 2 ^ 64 - 1 - unat t"
    using unat_sub [of t "- 1"] top b(1) by (simp add: word_le_nat_alt)
  then show ?thesis
    using b top by (auto simp: word_less_nat_alt unat_word_ariths min_def)
qed

text \<open>
  C22. \<^verbatim>\<open>chan_deadline_from_ns\<close> is exact and never wraps: for a timeout that leaves room for rounding,
  the deadline is the current tick plus the timeout in ticks, rounded up, saturated at the
  largest 64-bit value; for the largest timeouts it is still not before the current tick.
\<close>

theorem deadline_exact:
  "(timeout \<le> - 1 - (KERNEL_TICK_NS - 1) \<longrightarrow>
      unat (chan_deadline_from_ns now timeout) = min (2 ^ 64 - 1) (unat now + (unat timeout + 9999999) div 10000000)) \<and>
   now \<le> chan_deadline_from_ns now timeout"
proof
  show "timeout \<le> - 1 - (KERNEL_TICK_NS - 1) \<longrightarrow>
      unat (chan_deadline_from_ns now timeout) = min (2 ^ 64 - 1) (unat now + (unat timeout + 9999999) div 10000000)"
    using tick_sum [of timeout] unfolding chan_deadline_from_ns_def Let_def saturating_add
    by (simp add: linorder_not_le [symmetric] unat_div KERNEL_TICK_NS_def)
  show "now \<le> chan_deadline_from_ns now timeout"
    using unat_word64 [of now] unfolding chan_deadline_from_ns_def Let_def word_le_nat_alt saturating_add by simp
qed

theorem deadline_exact_witness: "unat (chan_deadline_from_ns 100 25000000) = 103"
  using deadline_exact [of 25000000 100] by (simp add: KERNEL_TICK_NS_def)

lemma poll_ready: "chan_poll i eps s = Some (j, k) \<longleftrightarrow>
    (\<exists>n < length eps. j = i + n \<and> chan_ready (fst (eps ! n)) (snd (eps ! n)) s = Some k \<and>
       (\<forall>m < n. chan_ready (fst (eps ! m)) (snd (eps ! m)) s = None))"
proof (induction eps arbitrary: i)
  case (Cons x eps)
  show ?case
  proof (cases "chan_ready (fst x) (snd x) s")
    case None
    have "chan_poll i (x # eps) s = chan_poll (i + 1) eps s"
      using None by (cases x) simp
    also have "\<dots> = Some (j, k) \<longleftrightarrow> (\<exists>n < length eps. j = i + Suc n \<and> chan_ready (fst (eps ! n)) (snd (eps ! n)) s = Some k \<and>
       (\<forall>m < n. chan_ready (fst (eps ! m)) (snd (eps ! m)) s = None))"
      using Cons.IH [of "i + 1"] by simp
    also have "\<dots> \<longleftrightarrow> (\<exists>n < length (x # eps). j = i + n \<and> chan_ready (fst ((x # eps) ! n)) (snd ((x # eps) ! n)) s = Some k \<and>
       (\<forall>m < n. chan_ready (fst ((x # eps) ! m)) (snd ((x # eps) ! m)) s = None))"
      unfolding Ex_less_Suc2 length_Cons All_less_Suc2 using None by simp
    finally show ?thesis .
  next
    case (Some k')
    then show ?thesis
      by (cases x) (auto simp: Ex_less_Suc2)
  qed
qed simp

lemma poll_none: "chan_poll i eps s = None \<longleftrightarrow> (\<forall>(c, d) \<in> set eps. chan_ready c d s = None)"
  by (induction i eps s rule: chan_poll.induct) (auto split: option.splits)

text \<open>
  C21. A wait ends with what woke it: if at some wake-up an endpoint of the set is ready and no
  earlier wake-up found one or came at or after the deadline, the wait reports the first ready
  endpoint of that wake-up and what is ready there, even when that wake-up is itself late.
\<close>

theorem wait_reports_ready:
  assumes "\<forall>(s, now) \<in> set early. chan_poll 0 eps s = None \<and> \<not> (deadline \<noteq> 0 \<and> now \<ge> deadline)"
    and "(c, d) \<in> set eps" and "chan_ready c d s \<noteq> None"
  shows "\<exists>i k. wait_loop eps deadline (early @ (s, now) # rest) = Inr (i, k) \<and> i < length eps \<and>
    chan_ready (fst (eps ! i)) (snd (eps ! i)) s = Some k \<and> (\<forall>m < i. chan_ready (fst (eps ! m)) (snd (eps ! m)) s = None)"
proof -
  have "chan_poll 0 eps s \<noteq> None"
    using assms(2,3) poll_none [of 0 eps s] by auto
  then obtain i k where p: "chan_poll 0 eps s = Some (i, k)"
    by auto
  have "wait_loop eps deadline (early @ (s, now) # rest) = Inr (i, k)"
    using assms(1) by (induction early) (auto simp: p)
  then show ?thesis
    using p [unfolded poll_ready] by auto
qed

theorem wait_reports_ready_witness:
  "wait_loop [(0, 1)] 50 [(chan_run, 10), (send_run, 60)] = Inr (0, CH_KIND_MSG)"
proof -
  have q: "chan_ready 0 1 send_run = Some CH_KIND_MSG"
    by (simp add: chan_ready_def send_run_channel)
  have "chan_poll 0 [(0, 1)] chan_run = None"
    by (simp add: chan_ready_def chan_reset_def zero_channel_def)
  then show ?thesis
    using wait_reports_ready [of "[(chan_run, 10)]" "[(0, 1)]" 50 0 1 send_run 60 "[]"] q by auto
qed

section \<open>The sidecar registry\<close>

lemma streq_eq [simp]: "sidecar_streq a b \<longleftrightarrow> a = b"
  by (induction a b rule: sidecar_streq.induct) auto

lemma gen_next_registry [simp]: "sidecar_registry (snd (sidecar_gen_next name part g)) = sidecar_registry g"
  by (simp add: sidecar_gen_next_def split: option.split)

lemma reg_find_cong:
  "(\<And>i. i < SIDECAR_REGISTRY_MAX \<Longrightarrow> reg_match n p (sidecar_registry g i) = reg_match n p (sidecar_registry g' i)) \<Longrightarrow>
   reg_find n p g = reg_find n p g'"
  unfolding reg_find_def by (rule find_cong) auto

lemma reg_find_only:
  assumes "i < SIDECAR_REGISTRY_MAX" and "\<And>j. j < SIDECAR_REGISTRY_MAX \<Longrightarrow> reg_match n p (sidecar_registry g j) \<longleftrightarrow> j = i"
  shows "reg_find n p g = Some i"
  using assms unfolding reg_find_def find_Some_iff by (intro exI [of _ i]) auto

text \<open>What a successful registration writes: one entry with the name, the process and the partition.\<close>

lemma register_entry:
  assumes "sidecar_registry_register name pid part g = (True, g')"
  obtains i gen where "i < SIDECAR_REGISTRY_MAX" and "pid \<noteq> 0" and
    "sidecar_registry g' = (sidecar_registry g)(i := \<lparr>re_name = (if reg_match name part (sidecar_registry g i) then name else take 63 name),
       re_pid = pid, re_partition = part, re_gen = gen, re_active = True\<rparr>)"
    "if reg_match name part (sidecar_registry g i) then \<forall>j < i. \<not> reg_match name part (sidecar_registry g j)
     else \<not> re_active (sidecar_registry g i) \<and> (\<forall>j < SIDECAR_REGISTRY_MAX. \<not> reg_match name part (sidecar_registry g j))"
proof (cases "reg_find name part g")
  case (Some i)
  have i: "i < SIDECAR_REGISTRY_MAX" "reg_match name part (sidecar_registry g i)" "\<forall>j < i. \<not> reg_match name part (sidecar_registry g j)"
    using Some unfolding reg_find_def find_upt_Some by blast+
  let ?g1 = "upd_entry i (\<lambda>x. x\<lparr>re_pid := pid\<rparr>) g"
  have g': "pid \<noteq> 0" "g' = upd_entry i (\<lambda>x. x\<lparr>re_gen := fst (sidecar_gen_next name part ?g1)\<rparr>) (snd (sidecar_gen_next name part ?g1))"
    using assms Some by (auto simp: sidecar_registry_register_def Let_def split: prod.splits if_splits)
  show ?thesis
    by (rule that [OF i(1) g'(1), of "fst (sidecar_gen_next name part ?g1)"])
      (use i in \<open>auto simp: g'(2) upd_entry_def reg_match_def fun_eq_iff\<close>)
next
  case None
  then have none: "\<forall>j < SIDECAR_REGISTRY_MAX. \<not> reg_match name part (sidecar_registry g j)"
    by (auto simp: reg_find_def find_None_iff)
  obtain i where fr: "List.find (\<lambda>i. \<not> re_active (sidecar_registry g i)) [0..<SIDECAR_REGISTRY_MAX] = Some i"
    using assms None by (auto simp: sidecar_registry_register_def split: option.splits if_splits)
  have i: "i < SIDECAR_REGISTRY_MAX" "\<not> re_active (sidecar_registry g i)"
    using fr unfolding find_upt_Some by blast+
  let ?g1 = "upd_entry i (\<lambda>x. x\<lparr>re_name := sidecar_strcpy name SIDECAR_REGISTRY_NAME_LEN, re_pid := pid, re_partition := part\<rparr>) g"
  have g': "pid \<noteq> 0" "g' = upd_entry i (\<lambda>x. x\<lparr>re_gen := fst (sidecar_gen_next name part ?g1), re_active := True\<rparr>)
      (snd (sidecar_gen_next name part ?g1))"
    using assms None fr by (auto simp: sidecar_registry_register_def Let_def split: prod.splits if_splits)
  show ?thesis
    by (rule that [OF i(1) g'(1), of "fst (sidecar_gen_next name part ?g1)"])
      (use i none in \<open>auto simp: g'(2) upd_entry_def reg_match_def fun_eq_iff sidecar_strcpy_def limits\<close>)
qed

lemma register_others:
  assumes "sidecar_registry_register name pid part g = (True, g')" and "length name < 64 \<and> n \<noteq> name \<or> p \<noteq> part"
  shows "sidecar_registry_resolve n p g' = sidecar_registry_resolve n p g"
proof -
  from register_entry [OF assms(1)] obtain i gen where i: "i < SIDECAR_REGISTRY_MAX" and
    g': "sidecar_registry g' = (sidecar_registry g)(i := \<lparr>re_name = (if reg_match name part (sidecar_registry g i) then name else take 63 name),
       re_pid = pid, re_partition = part, re_gen = gen, re_active = True\<rparr>)" and
    old: "reg_match name part (sidecar_registry g i) \<or> \<not> re_active (sidecar_registry g i)"
    by metis
  have no: "\<not> reg_match n p (sidecar_registry g i)" "\<not> reg_match n p (sidecar_registry g' i)"
    using old assms(2) by (auto simp: g' reg_match_def)
  then have f: "reg_find n p g' = reg_find n p g"
    by (intro reg_find_cong) (auto simp: g')
  moreover have "j \<noteq> i" if "reg_find n p g = Some j" for j
    using that no(1) unfolding reg_find_def find_upt_Some by blast
  ultimately show ?thesis
    by (auto simp: sidecar_registry_resolve_def g' split: option.split)
qed

text \<open>
  C24. Registering and resolving a sidecar round-trip: after a successful registration of a name
  below 64 characters its resolution in the same partition is the registered process, and every
  other name, and every name of another partition, resolves as before.
\<close>

theorem registry_roundtrip:
  assumes "sidecar_registry_register name pid part g = (True, g')" and "length name < 64"
  shows "sidecar_registry_resolve name part g' = pid \<and>
    (\<forall>n p. (n, p) \<noteq> (name, part) \<longrightarrow> sidecar_registry_resolve n p g' = sidecar_registry_resolve n p g)"
proof -
  from register_entry [OF assms(1)] obtain i gen where i: "i < SIDECAR_REGISTRY_MAX" and
    g': "sidecar_registry g' = (sidecar_registry g)(i := \<lparr>re_name = (if reg_match name part (sidecar_registry g i) then name else take 63 name),
       re_pid = pid, re_partition = part, re_gen = gen, re_active = True\<rparr>)" and
    below: "\<forall>j < i. \<not> reg_match name part (sidecar_registry g j)"
    by (metis less_trans)
  have "reg_find name part g' = Some i"
    unfolding reg_find_def find_upt_Some using i below assms(2) by (auto simp: g' reg_match_def)
  then have "sidecar_registry_resolve name part g' = pid"
    by (simp add: sidecar_registry_resolve_def g')
  then show ?thesis
    using register_others [OF assms(1)] assms(2) by auto
qed

definition empty_registry :: registry where
  "empty_registry = \<lparr>
     sidecar_registry = (\<lambda>_. \<lparr>re_name = [], re_pid = 0, re_partition = 0, re_gen = 0, re_active = False\<rparr>),
     sidecar_gen_counters = (\<lambda>_. \<lparr>gc_name = [], gc_partition = 0, gc_seen = 0\<rparr>)\<rparr>"

lemma empty_registers: "name \<noteq> [] \<Longrightarrow> \<exists>g'. sidecar_registry_register name 9 1 empty_registry = (True, g')"
proof -
  assume n: "name \<noteq> []"
  have "reg_find name 1 empty_registry = None"
    by (simp add: reg_find_def find_None_iff reg_match_def empty_registry_def)
  moreover have "List.find (\<lambda>i. \<not> re_active (sidecar_registry empty_registry i)) [0..<SIDECAR_REGISTRY_MAX] = Some 0"
    by (simp only: find_upt_Some) (simp add: empty_registry_def limits)
  ultimately show ?thesis
    using n by (simp add: sidecar_registry_register_def Let_def split: prod.split)
qed

theorem registry_roundtrip_witness:
  "\<exists>g'. sidecar_registry_register ''net'' 9 1 empty_registry = (True, g') \<and> sidecar_registry_resolve ''net'' 1 g' = 9"
proof -
  obtain g' where "sidecar_registry_register ''net'' 9 1 empty_registry = (True, g')"
    using empty_registers by blast
  with registry_roundtrip [OF this] show ?thesis
    by simp
qed

text \<open>
  Names of 64 characters and more are lost: the stored copy is cut at 63 characters and lookups
  compare the whole name, so the registration reports success and the name does not resolve.
\<close>

theorem registry_long_names:
  assumes "\<forall>i < SIDECAR_REGISTRY_MAX. length (re_name (sidecar_registry g i)) < 64" and "64 \<le> length name"
    and "sidecar_registry_register name pid part g = (True, g')"
  shows "sidecar_registry_resolve name part g' = 0"
proof -
  have none: "\<not> reg_match name part (sidecar_registry g i)" if "i < SIDECAR_REGISTRY_MAX" for i
    using assms(1,2) that by (force simp: reg_match_def)
  obtain i gen where "i < SIDECAR_REGISTRY_MAX" and
    g': "sidecar_registry g' = (sidecar_registry g)(i := \<lparr>re_name = take 63 name, re_pid = pid, re_partition = part, re_gen = gen, re_active = True\<rparr>)"
    by (rule register_entry [OF assms(3)]) (simp only: none if_False)
  then have "\<forall>j < SIDECAR_REGISTRY_MAX. \<not> reg_match name part (sidecar_registry g' j)"
    using none assms(2) by (auto simp: reg_match_def dest: arg_cong [of _ _ length])
  then have "reg_find name part g' = None"
    by (auto simp: reg_find_def find_None_iff)
  then show ?thesis
    by (simp add: sidecar_registry_resolve_def)
qed

theorem registry_long_names_witness:
  "\<exists>g'. sidecar_registry_register (replicate 64 CHR ''a'') 9 1 empty_registry = (True, g') \<and>
     sidecar_registry_resolve (replicate 64 CHR ''a'') 1 g' = 0"
proof -
  obtain g' where g': "sidecar_registry_register (replicate 64 CHR ''a'') 9 1 empty_registry = (True, g')"
    using empty_registers [of "replicate 64 CHR ''a''"] by auto
  have "\<forall>i < SIDECAR_REGISTRY_MAX. length (re_name (sidecar_registry empty_registry i)) < 64"
    by (simp add: empty_registry_def)
  from registry_long_names [OF this _ g'] g' show ?thesis
    by auto
qed

section \<open>Interrupts\<close>







lemma index_again:
  assumes "cap_table_index pid s = (Some ti, s1)" and "cap_table_pid s2 = cap_table_pid s1"
  shows "cap_table_index pid s2 = (Some ti, s2)"
proof (cases "pid = 0")
  case False
  have f: "List.find (\<lambda>i. cap_table_pid s1 i = pid) [0..<CAP_TABLE_MAX] = Some ti"
  proof (cases "List.find (\<lambda>i. cap_table_pid s i = pid) [0..<CAP_TABLE_MAX]")
    case None
    then have "\<forall>j < CAP_TABLE_MAX. cap_table_pid s j \<noteq> pid"
      by (auto simp: find_None_iff)
    moreover have "ti < CAP_TABLE_MAX" "cap_table_pid s1 = (cap_table_pid s)(ti := pid)"
      using assms(1) False None by (auto simp: cap_table_index_def state_upd_defs find_Some_iff split: option.splits)
    ultimately show ?thesis
      unfolding find_upt_Some by auto
  next
    case (Some i)
    then show ?thesis
      using assms(1) False by (simp add: cap_table_index_def)
  qed
  then show ?thesis
    using False assms(2) by (simp add: cap_table_index_def)
qed (use assms in \<open>auto simp: cap_table_index_def\<close>)

lemma irq_channel_pid: "irq_channel pid ti s = (Inr (rd, c), s') \<Longrightarrow> cap_table_pid s' = cap_table_pid s"
  by (auto simp: irq_channel_def cap_chan_id_take_def cap_object_alloc_def cap_slot_pop_def slot_pop_def cap_holder_alloc_def holder_pop_def
      cap_holder_link_def state_upd_defs Let_def split: option.splits if_splits)

text \<open>
  An interrupt capability binds once: after \<^verbatim>\<open>k_irq_bind\<close> succeeded the slot's word is stamped
  revoked and binding it again, with any budget in range, answers \<^verbatim>\<open>REVOKED\<close> and changes nothing.
\<close>

theorem irq_bind_once:
  assumes "k_irq_bind pid slot budget s = (Inr rd, s')" and "b \<le> CHAN_QUEUE_DEPTH"
  shows "k_irq_bind pid slot b s' = (Inl CE_REVOKED, s')"
proof -
  obtain ti s1 where i: "cap_table_index pid s = (Some ti, s1)"
    using assms(1) by (auto simp: k_irq_bind_def split: prod.splits option.splits if_splits)
  obtain vector where ck: "irq_bind_check ti slot s1 = Inr vector"
    using assms(1) i by (auto simp: k_irq_bind_def split: sum.splits if_splits)
  obtain c s2 where ch: "irq_channel pid ti s1 = (Inr (rd, c), s2)"
    using assms(1) i ck by (auto simp: k_irq_bind_def Let_def split: sum.splits if_splits prod.splits)
  have s': "s' = set_slot ti slot (cap_word_stamp_revoked (slot_word s1 ti slot))
      (log_hook (IrqUnmask vector) (s2\<lparr>g_irq_chan := (g_irq_chan s2)(vector := u16 c),
         g_irq_budget := (g_irq_budget s2)(vector := u16 budget)\<rparr>))"
    using assms(1) i ck ch by (simp add: k_irq_bind_def Let_def split: if_splits)
  have "cap_table_pid s' = cap_table_pid s1"
    using irq_channel_pid [OF ch] by (simp add: s' state_upd_defs)
  then have "cap_table_index pid s' = (Some ti, s')"
    by (rule index_again [OF i])
  moreover have "irq_bind_check ti slot s' = Inl CE_REVOKED"
    using ck by (simp add: irq_bind_check_def Let_def s' state_upd_defs word_fields split: if_splits)
  ultimately show ?thesis
    using assms(2) by (simp add: k_irq_bind_def)
qed

definition irq_start :: cap_state where
  "irq_start = set_slot 1 3 (cap_word_make CAP_TYPE_IRQ 33 CAP_PERM_BIND 0 1) chan_run"

lemma chan_run_counters:
  "g_irq_chan chan_run 33 = CAP_NONE" "cap_obj_next chan_run = 2" "cap_chan_next chan_run = 1" "cap_chan_recycled_n chan_run = 0"
  by (simp_all add: chan_run_def chan_run3_def chan_run2_def chan_run1_def mem_run_def boot_eq zero_state_def limits)

lemma irq_start_fields:
  "cap_tables irq_start = (cap_tables chan_run)(Suc 0 := (cap_tables chan_run (Suc 0))\<lparr>t_slots :=
     (t_slots (cap_tables chan_run (Suc 0)))(3 := cap_word_make CAP_TYPE_IRQ 33 CAP_PERM_BIND 0 1)\<rparr>)"
  "cap_table_pid irq_start = cap_table_pid chan_run" "g_irq_chan irq_start = g_irq_chan chan_run"
  "cap_obj_next irq_start = cap_obj_next chan_run" "cap_holder_free_head irq_start = 5"
  "cap_chan_next irq_start = cap_chan_next chan_run" "cap_chan_recycled_n irq_start = cap_chan_recycled_n chan_run"
  by (simp_all add: irq_start_def state_upd_defs)

lemma irq_start_index: "cap_table_index 7 irq_start = (Some (Suc 0), irq_start)"
  by (simp add: cap_table_index_def find_upt_step limits irq_start_fields)

lemma irq_start_check: "irq_bind_check (Suc 0) 3 irq_start = Inr 33"
  by (simp add: irq_bind_check_def limits irq_start_fields Let_def word_fields chan_run_counters)

theorem irq_bind_once_witness:
  "\<exists>rd s'. k_irq_bind 7 3 4 irq_start = (Inr rd, s') \<and> k_irq_bind 7 3 8 s' = (Inl CE_REVOKED, s')"
proof -
  have "\<exists>rd s'. k_irq_bind 7 3 4 irq_start = (Inr rd, s')"
    by (simp add: k_irq_bind_def limits irq_start_index, simp add: irq_start_check,
        simp add: irq_channel_def cap_chan_id_take_def cap_object_alloc_def cap_slot_pop_def slot_pop_def cap_holder_alloc_def holder_pop_def
        Let_def limits state_upd_defs irq_start_fields chan_run_counters boot_link boot_node)
  then obtain rd s' where "k_irq_bind 7 3 4 irq_start = (Inr rd, s')"
    by blast
  with irq_bind_once [OF this, of 8] show ?thesis
    by (auto simp: limits)
qed

lemma index_find: "cap_table_find p s = Some ti \<Longrightarrow> cap_table_index p s = (Some ti, s)"
  by (auto simp: cap_table_find_def cap_table_index_def)

text \<open>
  C26. \<^verbatim>\<open>cap_revoke\<close> never looks at the type of the word: revoking through any valid word is the very
  operation of revoking through a memory or channel capability whose object id is the number in
  the word's object field. The field of an interrupt, port or trampoline word is not an object id,
  so the holder of an interrupt capability for vector \<open>k\<close> revokes object \<open>k\<close> of another process.
\<close>

theorem revoke_type_confusion:
  assumes "cap_table_find p s = Some ti" and "cap_table_find q s = Some tj" and "i < CAP_TABLE_ENTRIES" and "j < CAP_TABLE_ENTRIES"
    and "cap_word_valid (slot_word s ti i)" and "cap_word_valid (slot_word s tj j)"
    and "cap_word_obj (slot_word s ti i) = cap_word_obj (slot_word s tj j)"
  shows "cap_revoke e p i s = cap_revoke e q j s"
  using assms by (simp add: cap_revoke_def index_find Let_def)

definition confused :: cap_state where
  "confused = set_slot 2 2 (cap_word_make CAP_TYPE_IRQ 0 CAP_PERM_BIND 0 1) chan_run"

theorem revoke_type_confusion_witness:
  "cap_word_type (slot_word confused 2 2) = CAP_TYPE_IRQ \<and> cap_word_type (slot_word confused 1 0) = CAP_TYPE_MEM \<and>
   cap_revoke boot_env 8 2 confused = cap_revoke boot_env 7 0 confused"
proof -
  have t: "cap_table_find 8 confused = Some 2" "cap_table_find 7 confused = Some 1"
    by (simp_all add: cap_table_find_def find_upt_step limits confused_def state_upd_defs)
  have w: "slot_word confused 2 2 = cap_word_make CAP_TYPE_IRQ 0 CAP_PERM_BIND 0 1" "slot_word confused 1 0 = mem_word"
    by (simp_all add: confused_def state_upd_defs)
  from revoke_type_confusion [OF t, of 2 0 boot_env] show ?thesis
    using run_words by (simp add: w [simplified] word_fields limits)
qed

section \<open>Closing and checksums\<close>

lemma resolve_cong:
  "cap_tables s' = cap_tables s \<Longrightarrow> cap_objects s' = cap_objects s \<Longrightarrow> (\<And>c. c_active (cap_channels s' c) = c_active (cap_channels s c)) \<Longrightarrow>
   (\<And>c. c_end0_pid (cap_channels s' c) = c_end0_pid (cap_channels s c)) \<Longrightarrow> chan_resolve pid slot ty s' = chan_resolve pid slot ty s"
  unfolding chan_resolve_def chan_table_for_pid_def by (simp only:)

text \<open>
  Closing an end is visible to the peer once and idempotent: a successful \<^verbatim>\<open>k_chan_close\<close> marks the
  caller's end closed and, the first time, raises the peer's close event with the reason and detail;
  a second close with other arguments succeeds and changes nothing.
\<close>

theorem close_idempotent:
  assumes "k_chan_close pid chan reason detail s = (Inr (), s')"
  shows "k_chan_close pid chan reason' detail' s' = (Inr (), s') \<and>
    (\<exists>c d. chan_resolve pid chan 0 s = Inr (c, d) \<and> c_closed (cap_channels s' c) d \<and>
       (if c_closed (cap_channels s c) d then s' = s
        else c_close_evt (cap_channels s' c) (1 - d) \<and> c_close_reason (cap_channels s' c) (1 - d) = reason \<and>
             c_close_detail (cap_channels s' c) (1 - d) = detail))"
proof -
  obtain c d where r: "chan_resolve pid chan 0 s = Inr (c, d)"
    using assms by (auto simp: k_chan_close_def split: sum.splits)
  have "chan_resolve pid chan 0 s' = chan_resolve pid chan 0 s"
    by (rule resolve_cong) (use assms r in \<open>auto simp: k_chan_close_def state_upd_defs split: if_splits\<close>)
  then show ?thesis
    using assms r by (auto simp: k_chan_close_def state_upd_defs split: if_splits)
qed

theorem close_idempotent_witness:
  "\<exists>s'. k_chan_close 8 0 3 4 chan_run = (Inr (), s') \<and> k_chan_close 8 0 5 6 s' = (Inr (), s')"
proof -
  have "chan_table_for_pid 8 chan_run = Some 2"
    by (simp add: chan_table_for_pid_def find_upt_step limits boot_table_def)
  moreover have "chan_word_valid (chan_r_word 1)"
    by (simp add: chan_word_valid_def chan_r_word_def word_fields)
  ultimately have "chan_resolve 8 0 0 chan_run = Inr (0, 1)"
    using run_words by (simp add: chan_resolve_def limits Let_def live_def chan_reset_def)
  then have "\<exists>s'. k_chan_close 8 0 3 4 chan_run = (Inr (), s')"
    by (simp add: k_chan_close_def)
  then obtain s' where "k_chan_close 8 0 3 4 chan_run = (Inr (), s')" ..
  with close_idempotent [OF this, of 5 6] show ?thesis
    by blast
qed

end
