(* ===== verification/Mvcc.thy ===== *)
theory Mvcc
  imports Cap_Prelude
begin

text \<open>
  Multi-version concurrency control for row-set tables (\<^verbatim>\<open>src/kernel/mvcc.c\<close>, \<^verbatim>\<open>src/kernel/mvcc.h\<close>) and
  the run-time checks of row constraints that call back into it
  (\<^verbatim>\<open>src/kernel/row_constraint.c\<close>). The row store below (\<^verbatim>\<open>rowstore.c\<close>) is an abstract state
  \<open>'r\<close> with the four operations the code calls, the object catalog is the list of its entries, the
  calls to the row journal are recorded in a log. Version and transaction arrays are
  functions on indices; the 64-bit counters are naturals reduced by \<open>u64\<close>.
\<close>

unbundle bit_operations_syntax

section \<open>Data\<close>

definition MVCC_MAX_TXNS :: nat where [limits]: "MVCC_MAX_TXNS = 64"
definition MVCC_MAX_VERSIONS :: nat where [limits]: "MVCC_MAX_VERSIONS = 4096"
definition MVCC_PHYS_HASH_SIZE :: nat where [limits]: "MVCC_PHYS_HASH_SIZE = 8192"
definition ROW_CASCADE_MAX_ROWS :: nat where [limits]: "ROW_CASCADE_MAX_ROWS = 64"
definition ROW_CASCADE_MAX_DEPTH :: nat where [limits]: "ROW_CASCADE_MAX_DEPTH = 8"
definition ROWSTORE_RC_NOT_DURABLE :: nat where [limits]: "ROWSTORE_RC_NOT_DURABLE = 7"

datatype MvccError = MVCC_OK | MVCC_ERR_TABLE_NOT_FOUND | MVCC_ERR_PERMISSION_DENIED | MVCC_ERR_ROW_NOT_VISIBLE
  | MVCC_ERR_WRITE_CONFLICT | MVCC_ERR_TXN_NOT_ACTIVE | MVCC_ERR_TXN_TABLE_FULL | MVCC_ERR_VERSION_POOL_FULL
  | MVCC_ERR_VALUES_INVALID | MVCC_ERR_CONSTRAINT_UNIQUE | MVCC_ERR_CONSTRAINT_NOT_NULL | MVCC_ERR_CONSTRAINT_RANGE
  | MVCC_ERR_CONSTRAINT_REFERENCE | MVCC_ERR_CONSTRAINT_REFERENCED | MVCC_ERR_CASCADE_FAILED

datatype RowConstraintKind = ROW_CONSTRAINT_UNIQUE | ROW_CONSTRAINT_NOT_NULL | ROW_CONSTRAINT_RANGE | ROW_CONSTRAINT_REFERENCE
datatype RowOnDeleteAction = ROW_ONDELETE_RESTRICT | ROW_ONDELETE_CASCADE | ROW_ONDELETE_SET_NULL

datatype RowConstraintResult = ROW_CONSTRAINT_OK | ROW_CONSTRAINT_VIOLATION_UNIQUE | ROW_CONSTRAINT_VIOLATION_NOT_NULL
  | ROW_CONSTRAINT_VIOLATION_RANGE | ROW_CONSTRAINT_VIOLATION_REFERENCE | ROW_CONSTRAINT_VIOLATION_REFERENCED
  | ROW_CONSTRAINT_CASCADE_FAILED

datatype perm = PERM_READ | PERM_WRITE

record RowId =
  page_id :: "32 word"
  slot_index :: "32 word"

text \<open>\<^verbatim>\<open>count\<close> is the length of \<open>rv_values\<close>; bit \<open>c\<close> of the mask marks column \<open>c\<close> as NULL.\<close>

record RowValues =
  rv_values :: "string list"
  null_mask :: "16 word"

record CatEntry =
  ce_active :: bool
  ce_uses_rowstore :: bool
  ce_name :: string
  ce_object_id :: nat

record RowConstraintDef =
  rc_active :: bool
  rc_kind :: RowConstraintKind
  rc_table_object_id :: nat
  rc_table_name :: string
  rc_column_index :: nat
  literal_min :: string
  literal_max :: string
  ref_table_object_id :: nat
  ref_table_name :: string
  ref_column_index :: nat
  on_delete_action :: RowOnDeleteAction

record MvccTxn =
  txn_id :: nat
  snapshot_seq :: nat
  txn_active :: bool

record MvccVersion =
  v_active :: bool
  logical_id :: nat
  table_object_id :: nat
  physical_id :: RowId
  xmin :: nat
  xmin_committed :: bool
  xmin_txn :: nat
  xmax :: nat
  xmax_committed :: bool
  xmax_txn :: nat

record MvccPhysEntry =
  pe_used :: bool
  pe_physical_id :: RowId
  pe_version_slot :: nat

datatype journal_call =
    JInsert nat string nat nat RowValues
  | JUpdate nat string nat nat "RowValues option" RowValues
  | JDelete nat string nat nat "RowValues option"
  | JCommit nat
  | JRollback nat

record 'r mvcc =
  mvcc_txns :: "nat \<Rightarrow> MvccTxn"
  mvcc_versions :: "nat \<Rightarrow> MvccVersion"
  mvcc_version_count :: nat
  mvcc_next_txn_id :: nat
  mvcc_next_logical_id :: nat
  mvcc_commit_seq :: nat
  mvcc_phys_index :: "nat \<Rightarrow> MvccPhysEntry"
  store :: 'r
  journal :: "journal_call list"

text \<open>
  What the code reads and calls elsewhere: the catalog and its access check, the registered constraints and the
  typed range test, and the row store. An insert answers a return code and the new row id, a read a
  return code and the values, a scan the ids of the rows in physical order.
\<close>

record 'r mvcc_env =
  object_catalog :: "CatEntry list"
  catalog_check_access :: "nat \<Rightarrow> string \<Rightarrow> perm \<Rightarrow> bool"
  row_constraints :: "RowConstraintDef list"
  rc_in_range :: "RowConstraintDef \<Rightarrow> string \<Rightarrow> bool"
  rowstore_row_insert :: "nat \<Rightarrow> string \<Rightarrow> RowValues \<Rightarrow> 'r \<Rightarrow> nat \<times> RowId \<times> 'r"
  rowstore_row_get :: "nat \<Rightarrow> string \<Rightarrow> RowId \<Rightarrow> 'r \<Rightarrow> nat \<times> RowValues"
  rowstore_row_delete :: "nat \<Rightarrow> string \<Rightarrow> RowId \<Rightarrow> 'r \<Rightarrow> 'r"
  rowstore_table_scan :: "nat \<Rightarrow> string \<Rightarrow> 'r \<Rightarrow> RowId list"

section \<open>Index from physical rows to versions\<close>

definition mv_phys_hash :: "RowId \<Rightarrow> nat" where
  "mv_phys_hash rid =
     (let h = page_id rid * 2654435761;
          h = h XOR (slot_index rid * 40503);
          h = h XOR drop_bit 13 h
      in unat (h AND 8191))"

definition phys_probe :: "RowId \<Rightarrow> nat \<Rightarrow> nat" where
  "phys_probe rid probe = (mv_phys_hash rid + probe) mod MVCC_PHYS_HASH_SIZE"

definition mv_phys_index_put :: "RowId \<Rightarrow> nat \<Rightarrow> (nat \<Rightarrow> MvccPhysEntry) \<Rightarrow> nat \<Rightarrow> MvccPhysEntry" where
  "mv_phys_index_put rid version_slot t =
     (case List.find (\<lambda>probe. \<not> pe_used (t (phys_probe rid probe))) [0..<MVCC_PHYS_HASH_SIZE] of
        Some probe \<Rightarrow> t(phys_probe rid probe := \<lparr>pe_used = True, pe_physical_id = rid, pe_version_slot = version_slot\<rparr>)
      | None \<Rightarrow> t)"

definition mv_phys_index_get :: "RowId \<Rightarrow> (nat \<Rightarrow> MvccPhysEntry) \<Rightarrow> nat option" where
  "mv_phys_index_get rid t =
     (case List.find (\<lambda>probe. \<not> pe_used (t (phys_probe rid probe)) \<or> pe_physical_id (t (phys_probe rid probe)) = rid)
             [0..<MVCC_PHYS_HASH_SIZE] of
        Some probe \<Rightarrow>
          if \<not> pe_used (t (phys_probe rid probe)) then None else Some (pe_version_slot (t (phys_probe rid probe)))
      | None \<Rightarrow> None)"

section \<open>Lookups\<close>

definition mvcc_init :: "'r mvcc \<Rightarrow> 'r mvcc" where
  "mvcc_init s = s\<lparr>
     mvcc_txns := (\<lambda>i. if i < MVCC_MAX_TXNS then (mvcc_txns s i)\<lparr>txn_active := False\<rparr> else mvcc_txns s i),
     mvcc_versions := (\<lambda>i. if i < MVCC_MAX_VERSIONS then (mvcc_versions s i)\<lparr>v_active := False\<rparr> else mvcc_versions s i),
     mvcc_phys_index := (\<lambda>i. if i < MVCC_PHYS_HASH_SIZE then (mvcc_phys_index s i)\<lparr>pe_used := False\<rparr> else mvcc_phys_index s i),
     mvcc_version_count := 0, mvcc_next_txn_id := 1, mvcc_next_logical_id := 1, mvcc_commit_seq := 1\<rparr>"

definition mv_find_txn :: "nat \<Rightarrow> 'r mvcc \<Rightarrow> nat option" where
  "mv_find_txn tx s =
     (if tx = 0 then None
      else List.find (\<lambda>i. txn_active (mvcc_txns s i) \<and> txn_id (mvcc_txns s i) = tx) [0..<MVCC_MAX_TXNS])"

definition mvcc_txn_is_active :: "nat \<Rightarrow> 'r mvcc \<Rightarrow> bool" where
  "mvcc_txn_is_active tx s \<longleftrightarrow> mv_find_txn tx s \<noteq> None"

definition mv_find_table :: "'r mvcc_env \<Rightarrow> string \<Rightarrow> CatEntry option" where
  "mv_find_table e name = List.find (\<lambda>c. ce_active c \<and> ce_uses_rowstore c \<and> ce_name c = name) (object_catalog e)"

fun map_rowstore_err :: "nat \<Rightarrow> MvccError" where
  "map_rowstore_err rc =
     (if rc = 0 then MVCC_OK else if rc = 1 then MVCC_ERR_TABLE_NOT_FOUND
      else if rc = 2 then MVCC_ERR_PERMISSION_DENIED else if rc = 3 then MVCC_ERR_ROW_NOT_VISIBLE
      else if rc = 4 \<or> rc = 5 then MVCC_ERR_VALUES_INVALID else if rc = 6 then MVCC_ERR_VERSION_POOL_FULL
      else MVCC_ERR_VALUES_INVALID)"

fun map_constraint_violation :: "RowConstraintResult \<Rightarrow> MvccError" where
  "map_constraint_violation ROW_CONSTRAINT_VIOLATION_UNIQUE = MVCC_ERR_CONSTRAINT_UNIQUE"
| "map_constraint_violation ROW_CONSTRAINT_VIOLATION_NOT_NULL = MVCC_ERR_CONSTRAINT_NOT_NULL"
| "map_constraint_violation ROW_CONSTRAINT_VIOLATION_RANGE = MVCC_ERR_CONSTRAINT_RANGE"
| "map_constraint_violation ROW_CONSTRAINT_VIOLATION_REFERENCE = MVCC_ERR_CONSTRAINT_REFERENCE"
| "map_constraint_violation ROW_CONSTRAINT_VIOLATION_REFERENCED = MVCC_ERR_CONSTRAINT_REFERENCED"
| "map_constraint_violation ROW_CONSTRAINT_CASCADE_FAILED = MVCC_ERR_CASCADE_FAILED"
| "map_constraint_violation ROW_CONSTRAINT_OK = MVCC_OK"

definition mv_visible :: "MvccVersion \<Rightarrow> MvccTxn \<Rightarrow> bool" where
  "mv_visible v t \<longleftrightarrow>
     ((xmin_committed v \<and> xmin v \<le> snapshot_seq t) \<or> xmin_txn v = txn_id t) \<and>
     \<not> ((xmax_committed v \<and> xmax v \<le> snapshot_seq t) \<or> (xmax_txn v \<noteq> 0 \<and> xmax_txn v = txn_id t))"

definition mv_find_visible_version :: "nat \<Rightarrow> MvccTxn \<Rightarrow> 'r mvcc \<Rightarrow> nat option" where
  "mv_find_visible_version lid t s =
     List.find (\<lambda>i. v_active (mvcc_versions s i) \<and> logical_id (mvcc_versions s i) = lid \<and> mv_visible (mvcc_versions s i) t)
       [0..<mvcc_version_count s]"

section \<open>Transactions\<close>

definition pred64 :: "nat \<Rightarrow> nat" where
  "pred64 n = (if n = 0 then 2 ^ 64 - 1 else n - 1)"

definition mvcc_begin :: "'r mvcc \<Rightarrow> nat \<times> 'r mvcc" where
  "mvcc_begin s =
     (case List.find (\<lambda>i. \<not> txn_active (mvcc_txns s i)) [0..<MVCC_MAX_TXNS] of
        Some i \<Rightarrow>
          (mvcc_next_txn_id s,
           s\<lparr>mvcc_txns := (mvcc_txns s)(i := \<lparr>txn_id = mvcc_next_txn_id s, snapshot_seq = pred64 (mvcc_commit_seq s), txn_active = True\<rparr>),
             mvcc_next_txn_id := u64 (mvcc_next_txn_id s + 1)\<rparr>)
      | None \<Rightarrow> (0, s))"

definition commit_version :: "nat \<Rightarrow> nat \<Rightarrow> MvccVersion \<Rightarrow> MvccVersion" where
  "commit_version tx sq v =
     (if \<not> v_active v then v
      else let v = (if xmin_txn v = tx \<and> \<not> xmin_committed v then v\<lparr>xmin := sq, xmin_committed := True\<rparr> else v)
           in if xmax_txn v = tx \<and> \<not> xmax_committed v then v\<lparr>xmax := sq, xmax_committed := True\<rparr> else v)"

definition txn_close :: "nat \<Rightarrow> 'r mvcc \<Rightarrow> 'r mvcc" where
  "txn_close i s = s\<lparr>mvcc_txns := (mvcc_txns s)(i := (mvcc_txns s i)\<lparr>txn_active := False\<rparr>)\<rparr>"

definition mvcc_commit :: "nat \<Rightarrow> 'r mvcc \<Rightarrow> MvccError \<times> 'r mvcc" where
  "mvcc_commit tx s =
     (case mv_find_txn tx s of
        None \<Rightarrow> (MVCC_ERR_TXN_NOT_ACTIVE, s)
      | Some tidx \<Rightarrow>
          (MVCC_OK, txn_close tidx (s\<lparr>
             mvcc_commit_seq := u64 (mvcc_commit_seq s + 1),
             mvcc_versions := (\<lambda>i. if i < mvcc_version_count s then commit_version tx (mvcc_commit_seq s) (mvcc_versions s i)
                                   else mvcc_versions s i),
             journal := JCommit tx # journal s\<rparr>)))"

definition rollback_version :: "nat \<Rightarrow> MvccVersion \<Rightarrow> MvccVersion" where
  "rollback_version tx v =
     (if \<not> v_active v then v
      else let v = (if xmin_txn v = tx \<and> \<not> xmin_committed v then v\<lparr>v_active := False\<rparr> else v)
           in if xmax_txn v = tx \<and> \<not> xmax_committed v then v\<lparr>xmax_txn := 0\<rparr> else v)"

text \<open>The row of a version the transaction created is deleted from the store, in the table of its object id.\<close>

definition rollback_row :: "'r mvcc_env \<Rightarrow> nat \<Rightarrow> nat \<Rightarrow> MvccVersion \<Rightarrow> 'r \<Rightarrow> 'r" where
  "rollback_row e uid tx v r =
     (if v_active v \<and> xmin_txn v = tx \<and> \<not> xmin_committed v
      then case List.find (\<lambda>c. ce_object_id c = table_object_id v \<and> ce_active c) (object_catalog e) of
             Some c \<Rightarrow> rowstore_row_delete e uid (ce_name c) (physical_id v) r
           | None \<Rightarrow> r
      else r)"

definition mvcc_rollback :: "'r mvcc_env \<Rightarrow> nat \<Rightarrow> nat \<Rightarrow> 'r mvcc \<Rightarrow> MvccError \<times> 'r mvcc" where
  "mvcc_rollback e tx uid s =
     (case mv_find_txn tx s of
        None \<Rightarrow> (MVCC_ERR_TXN_NOT_ACTIVE, s)
      | Some tidx \<Rightarrow>
          (MVCC_OK, txn_close tidx (s\<lparr>
             mvcc_versions := (\<lambda>i. if i < mvcc_version_count s then rollback_version tx (mvcc_versions s i) else mvcc_versions s i),
             store := fold (\<lambda>i. rollback_row e uid tx (mvcc_versions s i)) [0..<mvcc_version_count s] (store s),
             journal := JRollback tx # journal s\<rparr>)))"

section \<open>Scans\<close>

text \<open>The rows the scan hands to its callback, in order.\<close>

definition scan_version :: "'r mvcc_env \<Rightarrow> nat \<Rightarrow> string \<Rightarrow> nat \<Rightarrow> MvccTxn \<Rightarrow> 'r \<Rightarrow> MvccVersion \<Rightarrow> (nat \<times> RowValues) list" where
  "scan_version e uid name oid t r v =
     (if v_active v \<and> table_object_id v = oid \<and> mv_visible v t
      then case rowstore_row_get e uid name (physical_id v) r of
             (rc, row) \<Rightarrow> if rc \<noteq> 0 then [] else [(logical_id v, row)]
      else [])"

definition mvcc_table_scan :: "'r mvcc_env \<Rightarrow> nat \<Rightarrow> nat \<Rightarrow> string \<Rightarrow> 'r mvcc \<Rightarrow> (nat \<times> RowValues) list" where
  "mvcc_table_scan e tx uid name s =
     (case mv_find_txn tx s of
        None \<Rightarrow> []
      | Some tidx \<Rightarrow>
          (case mv_find_table e name of
             None \<Rightarrow> []
           | Some c \<Rightarrow>
               if \<not> catalog_check_access e uid name PERM_READ then []
               else concat (map (\<lambda>i. scan_version e uid name (ce_object_id c) (mvcc_txns s tidx) (store s) (mvcc_versions s i))
                              [0..<mvcc_version_count s])))"

section \<open>Constraint checks\<close>

definition rv_col :: "RowValues \<Rightarrow> nat \<Rightarrow> string" where
  "rv_col v c = (if c < length (rv_values v) then rv_values v ! c else [])"

definition rv_null :: "RowValues \<Rightarrow> nat \<Rightarrow> bool" where
  "rv_null v c \<longleftrightarrow> bit (null_mask v) c"

definition rc_match :: "nat \<Rightarrow> string \<Rightarrow> nat \<times> RowValues \<Rightarrow> bool" where
  "rc_match col candidate x \<longleftrightarrow> \<not> rv_null (snd x) col \<and> rv_col (snd x) col = candidate"

fun first_violation :: "('c \<Rightarrow> RowConstraintResult) \<Rightarrow> 'c list \<Rightarrow> RowConstraintResult" where
  "first_violation f [] = ROW_CONSTRAINT_OK"
| "first_violation f (c # cs) = (if f c \<noteq> ROW_CONSTRAINT_OK then f c else first_violation f cs)"

definition check_write_one ::
  "'r mvcc_env \<Rightarrow> nat \<Rightarrow> nat \<Rightarrow> nat \<Rightarrow> RowValues \<Rightarrow> nat \<Rightarrow> 'r mvcc \<Rightarrow> RowConstraintDef \<Rightarrow> RowConstraintResult" where
  "check_write_one e tx uid oid vals excl s c =
     (if \<not> rc_active c \<or> rc_table_object_id c \<noteq> oid then ROW_CONSTRAINT_OK
      else if rc_column_index c \<ge> length (rv_values vals) then ROW_CONSTRAINT_OK
      else let val = rv_col vals (rc_column_index c); is_null = rv_null vals (rc_column_index c)
      in case rc_kind c of
           ROW_CONSTRAINT_NOT_NULL \<Rightarrow> if is_null then ROW_CONSTRAINT_VIOLATION_NOT_NULL else ROW_CONSTRAINT_OK
         | ROW_CONSTRAINT_RANGE \<Rightarrow>
             if is_null then ROW_CONSTRAINT_OK
             else if \<not> rc_in_range e c val then ROW_CONSTRAINT_VIOLATION_RANGE else ROW_CONSTRAINT_OK
         | ROW_CONSTRAINT_UNIQUE \<Rightarrow>
             if is_null then ROW_CONSTRAINT_OK
             else if list_ex (\<lambda>x. fst x \<noteq> excl \<and> rc_match (rc_column_index c) val x) (mvcc_table_scan e tx uid (rc_table_name c) s)
             then ROW_CONSTRAINT_VIOLATION_UNIQUE else ROW_CONSTRAINT_OK
         | ROW_CONSTRAINT_REFERENCE \<Rightarrow>
             if is_null then ROW_CONSTRAINT_OK
             else if \<not> list_ex (rc_match (ref_column_index c) val) (mvcc_table_scan e tx uid (ref_table_name c) s)
             then ROW_CONSTRAINT_VIOLATION_REFERENCE else ROW_CONSTRAINT_OK)"

definition row_constraint_check_write ::
  "'r mvcc_env \<Rightarrow> nat \<Rightarrow> nat \<Rightarrow> nat \<Rightarrow> RowValues \<Rightarrow> nat \<Rightarrow> 'r mvcc \<Rightarrow> RowConstraintResult" where
  "row_constraint_check_write e tx uid oid vals excl s =
     first_violation (check_write_one e tx uid oid vals excl s) (row_constraints e)"

definition rc_refers :: "nat \<Rightarrow> RowConstraintDef \<Rightarrow> bool" where
  "rc_refers oid c \<longleftrightarrow> rc_active c \<and> rc_kind c = ROW_CONSTRAINT_REFERENCE \<and> ref_table_object_id c = oid"

definition check_parent_one ::
  "'r mvcc_env \<Rightarrow> nat \<Rightarrow> nat \<Rightarrow> nat \<Rightarrow> RowValues \<Rightarrow> RowValues \<Rightarrow> 'r mvcc \<Rightarrow> RowConstraintDef \<Rightarrow> RowConstraintResult" where
  "check_parent_one e tx uid oid old new s c =
     (let col = ref_column_index c
      in if \<not> rc_refers oid c then ROW_CONSTRAINT_OK
         else if col \<ge> length (rv_values old) \<or> col \<ge> length (rv_values new) then ROW_CONSTRAINT_OK
         else if rv_null old col then ROW_CONSTRAINT_OK
         else if \<not> rv_null new col \<and> rv_col old col = rv_col new col then ROW_CONSTRAINT_OK
         else if list_ex (rc_match (rc_column_index c) (rv_col old col)) (mvcc_table_scan e tx uid (rc_table_name c) s)
         then ROW_CONSTRAINT_VIOLATION_REFERENCED else ROW_CONSTRAINT_OK)"

definition row_constraint_check_parent_update ::
  "'r mvcc_env \<Rightarrow> nat \<Rightarrow> nat \<Rightarrow> string \<Rightarrow> nat \<Rightarrow> RowId \<Rightarrow> RowValues \<Rightarrow> 'r mvcc \<Rightarrow> RowConstraintResult" where
  "row_constraint_check_parent_update e tx uid name oid phys new s =
     (if \<not> list_ex (rc_refers oid) (row_constraints e) then ROW_CONSTRAINT_OK
      else case rowstore_row_get e uid name phys (store s) of
             (rc, old) \<Rightarrow>
               if rc \<noteq> 0 then ROW_CONSTRAINT_OK
               else first_violation (check_parent_one e tx uid oid old new s) (row_constraints e))"

section \<open>Rows\<close>

text \<open>The row fetched for the before-image of the journal, if the read succeeds.\<close>

definition before_image :: "'r mvcc_env \<Rightarrow> nat \<Rightarrow> string \<Rightarrow> RowId \<Rightarrow> 'r mvcc \<Rightarrow> RowValues option" where
  "before_image e uid name phys s =
     (case rowstore_row_get e uid name phys (store s) of (rc, row) \<Rightarrow> if rc = 0 then Some row else None)"

text \<open>A new uncommitted version in the next slot, entered into the physical index.\<close>

definition add_version :: "nat \<Rightarrow> nat \<Rightarrow> RowId \<Rightarrow> bool \<Rightarrow> nat \<Rightarrow> 'r mvcc \<Rightarrow> 'r mvcc" where
  "add_version lid oid phys com tx s =
     s\<lparr>mvcc_versions := (mvcc_versions s)(mvcc_version_count s :=
          \<lparr>v_active = True, logical_id = lid, table_object_id = oid, physical_id = phys,
            xmin = 0, xmin_committed = com, xmin_txn = tx, xmax = 0, xmax_committed = False, xmax_txn = 0\<rparr>),
       mvcc_version_count := mvcc_version_count s + 1,
       mvcc_phys_index := mv_phys_index_put phys (mvcc_version_count s) (mvcc_phys_index s)\<rparr>"

definition log_journal :: "journal_call \<Rightarrow> 'r mvcc \<Rightarrow> 'r mvcc" where
  "log_journal x s = s\<lparr>journal := x # journal s\<rparr>"

definition mvcc_row_insert ::
  "'r mvcc_env \<Rightarrow> nat \<Rightarrow> nat \<Rightarrow> string \<Rightarrow> RowValues \<Rightarrow> 'r mvcc \<Rightarrow> MvccError \<times> nat option \<times> 'r mvcc" where
  "mvcc_row_insert e tx uid name vals s =
     (if mv_find_txn tx s = None then (MVCC_ERR_TXN_NOT_ACTIVE, None, s)
      else case mv_find_table e name of
        None \<Rightarrow> (MVCC_ERR_TABLE_NOT_FOUND, None, s)
      | Some c \<Rightarrow>
          let oid = ce_object_id c; cres = row_constraint_check_write e tx uid oid vals 0 s
          in if cres \<noteq> ROW_CONSTRAINT_OK then (map_constraint_violation cres, None, s)
             else case rowstore_row_insert e uid name vals (store s) of
               (rc, phys, r) \<Rightarrow>
                 let s = s\<lparr>store := r\<rparr>
                 in if rc \<noteq> 0 \<and> rc \<noteq> ROWSTORE_RC_NOT_DURABLE then (map_rowstore_err rc, None, s)
                    else if mvcc_version_count s \<ge> MVCC_MAX_VERSIONS
                    then (MVCC_ERR_VERSION_POOL_FULL, None, s\<lparr>store := rowstore_row_delete e uid name phys (store s)\<rparr>)
                    else let lid = mvcc_next_logical_id s;
                             s = add_version lid oid phys False tx (s\<lparr>mvcc_next_logical_id := u64 (lid + 1)\<rparr>)
                         in (MVCC_OK, Some lid, log_journal (JInsert tx name oid lid vals) s))"

definition mvcc_row_get ::
  "'r mvcc_env \<Rightarrow> nat \<Rightarrow> nat \<Rightarrow> string \<Rightarrow> nat \<Rightarrow> 'r mvcc \<Rightarrow> MvccError \<times> RowValues option" where
  "mvcc_row_get e tx uid name lid s =
     (case mv_find_txn tx s of
        None \<Rightarrow> (MVCC_ERR_TXN_NOT_ACTIVE, None)
      | Some tidx \<Rightarrow>
          (case mv_find_visible_version lid (mvcc_txns s tidx) s of
             None \<Rightarrow> (MVCC_ERR_ROW_NOT_VISIBLE, None)
           | Some vidx \<Rightarrow>
               (case rowstore_row_get e uid name (physical_id (mvcc_versions s vidx)) (store s) of
                  (rc, row) \<Rightarrow> (map_rowstore_err rc, Some row))))"

text \<open>A pending supersession by the transaction.\<close>

definition supersede :: "nat \<Rightarrow> nat \<Rightarrow> 'r mvcc \<Rightarrow> 'r mvcc" where
  "supersede vidx tx s = s\<lparr>mvcc_versions := (mvcc_versions s)(vidx := (mvcc_versions s vidx)\<lparr>xmax_txn := tx\<rparr>)\<rparr>"

definition mvcc_row_update ::
  "'r mvcc_env \<Rightarrow> nat \<Rightarrow> nat \<Rightarrow> string \<Rightarrow> nat \<Rightarrow> RowValues \<Rightarrow> 'r mvcc \<Rightarrow> MvccError \<times> 'r mvcc" where
  "mvcc_row_update e tx uid name lid vals s =
     (case mv_find_txn tx s of
        None \<Rightarrow> (MVCC_ERR_TXN_NOT_ACTIVE, s)
      | Some tidx \<Rightarrow>
     (case mv_find_visible_version lid (mvcc_txns s tidx) s of
        None \<Rightarrow> (MVCC_ERR_ROW_NOT_VISIBLE, s)
      | Some vidx \<Rightarrow>
          let old = mvcc_versions s vidx; oid = table_object_id old
          in if xmax_txn old \<noteq> 0 \<and> xmax_txn old \<noteq> tx then (MVCC_ERR_WRITE_CONFLICT, s)
             else let cres = row_constraint_check_write e tx uid oid vals lid s
             in if cres \<noteq> ROW_CONSTRAINT_OK then (map_constraint_violation cres, s)
             else let pres = row_constraint_check_parent_update e tx uid name oid (physical_id old) vals s
             in if pres \<noteq> ROW_CONSTRAINT_OK then (map_constraint_violation pres, s)
             else let before = before_image e uid name (physical_id old) s
             in case rowstore_row_insert e uid name vals (store s) of
               (rc, phys, r) \<Rightarrow>
                 let s = s\<lparr>store := r\<rparr>
                 in if rc \<noteq> 0 \<and> rc \<noteq> ROWSTORE_RC_NOT_DURABLE then (map_rowstore_err rc, s)
                    else if mvcc_version_count s \<ge> MVCC_MAX_VERSIONS
                    then (MVCC_ERR_VERSION_POOL_FULL, s\<lparr>store := rowstore_row_delete e uid name phys (store s)\<rparr>)
                    else (MVCC_OK, log_journal (JUpdate tx name oid lid before vals)
                                     (supersede vidx tx (add_version lid oid phys False tx s)))))"

text \<open>Row deletion and the constraint check on it call each other; the nesting of cascades is bounded.\<close>

fun cascade_children :: "(nat \<Rightarrow> 'r mvcc \<Rightarrow> MvccError \<times> 'r mvcc) \<Rightarrow> nat list \<Rightarrow> 'r mvcc \<Rightarrow> RowConstraintResult \<times> 'r mvcc" where
  "cascade_children del [] s = (ROW_CONSTRAINT_OK, s)"
| "cascade_children del (child # ids) s =
     (case del child s of
        (de, s) \<Rightarrow> if de \<noteq> MVCC_OK \<and> de \<noteq> MVCC_ERR_ROW_NOT_VISIBLE then (ROW_CONSTRAINT_CASCADE_FAILED, s)
                   else cascade_children del ids s)"

definition null_column :: "nat \<Rightarrow> RowValues \<Rightarrow> RowValues" where
  "null_column col v = v\<lparr>null_mask := null_mask v OR push_bit col 1, rv_values := (rv_values v)[col := []]\<rparr>"

fun null_children ::
  "'r mvcc_env \<Rightarrow> nat \<Rightarrow> nat \<Rightarrow> RowConstraintDef \<Rightarrow> nat list \<Rightarrow> 'r mvcc \<Rightarrow> RowConstraintResult \<times> 'r mvcc" where
  "null_children e tx uid c [] s = (ROW_CONSTRAINT_OK, s)"
| "null_children e tx uid c (child # ids) s =
     (case mvcc_row_get e tx uid (rc_table_name c) child s of
        (MVCC_ERR_ROW_NOT_VISIBLE, _) \<Rightarrow> null_children e tx uid c ids s
      | (MVCC_OK, Some child_vals) \<Rightarrow>
          (case mvcc_row_update e tx uid (rc_table_name c) child (null_column (rc_column_index c) child_vals) s of
             (ue, s) \<Rightarrow> if ue \<noteq> MVCC_OK then (ROW_CONSTRAINT_CASCADE_FAILED, s) else null_children e tx uid c ids s)
      | _ \<Rightarrow> (ROW_CONSTRAINT_CASCADE_FAILED, s))"

text \<open>\<open>del\<close> is the deletion of a row of a child table one level deeper, or None at the depth limit.\<close>

type_synonym 'r row_deleter = "(string \<Rightarrow> nat \<Rightarrow> 'r mvcc \<Rightarrow> MvccError \<times> 'r mvcc) option"

definition check_delete_one ::
  "'r mvcc_env \<Rightarrow> 'r row_deleter \<Rightarrow> nat \<Rightarrow> nat \<Rightarrow> nat \<Rightarrow> RowValues \<Rightarrow> RowConstraintDef \<Rightarrow> 'r mvcc \<Rightarrow> RowConstraintResult \<times> 'r mvcc" where
  "check_delete_one e del tx uid oid vals c s =
     (if \<not> rc_refers oid c then (ROW_CONSTRAINT_OK, s)
      else if ref_column_index c \<ge> length (rv_values vals) then (ROW_CONSTRAINT_OK, s)
      else if rv_null vals (ref_column_index c) then (ROW_CONSTRAINT_OK, s)
      else let hits = filter (rc_match (rc_column_index c) (rv_col vals (ref_column_index c)))
                        (mvcc_table_scan e tx uid (rc_table_name c) s);
               ids = map fst hits
      in if on_delete_action c = ROW_ONDELETE_RESTRICT
         then (if hits \<noteq> [] then ROW_CONSTRAINT_VIOLATION_REFERENCED else ROW_CONSTRAINT_OK, s)
         else if length ids > ROW_CASCADE_MAX_ROWS then (ROW_CONSTRAINT_CASCADE_FAILED, s)
         else if ids = [] then (ROW_CONSTRAINT_OK, s)
         else if on_delete_action c = ROW_ONDELETE_CASCADE
         then (case del of
                 None \<Rightarrow> (ROW_CONSTRAINT_CASCADE_FAILED, s)
               | Some d \<Rightarrow> cascade_children (d (rc_table_name c)) ids s)
         else null_children e tx uid c ids s)"

fun check_delete_list ::
  "'r mvcc_env \<Rightarrow> 'r row_deleter \<Rightarrow> nat \<Rightarrow> nat \<Rightarrow> nat \<Rightarrow> RowValues \<Rightarrow> RowConstraintDef list \<Rightarrow> 'r mvcc \<Rightarrow> RowConstraintResult \<times> 'r mvcc" where
  "check_delete_list e del tx uid oid vals [] s = (ROW_CONSTRAINT_OK, s)"
| "check_delete_list e del tx uid oid vals (c # cs) s =
     (case check_delete_one e del tx uid oid vals c s of
        (r, s) \<Rightarrow> if r \<noteq> ROW_CONSTRAINT_OK then (r, s) else check_delete_list e del tx uid oid vals cs s)"

definition row_constraint_check_delete ::
  "'r mvcc_env \<Rightarrow> 'r row_deleter \<Rightarrow> nat \<Rightarrow> nat \<Rightarrow> string \<Rightarrow> nat \<Rightarrow> RowId \<Rightarrow> 'r mvcc \<Rightarrow> RowConstraintResult \<times> 'r mvcc" where
  "row_constraint_check_delete e del tx uid name oid phys s =
     (if \<not> list_ex (rc_refers oid) (row_constraints e) then (ROW_CONSTRAINT_OK, s)
      else case rowstore_row_get e uid name phys (store s) of
             (rc, vals) \<Rightarrow>
               if rc \<noteq> 0 then (ROW_CONSTRAINT_OK, s)
               else check_delete_list e del tx uid oid vals (row_constraints e) s)"

definition row_delete_body ::
  "'r mvcc_env \<Rightarrow> 'r row_deleter \<Rightarrow> nat \<Rightarrow> nat \<Rightarrow> string \<Rightarrow> nat \<Rightarrow> 'r mvcc \<Rightarrow> MvccError \<times> 'r mvcc" where
  "row_delete_body e del tx uid name lid s =
     (case mv_find_txn tx s of
        None \<Rightarrow> (MVCC_ERR_TXN_NOT_ACTIVE, s)
      | Some tidx \<Rightarrow>
          if \<not> catalog_check_access e uid name PERM_WRITE then (MVCC_ERR_PERMISSION_DENIED, s)
          else case mv_find_visible_version lid (mvcc_txns s tidx) s of
            None \<Rightarrow> (MVCC_ERR_ROW_NOT_VISIBLE, s)
          | Some vidx \<Rightarrow>
              let v = mvcc_versions s vidx
              in if xmax_txn v \<noteq> 0 \<and> xmax_txn v \<noteq> tx then (MVCC_ERR_WRITE_CONFLICT, s)
                 else case row_constraint_check_delete e del tx uid name (table_object_id v) (physical_id v) s of
                   (cres, s) \<Rightarrow>
                     if cres \<noteq> ROW_CONSTRAINT_OK then (map_constraint_violation cres, s)
                     else let before = before_image e uid name (physical_id v) s
                          in (MVCC_OK, log_journal (JDelete tx name (table_object_id v) lid before) (supersede vidx tx s)))"

fun row_delete_depth ::
  "nat \<Rightarrow> 'r mvcc_env \<Rightarrow> nat \<Rightarrow> nat \<Rightarrow> string \<Rightarrow> nat \<Rightarrow> 'r mvcc \<Rightarrow> MvccError \<times> 'r mvcc" where
  "row_delete_depth 0 e tx uid = row_delete_body e None tx uid"
| "row_delete_depth (Suc n) e tx uid = row_delete_body e (Some (row_delete_depth n e tx uid)) tx uid"

definition mvcc_row_delete ::
  "'r mvcc_env \<Rightarrow> nat \<Rightarrow> nat \<Rightarrow> string \<Rightarrow> nat \<Rightarrow> 'r mvcc \<Rightarrow> MvccError \<times> 'r mvcc" where
  "mvcc_row_delete = row_delete_depth ROW_CASCADE_MAX_DEPTH"

section \<open>Restart, table drop and index-assisted reads\<close>

definition mv_bootstrap_cb :: "nat \<Rightarrow> RowId \<Rightarrow> 'r mvcc \<Rightarrow> 'r mvcc" where
  "mv_bootstrap_cb oid rid s =
     (if mvcc_version_count s \<ge> MVCC_MAX_VERSIONS then s
      else add_version (mvcc_next_logical_id s) oid rid True 0 (s\<lparr>mvcc_next_logical_id := u64 (mvcc_next_logical_id s + 1)\<rparr>))"

definition bootstrap_table :: "'r mvcc_env \<Rightarrow> nat \<Rightarrow> string \<Rightarrow> 'r mvcc \<Rightarrow> 'r mvcc" where
  "bootstrap_table e oid name s = fold (mv_bootstrap_cb oid) (rowstore_table_scan e 0 name (store s)) s"

definition mvcc_bootstrap_from_rowstore :: "'r mvcc_env \<Rightarrow> 'r mvcc \<Rightarrow> 'r mvcc" where
  "mvcc_bootstrap_from_rowstore e s =
     fold (\<lambda>c s. if \<not> ce_active c \<or> \<not> ce_uses_rowstore c then s else bootstrap_table e (ce_object_id c) (ce_name c) s)
       (object_catalog e) s"

definition mvcc_notify_table_dropped :: "nat \<Rightarrow> 'r mvcc \<Rightarrow> 'r mvcc" where
  "mvcc_notify_table_dropped oid s =
     s\<lparr>mvcc_versions := (\<lambda>i. if i < mvcc_version_count s \<and> v_active (mvcc_versions s i) \<and> table_object_id (mvcc_versions s i) = oid
        then (mvcc_versions s i)\<lparr>v_active := False\<rparr> else mvcc_versions s i)\<rparr>"

definition mvcc_rebuild_versions_for_table :: "'r mvcc_env \<Rightarrow> nat \<Rightarrow> string \<Rightarrow> 'r mvcc \<Rightarrow> 'r mvcc" where
  "mvcc_rebuild_versions_for_table e oid name s = bootstrap_table e oid name (mvcc_notify_table_dropped oid s)"

definition mvcc_resolve_physical ::
  "'r mvcc_env \<Rightarrow> nat \<Rightarrow> nat \<Rightarrow> string \<Rightarrow> RowId \<Rightarrow> 'r mvcc \<Rightarrow> MvccError \<times> (nat \<times> RowValues) option" where
  "mvcc_resolve_physical e tx uid name rid s =
     (case mv_find_txn tx s of
        None \<Rightarrow> (MVCC_ERR_TXN_NOT_ACTIVE, None)
      | Some tidx \<Rightarrow>
          if mv_find_table e name = None then (MVCC_ERR_TABLE_NOT_FOUND, None)
          else case mv_phys_index_get rid (mvcc_phys_index s) of
            None \<Rightarrow> (MVCC_ERR_ROW_NOT_VISIBLE, None)
          | Some vslot \<Rightarrow>
              let v = mvcc_versions s vslot
              in if \<not> v_active v then (MVCC_ERR_ROW_NOT_VISIBLE, None)
                 else if \<not> mv_visible v (mvcc_txns s tidx) then (MVCC_ERR_ROW_NOT_VISIBLE, None)
                 else case rowstore_row_get e uid name (physical_id v) (store s) of
                   (rc, row) \<Rightarrow> if rc \<noteq> 0 then (MVCC_ERR_ROW_NOT_VISIBLE, None) else (MVCC_OK, Some (logical_id v, row)))"

end
