(* ===== verification/Mvcc_Inv.thy ===== *)
theory Mvcc_Inv
  imports Mvcc
begin

text \<open>
  The invariant of the version store: every version of a logical row but the last is
  superseded no later than the next one becomes visible. From it follows that a
  transaction sees at most one version of a row, which is what \<^verbatim>\<open>mvcc_table_scan\<close> relies on to
  visit each row once.
\<close>

section \<open>The invariant\<close>

definition live :: "nat \<Rightarrow> 'r mvcc \<Rightarrow> bool" where
  "live tx s \<longleftrightarrow> (\<exists>k < MVCC_MAX_TXNS. txn_active (mvcc_txns s k) \<and> txn_id (mvcc_txns s k) = tx)"

definition txns_ok :: "'r mvcc \<Rightarrow> bool" where
  "txns_ok s \<longleftrightarrow>
     (\<forall>k < MVCC_MAX_TXNS. txn_active (mvcc_txns s k) \<longrightarrow>
        0 < txn_id (mvcc_txns s k) \<and> txn_id (mvcc_txns s k) < mvcc_next_txn_id s \<and> snapshot_seq (mvcc_txns s k) < mvcc_commit_seq s) \<and>
     (\<forall>j < MVCC_MAX_TXNS. \<forall>k < MVCC_MAX_TXNS. txn_active (mvcc_txns s j) \<and> txn_active (mvcc_txns s k) \<and>
        txn_id (mvcc_txns s j) = txn_id (mvcc_txns s k) \<longrightarrow> j = k)"

definition version_ok :: "'r mvcc \<Rightarrow> MvccVersion \<Rightarrow> bool" where
  "version_ok s v \<longleftrightarrow>
     xmin_txn v < mvcc_next_txn_id s \<and> xmax_txn v < mvcc_next_txn_id s \<and> logical_id v < mvcc_next_logical_id s \<and>
     (if xmin_committed v then \<not> live (xmin_txn v) s \<and> xmin v < mvcc_commit_seq s else live (xmin_txn v) s) \<and>
     (if xmax_committed v then xmax_txn v \<noteq> 0 \<and> \<not> live (xmax_txn v) s \<and> xmax v < mvcc_commit_seq s
      else xmax_txn v \<noteq> 0 \<longrightarrow> live (xmax_txn v) s)"

text \<open>The earlier version \<open>v\<close> makes way for the later version \<open>w\<close> of the same row.\<close>

definition yields :: "'r mvcc \<Rightarrow> MvccVersion \<Rightarrow> MvccVersion \<Rightarrow> bool" where
  "yields s v w \<longleftrightarrow> xmax_txn v \<noteq> 0 \<and>
     (if xmin_committed w then xmax_committed v \<and> xmax v \<le> xmin w
      else xmax_txn v = xmin_txn w \<or>
           xmax_committed v \<and> (\<forall>k < MVCC_MAX_TXNS. txn_active (mvcc_txns s k) \<and> txn_id (mvcc_txns s k) = xmin_txn w \<longrightarrow>
             xmax v \<le> snapshot_seq (mvcc_txns s k)))"

definition mv_inv :: "'r mvcc \<Rightarrow> bool" where
  "mv_inv s \<longleftrightarrow> mvcc_version_count s \<le> MVCC_MAX_VERSIONS \<and> 0 < mvcc_next_txn_id s \<and> 0 < mvcc_commit_seq s \<and> txns_ok s \<and>
     (\<forall>i < mvcc_version_count s. v_active (mvcc_versions s i) \<longrightarrow> version_ok s (mvcc_versions s i)) \<and>
     (\<forall>j < mvcc_version_count s. \<forall>i < j. v_active (mvcc_versions s i) \<and> v_active (mvcc_versions s j) \<and>
        logical_id (mvcc_versions s i) = logical_id (mvcc_versions s j) \<longrightarrow> yields s (mvcc_versions s i) (mvcc_versions s j))"

text \<open>Counters far from wrapping around: room for one operation, or one rebuild of all versions.\<close>

definition mv_room :: "'r mvcc \<Rightarrow> bool" where
  "mv_room s \<longleftrightarrow> mvcc_next_txn_id s + MVCC_MAX_VERSIONS < 2 ^ 64 \<and> mvcc_next_logical_id s + MVCC_MAX_VERSIONS < 2 ^ 64 \<and>
     mvcc_commit_seq s + MVCC_MAX_VERSIONS < 2 ^ 64"

lemma room_succ:
  assumes "mv_room s"
  shows "u64 (Suc (mvcc_next_txn_id s)) = Suc (mvcc_next_txn_id s)" and "u64 (Suc (mvcc_next_logical_id s)) = Suc (mvcc_next_logical_id s)"
    and "u64 (Suc (mvcc_commit_seq s)) = Suc (mvcc_commit_seq s)"
  using assms by (simp_all add: mv_room_def u64_def limits)

lemma mv_invD:
  assumes "mv_inv s"
  shows "mvcc_version_count s \<le> MVCC_MAX_VERSIONS" and "0 < mvcc_next_txn_id s" and "0 < mvcc_commit_seq s" and "txns_ok s"
    and "i < mvcc_version_count s \<Longrightarrow> v_active (mvcc_versions s i) \<Longrightarrow> version_ok s (mvcc_versions s i)"
    and "i < j \<Longrightarrow> j < mvcc_version_count s \<Longrightarrow> v_active (mvcc_versions s i) \<Longrightarrow> v_active (mvcc_versions s j) \<Longrightarrow>
      logical_id (mvcc_versions s i) = logical_id (mvcc_versions s j) \<Longrightarrow> yields s (mvcc_versions s i) (mvcc_versions s j)"
  using assms by (simp_all add: mv_inv_def)

lemma find_txn_Some:
  assumes "mv_find_txn tx s = Some k"
  shows "k < MVCC_MAX_TXNS" and "txn_active (mvcc_txns s k)" and "txn_id (mvcc_txns s k) = tx" and "tx \<noteq> 0" and "live tx s"
  using assms by (auto simp: mv_find_txn_def find_Some_iff live_def split: if_splits)

lemma find_visible_Some:
  assumes "mv_find_visible_version lid t s = Some i"
  shows "i < mvcc_version_count s" and "v_active (mvcc_versions s i)" and "logical_id (mvcc_versions s i) = lid"
    and "mv_visible (mvcc_versions s i) t"
  using assms by (auto simp: mv_find_visible_version_def find_Some_iff)

section \<open>One visible version\<close>

lemma created_visible:
  assumes "mv_inv s" and "k < MVCC_MAX_TXNS" and "txn_active (mvcc_txns s k)" and "j < mvcc_version_count s"
    and "v_active (mvcc_versions s j)" and "mv_visible (mvcc_versions s j) (mvcc_txns s k)"
  shows "if xmin_committed (mvcc_versions s j) then xmin (mvcc_versions s j) \<le> snapshot_seq (mvcc_txns s k)
    else xmin_txn (mvcc_versions s j) = txn_id (mvcc_txns s k)"
proof -
  have "live (txn_id (mvcc_txns s k)) s"
    using assms(2,3) by (auto simp: live_def)
  then show ?thesis
    using mv_invD(5) [OF assms(1,4,5)] assms(6) by (auto simp: version_ok_def mv_visible_def split: if_splits)
qed

lemma yields_hides:
  assumes "mv_inv s" and "k < MVCC_MAX_TXNS" and "txn_active (mvcc_txns s k)" and "j < mvcc_version_count s"
    and "v_active (mvcc_versions s j)" and "mv_visible (mvcc_versions s j) (mvcc_txns s k)" and "yields s v (mvcc_versions s j)"
  shows "xmax_txn v = txn_id (mvcc_txns s k) \<or> xmax_committed v \<and> xmax v \<le> snapshot_seq (mvcc_txns s k)"
  using created_visible [OF assms(1-6)] assms(2,3,7) by (auto simp: yields_def split: if_splits)

lemma visible_unique:
  assumes "mv_inv s" and "k < MVCC_MAX_TXNS" and "txn_active (mvcc_txns s k)"
    and "i < mvcc_version_count s" and "v_active (mvcc_versions s i)" and "mv_visible (mvcc_versions s i) (mvcc_txns s k)"
    and "j < mvcc_version_count s" and "v_active (mvcc_versions s j)" and "mv_visible (mvcc_versions s j) (mvcc_txns s k)"
    and "logical_id (mvcc_versions s i) = logical_id (mvcc_versions s j)"
  shows "i = j"
proof (rule ccontr)
  assume "i \<noteq> j"
  have "False" if "i < j" "j < mvcc_version_count s" "v_active (mvcc_versions s i)" "mv_visible (mvcc_versions s i) (mvcc_txns s k)"
    "v_active (mvcc_versions s j)" "mv_visible (mvcc_versions s j) (mvcc_txns s k)"
    "logical_id (mvcc_versions s i) = logical_id (mvcc_versions s j)" for i j
  proof -
    have y: "yields s (mvcc_versions s i) (mvcc_versions s j)"
      by (rule mv_invD(6) [OF assms(1) that(1,2,3,5,7)])
    then show False
      using yields_hides [OF assms(1-3) that(2,5,6) y] that(4) by (auto simp: mv_visible_def yields_def)
  qed
  with assms \<open>i \<noteq> j\<close> show False
    by (metis linorder_neqE_nat)
qed

section \<open>Transactions keep the invariant\<close>

lemma live_less: "txns_ok s \<Longrightarrow> live tx s \<Longrightarrow> 0 < tx \<and> tx < mvcc_next_txn_id s"
  by (auto simp: txns_ok_def live_def)

lemma init_inv: "mv_inv (mvcc_init s)"
  by (simp add: mv_inv_def mvcc_init_def txns_ok_def)

lemma begin_inv:
  assumes inv: "mv_inv s" and room: "mv_room s"
  shows "mv_inv (snd (mvcc_begin s))"
proof (cases "List.find (\<lambda>i. \<not> txn_active (mvcc_txns s i)) [0..<MVCC_MAX_TXNS]")
  case None
  with inv show ?thesis
    by (simp add: mvcc_begin_def)
next
  case (Some i)
  let ?n = "mvcc_next_txn_id s" and ?s' = "snd (mvcc_begin s)"
  have i: "i < MVCC_MAX_TXNS" "\<not> txn_active (mvcc_txns s i)"
    using Some by (auto simp: find_Some_iff)
  have f: "mvcc_txns ?s' = (mvcc_txns s)(i := \<lparr>txn_id = ?n, snapshot_seq = mvcc_commit_seq s - 1, txn_active = True\<rparr>)"
    "mvcc_next_txn_id ?s' = ?n + 1" "mvcc_versions ?s' = mvcc_versions s" "mvcc_version_count ?s' = mvcc_version_count s"
    "mvcc_next_logical_id ?s' = mvcc_next_logical_id s" "mvcc_commit_seq ?s' = mvcc_commit_seq s"
    using room_succ [OF room] mv_invD(3) [OF inv] by (simp_all add: mvcc_begin_def Some pred64_def)
  have lv: "live tx ?s' \<longleftrightarrow> live tx s" if "tx < ?n" for tx
    using i that by (auto simp: live_def f)
  have ok: "txns_ok ?s'"
    using mv_invD(2-4) [OF inv] i unfolding txns_ok_def f
    by (auto simp: less_Suc_eq)
  have "version_ok ?s' v" if "version_ok s v" for v
    using that unfolding version_ok_def f by (auto simp: lv)
  moreover have "yields ?s' v w" if "yields s v w" "version_ok s w" for v w
    using that i unfolding yields_def version_ok_def f by auto
  ultimately show ?thesis
    using inv ok unfolding mv_inv_def f by (simp add: f) 
qed

lemma close_live:
  assumes "txns_ok s" and "k < MVCC_MAX_TXNS" and "txn_active (mvcc_txns s k)"
    and "mvcc_txns s' = (mvcc_txns s)(k := (mvcc_txns s k)\<lparr>txn_active := False\<rparr>)"
  shows "live tx s' \<longleftrightarrow> live tx s \<and> tx \<noteq> txn_id (mvcc_txns s k)"
  using assms unfolding live_def txns_ok_def by (auto simp: assms(4))

lemma commit_version_fields [simp]:
  "v_active (commit_version tx sq v) = v_active v" "logical_id (commit_version tx sq v) = logical_id v"
  "xmin_txn (commit_version tx sq v) = xmin_txn v" "xmax_txn (commit_version tx sq v) = xmax_txn v"
  by (simp_all add: commit_version_def Let_def)

lemma commit_version_seqs:
  assumes "v_active v"
  shows "xmin_committed (commit_version tx sq v) \<longleftrightarrow> xmin_committed v \<or> xmin_txn v = tx"
    and "xmax_committed (commit_version tx sq v) \<longleftrightarrow> xmax_committed v \<or> xmax_txn v = tx"
    and "xmin (commit_version tx sq v) = (if \<not> xmin_committed v \<and> xmin_txn v = tx then sq else xmin v)"
    and "xmax (commit_version tx sq v) = (if \<not> xmax_committed v \<and> xmax_txn v = tx then sq else xmax v)"
  using assms by (auto simp: commit_version_def Let_def)

lemma commit_inv:
  assumes inv: "mv_inv s" and room: "mv_room s"
  shows "mv_inv (snd (mvcc_commit tx s))"
proof (cases "mv_find_txn tx s")
  case None
  with inv show ?thesis
    by (simp add: mvcc_commit_def)
next
  case (Some k)
  note k = find_txn_Some [OF Some]
  let ?K = "mvcc_commit_seq s" and ?s' = "snd (mvcc_commit tx s)"
  have f: "mvcc_txns ?s' = (mvcc_txns s)(k := (mvcc_txns s k)\<lparr>txn_active := False\<rparr>)" "mvcc_commit_seq ?s' = ?K + 1"
    "mvcc_next_txn_id ?s' = mvcc_next_txn_id s" "mvcc_version_count ?s' = mvcc_version_count s"
    "mvcc_next_logical_id ?s' = mvcc_next_logical_id s"
    "i < mvcc_version_count s \<Longrightarrow> mvcc_versions ?s' i = commit_version tx ?K (mvcc_versions s i)" for i
    using room_succ [OF room] by (simp_all add: mvcc_commit_def Some txn_close_def)
  have lv: "live t ?s' \<longleftrightarrow> live t s \<and> t \<noteq> tx" for t
    using close_live [OF mv_invD(4) [OF inv] k(1,2) f(1)] k(3) by simp
  have ok: "txns_ok ?s'"
    using mv_invD(4) [OF inv] unfolding txns_ok_def f by (auto simp: less_Suc_eq)
  have v: "version_ok ?s' (commit_version tx ?K v)" if "version_ok s v" "v_active v" for v
    using that k(4) unfolding version_ok_def commit_version_seqs [OF that(2)] f lv by (auto split: if_splits)
  have y: "yields ?s' (commit_version tx ?K v) (commit_version tx ?K w)"
    if "yields s v w" "version_ok s v" "v_active v" "v_active w" for v w
  proof (cases "\<not> xmin_committed w \<and> xmin_txn w = tx")
    case True
    have "snapshot_seq (mvcc_txns s k) < ?K"
      using mv_invD(4) [OF inv] k by (auto simp: txns_ok_def)
    then show ?thesis
      using that(1,2) True k unfolding yields_def version_ok_def commit_version_seqs [OF that(3)] commit_version_seqs [OF that(4)]
      by (auto split: if_splits)
  next
    case False
    then show ?thesis
      using that(1) unfolding yields_def commit_version_seqs [OF that(3)] commit_version_seqs [OF that(4)] f by auto
  qed
  show ?thesis
    using inv ok v y unfolding mv_inv_def f by (simp add: f)
qed

lemma rollback_version_fields:
  "v_active (rollback_version tx v) \<longleftrightarrow> v_active v \<and> (xmin_txn v = tx \<longrightarrow> xmin_committed v)"
  "logical_id (rollback_version tx v) = logical_id v" "xmin (rollback_version tx v) = xmin v"
  "xmin_txn (rollback_version tx v) = xmin_txn v" "xmin_committed (rollback_version tx v) = xmin_committed v"
  "xmax_committed (rollback_version tx v) = xmax_committed v" "xmax (rollback_version tx v) = xmax v"
  "v_active v \<Longrightarrow> xmax_txn (rollback_version tx v) = (if xmax_txn v = tx \<and> \<not> xmax_committed v then 0 else xmax_txn v)"
  by (auto simp: rollback_version_def Let_def)

lemma rollback_inv:
  assumes inv: "mv_inv s"
  shows "mv_inv (snd (mvcc_rollback e tx uid s))"
proof (cases "mv_find_txn tx s")
  case None
  with inv show ?thesis
    by (simp add: mvcc_rollback_def)
next
  case (Some k)
  note k = find_txn_Some [OF Some]
  let ?s' = "snd (mvcc_rollback e tx uid s)"
  have f: "mvcc_txns ?s' = (mvcc_txns s)(k := (mvcc_txns s k)\<lparr>txn_active := False\<rparr>)" "mvcc_commit_seq ?s' = mvcc_commit_seq s"
    "mvcc_next_txn_id ?s' = mvcc_next_txn_id s" "mvcc_version_count ?s' = mvcc_version_count s"
    "mvcc_next_logical_id ?s' = mvcc_next_logical_id s"
    "i < mvcc_version_count s \<Longrightarrow> mvcc_versions ?s' i = rollback_version tx (mvcc_versions s i)" for i
    by (simp_all add: mvcc_rollback_def Some txn_close_def)
  have lv: "live t ?s' \<longleftrightarrow> live t s \<and> t \<noteq> tx" for t
    using close_live [OF mv_invD(4) [OF inv] k(1,2) f(1)] k(3) by simp
  have ok: "txns_ok ?s'"
    using mv_invD(4) [OF inv] unfolding txns_ok_def f by auto
  have v: "version_ok ?s' (rollback_version tx v)" if "version_ok s v" "v_active (rollback_version tx v)" for v
    using that k(5) mv_invD(2) [OF inv] unfolding version_ok_def f lv by (auto simp: rollback_version_fields split: if_splits)
  have y: "yields ?s' (rollback_version tx v) (rollback_version tx w)"
    if "yields s v w" "version_ok s v" "v_active (rollback_version tx v)" "v_active (rollback_version tx w)" for v w
    using that k unfolding yields_def version_ok_def f by (auto simp: rollback_version_fields split: if_splits)
  show ?thesis
    using inv ok v y unfolding mv_inv_def f by (simp add: f rollback_version_fields)
qed

section \<open>Row operations of one transaction\<close>

text \<open>
  What the operations of a transaction may do to the version store: append uncommitted versions of
  their own and claim versions nobody has superseded.
\<close>

definition acts :: "nat \<Rightarrow> 'r mvcc \<Rightarrow> 'r mvcc \<Rightarrow> bool" where
  "acts tx s s' \<longleftrightarrow> mv_inv s' \<and> mvcc_txns s' = mvcc_txns s \<and> mvcc_next_txn_id s' = mvcc_next_txn_id s \<and>
     mvcc_commit_seq s' = mvcc_commit_seq s \<and> mvcc_version_count s \<le> mvcc_version_count s' \<and>
     (\<forall>i < mvcc_version_count s. mvcc_versions s' i = mvcc_versions s i \<or>
        xmax_txn (mvcc_versions s i) = 0 \<and> mvcc_versions s' i = (mvcc_versions s i)\<lparr>xmax_txn := tx\<rparr>) \<and>
     (\<forall>i < mvcc_version_count s'. mvcc_version_count s \<le> i \<longrightarrow>
        xmin_txn (mvcc_versions s' i) = tx \<and> \<not> xmin_committed (mvcc_versions s' i))"

lemma acts_refl: "mv_inv s \<Longrightarrow> acts tx s s"
  by (simp add: acts_def)

lemma acts_trans:
  assumes "acts tx s t" and "acts tx t u" and "tx \<noteq> 0"
  shows "acts tx s u"
proof -
  have "mvcc_versions u i = mvcc_versions s i \<or> xmax_txn (mvcc_versions s i) = 0 \<and> mvcc_versions u i = (mvcc_versions s i)\<lparr>xmax_txn := tx\<rparr>"
    if "i < mvcc_version_count s" for i
  proof -
    have "mvcc_versions t i = mvcc_versions s i \<or> xmax_txn (mvcc_versions s i) = 0 \<and> mvcc_versions t i = (mvcc_versions s i)\<lparr>xmax_txn := tx\<rparr>"
      using assms(1) that by (simp add: acts_def)
    moreover have "mvcc_versions u i = mvcc_versions t i \<or> xmax_txn (mvcc_versions t i) = 0 \<and> mvcc_versions u i = (mvcc_versions t i)\<lparr>xmax_txn := tx\<rparr>"
      using assms(1,2) that by (auto simp: acts_def)
    ultimately show ?thesis
      using assms(3) by auto
  qed
  moreover have "xmin_txn (mvcc_versions u i) = tx \<and> \<not> xmin_committed (mvcc_versions u i)"
    if "i < mvcc_version_count u" "mvcc_version_count s \<le> i" for i
  proof (cases "i < mvcc_version_count t")
    case True
    then have "xmin_txn (mvcc_versions t i) = tx \<and> \<not> xmin_committed (mvcc_versions t i)"
      using assms(1) that(2) by (auto simp: acts_def)
    moreover have "mvcc_versions u i = mvcc_versions t i \<or> mvcc_versions u i = (mvcc_versions t i)\<lparr>xmax_txn := tx\<rparr>"
      using assms(2) True by (auto simp: acts_def)
    ultimately show ?thesis
      by auto
  next
    case False
    then show ?thesis
      using assms(2) that(1) by (auto simp: acts_def)
  qed
  ultimately show ?thesis
    using assms(1,2) by (auto simp: acts_def)
qed

lemma acts_inv: "acts tx s s' \<Longrightarrow> mv_inv s'"
  by (simp add: acts_def)

lemma inv_frame:
  assumes "mvcc_txns s' = mvcc_txns s" and "mvcc_versions s' = mvcc_versions s" and "mvcc_version_count s' = mvcc_version_count s"
    and "mvcc_next_txn_id s' = mvcc_next_txn_id s" and "mvcc_next_logical_id s' = mvcc_next_logical_id s"
    and "mvcc_commit_seq s' = mvcc_commit_seq s"
  shows "mv_inv s' = mv_inv s"
  by (simp add: mv_inv_def txns_ok_def version_ok_def yields_def live_def assms)

lemma acts_frame:
  assumes "acts tx s t" and "mvcc_txns s' = mvcc_txns t" and "mvcc_versions s' = mvcc_versions t" and "mvcc_version_count s' = mvcc_version_count t"
    and "mvcc_next_txn_id s' = mvcc_next_txn_id t" and "mvcc_next_logical_id s' = mvcc_next_logical_id t"
    and "mvcc_commit_seq s' = mvcc_commit_seq t"
  shows "acts tx s s'"
  using assms(1) inv_frame [OF assms(2-7)] by (simp add: acts_def assms(2-7))

lemma acts_quiet [simp]:
  "acts tx s t \<Longrightarrow> acts tx s (t\<lparr>store := r\<rparr>)" "acts tx s t \<Longrightarrow> acts tx s (log_journal x t)"
  by (erule acts_frame; simp add: log_journal_def)+

text \<open>A version of a fresh row.\<close>

lemma add_fresh:
  assumes inv: "mv_inv s" and room: "mv_room s" and n: "mvcc_version_count s < MVCC_MAX_VERSIONS"
    and tx: "if com then tx = 0 else live tx s"
    and s': "s' = add_version (mvcc_next_logical_id s) oid phys com tx (s\<lparr>mvcc_next_logical_id := u64 (mvcc_next_logical_id s + 1)\<rparr>)"
  shows "mv_inv s'"
proof -
  let ?c = "mvcc_version_count s"
  have f: "mvcc_txns s' = mvcc_txns s" "mvcc_commit_seq s' = mvcc_commit_seq s" "mvcc_next_txn_id s' = mvcc_next_txn_id s"
    "mvcc_version_count s' = Suc ?c" "mvcc_next_logical_id s' = Suc (mvcc_next_logical_id s)" "i < ?c \<Longrightarrow> mvcc_versions s' i = mvcc_versions s i" for i
    using room_succ [OF room] by (simp_all add: s' add_version_def)
  have new: "mvcc_versions s' ?c = \<lparr>v_active = True, logical_id = mvcc_next_logical_id s, table_object_id = oid, physical_id = phys,
      xmin = 0, xmin_committed = com, xmin_txn = tx, xmax = 0, xmax_committed = False, xmax_txn = 0\<rparr>"
    by (simp add: s' add_version_def)
  have lv: "live t s' \<longleftrightarrow> live t s" for t
    by (simp add: live_def f)
  have "\<not> live 0 s"
    using live_less [OF mv_invD(4) [OF inv], of 0] by auto
  then have "version_ok s' (mvcc_versions s' ?c)"
    using tx live_less [OF mv_invD(4) [OF inv], of tx] mv_invD(2,3) [OF inv] by (auto simp: version_ok_def new lv f split: if_splits)
  moreover have "version_ok s' v" if "version_ok s v" for v
    using that by (auto simp: version_ok_def lv f)
  moreover have "logical_id (mvcc_versions s i) \<noteq> mvcc_next_logical_id s" if "i < ?c" "v_active (mvcc_versions s i)" for i
    using mv_invD(5) [OF inv that] by (simp add: version_ok_def)
  moreover have "yields s' v w = yields s v w" for v w
    by (simp add: yields_def f)
  moreover have "txns_ok s'"
    using mv_invD(4) [OF inv] by (simp add: txns_ok_def f)
  ultimately show ?thesis
    using inv n new unfolding mv_inv_def f(1-4) by (auto simp: less_Suc_eq f)
qed

text \<open>The version a transaction may supersede is the last of its row.\<close>

lemma claim_last:
  assumes inv: "mv_inv s" and k: "mv_find_txn tx s = Some k" and v: "mv_find_visible_version lid (mvcc_txns s k) s = Some i"
    and free: "xmax_txn (mvcc_versions s i) = 0 \<or> xmax_txn (mvcc_versions s i) = tx"
  shows "xmax_txn (mvcc_versions s i) = 0" and "\<not> xmax_committed (mvcc_versions s i)"
    and "i < j \<Longrightarrow> j < mvcc_version_count s \<Longrightarrow> v_active (mvcc_versions s j) \<Longrightarrow> logical_id (mvcc_versions s j) \<noteq> lid"
proof -
  note vis = find_visible_Some [OF v]
  show z: "xmax_txn (mvcc_versions s i) = 0"
    using vis(4) free find_txn_Some(3) [OF k] by (auto simp: mv_visible_def)
  show "\<not> xmax_committed (mvcc_versions s i)"
    using z mv_invD(5) [OF inv vis(1,2)] by (auto simp: version_ok_def)
  show "logical_id (mvcc_versions s j) \<noteq> lid" if "i < j" "j < mvcc_version_count s" "v_active (mvcc_versions s j)"
    using mv_invD(6) [OF inv that(1,2) vis(2) that(3)] vis(3) z by (auto simp: yields_def)
qed

lemma supersede_acts:
  assumes inv: "mv_inv s" and tx: "live tx s" and i: "i < mvcc_version_count s" "v_active (mvcc_versions s i)"
    and free: "xmax_txn (mvcc_versions s i) = 0 \<or> xmax_txn (mvcc_versions s i) = tx"
  shows "acts tx s (supersede i tx s)"
proof (cases "xmax_txn (mvcc_versions s i) = tx")
  case True
  then have "(mvcc_versions s i)\<lparr>xmax_txn := tx\<rparr> = mvcc_versions s i"
    by (cases "mvcc_versions s i") simp
  then have "supersede i tx s = s"
    by (simp add: supersede_def)
  with inv show ?thesis
    by (simp add: acts_refl)
next
  case False
  let ?s' = "supersede i tx s" and ?v = "mvcc_versions s i"
  have z: "xmax_txn ?v = 0"
    using free False by simp
  have tx0: "0 < tx" "tx < mvcc_next_txn_id s"
    using live_less [OF mv_invD(4) [OF inv] tx] by auto
  have f: "mvcc_txns ?s' = mvcc_txns s" "mvcc_commit_seq ?s' = mvcc_commit_seq s" "mvcc_next_txn_id ?s' = mvcc_next_txn_id s"
    "mvcc_version_count ?s' = mvcc_version_count s" "mvcc_next_logical_id ?s' = mvcc_next_logical_id s"
    "mvcc_versions ?s' = (mvcc_versions s)(i := ?v\<lparr>xmax_txn := tx\<rparr>)"
    by (simp_all add: supersede_def)
  have same: "live t ?s' = live t s" "yields ?s' v w = yields s v w" "version_ok ?s' v = version_ok s v" for t v w
    by (simp_all add: live_def yields_def version_ok_def f)
  have ok: "version_ok s (?v\<lparr>xmax_txn := tx\<rparr>)"
    using mv_invD(5) [OF inv i] tx tx0 z by (auto simp: version_ok_def split: if_splits)
  have yi: "yields s v (?v\<lparr>xmax_txn := tx\<rparr>) = yields s v ?v" for v
    by (simp add: yields_def)
  have last: False if "i < j" "j < mvcc_version_count s" "v_active (mvcc_versions s j)" "logical_id ?v = logical_id (mvcc_versions s j)" for j
    using mv_invD(6) [OF inv that(1,2) i(2) that(3,4)] z by (auto simp: yields_def)
  have "txns_ok ?s'"
    using mv_invD(4) [OF inv] by (simp add: txns_ok_def f)
  then have "mv_inv ?s'"
    using inv ok unfolding mv_inv_def f(1-5) by (auto simp: f same yi dest: last)
  then show ?thesis
    using z by (simp add: acts_def f)
qed

lemma update_acts:
  assumes inv: "mv_inv s" and n: "mvcc_version_count s < MVCC_MAX_VERSIONS" and k: "mv_find_txn tx s = Some k"
    and v: "mv_find_visible_version lid (mvcc_txns s k) s = Some i"
    and free: "xmax_txn (mvcc_versions s i) = 0 \<or> xmax_txn (mvcc_versions s i) = tx"
    and s': "s' = supersede i tx (add_version lid oid phys False tx s)"
  shows "acts tx s s'"
proof -
  note kk = find_txn_Some [OF k] and vis = find_visible_Some [OF v] and cl = claim_last [OF inv k v free]
  let ?c = "mvcc_version_count s" and ?v = "mvcc_versions s i"
  let ?nv = "\<lparr>v_active = True, logical_id = lid, table_object_id = oid, physical_id = phys, xmin = 0, xmin_committed = False,
      xmin_txn = tx, xmax = 0, xmax_committed = False, xmax_txn = 0\<rparr>"
  have f: "mvcc_txns s' = mvcc_txns s" "mvcc_commit_seq s' = mvcc_commit_seq s" "mvcc_next_txn_id s' = mvcc_next_txn_id s"
    "mvcc_version_count s' = Suc ?c" "mvcc_next_logical_id s' = mvcc_next_logical_id s"
    "mvcc_versions s' = (mvcc_versions s)(?c := ?nv, i := ?v\<lparr>xmax_txn := tx\<rparr>)"
    using vis(1) by (auto simp: s' supersede_def add_version_def)
  have same: "live t s' = live t s" "yields s' v w = yields s v w" "version_ok s' v = version_ok s v" for t v w
    by (simp_all add: live_def yields_def version_ok_def f)
  have tx0: "tx < mvcc_next_txn_id s"
    using live_less [OF mv_invD(4) [OF inv] kk(5)] by simp
  have ok: "version_ok s (?v\<lparr>xmax_txn := tx\<rparr>)" "version_ok s ?nv"
    using mv_invD(5) [OF inv vis(1,2)] kk(5) cl tx0 vis(3) mv_invD(2) [OF inv] by (auto simp: version_ok_def split: if_splits)
  have yi: "yields s w (?v\<lparr>xmax_txn := tx\<rparr>) = yields s w ?v" for w
    by (simp add: yields_def)
  have "yields s (mvcc_versions s j) ?nv" if "j < i" "v_active (mvcc_versions s j)" "logical_id (mvcc_versions s j) = lid" for j
  proof -
    have y: "yields s (mvcc_versions s j) ?v"
      using mv_invD(6) [OF inv that(1) vis(1) that(2) vis(2)] that(3) vis(3) by simp
    moreover have "k' = k" if "k' < MVCC_MAX_TXNS" "txn_active (mvcc_txns s k')" "txn_id (mvcc_txns s k') = tx" for k'
      using mv_invD(4) [OF inv] kk that by (auto simp: txns_ok_def)
    ultimately show ?thesis
      using yields_hides [OF inv kk(1,2) vis(1,2,4) y] kk(3) by (auto simp: yields_def)
  qed
  moreover have "yields s (?v\<lparr>xmax_txn := tx\<rparr>) ?nv"
    using kk(4) by (simp add: yields_def)
  moreover have "txns_ok s'"
    using mv_invD(4) [OF inv] by (simp add: txns_ok_def f)
  ultimately have "mv_inv s'"
    using inv n ok cl(3) vis(1,3) unfolding mv_inv_def f(1-5) by (auto simp: f same yi less_Suc_eq) (metis linorder_neqE_nat)+
  then show ?thesis
    using cl(1) vis(1) by (auto simp: acts_def f)
qed

lemma insert_acts:
  assumes inv: "mv_inv s" and room: "mv_room s"
  shows "acts tx s (snd (snd (mvcc_row_insert e tx uid name vals s)))"
proof -
  have add: "acts tx s (log_journal x (add_version (mvcc_next_logical_id s) oid phys False tx
      (s\<lparr>store := r, mvcc_next_logical_id := u64 (mvcc_next_logical_id s + 1)\<rparr>)))"
    if n: "mvcc_version_count s < MVCC_MAX_VERSIONS" and tx: "live tx s" for oid phys r x
  proof -
    let ?s1 = "s\<lparr>store := r\<rparr>"
    have "mv_inv (add_version (mvcc_next_logical_id ?s1) oid phys False tx
        (?s1\<lparr>mvcc_next_logical_id := u64 (mvcc_next_logical_id ?s1 + 1)\<rparr>))"
      by (rule add_fresh [OF _ _ _ _ refl])
        (use inv room n tx in \<open>auto simp: mv_room_def live_def intro: inv_frame [THEN iffD2]\<close>)
    then have "acts tx s (add_version (mvcc_next_logical_id s) oid phys False tx
        (s\<lparr>store := r, mvcc_next_logical_id := u64 (mvcc_next_logical_id s + 1)\<rparr>))"
      by (simp add: acts_def add_version_def)
    then show ?thesis
      by simp
  qed
  have same: "acts tx s s" "acts tx s (s\<lparr>store := r\<rparr>)" for r
    using inv by (simp_all add: acts_refl)
  show ?thesis
  proof (cases "mv_find_txn tx s")
    case (Some k)
    then show ?thesis
      using add [OF _ find_txn_Some(5) [OF Some]] same
      by (auto simp: mvcc_row_insert_def Let_def split: option.split prod.split)
  qed (simp add: mvcc_row_insert_def same)
qed

lemma row_update_acts:
  assumes inv: "mv_inv s"
  shows "acts tx s (snd (mvcc_row_update e tx uid name lid vals s))"
proof -
  have same: "acts tx s s" "acts tx s (s\<lparr>store := r\<rparr>)" for r
    using inv by (simp_all add: acts_refl)
  show ?thesis
  proof (cases "mv_find_txn tx s")
    case (Some k)
    note k = Some
    show ?thesis
    proof (cases "mv_find_visible_version lid (mvcc_txns s k) s")
      case (Some i)
      have "acts tx s (log_journal x (supersede i tx (add_version lid oid phys False tx (s\<lparr>store := r\<rparr>))))"
        if "mvcc_version_count s < MVCC_MAX_VERSIONS" "xmax_txn (mvcc_versions s i) = 0 \<or> xmax_txn (mvcc_versions s i) = tx" for oid phys r x
      proof -
        have "acts tx s (supersede i tx (add_version lid oid phys False tx s))"
          by (rule update_acts [OF inv that(1) k Some that(2) refl])
        then have "acts tx s (supersede i tx (add_version lid oid phys False tx (s\<lparr>store := r\<rparr>)))"
          by (rule acts_frame) (simp_all add: supersede_def add_version_def)
        then show ?thesis
          by simp
      qed
      then show ?thesis
        using same by (auto simp: mvcc_row_update_def k Some Let_def split: prod.split)
    qed (simp add: mvcc_row_update_def k same)
  qed (simp add: mvcc_row_update_def same)
qed

section \<open>Deletion and cascades\<close>

lemma cascade_acts:
  assumes d: "\<And>c t. mv_inv t \<Longrightarrow> acts tx t (snd (del c t))" and "mv_inv s" and tx: "tx \<noteq> 0"
  shows "acts tx s (snd (cascade_children del ids s))"
  using assms(2)
proof (induction ids arbitrary: s)
  case (Cons c ids)
  have a: "acts tx s (snd (del c s))"
    by (rule d [OF Cons.prems])
  have "acts tx s (snd (cascade_children del ids (snd (del c s))))"
    by (rule acts_trans [OF a Cons.IH [OF acts_inv [OF a]] tx])
  with a show ?case
    by (auto split: prod.split)
qed (simp add: acts_refl)

lemma null_acts:
  assumes "mv_inv s" and tx: "tx \<noteq> 0"
  shows "acts tx s (snd (null_children e tx uid c ids s))"
  using assms(1)
proof (induction ids arbitrary: s)
  case (Cons x ids)
  let ?u = "\<lambda>v. snd (mvcc_row_update e tx uid (rc_table_name c) x (null_column (rc_column_index c) v) s)"
  have a: "acts tx s (?u v)" for v
    by (rule row_update_acts [OF Cons.prems])
  have "acts tx s (snd (null_children e tx uid c ids (?u v)))" for v
    by (rule acts_trans [OF a Cons.IH [OF acts_inv [OF a]] tx])
  with a Cons.IH [OF Cons.prems] acts_refl [OF Cons.prems] show ?case
    by (auto split: prod.split MvccError.split option.split) (metis snd_conv)+
qed (simp add: acts_refl)

definition deleter_ok :: "nat \<Rightarrow> 'r row_deleter \<Rightarrow> bool" where
  "deleter_ok tx del \<longleftrightarrow> (\<forall>d n c t. del = Some d \<and> mv_inv t \<longrightarrow> acts tx t (snd (d n c t)))"

lemma check_delete_acts:
  assumes d: "deleter_ok tx del" and inv: "mv_inv s" and tx: "tx \<noteq> 0"
  shows "acts tx s (snd (row_constraint_check_delete e del tx uid name oid phys s))"
proof -
  have one: "acts tx t (snd (check_delete_one e del tx uid oid vals c t))" if "mv_inv t" for vals c t
  proof -
    have "acts tx t (snd (cascade_children (d n) ids t))" if "del = Some d" for d n ids
      by (rule cascade_acts [OF _ \<open>mv_inv t\<close> tx]) (use d that in \<open>auto simp: deleter_ok_def\<close>)
    then show ?thesis
      using null_acts [OF that tx] acts_refl [OF that] by (auto simp: check_delete_one_def Let_def split: option.split)
  qed
  have all: "acts tx t (snd (check_delete_list e del tx uid oid vals cs t))" if "mv_inv t" for vals cs t
    using that
  proof (induction cs arbitrary: t)
    case (Cons c cs)
    note a = one [OF Cons.prems, of vals c]
    have "acts tx t (snd (check_delete_list e del tx uid oid vals cs (snd (check_delete_one e del tx uid oid vals c t))))"
      by (rule acts_trans [OF a Cons.IH [OF acts_inv [OF a]] tx])
    with a show ?case
      by (auto split: prod.split)
  qed (simp add: acts_refl)
  show ?thesis
    using all [OF inv] acts_refl [OF inv] by (auto simp: row_constraint_check_delete_def split: prod.split)
qed

lemma delete_body_acts:
  assumes d: "deleter_ok tx del" and inv: "mv_inv s"
  shows "acts tx s (snd (row_delete_body e del tx uid name lid s))"
proof (cases "mv_find_txn tx s")
  case (Some k)
  note k = Some find_txn_Some [OF Some]
  show ?thesis
  proof (cases "mv_find_visible_version lid (mvcc_txns s k) s")
    case (Some i)
    note vis = find_visible_Some [OF Some]
    let ?v = "mvcc_versions s i"
    obtain r t where t: "row_constraint_check_delete e del tx uid name (table_object_id ?v) (physical_id ?v) s = (r, t)"
      by fastforce
    have a: "acts tx s t"
      using check_delete_acts [OF d inv k(5)] t by (metis snd_conv)
    have "acts tx s (supersede i tx t)" if "xmax_txn ?v = 0 \<or> xmax_txn ?v = tx"
    proof -
      have "i < mvcc_version_count t" "v_active (mvcc_versions t i)" "xmax_txn (mvcc_versions t i) = 0 \<or> xmax_txn (mvcc_versions t i) = tx"
        "live tx t"
        using a vis(1,2) that k(6) by (auto simp: acts_def live_def)
      then have "acts tx t (supersede i tx t)"
        by (intro supersede_acts acts_inv [OF a]) auto
      then show ?thesis
        by (rule acts_trans [OF a _ k(5)])
    qed
    with a show ?thesis
      using acts_refl [OF inv] by (auto simp: row_delete_body_def k(1) Some Let_def t)
  qed (use acts_refl [OF inv] in \<open>simp add: row_delete_body_def k(1)\<close>)
qed (simp add: row_delete_body_def acts_refl [OF inv])

lemma row_delete_acts: "mv_inv s \<Longrightarrow> acts tx s (snd (mvcc_row_delete e tx uid name lid s))"
proof -
  have "mv_inv s \<Longrightarrow> acts tx s (snd (row_delete_depth n e tx uid name lid s))" for n s name lid
    by (induction n arbitrary: s name lid) (auto intro!: delete_body_acts simp: deleter_ok_def)
  then show "mv_inv s \<Longrightarrow> ?thesis"
    by (simp add: mvcc_row_delete_def)
qed

section \<open>Restart and table drop\<close>

lemma dropped_inv: "mv_inv s \<Longrightarrow> mv_inv (mvcc_notify_table_dropped oid s)"
proof -
  assume inv: "mv_inv s"
  let ?s' = "mvcc_notify_table_dropped oid s"
  have f: "mvcc_txns ?s' = mvcc_txns s" "mvcc_commit_seq ?s' = mvcc_commit_seq s" "mvcc_next_txn_id ?s' = mvcc_next_txn_id s"
    "mvcc_version_count ?s' = mvcc_version_count s" "mvcc_next_logical_id ?s' = mvcc_next_logical_id s"
    by (simp_all add: mvcc_notify_table_dropped_def)
  have "txns_ok ?s' = txns_ok s" "version_ok ?s' v = version_ok s v" "yields ?s' v w = yields s v w" for v w
    by (simp_all add: txns_ok_def version_ok_def yields_def live_def f)
  moreover have "v_active (mvcc_versions ?s' i) \<Longrightarrow> mvcc_versions ?s' i = mvcc_versions s i" for i
    by (auto simp: mvcc_notify_table_dropped_def split: if_splits)
  ultimately show ?thesis
    using inv unfolding mv_inv_def f by metis
qed

lemma bootstrap_inv:
  assumes "mv_inv s" and "mvcc_next_logical_id s + length rids < 2 ^ 64 - MVCC_MAX_VERSIONS" and "mv_room s"
  shows "mv_inv (fold (mv_bootstrap_cb oid) rids s)"
  using assms
proof (induction rids arbitrary: s)
  case (Cons r rids)
  let ?t = "mv_bootstrap_cb oid r s"
  have "mv_inv ?t"
    using Cons.prems(1) add_fresh [OF Cons.prems(1,3) _ _ refl, of True 0] by (auto simp: mv_bootstrap_cb_def)
  moreover have "mv_room ?t" "mvcc_next_logical_id ?t + length rids < 2 ^ 64 - MVCC_MAX_VERSIONS"
    using Cons.prems(2,3) room_succ [OF Cons.prems(3)] by (auto simp: mv_bootstrap_cb_def add_version_def mv_room_def)
  ultimately show ?case
    using Cons.IH by simp
qed simp

end
