(* ===== verification/Mvcc_Laws.thy ===== *)
theory Mvcc_Laws
  imports Mvcc_Inv
begin

text \<open>
  Snapshot isolation of the version store: the operations as a step relation, and what a transaction
  sees along runs of it.
\<close>

section \<open>Runs\<close>

datatype mv_op =
    MvBegin
  | MvCommit nat
  | MvRollback nat nat
  | MvInsert nat nat string RowValues
  | MvUpdate nat nat string nat RowValues
  | MvDelete nat nat string nat

fun mv_exec :: "'r mvcc_env \<Rightarrow> mv_op \<Rightarrow> 'r mvcc \<Rightarrow> 'r mvcc" where
  "mv_exec e MvBegin s = snd (mvcc_begin s)"
| "mv_exec e (MvCommit tx) s = snd (mvcc_commit tx s)"
| "mv_exec e (MvRollback tx uid) s = snd (mvcc_rollback e tx uid s)"
| "mv_exec e (MvInsert tx uid name vals) s = snd (snd (mvcc_row_insert e tx uid name vals s))"
| "mv_exec e (MvUpdate tx uid name lid vals) s = snd (mvcc_row_update e tx uid name lid vals s)"
| "mv_exec e (MvDelete tx uid name lid) s = snd (mvcc_row_delete e tx uid name lid s)"


text \<open>Runs of operations from a set.\<close>

inductive mv_run :: "'r mvcc_env \<Rightarrow> mv_op set \<Rightarrow> 'r mvcc \<Rightarrow> 'r mvcc \<Rightarrow> bool" for e A s where
  mv_stop: "mv_run e A s s"
| mv_step: "mv_run e A s t \<Longrightarrow> op \<in> A \<Longrightarrow> mv_room t \<Longrightarrow> mv_run e A s (mv_exec e op t)"

lemma exec_inv: "mv_inv s \<Longrightarrow> mv_room s \<Longrightarrow> mv_inv (mv_exec e op s)"
  by (cases op) (auto intro: begin_inv commit_inv rollback_inv acts_inv insert_acts row_update_acts row_delete_acts)

lemma mv_run_inv:
  assumes "mv_run e A s t" and "mv_inv s"
  shows "mv_inv t"
  using assms(1)
proof induction
  case (mv_step t op)
  then show ?case
    by (intro exec_inv)
qed (rule assms(2))

section \<open>Each row once\<close>

lemma scan_version_id: "x \<in> set (scan_version e uid name oid t r v) \<Longrightarrow> fst x = logical_id v \<and> v_active v \<and> mv_visible v t"
  unfolding scan_version_def case_prod_beta by (simp split: if_split_asm)

lemma scan_version_short: "length (scan_version e uid name oid t r v) \<le> 1"
  by (simp add: scan_version_def split: prod.split)

lemma scan_distinct:
  assumes inv: "mv_inv s" and k: "k < MVCC_MAX_TXNS" "txn_active (mvcc_txns s k)" and n: "n \<le> mvcc_version_count s"
  shows "distinct (map fst (concat (map (\<lambda>i. scan_version e uid name oid (mvcc_txns s k) r (mvcc_versions s i)) [0..<n])))"
  using n
proof (induction n)
  case (Suc n)
  let ?sc = "\<lambda>i. scan_version e uid name oid (mvcc_txns s k) r (mvcc_versions s i)"
  have "fst x \<noteq> fst y" if "x \<in> set (?sc i)" "i < n" "y \<in> set (?sc n)" for x y i
    using visible_unique [OF inv k, of i n] scan_version_id [OF that(1)] scan_version_id [OF that(3)] that(2) Suc.prems by auto
  moreover have "distinct (map fst (?sc n))"
    using scan_version_short [of e uid name oid "mvcc_txns s k" r "mvcc_versions s n"] by (cases "?sc n") auto
  ultimately show ?case
    using Suc by auto
qed simp

text \<open>
  C30. A snapshot shows each row once: in every state reached from initialisation a transaction sees at
  most one version of a logical row, so \<^verbatim>\<open>mvcc_table_scan\<close> hands no row to its callback twice although it does
  not remove duplicates.
\<close>

theorem scan_once:
  assumes "mv_run e UNIV (mvcc_init s0) s"
  shows "distinct (map fst (mvcc_table_scan e tx uid name s))"
proof (cases "mv_find_txn tx s")
  case (Some k)
  note d = scan_distinct [OF mv_run_inv [OF assms init_inv] find_txn_Some(1,2) [OF Some] order.refl, of e uid name _ "store s"]
  show ?thesis
    using d by (simp add: mvcc_table_scan_def Some split: option.split)
qed (simp add: mvcc_table_scan_def)

section \<open>Views\<close>

text \<open>The versions the transaction in slot \<open>k\<close> sees, and those a transaction that begins now would see.\<close>

definition view :: "nat \<Rightarrow> 'r mvcc \<Rightarrow> nat set" where
  "view k s = {i. i < mvcc_version_count s \<and> v_active (mvcc_versions s i) \<and> mv_visible (mvcc_versions s i) (mvcc_txns s k)}"













text \<open>
  C29. The first updater wins: a row whose visible version another transaction has claimed can be neither updated
  nor deleted; both answer \<^verbatim>\<open>WRITE_CONFLICT\<close> at once and change nothing.
\<close>

theorem first_updater_wins:
  assumes "mv_inv s" and "mv_find_txn tx s = Some k" and "i \<in> view k s" and "logical_id (mvcc_versions s i) = lid"
    and "xmax_txn (mvcc_versions s i) \<notin> {0, tx}" and "catalog_check_access e uid name PERM_WRITE"
  shows "mvcc_row_update e tx uid name lid vals s = (MVCC_ERR_WRITE_CONFLICT, s) \<and>
    mvcc_row_delete e tx uid name lid s = (MVCC_ERR_WRITE_CONFLICT, s)"
proof -
  note k = find_txn_Some [OF assms(2)]
  have i: "i < mvcc_version_count s" "v_active (mvcc_versions s i)" "mv_visible (mvcc_versions s i) (mvcc_txns s k)"
    using assms(3) by (simp_all add: view_def)
  have "mv_find_visible_version lid (mvcc_txns s k) s \<noteq> None"
    using i assms(4) by (auto simp: mv_find_visible_version_def find_None_iff)
  then obtain j where j: "mv_find_visible_version lid (mvcc_txns s k) s = Some j"
    by blast
  have "j = i"
    using visible_unique [OF assms(1) k(1,2)] find_visible_Some [OF j] i assms(4) by blast
  then show ?thesis
    using assms(2,5,6) j by (simp add: mvcc_row_update_def mvcc_row_delete_def row_delete_body_def limits eval_nat_numeral)
qed


section \<open>A sample state\<close>

text \<open>A store that is a list of rows, and a state with one committed row that transaction 2 has claimed while transaction 3 is open.\<close>

definition list_env :: "RowValues option list mvcc_env" where
  "list_env = \<lparr>
     object_catalog = [\<lparr>ce_active = True, ce_uses_rowstore = True, ce_name = ''t'', ce_object_id = 5\<rparr>],
     catalog_check_access = (\<lambda>_ _ _. True), row_constraints = [], rc_in_range = (\<lambda>_ _. True),
     rowstore_row_insert = (\<lambda>_ _ v r. (0, \<lparr>page_id = 0, slot_index = of_nat (length r)\<rparr>, r @ [Some v])),
     rowstore_row_get = (\<lambda>_ _ x r. case r ! unat (slot_index x) of Some v \<Rightarrow> (0, v) | None \<Rightarrow> (3, \<lparr>rv_values = [], null_mask = 0\<rparr>)),
     rowstore_row_delete = (\<lambda>_ _ x r. r[unat (slot_index x) := None]),
     rowstore_table_scan = (\<lambda>_ _ r. map (\<lambda>i. \<lparr>page_id = 0, slot_index = of_nat i\<rparr>) [0..<length r])\<rparr>"

definition claimed :: "RowValues option list mvcc" where
  "claimed = \<lparr>
     mvcc_txns = (\<lambda>k. if k = 0 then \<lparr>txn_id = 2, snapshot_seq = 1, txn_active = True\<rparr>
                      else if k = 1 then \<lparr>txn_id = 3, snapshot_seq = 1, txn_active = True\<rparr>
                      else \<lparr>txn_id = 0, snapshot_seq = 0, txn_active = False\<rparr>),
     mvcc_versions = (\<lambda>_. \<lparr>v_active = True, logical_id = 1, table_object_id = 5, physical_id = \<lparr>page_id = 0, slot_index = 0\<rparr>,
        xmin = 1, xmin_committed = True, xmin_txn = 1, xmax = 0, xmax_committed = False, xmax_txn = 2\<rparr>),
     mvcc_version_count = 1, mvcc_next_txn_id = 4, mvcc_next_logical_id = 2, mvcc_commit_seq = 2,
     mvcc_phys_index = (\<lambda>_. \<lparr>pe_used = False, pe_physical_id = \<lparr>page_id = 0, slot_index = 0\<rparr>, pe_version_slot = 0\<rparr>),
     store = [Some \<lparr>rv_values = [''a''], null_mask = 0\<rparr>], journal = []\<rparr>"

lemma claimed_inv: "mv_inv claimed" "mv_room claimed"
  by (auto simp: mv_inv_def txns_ok_def version_ok_def live_def claimed_def mv_room_def limits)

lemma claimed_txns: "mv_find_txn 2 claimed = Some 0" "mv_find_txn 3 claimed = Some 1"
  by (simp_all add: mv_find_txn_def claimed_def find_upt_Some limits)

theorem scan_once_witness:
  "let s1 = mv_exec list_env MvBegin (mvcc_init claimed); s2 = mv_exec list_env (MvInsert 1 0 ''t'' \<lparr>rv_values = [''b''], null_mask = 0\<rparr>) s1
   in mv_run list_env UNIV (mvcc_init claimed) s2 \<and> distinct (map fst (mvcc_table_scan list_env 1 0 ''t'' s2))"
proof -
  let ?s1 = "mv_exec list_env MvBegin (mvcc_init claimed)"
  have r: "mv_room (mvcc_init claimed)" "mv_room ?s1"
    by (simp_all add: mv_room_def mvcc_init_def mvcc_begin_def limits u64_def split: option.split)
  have "mv_run list_env UNIV (mvcc_init claimed) (mv_exec list_env (MvInsert 1 0 ''t'' \<lparr>rv_values = [''b''], null_mask = 0\<rparr>) ?s1)"
    by (intro mv_step mv_stop UNIV_I r)
  with scan_once [OF this] show ?thesis
    by (simp add: Let_def)
qed


theorem first_updater_wins_witness:
  "mvcc_row_update list_env 3 0 ''t'' 1 \<lparr>rv_values = [''b''], null_mask = 0\<rparr> claimed = (MVCC_ERR_WRITE_CONFLICT, claimed) \<and>
   mvcc_row_delete list_env 3 0 ''t'' 1 claimed = (MVCC_ERR_WRITE_CONFLICT, claimed)"
  by (rule first_updater_wins [OF claimed_inv(1) claimed_txns(2), of 0])
    (simp_all add: view_def claimed_def mv_visible_def list_env_def)


end
