(* ===== verification/Mvcc_Index.thy ===== *)
theory Mvcc_Index
  imports Mvcc
begin

text \<open>
  The open-addressed index from physical rows to version slots (\<^verbatim>\<open>mv_phys_index_put\<close>,
  \<^verbatim>\<open>mv_phys_index_get\<close>) implements a finite map: every entry stays reachable from the hash of its row
  along used slots.
\<close>

definition index_ok :: "(nat \<Rightarrow> MvccPhysEntry) \<Rightarrow> bool" where
  "index_ok t \<longleftrightarrow>
     (\<forall>i < MVCC_PHYS_HASH_SIZE. pe_used (t i) \<longrightarrow>
        (\<exists>p < MVCC_PHYS_HASH_SIZE. i = phys_probe (pe_physical_id (t i)) p \<and> (\<forall>q < p. pe_used (t (phys_probe (pe_physical_id (t i)) q))))) \<and>
     (\<forall>i < MVCC_PHYS_HASH_SIZE. \<forall>j < MVCC_PHYS_HASH_SIZE. pe_used (t i) \<and> pe_used (t j) \<and> pe_physical_id (t i) = pe_physical_id (t j) \<longrightarrow> i = j)"

definition index_entry :: "RowId \<Rightarrow> nat \<Rightarrow> (nat \<Rightarrow> MvccPhysEntry) \<Rightarrow> bool" where
  "index_entry rid v t \<longleftrightarrow> (\<exists>i < MVCC_PHYS_HASH_SIZE. pe_used (t i) \<and> pe_physical_id (t i) = rid \<and> pe_version_slot (t i) = v)"

lemma option_ext: "(\<And>w. a = Some w \<longleftrightarrow> b = Some w) \<Longrightarrow> a = b"
  by (cases a; cases b) auto

lemma probe_less [simp]: "phys_probe rid p < MVCC_PHYS_HASH_SIZE"
  by (simp add: phys_probe_def limits)

lemma probe_onto: "i < MVCC_PHYS_HASH_SIZE \<Longrightarrow> \<exists>p < MVCC_PHYS_HASH_SIZE. phys_probe rid p = i"
proof -
  assume i: "i < MVCC_PHYS_HASH_SIZE"
  let ?n = MVCC_PHYS_HASH_SIZE and ?h = "mv_phys_hash rid mod MVCC_PHYS_HASH_SIZE"
  have h: "?h < ?n"
    by (simp add: limits)
  have "phys_probe rid ((i + ?n - ?h) mod ?n) = (?h + (i + ?n - ?h) mod ?n) mod ?n"
    unfolding phys_probe_def by (rule mod_add_left_eq [symmetric])
  also have "\<dots> = (?h + (i + ?n - ?h)) mod ?n"
    by (rule mod_add_right_eq)
  also have "?h + (i + ?n - ?h) = i + ?n"
    using h by linarith
  also have "(i + ?n) mod ?n = i"
    using i by simp
  finally have "phys_probe rid ((i + ?n - ?h) mod ?n) = i" .
  then show ?thesis
    by (intro exI [of _ "(i + ?n - ?h) mod ?n"]) (simp add: limits)
qed

lemma get_Some_iff:
  assumes ok: "index_ok t"
  shows "mv_phys_index_get rid t = Some v \<longleftrightarrow> index_entry rid v t"
proof
  assume "mv_phys_index_get rid t = Some v"
  then obtain p where "List.find (\<lambda>p. \<not> pe_used (t (phys_probe rid p)) \<or> pe_physical_id (t (phys_probe rid p)) = rid) [0..<MVCC_PHYS_HASH_SIZE] = Some p"
    and "pe_used (t (phys_probe rid p))" "v = pe_version_slot (t (phys_probe rid p))"
    by (auto simp: mv_phys_index_get_def split: option.splits if_splits)
  then show "index_entry rid v t"
    by (auto simp: find_upt_Some index_entry_def intro!: exI [of _ "phys_probe rid p"])
next
  assume "index_entry rid v t"
  then obtain i where i: "i < MVCC_PHYS_HASH_SIZE" "pe_used (t i)" "pe_physical_id (t i) = rid" "pe_version_slot (t i) = v"
    by (auto simp: index_entry_def)
  then obtain p where p: "p < MVCC_PHYS_HASH_SIZE" "i = phys_probe rid p" "\<forall>q < p. pe_used (t (phys_probe rid q))"
    using ok by (auto simp: index_ok_def)
  let ?P = "\<lambda>p. \<not> pe_used (t (phys_probe rid p)) \<or> pe_physical_id (t (phys_probe rid p)) = rid"
  have "?P p"
    using i(3) unfolding p(2) [symmetric] by blast
  then have "List.find ?P [0..<MVCC_PHYS_HASH_SIZE] \<noteq> None"
    using p(1) by (auto simp: find_None_iff)
  then obtain q where f: "List.find ?P [0..<MVCC_PHYS_HASH_SIZE] = Some q"
    by blast
  have q: "?P q" "q \<le> p"
    using f \<open>?P p\<close> unfolding find_upt_Some by (blast, metis not_le)
  have "phys_probe rid q = i"
  proof (cases "q = p")
    case False
    then have "pe_used (t (phys_probe rid q))" "pe_physical_id (t (phys_probe rid q)) = rid"
      using q p(3) by auto
    then show ?thesis
      using ok i probe_less unfolding index_ok_def by metis
  qed (simp add: p(2))
  then show "mv_phys_index_get rid t = Some v"
    using i f by (simp add: mv_phys_index_get_def)
qed

lemma put_slot:
  assumes free: "\<exists>i < MVCC_PHYS_HASH_SIZE. \<not> pe_used (t i)"
  obtains p where "p < MVCC_PHYS_HASH_SIZE" and "\<not> pe_used (t (phys_probe rid p))" and "\<forall>q < p. pe_used (t (phys_probe rid q))"
    and "mv_phys_index_put rid v t = t(phys_probe rid p := \<lparr>pe_used = True, pe_physical_id = rid, pe_version_slot = v\<rparr>)"
proof -
  have "List.find (\<lambda>p. \<not> pe_used (t (phys_probe rid p))) [0..<MVCC_PHYS_HASH_SIZE] \<noteq> None"
  proof
    assume "List.find (\<lambda>p. \<not> pe_used (t (phys_probe rid p))) [0..<MVCC_PHYS_HASH_SIZE] = None"
    then have "\<forall>p < MVCC_PHYS_HASH_SIZE. pe_used (t (phys_probe rid p))"
      by (auto simp: find_None_iff)
    then show False
      using free probe_onto [of _ rid] by metis
  qed
  then obtain p where p: "List.find (\<lambda>p. \<not> pe_used (t (phys_probe rid p))) [0..<MVCC_PHYS_HASH_SIZE] = Some p"
    by blast
  then have "mv_phys_index_put rid v t = t(phys_probe rid p := \<lparr>pe_used = True, pe_physical_id = rid, pe_version_slot = v\<rparr>)"
    by (simp add: mv_phys_index_put_def)
  with p show ?thesis
    unfolding find_upt_Some by (intro that [of p]) blast+
qed

text \<open>
  C31. The physical index is a map: entering a new row while a slot is free keeps the index well-formed, makes the
  row resolve to its version and leaves the resolution of every other row as it was.
\<close>

theorem phys_index_map:
  assumes "index_ok t" and "\<exists>i < MVCC_PHYS_HASH_SIZE. \<not> pe_used (t i)" and "mv_phys_index_get rid t = None"
  shows "index_ok (mv_phys_index_put rid v t) \<and>
    (\<lambda>r. mv_phys_index_get r (mv_phys_index_put rid v t)) = (\<lambda>r. mv_phys_index_get r t)(rid \<mapsto> v)"
proof -
  let ?t' = "mv_phys_index_put rid v t"
  obtain p where p: "p < MVCC_PHYS_HASH_SIZE" "\<not> pe_used (t (phys_probe rid p))" "\<forall>q < p. pe_used (t (phys_probe rid q))"
    and t': "?t' = t(phys_probe rid p := \<lparr>pe_used = True, pe_physical_id = rid, pe_version_slot = v\<rparr>)"
    by (rule put_slot [OF assms(2)])
  have new: "pe_physical_id (t i) \<noteq> rid" if "i < MVCC_PHYS_HASH_SIZE" "pe_used (t i)" for i
    using assms(3) get_Some_iff [OF assms(1), of rid] that by (auto simp: index_entry_def)
  have keep: "pe_used (t i) \<Longrightarrow> ?t' i = t i" and more: "pe_used (t i) \<Longrightarrow> pe_used (?t' i)" for i
    using p(2) by (auto simp: t')
  have ok: "index_ok ?t'"
  proof -
    have "\<exists>p < MVCC_PHYS_HASH_SIZE. i = phys_probe (pe_physical_id (?t' i)) p \<and> (\<forall>q < p. pe_used (?t' (phys_probe (pe_physical_id (?t' i)) q)))"
      if i: "i < MVCC_PHYS_HASH_SIZE" "pe_used (?t' i)" for i
    proof (cases "i = phys_probe rid p")
      case True
      then show ?thesis
        using p more by (auto simp: t')
    next
      case False
      then have u: "pe_used (t i)" and e: "?t' i = t i"
        using i(2) by (auto simp: t')
      then show ?thesis
        using assms(1) i(1) more unfolding index_ok_def e by blast
    qed
    moreover have "i = j" if "i < MVCC_PHYS_HASH_SIZE" "j < MVCC_PHYS_HASH_SIZE" "pe_used (?t' i)" "pe_used (?t' j)"
      "pe_physical_id (?t' i) = pe_physical_id (?t' j)" for i j
      using that new assms(1) by (auto simp: t' index_ok_def split: if_splits)
    ultimately show ?thesis
      by (auto simp: index_ok_def)
  qed
  have "index_entry r w ?t' \<longleftrightarrow> (if r = rid then w = v else index_entry r w t)" for r w
  proof
    show "index_entry r w ?t' \<Longrightarrow> if r = rid then w = v else index_entry r w t"
      using new by (auto simp: index_entry_def t' split: if_splits)
    have "index_entry rid v ?t'"
      unfolding index_entry_def t' by (rule exI [of _ "phys_probe rid p"]) simp
    moreover have "index_entry r w t \<Longrightarrow> index_entry r w ?t'"
      unfolding index_entry_def by (metis keep)
    ultimately show "if r = rid then w = v else index_entry r w t \<Longrightarrow> index_entry r w ?t'"
      by (auto split: if_splits)
  qed
  then have "mv_phys_index_get r ?t' = (if r = rid then Some v else mv_phys_index_get r t)" for r
    by (intro option_ext) (auto simp: get_Some_iff [OF ok] get_Some_iff [OF assms(1)])
  with ok show ?thesis
    by (auto simp: fun_eq_iff)
qed

theorem phys_index_map_witness:
  "let t = (\<lambda>_. \<lparr>pe_used = False, pe_physical_id = \<lparr>page_id = 0, slot_index = 0\<rparr>, pe_version_slot = 0\<rparr>); rid = \<lparr>page_id = 3, slot_index = 9\<rparr>
   in index_ok t \<and> mv_phys_index_get rid (mv_phys_index_put rid 7 t) = Some 7"
proof -
  let ?t = "\<lambda>_ :: nat. \<lparr>pe_used = False, pe_physical_id = \<lparr>page_id = 0, slot_index = 0\<rparr>, pe_version_slot = 0\<rparr>"
  let ?rid = "\<lparr>page_id = 3, slot_index = 9\<rparr>"
  have ok: "index_ok ?t"
    by (simp add: index_ok_def)
  moreover have "mv_phys_index_get ?rid ?t = None"
    using get_Some_iff [OF ok, of ?rid] by (auto simp: index_entry_def)
  moreover have "\<exists>i < MVCC_PHYS_HASH_SIZE. \<not> pe_used (?t i)"
    by (auto simp: limits intro: exI [of _ 0])
  ultimately show ?thesis
    using phys_index_map [of ?t ?rid 7] by (auto simp: Let_def fun_eq_iff)
qed

end
