(* ===== verification/Ipc.thy ===== *)
theory Ipc
  imports Cap_Prelude Bounded_Queue
begin

text \<open>
  Port-based message passing (\<^verbatim>\<open>src/kernel/ipc.c\<close>): the kernel service ports and the user ports with their owners
  and partitions. Each call is atomic here; the 32-bit cursors and counters wrap as in the code. The process
  table is an argument: the list of its entries' activity, pid and partition.
\<close>

section \<open>Data\<close>

definition IPC_PORT_FIRST :: nat where [limits]: "IPC_PORT_FIRST = 0x1001"
definition IPC_PORT_LAST :: nat where [limits]: "IPC_PORT_LAST = 0x1007"
definition IPC_NUM_QUEUES :: nat where [limits]: "IPC_NUM_QUEUES = 7"
definition IPC_USER_PORT_FIRST :: nat where [limits]: "IPC_USER_PORT_FIRST = 0x2000"
definition IPC_USER_PORT_LAST :: nat where [limits]: "IPC_USER_PORT_LAST = 0x200F"
definition IPC_QUEUE_DEPTH :: nat where [limits]: "IPC_QUEUE_DEPTH = 8"
definition PARTITION_DEFAULT :: nat where [limits]: "PARTITION_DEFAULT = 0"

record IPCMessage =
  im_src_port :: nat
  im_dst_port :: nat
  im_opcode :: nat
  im_payload :: "64 word list"
  im_reply_token :: nat
  im_consumed :: bool

record IPCQueue =
  q_msgs :: "nat \<Rightarrow> IPCMessage"
  q_head :: nat
  q_tail :: nat
  q_count :: nat

record IPCStats =
  total_posted :: "64 word"
  total_dispatched :: "64 word"
  total_dropped :: "64 word"
  avg_latency_ns :: "64 word"

record ipc_state =
  ipc_queues :: "nat \<Rightarrow> IPCQueue"
  ipc_stats :: IPCStats
  ipc_user_queues :: "nat \<Rightarrow> IPCQueue"
  ipc_user_port_pid :: "nat \<Rightarrow> nat"
  ipc_user_port_partition :: "nat \<Rightarrow> nat"

record proc_entry =
  pr_active :: bool
  pr_pid :: nat
  pr_partition :: nat

section \<open>Queues\<close>

text \<open>\<^verbatim>\<open>pos = tail++ % DEPTH; msgs[pos] = m; msgs[pos].consumed = 0; count++\<close>.\<close>

definition q_store :: "IPCMessage \<Rightarrow> IPCQueue \<Rightarrow> IPCQueue" where
  "q_store m q = q\<lparr>q_tail := u32 (q_tail q + 1), q_msgs := (q_msgs q)(q_tail q mod IPC_QUEUE_DEPTH := m),
     q_count := u32 (q_count q + 1)\<rparr>"

definition q_put :: "IPCMessage \<Rightarrow> IPCQueue \<Rightarrow> IPCQueue" where
  "q_put m q = q_store (m\<lparr>im_consumed := False\<rparr>) q"

text \<open>\<^verbatim>\<open>pos = head++ % DEPTH; m = msgs[pos]; count--\<close>.\<close>

definition q_first :: "IPCQueue \<Rightarrow> IPCMessage" where
  "q_first q = q_msgs q (q_head q mod IPC_QUEUE_DEPTH)"

definition q_drop :: "IPCQueue \<Rightarrow> IPCQueue" where
  "q_drop q = q\<lparr>q_head := u32 (q_head q + 1), q_count := q_count q - 1\<rparr>"

section \<open>Service ports\<close>

definition port_to_index :: "nat \<Rightarrow> nat option" where
  "port_to_index port = (if port < IPC_PORT_FIRST \<or> port > IPC_PORT_LAST then None else Some (port - IPC_PORT_FIRST))"

definition ipc_init :: "ipc_state \<Rightarrow> ipc_state" where
  "ipc_init s = s\<lparr>
     ipc_queues := (\<lambda>i. if i < IPC_NUM_QUEUES then (ipc_queues s i)\<lparr>q_head := 0, q_tail := 0, q_count := 0\<rparr> else ipc_queues s i),
     ipc_stats := \<lparr>total_posted = 0, total_dispatched = 0, total_dropped = 0, avg_latency_ns = 0\<rparr>\<rparr>"

definition count_posted :: "ipc_state \<Rightarrow> ipc_state" where
  "count_posted s = s\<lparr>ipc_stats := (ipc_stats s)\<lparr>total_posted := total_posted (ipc_stats s) + 1\<rparr>\<rparr>"

definition count_dropped :: "ipc_state \<Rightarrow> ipc_state" where
  "count_dropped s = s\<lparr>ipc_stats := (ipc_stats s)\<lparr>total_dropped := total_dropped (ipc_stats s) + 1\<rparr>\<rparr>"

definition count_dispatched :: "ipc_state \<Rightarrow> ipc_state" where
  "count_dispatched s = s\<lparr>ipc_stats := (ipc_stats s)\<lparr>total_dispatched := total_dispatched (ipc_stats s) + 1\<rparr>\<rparr>"

definition ipc_post :: "nat \<Rightarrow> IPCMessage \<Rightarrow> ipc_state \<Rightarrow> int \<times> ipc_state" where
  "ipc_post port msg s =
     (case port_to_index port of
        None \<Rightarrow> (- 1, s)
      | Some idx \<Rightarrow>
          if q_count (ipc_queues s idx) \<ge> IPC_QUEUE_DEPTH then (- 2, count_dropped s)
          else (0, count_posted (s\<lparr>ipc_queues := (ipc_queues s)(idx := q_put msg (ipc_queues s idx))\<rparr>)))"

text \<open>\<open>dt\<close> is the difference of the two time-stamp reads.\<close>

definition ipc_recv :: "nat \<Rightarrow> 64 word \<Rightarrow> ipc_state \<Rightarrow> IPCMessage option \<times> ipc_state" where
  "ipc_recv port dt s =
     (case port_to_index port of
        None \<Rightarrow> (None, s)
      | Some idx \<Rightarrow>
          if q_count (ipc_queues s idx) = 0 then (None, s)
          else let m = q_first (ipc_queues s idx);
                   s = count_dispatched (s\<lparr>ipc_queues := (ipc_queues s)(idx := q_drop (ipc_queues s idx))\<rparr>)
               in (Some m, s\<lparr>ipc_stats := (ipc_stats s)\<lparr>avg_latency_ns := (avg_latency_ns (ipc_stats s) * 7 + dt) div 8\<rparr>\<rparr>))"

definition ipc_queue_depth :: "nat \<Rightarrow> ipc_state \<Rightarrow> int" where
  "ipc_queue_depth port s = (case port_to_index port of None \<Rightarrow> - 1 | Some idx \<Rightarrow> int (q_count (ipc_queues s idx)))"

definition sys_sls_ipc_post :: "IPCMessage option \<Rightarrow> ipc_state \<Rightarrow> nat \<times> ipc_state" where
  "sys_sls_ipc_post req s =
     (case req of
        None \<Rightarrow> (1, s)
      | Some msg \<Rightarrow> (case ipc_post (im_dst_port msg) msg s of (r, s) \<Rightarrow> (if r = 0 then 0 else 1, s)))"

section \<open>User ports\<close>

definition pid_to_partition :: "proc_entry list \<Rightarrow> nat \<Rightarrow> nat" where
  "pid_to_partition procs pid =
     (case List.find (\<lambda>p. pr_active p \<and> pr_pid p = pid) procs of Some p \<Rightarrow> pr_partition p | None \<Rightarrow> PARTITION_DEFAULT)"

definition user_index :: "nat \<Rightarrow> nat option" where
  "user_index port = (if port < IPC_USER_PORT_FIRST \<or> port > IPC_USER_PORT_LAST then None else Some (port - IPC_USER_PORT_FIRST))"

definition ipc_user_bind :: "proc_entry list \<Rightarrow> nat \<Rightarrow> nat \<Rightarrow> ipc_state \<Rightarrow> int \<times> ipc_state" where
  "ipc_user_bind procs port pid s =
     (case user_index port of
        None \<Rightarrow> (- 1, s)
      | Some idx \<Rightarrow>
          if ipc_user_port_pid s idx \<noteq> 0 \<and> ipc_user_port_pid s idx \<noteq> pid then (- 2, s)
          else (0, s\<lparr>ipc_user_port_pid := (ipc_user_port_pid s)(idx := pid),
                     ipc_user_port_partition := (ipc_user_port_partition s)(idx := pid_to_partition procs pid)\<rparr>))"

text \<open>A bound port admits only processes of its owner's partition.\<close>

definition port_admits :: "proc_entry list \<Rightarrow> nat \<Rightarrow> nat \<Rightarrow> ipc_state \<Rightarrow> bool" where
  "port_admits procs idx pid s \<longleftrightarrow>
     \<not> (ipc_user_port_pid s idx \<noteq> 0 \<and> ipc_user_port_partition s idx \<noteq> pid_to_partition procs pid)"

definition ipc_user_send ::
  "proc_entry list \<Rightarrow> (nat \<times> nat \<times> 64 word list) option \<Rightarrow> nat \<Rightarrow> ipc_state \<Rightarrow> int \<times> ipc_state" where
  "ipc_user_send procs req src_pid s =
     (case req of
        None \<Rightarrow> (- 1, s)
      | Some (dst, opcode, payload) \<Rightarrow>
          let msg = \<lparr>im_src_port = u16 src_pid, im_dst_port = dst, im_opcode = opcode, im_payload = take 4 payload,
                      im_reply_token = 0, im_consumed = False\<rparr>
          in if dst \<ge> IPC_PORT_FIRST \<and> dst \<le> IPC_PORT_LAST then ipc_post dst msg s
             else case user_index dst of
               None \<Rightarrow> (- 1, s)
             | Some idx \<Rightarrow>
                 if \<not> port_admits procs idx src_pid s then (- 1, s)
                 else if q_count (ipc_user_queues s idx) \<ge> IPC_QUEUE_DEPTH then (- 2, count_dropped s)
                 else (0, count_posted (s\<lparr>ipc_user_queues := (ipc_user_queues s)(idx := q_put msg (ipc_user_queues s idx))\<rparr>)))"

definition ipc_user_recv :: "proc_entry list \<Rightarrow> nat option \<Rightarrow> nat \<Rightarrow> ipc_state \<Rightarrow> IPCMessage option \<times> ipc_state" where
  "ipc_user_recv procs req caller_pid s =
     (case req of
        None \<Rightarrow> (None, s)
      | Some port \<Rightarrow>
          (case user_index port of
             None \<Rightarrow> (None, s)
           | Some idx \<Rightarrow>
               if \<not> port_admits procs idx caller_pid s then (None, s)
               else if q_count (ipc_user_queues s idx) = 0 then (None, s)
               else (Some (q_first (ipc_user_queues s idx)),
                     count_dispatched (s\<lparr>ipc_user_queues := (ipc_user_queues s)(idx := q_drop (ipc_user_queues s idx))\<rparr>))))"

section \<open>The port queues are bounded queues\<close>

definition q_list :: "IPCQueue \<Rightarrow> IPCMessage list" where
  "q_list q = map (\<lambda>k. q_msgs q ((q_head q + k) mod IPC_QUEUE_DEPTH)) [0..<q_count q]"

definition q_wf :: "IPCQueue \<Rightarrow> bool" where
  "q_wf q \<longleftrightarrow> q_count q \<le> IPC_QUEUE_DEPTH \<and> q_head q < 2 ^ 32 \<and> q_tail q = u32 (q_head q + q_count q)"

lemma q_list_store:
  assumes wf: "q_wf q" and room: "q_count q < IPC_QUEUE_DEPTH"
  shows "q_list (q_store m q) = q_list q @ [m]"
proof -
  have tail: "q_tail q mod 8 = (q_head q + q_count q) mod 8"
    using wf by (simp add: q_wf_def)
  have "q_msgs (q_store m q) ((q_head q + k) mod 8) = q_msgs q ((q_head q + k) mod 8)" if "k < q_count q" for k
    using slot_new [OF that, of 8 "q_head q"] room by (simp add: q_store_def tail limits)
  moreover have "q_msgs (q_store m q) ((q_head q + q_count q) mod 8) = m"
    by (simp add: q_store_def tail limits)
  moreover have "q_count (q_store m q) = Suc (q_count q)" "q_head (q_store m q) = q_head q"
    using room by (simp_all add: q_store_def limits)
  ultimately show ?thesis
    by (simp add: q_list_def limits)
qed

lemma q_wf_store: "q_wf q \<Longrightarrow> q_count q < IPC_QUEUE_DEPTH \<Longrightarrow> q_wf (q_store m q)"
  using u32_add [of "q_head q + q_count q" 1] by (simp add: q_wf_def q_store_def limits)

lemma q_list_drop:
  assumes "0 < q_count q"
  shows "q_list (q_drop q) = tl (q_list q)"
proof -
  have slot: "(u32 (q_head q + 1) + k) mod 8 = (q_head q + Suc k) mod 8" for k
    by (metis u32_add u32_mod_8 add.assoc plus_1_eq_Suc)
  have "tl (q_list q) = map (\<lambda>k. q_msgs q ((q_head q + k) mod 8)) [1..<q_count q]"
    using assms by (simp add: q_list_def upt_conv_Cons limits)
  also have "\<dots> = map (\<lambda>k. q_msgs q ((q_head q + Suc k) mod 8)) [0..<q_count q - 1]"
    using assms by (intro nth_equalityI) simp_all
  also have "\<dots> = q_list (q_drop q)"
    using slot by (simp add: q_list_def q_drop_def limits)
  finally show ?thesis
    by simp
qed

lemma q_wf_drop: "q_wf q \<Longrightarrow> 0 < q_count q \<Longrightarrow> q_wf (q_drop q)"
  using u32_add [of "q_head q + 1" "q_count q - 1"]
  by (simp add: q_wf_def q_drop_def limits) (simp add: u32_def, arith)

lemma q_first_hd: "0 < q_count q \<Longrightarrow> q_first q = hd (q_list q)"
  by (simp add: q_first_def q_list_def upt_conv_Cons)

interpretation port: bounded_fifo q_list q_wf q_store q_first q_drop q_count IPC_QUEUE_DEPTH
  by unfold_locales
    (auto simp: q_list_store q_wf_store q_first_hd q_list_drop q_wf_drop, simp_all add: q_wf_def q_list_def)

end
