(* ===== verification/Ipc_Laws.thy ===== *)
theory Ipc_Laws
  imports Ipc
begin

text \<open>
  What the ports promise over any sequence of calls: every queue delivers what it accepted, in order, whatever is done on
  the others, and a bound user port is out of reach of other partitions, which cannot even tell what it holds.
\<close>

section \<open>Sequences of calls\<close>

datatype ipc_op =
    Post nat IPCMessage
  | Recv nat "64 word"
  | Bind "proc_entry list" nat nat
  | Send "proc_entry list" "(nat \<times> nat \<times> 64 word list) option" nat
  | URecv "proc_entry list" "nat option" nat

datatype ipc_out = Code int | Msg "IPCMessage option"

fun ipc_exec :: "ipc_op \<Rightarrow> ipc_state \<Rightarrow> ipc_out \<times> ipc_state" where
  "ipc_exec (Post port m) s = map_prod Code id (ipc_post port m s)"
| "ipc_exec (Recv port dt) s = map_prod Msg id (ipc_recv port dt s)"
| "ipc_exec (Bind procs port pid) s = map_prod Code id (ipc_user_bind procs port pid s)"
| "ipc_exec (Send procs req pid) s = map_prod Code id (ipc_user_send procs req pid s)"
| "ipc_exec (URecv procs req pid) s = map_prod Msg id (ipc_user_recv procs req pid s)"

fun ipc_run :: "ipc_op list \<Rightarrow> ipc_state \<Rightarrow> (ipc_op \<times> ipc_out) list \<times> ipc_state" where
  "ipc_run [] s = ([], s)"
| "ipc_run (op # ops) s = (let (r, s) = ipc_exec op s; (tr, s) = ipc_run ops s in ((op, r) # tr, s))"

datatype port_queue = Service nat | User nat

fun queue_of :: "port_queue \<Rightarrow> ipc_state \<Rightarrow> IPCQueue" where
  "queue_of (Service i) s = ipc_queues s i"
| "queue_of (User i) s = ipc_user_queues s i"

definition queue_at :: "nat \<Rightarrow> port_queue option" where
  "queue_at port = (case port_to_index port of Some i \<Rightarrow> Some (Service i) | None \<Rightarrow> map_option User (user_index port))"

text \<open>What a call put into a queue and took from it, read off the call and its result alone.\<close>

fun accepted :: "port_queue \<Rightarrow> ipc_op \<times> ipc_out \<Rightarrow> IPCMessage list" where
  "accepted k (Post port m, Code r) = (if r = 0 \<and> queue_at port = Some k then [m\<lparr>im_consumed := False\<rparr>] else [])"
| "accepted k (Send procs (Some (dst, opcode, payload)) pid, Code r) =
     (if r = 0 \<and> queue_at dst = Some k
      then [\<lparr>im_src_port = u16 pid, im_dst_port = dst, im_opcode = opcode, im_payload = take 4 payload,
             im_reply_token = 0, im_consumed = False\<rparr>] else [])"
| "accepted k _ = []"

fun delivered :: "port_queue \<Rightarrow> ipc_op \<times> ipc_out \<Rightarrow> IPCMessage list" where
  "delivered k (Recv port dt, Msg (Some m)) = (if queue_at port = Some k then [m] else [])"
| "delivered k (URecv procs (Some port) pid, Msg (Some m)) = (if queue_at port = Some k then [m] else [])"
| "delivered k _ = []"

lemmas ipc_ops = ipc_post_def ipc_recv_def ipc_user_bind_def ipc_user_send_def ipc_user_recv_def
lemmas ipc_counters = count_posted_def count_dropped_def count_dispatched_def

section \<open>Order\<close>

text \<open>One queue before and after a call: unchanged, longer at the back or shorter at the front.\<close>

definition moves :: "IPCQueue \<Rightarrow> IPCMessage list \<Rightarrow> IPCMessage list \<Rightarrow> IPCQueue \<Rightarrow> bool" where
  "moves q ins outs q' \<longleftrightarrow> q' = q \<and> ins = [] \<and> outs = [] \<or>
     (\<exists>m. q_count q < IPC_QUEUE_DEPTH \<and> q' = q_store m q \<and> ins = [m] \<and> outs = []) \<or>
     0 < q_count q \<and> q' = q_drop q \<and> ins = [] \<and> outs = [q_first q]"

lemma moves_stay: "moves q [] [] q"
  by (simp add: moves_def)

lemma moves_in: "q_count q < IPC_QUEUE_DEPTH \<Longrightarrow> moves q [m] [] (q_store m q)"
  by (simp add: moves_def)

lemma moves_out: "0 < q_count q \<Longrightarrow> moves q [] [q_first q] (q_drop q)"
  by (simp add: moves_def)

lemmas moves_intros = moves_stay moves_in moves_out

lemma moves_fifo:
  assumes "moves q ins outs q'" and wf: "q_wf q"
  shows "q_wf q' \<and> q_list q @ ins = outs @ q_list q'"
proof -
  have "q_list q = q_first q # q_list (q_drop q)" if "0 < q_count q"
    using that port.depth_contents [OF wf] by (cases "q_list q") (simp_all add: q_first_hd q_list_drop)
  with assms show ?thesis
    unfolding moves_def by (auto simp: port.contents_enq port.wf_enq port.wf_deq)
qed

lemma ports_disjoint: "port_to_index port = Some i \<Longrightarrow> user_index port = None"
  by (auto simp: port_to_index_def user_index_def limits split: if_splits)

lemma service_port: "IPC_PORT_FIRST \<le> port \<and> port \<le> IPC_PORT_LAST \<longleftrightarrow> port_to_index port \<noteq> None"
  by (auto simp: port_to_index_def)

lemma queue_at_service: "port_to_index port = Some i \<Longrightarrow> queue_at port = Some (Service i)"
  by (simp add: queue_at_def)

lemma queue_at_user: "user_index port = Some i \<Longrightarrow> queue_at port = Some (User i)"
  using ports_disjoint by (fastforce simp: queue_at_def split: option.splits)

lemmas queue_at = queue_at_service queue_at_user

lemma exec_moves:
  assumes "ipc_exec op s = (r, s')"
  shows "moves (queue_of k s) (accepted k (op, r)) (delivered k (op, r)) (queue_of k s')"
proof (cases op)
  case (Post port m)
  with assms show ?thesis
    by (cases k) (auto simp: moves_intros ipc_post_def queue_at q_put_def ipc_counters split: option.splits if_splits)
next
  case (Recv port dt)
  with assms show ?thesis
    by (cases k) (auto simp: moves_intros ipc_recv_def queue_at ipc_counters Let_def split: option.splits if_splits)
next
  case (Bind procs port pid)
  with assms show ?thesis
    by (cases k) (auto simp: moves_intros ipc_user_bind_def split: option.splits if_splits)
next
  case (Send procs req pid)
  with assms show ?thesis
    by (cases k)
      (auto simp: moves_intros ipc_user_send_def ipc_post_def service_port queue_at q_put_def ipc_counters Let_def
        split: option.splits if_splits)
next
  case (URecv procs req pid)
  with assms show ?thesis
    by (cases k)
      (auto simp: moves_intros ipc_user_recv_def queue_at ipc_counters split: option.splits if_splits)
qed

lemma run_fifo:
  assumes "ipc_run ops s = (tr, s')" and "q_wf (queue_of k s)"
  shows "q_wf (queue_of k s') \<and>
    q_list (queue_of k s) @ concat (map (accepted k) tr) = concat (map (delivered k) tr) @ q_list (queue_of k s')"
  using assms
proof (induction ops arbitrary: s tr)
  case (Cons op ops)
  obtain r s1 where e: "ipc_exec op s = (r, s1)"
    by fastforce
  obtain tr1 where t: "ipc_run ops s1 = (tr1, s')" and tr: "tr = (op, r) # tr1"
    using Cons.prems(1) e by (auto split: prod.splits)
  note one = moves_fifo [OF exec_moves [OF e, of k] Cons.prems(2)]
  then have step: "q_list (queue_of k s) @ accepted k (op, r) @ x = delivered k (op, r) @ q_list (queue_of k s1) @ x" for x
    by (metis append_assoc)
  from Cons.IH [OF t] one show ?case
    by (simp add: tr step)
qed simp

section \<open>Partitions\<close>

text \<open>A call made by a process that neither owns the port nor lives in its partition.\<close>

fun foreign :: "nat \<Rightarrow> nat \<Rightarrow> ipc_op \<Rightarrow> bool" where
  "foreign owner part (Bind procs port pid) \<longleftrightarrow> pid \<noteq> owner \<and> pid_to_partition procs pid \<noteq> part"
| "foreign owner part (Send procs req pid) \<longleftrightarrow> pid \<noteq> owner \<and> pid_to_partition procs pid \<noteq> part"
| "foreign owner part (URecv procs req pid) \<longleftrightarrow> pid \<noteq> owner \<and> pid_to_partition procs pid \<noteq> part"
| "foreign owner part _ \<longleftrightarrow> True"

definition with_queue :: "nat \<Rightarrow> IPCQueue \<Rightarrow> ipc_state \<Rightarrow> ipc_state" where
  "with_queue i q s = s\<lparr>ipc_user_queues := (ipc_user_queues s)(i := q)\<rparr>"

definition bound_to :: "nat \<Rightarrow> nat \<Rightarrow> nat \<Rightarrow> ipc_state \<Rightarrow> bool" where
  "bound_to i owner part s \<longleftrightarrow> owner \<noteq> 0 \<and> ipc_user_port_pid s i = owner \<and> ipc_user_port_partition s i = part"

lemma with_queue_same: "with_queue i (ipc_user_queues s i) s = s"
  by (simp add: with_queue_def)

lemma post_with_queue: "ipc_post port m (with_queue i q s) = map_prod id (with_queue i q) (ipc_post port m s)"
  by (simp add: ipc_post_def with_queue_def ipc_counters split: option.split)

lemma post_bound: "bound_to i owner part (snd (ipc_post port m s)) \<longleftrightarrow> bound_to i owner part s"
  by (simp add: ipc_post_def bound_to_def ipc_counters split: option.split)

lemma store_with_queue:
  "j \<noteq> i \<Longrightarrow> (with_queue i q s)\<lparr>ipc_user_queues := (ipc_user_queues (with_queue i q s))(j := x)\<rparr> =
     with_queue i q (s\<lparr>ipc_user_queues := (ipc_user_queues s)(j := x)\<rparr>)"
  by (simp add: with_queue_def fun_upd_twist)

lemma with_queue_frame [simp]:
  "port_admits procs j pid (with_queue i q s) = port_admits procs j pid s"
  "count_posted (with_queue i q s) = with_queue i q (count_posted s)"
  "count_dropped (with_queue i q s) = with_queue i q (count_dropped s)"
  "count_dispatched (with_queue i q s) = with_queue i q (count_dispatched s)"
  "j \<noteq> i \<Longrightarrow> ipc_user_queues (with_queue i q s) j = ipc_user_queues s j"
  by (simp_all add: with_queue_def port_admits_def ipc_counters)

lemma bound_frame [simp]:
  "bound_to i owner part (count_posted s) = bound_to i owner part s"
  "bound_to i owner part (count_dropped s) = bound_to i owner part s"
  "bound_to i owner part (count_dispatched s) = bound_to i owner part s"
  "bound_to i owner part (s\<lparr>ipc_user_queues := x\<rparr>) = bound_to i owner part s"
  by (simp_all add: bound_to_def ipc_counters)

lemma send_foreign:
  assumes "bound_to i owner part s" and "\<not> port_admits procs i pid s"
  shows "bound_to i owner part (snd (ipc_user_send procs req pid s)) \<and>
    ipc_user_send procs req pid (with_queue i q s) = map_prod id (with_queue i q) (ipc_user_send procs req pid s)"
proof -
  have "j \<noteq> i" if "port_admits procs j pid s" for j
    using that assms by auto
  with assms show ?thesis
    by (auto simp: ipc_user_send_def Let_def post_with_queue post_bound store_with_queue split: option.split)
qed

lemma recv_foreign:
  assumes "bound_to i owner part s" and "\<not> port_admits procs i pid s"
  shows "bound_to i owner part (snd (ipc_user_recv procs req pid s)) \<and>
    ipc_user_recv procs req pid (with_queue i q s) = map_prod id (with_queue i q) (ipc_user_recv procs req pid s)"
proof -
  have "j \<noteq> i" if "port_admits procs j pid s" for j
    using that assms by auto
  with assms show ?thesis
    by (auto simp: ipc_user_recv_def store_with_queue split: option.split)
qed

lemma exec_foreign:
  assumes "bound_to i owner part s" and "foreign owner part op" and "ipc_exec op s = (r, s')"
  shows "bound_to i owner part s' \<and> ipc_exec op (with_queue i q s) = (r, with_queue i q s')"
proof (cases op)
  case (Post port m)
  with assms post_bound [of i owner part port m s] show ?thesis
    by (cases "ipc_post port m s") (simp add: post_with_queue)
next
  case (Recv port dt)
  with assms show ?thesis
    by (auto simp: bound_to_def with_queue_def ipc_recv_def ipc_counters Let_def split: option.splits if_splits)
next
  case (Bind procs port pid)
  with assms show ?thesis
    by (auto simp: bound_to_def with_queue_def ipc_user_bind_def split: option.splits if_splits)
next
  case (Send procs req pid)
  then have "\<not> port_admits procs i pid s"
    using assms by (simp add: bound_to_def port_admits_def)
  with assms Send send_foreign [of i owner part s procs pid req q] show ?thesis
    by (cases "ipc_user_send procs req pid s") simp
next
  case (URecv procs req pid)
  then have "\<not> port_admits procs i pid s"
    using assms by (simp add: bound_to_def port_admits_def)
  with assms URecv recv_foreign [of i owner part s procs pid req q] show ?thesis
    by (cases "ipc_user_recv procs req pid s") simp
qed

lemma run_foreign:
  assumes "bound_to i owner part s" and "list_all (foreign owner part) ops" and "ipc_run ops s = (tr, s')"
  shows "bound_to i owner part s' \<and> ipc_run ops (with_queue i q s) = (tr, with_queue i q s')"
  using assms
proof (induction ops arbitrary: s tr)
  case (Cons op ops)
  obtain r s1 where e: "ipc_exec op s = (r, s1)"
    by fastforce
  obtain tr1 where t: "ipc_run ops s1 = (tr1, s')" and tr: "tr = (op, r) # tr1"
    using Cons.prems(3) e by (auto split: prod.splits)
  have "foreign owner part op" "list_all (foreign owner part) ops"
    using Cons.prems(2) by simp_all
  with exec_foreign [OF Cons.prems(1) _ e, of q] Cons.IH [OF _ _ t] show ?case
    by (simp add: tr)
qed simp

section \<open>Sample states\<close>

definition idle_queue :: IPCQueue where
  "idle_queue = \<lparr>q_msgs = (\<lambda>_. \<lparr>im_src_port = 0, im_dst_port = 0, im_opcode = 0, im_payload = [], im_reply_token = 0,
     im_consumed = False\<rparr>), q_head = 0, q_tail = 0, q_count = 0\<rparr>"

definition ipc_boot :: ipc_state where
  "ipc_boot = \<lparr>ipc_queues = (\<lambda>_. idle_queue), ipc_stats = \<lparr>total_posted = 0, total_dispatched = 0, total_dropped = 0,
     avg_latency_ns = 0\<rparr>, ipc_user_queues = (\<lambda>_. idle_queue), ipc_user_port_pid = (\<lambda>_. 0), ipc_user_port_partition = (\<lambda>_. 0)\<rparr>"

definition two_procs :: "proc_entry list" where
  "two_procs = [\<lparr>pr_active = True, pr_pid = 5, pr_partition = 1\<rparr>, \<lparr>pr_active = True, pr_pid = 6, pr_partition = 2\<rparr>]"

text \<open>Process 5 of partition 1 owns port 0x2003, and has sent itself a message.\<close>

definition owned_port :: ipc_state where
  "owned_port = snd (ipc_run [Bind two_procs 0x2003 5, Send two_procs (Some (0x2003, 7, [1, 2, 3, 4])) 5] ipc_boot)"

text \<open>Process 6 of partition 2 tries to send to that port, to read it and to take it over.\<close>

definition intruder :: "ipc_op list" where
  "intruder = [Send two_procs (Some (0x2003, 9, [])) 6, URecv two_procs (Some 0x2003) 6, Bind two_procs 0x2003 6]"

lemmas ipc_samples = owned_port_def two_procs_def intruder_def ipc_boot_def idle_queue_def

lemma owned_port_bound: "bound_to 3 5 1 owned_port"
  by (simp add: bound_to_def ipc_samples ipc_ops ipc_counters user_index_def pid_to_partition_def port_admits_def Let_def limits)

lemma owned_port_queue: "q_wf (ipc_user_queues owned_port 3)" "q_count (ipc_user_queues owned_port 3) = 1"
  by (simp_all add: q_wf_def ipc_samples ipc_ops ipc_counters user_index_def pid_to_partition_def port_admits_def Let_def limits
      q_put_def q_store_def)

lemma intruder_foreign: "list_all (foreign 5 1) intruder"
  by (simp add: ipc_samples pid_to_partition_def)

section \<open>Laws\<close>

text \<open>
  C36. Over any sequence of posts, receives, binds and user sends and receives, on any ports and by any processes, each
  port queue stays well-formed and is a first-in first-out queue of at most eight messages: what it held followed by
  what it accepted is what it delivered followed by what it holds.
\<close>

theorem ipc_fifo:
  assumes "ipc_run ops s = (tr, s')" and "q_wf (queue_of k s)"
  shows "q_wf (queue_of k s') \<and> length (q_list (queue_of k s')) \<le> IPC_QUEUE_DEPTH \<and>
    q_list (queue_of k s) @ concat (map (accepted k) tr) = concat (map (delivered k) tr) @ q_list (queue_of k s')"
  using run_fifo [OF assms] port.bounded port.depth_contents by metis

theorem ipc_fifo_witness:
  "q_wf (queue_of (User 3) (snd (ipc_run [URecv two_procs (Some 0x2003) 5] owned_port))) \<and>
   q_list (queue_of (User 3) owned_port) =
     concat (map (delivered (User 3)) (fst (ipc_run [URecv two_procs (Some 0x2003) 5] owned_port))) @
     q_list (queue_of (User 3) (snd (ipc_run [URecv two_procs (Some 0x2003) 5] owned_port)))"
  using ipc_fifo [of "[URecv two_procs (Some 0x2003) 5]" owned_port "fst (ipc_run [URecv two_procs (Some 0x2003) 5] owned_port)"
      "snd (ipc_run [URecv two_procs (Some 0x2003) 5] owned_port)" "User 3"] owned_port_queue(1)
  by (simp split: prod.splits)

text \<open>
  C35. A bound user port is isolated from the other partitions: over any sequence of calls by processes outside the
  partition of its owner, its owner, its partition and its messages stay as they are, and every result of those calls is
  the same whatever the port's queue holds.
\<close>

theorem ipc_isolated:
  assumes "bound_to i owner part s" and "list_all (foreign owner part) ops"
  shows "bound_to i owner part (snd (ipc_run ops s)) \<and>
    ipc_user_queues (snd (ipc_run ops s)) i = ipc_user_queues s i \<and>
    fst (ipc_run ops (with_queue i q s)) = fst (ipc_run ops s)"
proof -
  obtain tr s' where r: "ipc_run ops s = (tr, s')"
    by fastforce
  have "s' = with_queue i (ipc_user_queues s i) s'"
    using run_foreign [OF assms r, of "ipc_user_queues s i"] r by (simp add: with_queue_same)
  then have "ipc_user_queues s' i = ipc_user_queues s i"
    by (metis (no_types, lifting) fun_upd_same ipc_state.select_convs(3) ipc_state.surjective ipc_state.update_convs(3) with_queue_def)
  with run_foreign [OF assms r, of q] r show ?thesis
    by simp
qed

theorem ipc_isolated_witness:
  "ipc_user_queues (snd (ipc_run intruder owned_port)) 3 = ipc_user_queues owned_port 3 \<and>
   q_count (ipc_user_queues owned_port 3) = 1 \<and>
   fst (ipc_run intruder (with_queue 3 idle_queue owned_port)) = fst (ipc_run intruder owned_port)"
  using ipc_isolated [OF owned_port_bound intruder_foreign, of idle_queue] owned_port_queue(2) by simp

end
