(* ===== verification/Crc32.thy ===== *)
theory Crc32
  imports Cap_Sidecar
begin

text \<open>
  The table-driven CRC-32 of the write-ahead log (\<^verbatim>\<open>src/kernel/transaction.c\<close>). It agrees with the bitwise CRC-32 of the sidecar
  manifests (\<^verbatim>\<open>src/kernel/cap.c\<close>), and it tells apart any two messages that differ in one byte. The table is taken as
  \<^verbatim>\<open>init_crc32\<close> fills it, which happens before its first use.
\<close>

unbundle bit_operations_syntax

section \<open>Model\<close>

definition crc32_shift :: "32 word \<Rightarrow> 32 word" where
  "crc32_shift c = (if c AND 1 \<noteq> 0 then 0xEDB88320 XOR drop_bit 1 c else drop_bit 1 c)"

definition init_crc32 :: "nat \<Rightarrow> 32 word" where
  "init_crc32 i = (crc32_shift ^^ 8) (of_nat i)"

definition crc32_compute :: "8 word list \<Rightarrow> 32 word" where
  "crc32_compute data =
     fold (\<lambda>b crc. init_crc32 (unat ((crc XOR ucast b) AND 0xFF)) XOR drop_bit 8 crc) data 0xFFFFFFFF XOR 0xFFFFFFFF"

section \<open>Table and bits\<close>

lemma and_one_iff: "c AND 1 = 1 \<longleftrightarrow> bit c 0" "c AND 1 \<noteq> 0 \<longleftrightarrow> bit c 0" for c :: "32 word"
  by (simp_all add: and_one_eq odd_iff_mod_2_eq_one bit_0 even_iff_mod_2_eq_zero)

lemma crc_shift_bit: "crc32_shift = crc_bit"
  by (rule ext) (simp add: crc32_shift_def crc_bit_def and_one_iff xor.commute)

lemma crc_bit_xor: "crc_bit (a XOR b) = crc_bit a XOR crc_bit b"
  by (auto simp: crc_bit_def and_one_iff bit_xor_iff drop_bit_xor xor.assoc xor.left_commute)

lemma crc_bits_xor: "(crc_bit ^^ n) (a XOR b) = (crc_bit ^^ n) a XOR (crc_bit ^^ n) b"
  by (induction n) (simp_all add: crc_bit_xor)

lemma crc_bit_even: "\<not> bit c 0 \<Longrightarrow> crc_bit c = drop_bit 1 c"
  by (simp add: crc_bit_def and_one_iff)

lemma crc_bits_drop: "(\<And>i. i < n \<Longrightarrow> \<not> bit c i) \<Longrightarrow> (crc_bit ^^ n) c = drop_bit n c"
  by (induction n) (simp_all add: crc_bit_even bit_drop_bit_eq)

lemma low_byte: "c AND 0xFF = take_bit 8 c" for c :: "32 word"
  by (simp add: take_bit_eq_mask mask_eq_exp_minus_1)

lemma split_byte: "c = take_bit 8 c XOR push_bit 8 (drop_bit 8 c)" for c :: "32 word"
  by (rule bit_eqI) (auto simp: bit_simps)

lemma table_step: "init_crc32 (unat (c AND 0xFF)) XOR drop_bit 8 c = (crc_bit ^^ 8) c"
proof -
  let ?high = "push_bit 8 (drop_bit 8 c)"
  have "\<not> bit ?high i" if "i < 8" for i
    using that by (simp add: bit_push_bit_iff)
  then have "(crc_bit ^^ 8) ?high = drop_bit 8 ?high"
    by (rule crc_bits_drop)
  also have "\<dots> = drop_bit 8 c"
    by (rule bit_eqI) (auto simp: bit_simps dest: bit_imp_le_length)
  finally have "(crc_bit ^^ 8) (take_bit 8 c XOR ?high) = (crc_bit ^^ 8) (take_bit 8 c) XOR drop_bit 8 c"
    by (simp only: crc_bits_xor)
  then show ?thesis
    unfolding split_byte [symmetric] by (simp add: init_crc32_def crc_shift_bit low_byte)
qed

lemma ucast_low: "bit (ucast b :: 32 word) i \<Longrightarrow> i < 8" for b :: "8 word"
  by (auto simp: bit_ucast_iff dest: bit_imp_le_length)

lemma drop_byte: "drop_bit 8 (c XOR ucast b) = drop_bit 8 c" for b :: "8 word" and c :: "32 word"
  by (rule bit_eqI) (auto simp: bit_drop_bit_eq bit_xor_iff dest: ucast_low)

text \<open>The two CRC-32 routines of the kernel compute the same function.\<close>

lemma crc32_equiv: "crc32_compute data = cap_sidecar_crc32 data"
proof -
  have "(\<lambda>b crc. init_crc32 (unat ((crc XOR ucast b) AND 0xFF)) XOR drop_bit 8 crc) = crc_byte"
    by (intro ext) (metis table_step drop_byte crc_byte_def)
  then show ?thesis
    by (simp add: crc32_compute_def cap_sidecar_crc32_def)
qed

section \<open>One byte\<close>

lemma xor_inj: "a XOR c = b XOR c \<longleftrightarrow> a = b" for a :: "'a::len word"
  by (metis xor.assoc xor_self_eq xor.right_neutral)

lemma crc_bit_inj: "crc_bit a = crc_bit b \<Longrightarrow> a = b"
proof (rule bit_eqI)
  fix n
  assume eq: "crc_bit a = crc_bit b"
  have top: "bit (crc_bit c) 31 \<longleftrightarrow> bit c 0" for c
    by (simp add: crc_bit_def and_one_iff bit_xor_iff bit_and_iff bit_drop_bit_eq) (auto dest: bit_imp_le_length)
  have "drop_bit 1 a = drop_bit 1 b"
    using eq top [of a] top [of b] by (simp add: crc_bit_def and_one_iff xor_inj split: if_splits)
  then show "bit a n \<longleftrightarrow> bit b n"
    using eq top [of a] top [of b] by (cases n) (simp, metis bit_drop_bit_eq plus_1_eq_Suc comp_apply)
qed

lemma crc_bits_inj: "(crc_bit ^^ n) a = (crc_bit ^^ n) b \<Longrightarrow> a = b"
  by (induction n) (auto dest: crc_bit_inj)

lemma crc_byte_inj: "crc_byte d a = crc_byte d b \<Longrightarrow> a = b"
  unfolding crc_byte_def using crc_bits_inj xor_inj by blast

lemma ucast_byte_inj: "ucast d = (ucast d' :: 32 word) \<Longrightarrow> d = d'" for d d' :: "8 word"
proof (rule bit_eqI)
  fix n
  assume eq: "ucast d = (ucast d' :: 32 word)" and "possible_bit TYPE(8 word) n"
  then have "n < 8"
    by simp
  with arg_cong [OF eq, of "\<lambda>w. bit w n"] show "bit d n \<longleftrightarrow> bit d' n"
    by (simp add: bit_ucast_iff)
qed

lemma crc_byte_data_inj: "crc_byte d c = crc_byte d' c \<Longrightarrow> d = d'"
  unfolding crc_byte_def using crc_bits_inj xor_inj xor.commute ucast_byte_inj by metis

lemma fold_crc_inj: "fold crc_byte data a = fold crc_byte data b \<Longrightarrow> a = b"
  by (induction data arbitrary: a b) (auto dest: crc_byte_inj)

lemma crc32_one_byte: "crc32_compute (xs @ d # ys) = crc32_compute (xs @ d' # ys) \<longleftrightarrow> d = d'"
proof
  assume "crc32_compute (xs @ d # ys) = crc32_compute (xs @ d' # ys)"
  then have "fold crc_byte ys (crc_byte d (fold crc_byte xs 0xFFFFFFFF)) = fold crc_byte ys (crc_byte d' (fold crc_byte xs 0xFFFFFFFF))"
    by (simp only: crc32_equiv cap_sidecar_crc32_def xor_inj fold_append fold_simps o_apply)
  then show "d = d'"
    using fold_crc_inj crc_byte_data_inj by blast
qed simp

end
