(* ===== verification/Lock_Mgr.thy ===== *)
theory Lock_Mgr
  imports Cap_Prelude
begin

text \<open>
  The row lock manager (\<^verbatim>\<open>src/kernel/lock_mgr.c\<close>): a table of locks on (object, key), acquired without waiting and
  released by transaction. Keys are strings; the copy stored in an entry is cut at
  \<^verbatim>\<open>RECORD_KEY_LEN - 1\<close> characters.
\<close>

section \<open>Model\<close>

definition LOCK_MAX_ENTRIES :: nat where [limits]: "LOCK_MAX_ENTRIES = 128"
definition RECORD_KEY_LEN :: nat where [limits]: "RECORD_KEY_LEN = 64"

datatype LockType = LOCK_SHARED | LOCK_EXCLUSIVE

record LockEntry =
  le_tx_id :: nat
  le_object_id :: nat
  le_key :: string
  le_type :: LockType
  le_active :: bool

record lock_state =
  lock_table :: "nat \<Rightarrow> LockEntry"
  lock_entry_count :: nat

definition lk_copy :: "string \<Rightarrow> nat \<Rightarrow> string" where
  "lk_copy src n = take (n - 1) src"

fun lk_eq :: "string \<Rightarrow> string \<Rightarrow> bool" where
  "lk_eq (a # as) (b # bs) = (if a \<noteq> b then False else lk_eq as bs)"
| "lk_eq [] [] = True"
| "lk_eq _ _ = False"

definition lock_mgr_init :: "lock_state \<Rightarrow> lock_state" where
  "lock_mgr_init s = s\<lparr>lock_table := (\<lambda>i. if i < LOCK_MAX_ENTRIES then (lock_table s i)\<lparr>le_active := False\<rparr> else lock_table s i),
     lock_entry_count := 0\<rparr>"

datatype lock_result = LOCK_OK | LOCK_CONFLICT | LOCK_TABLE_FULL

text \<open>
  The scan for conflicts over the entries from index \<open>i\<close> on: it stops at the first entry of the same key that is another
  transaction's exclusive lock or the transaction's own lock. None is a scan that stopped at neither.
\<close>

function lock_scan :: "nat \<Rightarrow> nat \<Rightarrow> nat \<Rightarrow> string \<Rightarrow> LockType \<Rightarrow> lock_state \<Rightarrow> (lock_result \<times> lock_state) option" where
  "lock_scan i tx oid key ty s =
     (if i \<ge> LOCK_MAX_ENTRIES then None
      else let x = lock_table s i
      in if \<not> le_active x then lock_scan (i + 1) tx oid key ty s
         else if le_object_id x \<noteq> oid then lock_scan (i + 1) tx oid key ty s
         else if \<not> lk_eq (le_key x) key then lock_scan (i + 1) tx oid key ty s
         else if le_tx_id x \<noteq> tx \<and> le_type x = LOCK_EXCLUSIVE then Some (LOCK_CONFLICT, s)
         else if le_tx_id x = tx
         then Some (LOCK_OK, if ty = LOCK_EXCLUSIVE
                             then s\<lparr>lock_table := (lock_table s)(i := x\<lparr>le_type := LOCK_EXCLUSIVE\<rparr>)\<rparr> else s)
         else lock_scan (i + 1) tx oid key ty s)"
  by auto
termination
  by (relation "measure (\<lambda>(i, _). LOCK_MAX_ENTRIES - i)") auto

declare lock_scan.simps [simp del]

definition lock_acquire :: "nat \<Rightarrow> nat \<Rightarrow> string \<Rightarrow> LockType \<Rightarrow> lock_state \<Rightarrow> lock_result \<times> lock_state" where
  "lock_acquire tx oid key ty s =
     (case lock_scan 0 tx oid key ty s of
        Some r \<Rightarrow> r
      | None \<Rightarrow>
          (case List.find (\<lambda>i. \<not> le_active (lock_table s i)) [0..<LOCK_MAX_ENTRIES] of
             Some i \<Rightarrow>
               (LOCK_OK, s\<lparr>lock_table := (lock_table s)(i := \<lparr>le_tx_id = tx, le_object_id = oid, le_key = lk_copy key RECORD_KEY_LEN,
                             le_type = ty, le_active = True\<rparr>),
                          lock_entry_count := u32 (lock_entry_count s + 1)\<rparr>)
           | None \<Rightarrow> (LOCK_TABLE_FULL, s)))"

definition lock_release_tx :: "nat \<Rightarrow> lock_state \<Rightarrow> lock_state" where
  "lock_release_tx tx s =
     s\<lparr>lock_table := (\<lambda>i. if i < LOCK_MAX_ENTRIES \<and> le_active (lock_table s i) \<and> le_tx_id (lock_table s i) = tx
        then (lock_table s i)\<lparr>le_active := False\<rparr> else lock_table s i)\<rparr>"

definition lock_matches :: "nat \<Rightarrow> nat \<Rightarrow> string \<Rightarrow> LockEntry \<Rightarrow> bool" where
  "lock_matches tx oid key x \<longleftrightarrow> le_active x \<and> le_tx_id x = tx \<and> le_object_id x = oid \<and> lk_eq (le_key x) key"

definition lock_owned :: "nat \<Rightarrow> nat \<Rightarrow> string \<Rightarrow> lock_state \<Rightarrow> bool" where
  "lock_owned tx oid key s \<longleftrightarrow> list_ex (\<lambda>i. lock_matches tx oid key (lock_table s i)) [0..<LOCK_MAX_ENTRIES]"

section \<open>Exclusive locks\<close>

lemma lk_eq_eq [simp]: "lk_eq a b \<longleftrightarrow> a = b"
  by (induction a b rule: lk_eq.induct) auto

text \<open>The table when every lock was requested exclusively, as the callers do: no two entries for one key.\<close>

definition lock_inv :: "lock_state \<Rightarrow> bool" where
  "lock_inv s \<longleftrightarrow>
     (\<forall>i < LOCK_MAX_ENTRIES. le_active (lock_table s i) \<longrightarrow> le_type (lock_table s i) = LOCK_EXCLUSIVE) \<and>
     (\<forall>i < LOCK_MAX_ENTRIES. \<forall>j < LOCK_MAX_ENTRIES. le_active (lock_table s i) \<and> le_active (lock_table s j) \<and>
        le_object_id (lock_table s i) = le_object_id (lock_table s j) \<and> le_key (lock_table s i) = le_key (lock_table s j) \<longrightarrow> i = j)"

definition lock_on :: "nat \<Rightarrow> string \<Rightarrow> LockEntry \<Rightarrow> bool" where
  "lock_on oid key x \<longleftrightarrow> le_active x \<and> le_object_id x = oid \<and> le_key x = key"

lemma owned_iff: "lock_owned tx oid key s \<longleftrightarrow> (\<exists>i < LOCK_MAX_ENTRIES. lock_on oid key (lock_table s i) \<and> le_tx_id (lock_table s i) = tx)"
  by (auto simp: lock_owned_def lock_matches_def lock_on_def list_ex_iff)

lemma lock_scan_next:
  "i < LOCK_MAX_ENTRIES \<Longrightarrow> \<not> lock_on oid key (lock_table s i) \<Longrightarrow> lock_scan i tx oid key ty s = lock_scan (Suc i) tx oid key ty s"
  by (subst lock_scan.simps) (auto simp: Let_def lock_on_def)

lemma lock_scan_from:
  assumes "i \<le> n" and "n \<le> LOCK_MAX_ENTRIES" and "\<And>j. i \<le> j \<Longrightarrow> j < n \<Longrightarrow> \<not> lock_on oid key (lock_table s j)"
  shows "lock_scan i tx oid key ty s = lock_scan n tx oid key ty s"
  using assms by (induction rule: inc_induct) (auto simp: lock_scan_next)

lemma lock_scan_skip:
  "(\<And>j. j < LOCK_MAX_ENTRIES \<Longrightarrow> \<not> lock_on oid key (lock_table s j)) \<Longrightarrow> lock_scan 0 tx oid key ty s = None"
  using lock_scan_from [of 0 LOCK_MAX_ENTRIES oid key s tx ty] lock_scan.simps [of LOCK_MAX_ENTRIES] by simp

lemma lock_scan_hit:
  assumes "n < LOCK_MAX_ENTRIES" and "\<And>j. j < n \<Longrightarrow> \<not> lock_on oid key (lock_table s j)"
    and "lock_on oid key (lock_table s n)" and ex: "le_type (lock_table s n) = LOCK_EXCLUSIVE"
  shows "lock_scan 0 tx oid key LOCK_EXCLUSIVE s = Some (if le_tx_id (lock_table s n) = tx then LOCK_OK else LOCK_CONFLICT, s)"
proof -
  have "(lock_table s n)\<lparr>le_type := LOCK_EXCLUSIVE\<rparr> = lock_table s n"
    using ex by (cases "lock_table s n") simp
  then have "s\<lparr>lock_table := (lock_table s)(n := (lock_table s n)\<lparr>le_type := LOCK_EXCLUSIVE\<rparr>)\<rparr> = s"
    by simp
  then have "lock_scan n tx oid key LOCK_EXCLUSIVE s = Some (if le_tx_id (lock_table s n) = tx then LOCK_OK else LOCK_CONFLICT, s)"
    using assms by (subst lock_scan.simps) (simp add: Let_def lock_on_def)
  then show ?thesis
    using lock_scan_from [of 0 n oid key s tx LOCK_EXCLUSIVE] assms(1,2) by simp
qed

lemma acquire_exclusive:
  assumes inv: "lock_inv s" and key: "length key < RECORD_KEY_LEN"
  shows "if \<exists>t. t \<noteq> tx \<and> lock_owned t oid key s then lock_acquire tx oid key LOCK_EXCLUSIVE s = (LOCK_CONFLICT, s)
    else if lock_owned tx oid key s then lock_acquire tx oid key LOCK_EXCLUSIVE s = (LOCK_OK, s)
    else if \<forall>i < LOCK_MAX_ENTRIES. le_active (lock_table s i) then lock_acquire tx oid key LOCK_EXCLUSIVE s = (LOCK_TABLE_FULL, s)
    else \<exists>i < LOCK_MAX_ENTRIES. \<not> le_active (lock_table s i) \<and> lock_acquire tx oid key LOCK_EXCLUSIVE s =
      (LOCK_OK, s\<lparr>lock_table := (lock_table s)(i := \<lparr>le_tx_id = tx, le_object_id = oid, le_key = key, le_type = LOCK_EXCLUSIVE, le_active = True\<rparr>),
        lock_entry_count := u32 (lock_entry_count s + 1)\<rparr>)"
proof (cases "\<exists>n < LOCK_MAX_ENTRIES. lock_on oid key (lock_table s n)")
  case True
  then obtain n where n: "n < LOCK_MAX_ENTRIES" "lock_on oid key (lock_table s n)"
    by blast
  have uniq: "j = n" if "j < LOCK_MAX_ENTRIES" "lock_on oid key (lock_table s j)" for j
    using inv n that by (auto simp: lock_inv_def lock_on_def)
  have "le_type (lock_table s n) = LOCK_EXCLUSIVE"
    using inv n by (auto simp: lock_inv_def lock_on_def)
  then have "lock_scan 0 tx oid key LOCK_EXCLUSIVE s = Some (if le_tx_id (lock_table s n) = tx then LOCK_OK else LOCK_CONFLICT, s)"
    using lock_scan_hit [OF n(1) _ n(2)] uniq less_trans [OF _ n(1)] by (metis less_irrefl)
  moreover have "lock_owned t oid key s \<longleftrightarrow> t = le_tx_id (lock_table s n)" for t
    unfolding owned_iff using n uniq by metis
  ultimately show ?thesis
    by (auto simp: lock_acquire_def)
next
  case False
  then have none: "lock_scan 0 tx oid key LOCK_EXCLUSIVE s = None" "\<not> lock_owned t oid key s" for t
    by (auto simp: owned_iff intro: lock_scan_skip)
  have k: "lk_copy key RECORD_KEY_LEN = key"
    using key by (simp add: lk_copy_def)
  show ?thesis
  proof (cases "List.find (\<lambda>i. \<not> le_active (lock_table s i)) [0..<LOCK_MAX_ENTRIES]")
    case None
    then have "\<forall>i < LOCK_MAX_ENTRIES. le_active (lock_table s i)"
      by (auto simp: find_None_iff)
    then show ?thesis
      using none None by (simp add: lock_acquire_def)
  next
    case (Some i)
    then have "i < LOCK_MAX_ENTRIES" "\<not> le_active (lock_table s i)"
      by (simp_all add: find_upt_Some)
    then show ?thesis
      using none Some by (auto simp: lock_acquire_def k)
  qed
qed

lemma acquire_inv:
  assumes inv: "lock_inv s" and key: "length key < RECORD_KEY_LEN"
  shows "lock_inv (snd (lock_acquire tx oid key LOCK_EXCLUSIVE s))"
proof (cases "snd (lock_acquire tx oid key LOCK_EXCLUSIVE s) = s")
  case False
  then have none: "\<not> lock_owned t oid key s" for t
    using acquire_exclusive [OF assms, of tx oid] by (cases "t = tx") (auto split: if_splits)
  obtain i where i: "i < LOCK_MAX_ENTRIES" "\<not> le_active (lock_table s i)" and
    s': "snd (lock_acquire tx oid key LOCK_EXCLUSIVE s) = s\<lparr>lock_table := (lock_table s)(i :=
        \<lparr>le_tx_id = tx, le_object_id = oid, le_key = key, le_type = LOCK_EXCLUSIVE, le_active = True\<rparr>),
        lock_entry_count := u32 (lock_entry_count s + 1)\<rparr>"
    using acquire_exclusive [OF assms, of tx oid] none False by (simp split: if_splits) (metis snd_conv)
  have "\<not> lock_on oid key (lock_table s j)" if "j < LOCK_MAX_ENTRIES" for j
    using none that unfolding owned_iff by blast
  then show ?thesis
    using inv unfolding lock_inv_def s' by (auto simp: lock_on_def)
qed (simp add: inv)

datatype lock_op = Lock nat nat string | Unlock nat

fun lock_step :: "lock_op \<Rightarrow> lock_state \<Rightarrow> lock_state" where
  "lock_step (Lock tx oid key) s = snd (lock_acquire tx oid key LOCK_EXCLUSIVE s)"
| "lock_step (Unlock tx) s = lock_release_tx tx s"

fun lock_op_ok :: "lock_op \<Rightarrow> bool" where
  "lock_op_ok (Lock tx oid key) \<longleftrightarrow> length key < RECORD_KEY_LEN"
| "lock_op_ok (Unlock tx) \<longleftrightarrow> True"

lemma lock_steps_inv: "list_all lock_op_ok ops \<Longrightarrow> lock_inv s \<Longrightarrow> lock_inv (fold lock_step ops s)"
proof (induction ops arbitrary: s)
  case (Cons op ops)
  have "lock_inv (lock_step op s)"
    using Cons.prems by (cases op) (auto simp: acquire_inv, auto simp: lock_inv_def lock_release_tx_def)
  then show ?case
    using Cons by simp
qed simp

text \<open>
  C37. Row locks exclude each other: after any sequence of exclusive acquisitions and releases from
  initialisation, at most one transaction owns a key; an acquisition conflicts exactly when another transaction owns
  the key, otherwise it succeeds, with the key then owned, or finds the table full, and a failed one changes nothing.
\<close>

theorem lock_exclusion:
  assumes "list_all lock_op_ok ops" and "s = fold lock_step ops (lock_mgr_init s0)" and "length key < RECORD_KEY_LEN"
  shows "(lock_owned t1 oid key s \<and> lock_owned t2 oid key s \<longrightarrow> t1 = t2) \<and>
    (case lock_acquire tx oid key LOCK_EXCLUSIVE s of
       (LOCK_CONFLICT, s') \<Rightarrow> s' = s \<and> (\<exists>t. t \<noteq> tx \<and> lock_owned t oid key s)
     | (LOCK_OK, s') \<Rightarrow> lock_owned tx oid key s' \<and> \<not> (\<exists>t. t \<noteq> tx \<and> lock_owned t oid key s)
     | (LOCK_TABLE_FULL, s') \<Rightarrow> s' = s \<and> (\<forall>i < LOCK_MAX_ENTRIES. le_active (lock_table s i)))"
proof -
  have inv: "lock_inv s"
    unfolding assms(2) by (rule lock_steps_inv [OF assms(1)]) (simp add: lock_inv_def lock_mgr_init_def)
  have one: "lock_owned t1 oid key s \<Longrightarrow> lock_owned t2 oid key s \<Longrightarrow> t1 = t2"
    unfolding owned_iff using inv by (auto simp: lock_inv_def lock_on_def)
  have "lock_owned tx oid key (s\<lparr>lock_table := (lock_table s)(i := \<lparr>le_tx_id = tx, le_object_id = oid, le_key = key, le_type = LOCK_EXCLUSIVE,
      le_active = True\<rparr>), lock_entry_count := c\<rparr>)" if "i < LOCK_MAX_ENTRIES" for i c
    using that by (auto simp: owned_iff lock_on_def intro!: exI [of _ i])
  then show ?thesis
    using acquire_exclusive [OF inv assms(3), of tx oid] one by (auto split: if_splits)
qed

definition no_locks :: lock_state where
  "no_locks = \<lparr>lock_table = (\<lambda>_. \<lparr>le_tx_id = 0, le_object_id = 0, le_key = [], le_type = LOCK_SHARED, le_active = False\<rparr>),
     lock_entry_count = 0\<rparr>"

theorem lock_exclusion_witness:
  "let s = fold lock_step [Lock 1 5 ''k''] (lock_mgr_init no_locks) in lock_owned 1 5 ''k'' s \<and> \<not> lock_owned 2 5 ''k'' s"
proof -
  let ?i = "lock_mgr_init no_locks" and ?s = "fold lock_step [Lock 1 5 ''k''] (lock_mgr_init no_locks)"
  have "\<not> lock_owned t 5 ''k'' ?i" "\<not> le_active (lock_table ?i 0)" for t
    by (auto simp: owned_iff lock_on_def lock_mgr_init_def no_locks_def)
  moreover have "0 < LOCK_MAX_ENTRIES"
    by (simp add: limits)
  ultimately have "lock_owned 1 5 ''k'' ?s"
    using lock_exclusion [of "[]" ?i no_locks "''k''" _ 5 _ 1]
    by (cases "lock_acquire 1 5 ''k'' LOCK_EXCLUSIVE ?i") (auto simp: limits split: lock_result.splits)
  moreover have "\<not> lock_owned 2 5 ''k'' ?s" if "lock_owned 1 5 ''k'' ?s"
    using lock_exclusion [of "[Lock 1 5 ''k'']" ?s no_locks "''k''" 1 5 2] that by (auto simp: limits)
  ultimately show ?thesis
    by (simp add: Let_def)
qed

text \<open>
  Shared locks break the exclusion: transaction 1 takes a shared lock, transaction 2 an exclusive one on the same key, and
  transaction 1 then upgrades. All three requests succeed and both transactions hold the key exclusively, because a
  scan that meets the caller's own entry first does not look for another owner.
\<close>

theorem shared_upgrade_unsafe:
  "\<exists>s1 s2 s3. lock_acquire 1 5 ''k'' LOCK_SHARED (lock_mgr_init no_locks) = (LOCK_OK, s1) \<and>
     lock_acquire 2 5 ''k'' LOCK_EXCLUSIVE s1 = (LOCK_OK, s2) \<and> lock_acquire 1 5 ''k'' LOCK_EXCLUSIVE s2 = (LOCK_OK, s3) \<and>
     lock_table s3 0 = \<lparr>le_tx_id = 1, le_object_id = 5, le_key = ''k'', le_type = LOCK_EXCLUSIVE, le_active = True\<rparr> \<and>
     lock_table s3 1 = \<lparr>le_tx_id = 2, le_object_id = 5, le_key = ''k'', le_type = LOCK_EXCLUSIVE, le_active = True\<rparr>"
proof -
  let ?e = "\<lambda>tx ty. \<lparr>le_tx_id = tx, le_object_id = 5, le_key = ''k'', le_type = ty, le_active = True\<rparr>"
  let ?i = "lock_mgr_init no_locks"
  define s1 where "s1 = ?i\<lparr>lock_table := (lock_table ?i)(0 := ?e 1 LOCK_SHARED), lock_entry_count := 1\<rparr>"
  define s2 where "s2 = s1\<lparr>lock_table := (lock_table s1)(1 := ?e 2 LOCK_EXCLUSIVE), lock_entry_count := 2\<rparr>"
  define s3 where "s3 = s2\<lparr>lock_table := (lock_table s2)(0 := ?e 1 LOCK_EXCLUSIVE)\<rparr>"
  have off: "\<not> le_active (lock_table ?i j)" for j
    by (simp add: lock_mgr_init_def no_locks_def)
  have "lock_scan 0 1 5 ''k'' LOCK_SHARED ?i = None"
    by (rule lock_scan_skip) (simp add: lock_on_def off)
  then have 1: "lock_acquire 1 5 ''k'' LOCK_SHARED ?i = (LOCK_OK, s1)"
    using off by (simp add: lock_acquire_def find_upt_step limits s1_def lk_copy_def lock_mgr_init_def)
  have "lock_scan 0 2 5 ''k'' LOCK_EXCLUSIVE s1 = lock_scan 1 2 5 ''k'' LOCK_EXCLUSIVE s1"
    by (subst lock_scan.simps) (simp add: s1_def limits)
  also have "\<dots> = lock_scan LOCK_MAX_ENTRIES 2 5 ''k'' LOCK_EXCLUSIVE s1"
    by (rule lock_scan_from) (simp_all add: s1_def lock_on_def off limits)
  finally have "lock_scan 0 2 5 ''k'' LOCK_EXCLUSIVE s1 = None"
    using lock_scan.simps [of LOCK_MAX_ENTRIES] by simp
  then have 2: "lock_acquire 2 5 ''k'' LOCK_EXCLUSIVE s1 = (LOCK_OK, s2)"
    using off by (simp add: lock_acquire_def find_upt_step limits s1_def s2_def lk_copy_def)
  have "lock_scan 0 1 5 ''k'' LOCK_EXCLUSIVE s2 = Some (LOCK_OK, s3)"
    by (subst lock_scan.simps) (simp add: s1_def s2_def s3_def limits)
  then have 3: "lock_acquire 1 5 ''k'' LOCK_EXCLUSIVE s2 = (LOCK_OK, s3)"
    by (simp add: lock_acquire_def)
  show ?thesis
    using 1 2 3 by (intro exI [of _ s1] exI [of _ s2] exI [of _ s3]) (simp add: s2_def s3_def)
qed

end
