(* ===== verification/Transaction.thy ===== *)
theory Transaction
  imports Crc32 Lock_Mgr
begin

text \<open>
  Record transactions: the write-ahead log and its contexts (\<^verbatim>\<open>src/kernel/transaction.c\<close>), and the record operations of
  \<^verbatim>\<open>src/kernel/object_catalog.c\<close> that stage into the log and that commit and recovery call to apply it. The calling thread
  is an argument. A C string is the list of its characters before the terminator; the character arrays of a log
  entry keep every byte, because the checksum covers them. What the constraint checks answer and what a refresh of a
  materialised table does to the records are parameters; calls to the journal, the indexes, the tiering and the
  persistence layer, which do not touch the modelled state, are recorded in order.
\<close>

unbundle bit_operations_syntax

section \<open>Data\<close>

definition WAL_MAX_ENTRIES :: nat where [limits]: "WAL_MAX_ENTRIES = 512"
definition MAX_ACTIVE_TRANSACTIONS :: nat where [limits]: "MAX_ACTIVE_TRANSACTIONS = 64"
definition OBJECT_NAME_LEN :: nat where [limits]: "OBJECT_NAME_LEN = 64"
definition RECORD_VAL_LEN :: nat where [limits]: "RECORD_VAL_LEN = 256"
definition RECORD_MAX_FIELDS :: nat where [limits]: "RECORD_MAX_FIELDS = 32"
definition WAL_MAGIC :: "64 word" where "WAL_MAGIC = 0x534C5357414C454E"
definition FLAG_APPEND_ONLY :: "32 word" where "FLAG_APPEND_ONLY = 0x10"

datatype WALState = WAL_STATE_PENDING | WAL_STATE_COMMITTED | WAL_STATE_ABORTED

record WALEntry =
  w_magic :: "64 word"
  w_entry_id :: nat
  w_crc32 :: "32 word"
  w_tx_id :: nat
  w_object_id :: nat
  w_key :: string
  w_old_value :: string
  w_new_value :: string
  w_state :: WALState
  w_pad :: "8 word list"

record TxContext =
  tc_tx_id :: nat
  tc_thread_id :: nat
  tc_wal_start :: nat
  tc_wal_count :: nat
  tc_active :: bool

record SLSObjectEntry =
  oe_object_id :: nat
  oe_name :: string
  oe_perm_mask :: "32 word"
  oe_active :: bool
  oe_uses_rowstore :: bool

record SLSRecordField =
  rf_key :: string
  rf_value :: string
  rf_active :: bool

record SLSObjectRecord =
  or_field_count :: nat
  or_fields :: "nat \<Rightarrow> SLSRecordField"

record SLSRecordRequest =
  rq_name :: string
  rq_key :: string
  rq_value :: string

datatype JournalType = JENT_PT | JENT_UB | JENT_UP | JENT_DL

datatype kcall =
    tier_notify_access nat
  | journal_write string string string string JournalType nat
  | index_on_insert string string string string
  | index_on_update string string string string string
  | index_on_delete string string
  | mqt_refresh_for_table string
  | persist_records
  | persist_defer_begin
  | persist_defer_end
  | journal_commit_tx nat
  | journal_rollback_tx nat

type_synonym records = "nat \<Rightarrow> SLSObjectRecord"

record tx_state =
  wal_buffer :: "nat \<Rightarrow> WALEntry"
  wal_entry_count :: nat
  wal_next_tx_id :: nat
  tx_contexts :: "nat \<Rightarrow> TxContext"
  object_catalog :: "nat \<Rightarrow> SLSObjectEntry"
  object_catalog_count :: nat
  object_records :: records
  tx_locks :: lock_state
  tx_calls :: "kcall list"

record tx_env =
  constraint_check_update :: "records \<Rightarrow> string \<Rightarrow> string \<Rightarrow> string \<Rightarrow> string \<Rightarrow> int"
  constraint_check_insert :: "records \<Rightarrow> string \<Rightarrow> string \<Rightarrow> string \<Rightarrow> int"
  mqt_effect :: "string \<Rightarrow> records \<Rightarrow> records"

definition call :: "kcall \<Rightarrow> tx_state \<Rightarrow> tx_state" where
  "call c s = s\<lparr>tx_calls := tx_calls s @ [c]\<rparr>"

definition mqt_refresh :: "tx_env \<Rightarrow> string \<Rightarrow> tx_state \<Rightarrow> tx_state" where
  "mqt_refresh env name s = call (mqt_refresh_for_table name) (s\<lparr>object_records := mqt_effect env name (object_records s)\<rparr>)"

section \<open>Strings\<close>

definition cstr :: "string \<Rightarrow> string" where
  "cstr a = takeWhile (\<lambda>c. c \<noteq> CHR 0x00) a"

text \<open>The array \<open>d\<close> after copying the string \<open>s\<close>: at most \<open>n - 1\<close> characters, the terminator, and what was behind.\<close>

definition tx_strncpy :: "string \<Rightarrow> string \<Rightarrow> nat \<Rightarrow> string" where
  "tx_strncpy d s n = (let t = take (n - 1) s in t @ CHR 0x00 # drop (length t + 1) d)"

fun cat_streq :: "string \<Rightarrow> string \<Rightarrow> bool" where
  "cat_streq (a # as) (b # bs) = (if a \<noteq> b then False else cat_streq as bs)"
| "cat_streq [] [] = True"
| "cat_streq _ _ = False"

lemma cat_streq_eq [simp]: "cat_streq a b \<longleftrightarrow> a = b"
  by (induction a b rule: cat_streq.induct) auto

definition cat_strncpy :: "string \<Rightarrow> nat \<Rightarrow> string" where
  "cat_strncpy s n = take (n - 1) s"

section \<open>The log\<close>

fun wal_state_byte :: "WALState \<Rightarrow> 8 word" where
  "wal_state_byte WAL_STATE_PENDING = 0"
| "wal_state_byte WAL_STATE_COMMITTED = 1"
| "wal_state_byte WAL_STATE_ABORTED = 2"

text \<open>The bytes of a \<^verbatim>\<open>struct WALEntry\<close>, in front of its state and from there on.\<close>

definition wal_front :: "WALEntry \<Rightarrow> 8 word list" where
  "wal_front e =
     le_bytes 8 (unat (w_magic e)) @ le_bytes 4 (w_entry_id e) @ le_bytes 4 (unat (w_crc32 e)) @
     le_bytes 8 (w_tx_id e) @ le_bytes 8 (w_object_id e) @
     map of_char (w_key e) @ map of_char (w_old_value e) @ map of_char (w_new_value e)"

definition wal_bytes :: "WALEntry \<Rightarrow> 8 word list" where
  "wal_bytes e = wal_front e @ wal_state_byte (w_state e) # w_pad e"

definition find_ctx :: "nat \<Rightarrow> tx_state \<Rightarrow> nat option" where
  "find_ctx thread s =
     List.find (\<lambda>i. tc_active (tx_contexts s i) \<and> tc_thread_id (tx_contexts s i) = thread) [0..<MAX_ACTIVE_TRANSACTIONS]"

definition tx_get_active :: "nat \<Rightarrow> tx_state \<Rightarrow> nat" where
  "tx_get_active thread s = (case find_ctx thread s of Some i \<Rightarrow> tc_tx_id (tx_contexts s i) | None \<Rightarrow> 0)"

definition sys_sls_tx_begin :: "nat \<Rightarrow> tx_state \<Rightarrow> nat \<times> tx_state" where
  "sys_sls_tx_begin thread s =
     (if find_ctx thread s \<noteq> None then (0, s)
      else case List.find (\<lambda>i. \<not> tc_active (tx_contexts s i)) [0..<MAX_ACTIVE_TRANSACTIONS] of
        Some i \<Rightarrow>
          (wal_next_tx_id s,
           s\<lparr>wal_next_tx_id := u64 (wal_next_tx_id s + 1),
             tx_contexts := (tx_contexts s)(i := \<lparr>tc_tx_id = wal_next_tx_id s, tc_thread_id = thread,
               tc_wal_start = wal_entry_count s, tc_wal_count = 0, tc_active = True\<rparr>)\<rparr>)
      | None \<Rightarrow> (0, s))"

text \<open>The entry \<^verbatim>\<open>wal_stage\<close> writes over the slot \<open>e\<close>, sealed with its checksum.\<close>

definition wal_fill :: "WALEntry \<Rightarrow> nat \<Rightarrow> nat \<Rightarrow> nat \<Rightarrow> string \<Rightarrow> string \<Rightarrow> string \<Rightarrow> WALEntry" where
  "wal_fill e n tx oid key old new =
     (let e = e\<lparr>w_magic := WAL_MAGIC, w_entry_id := u32 (n + 1), w_tx_id := tx, w_object_id := oid,
                w_key := tx_strncpy (w_key e) key 48, w_old_value := tx_strncpy (w_old_value e) old 64,
                w_new_value := tx_strncpy (w_new_value e) new 64, w_state := WAL_STATE_PENDING, w_crc32 := 0\<rparr>
      in e\<lparr>w_crc32 := crc32_compute (wal_bytes e)\<rparr>)"

definition wal_stage :: "nat \<Rightarrow> nat \<Rightarrow> string \<Rightarrow> string \<Rightarrow> string \<Rightarrow> tx_state \<Rightarrow> nat \<times> tx_state" where
  "wal_stage thread oid key old new s =
     (case find_ctx thread s of
        None \<Rightarrow> (0, s)
      | Some i \<Rightarrow>
          let n = wal_entry_count s; c = tx_contexts s i
          in if n \<ge> WAL_MAX_ENTRIES then (1, s)
             else (0, s\<lparr>wal_buffer := (wal_buffer s)(n := wal_fill (wal_buffer s n) n (tc_tx_id c) oid key old new),
                        wal_entry_count := u32 (n + 1),
                        tx_contexts := (tx_contexts s)(i := c\<lparr>tc_wal_count := u32 (tc_wal_count c + 1)\<rparr>)\<rparr>))"

section \<open>Record operations\<close>

definition find_by_name :: "string \<Rightarrow> tx_state \<Rightarrow> nat option" where
  "find_by_name name s =
     List.find (\<lambda>i. oe_active (object_catalog s i) \<and> cat_streq (oe_name (object_catalog s i)) name) [0..<object_catalog_count s]"

definition find_field :: "string \<Rightarrow> SLSObjectRecord \<Rightarrow> nat option" where
  "find_field key r =
     List.find (\<lambda>i. rf_active (or_fields r i) \<and> cat_streq (rf_key (or_fields r i)) key) [0..<RECORD_MAX_FIELDS]"

definition set_field :: "nat \<Rightarrow> nat \<Rightarrow> SLSRecordField \<Rightarrow> records \<Rightarrow> records" where
  "set_field obj i f rs = rs(obj := (rs obj)\<lparr>or_fields := (or_fields (rs obj))(i := f)\<rparr>)"

text \<open>Lock the key, then stage; the result of \<^verbatim>\<open>wal_stage\<close> is not looked at.\<close>

definition stage_locked :: "nat \<Rightarrow> nat \<Rightarrow> nat \<Rightarrow> string \<Rightarrow> string \<Rightarrow> string \<Rightarrow> kcall \<Rightarrow> tx_state \<Rightarrow> nat \<times> tx_state" where
  "stage_locked cur tx oid key old new journal s =
     (case lock_acquire tx oid key LOCK_EXCLUSIVE (tx_locks s) of (r, l) \<Rightarrow>
        if r \<noteq> LOCK_OK then (2, s\<lparr>tx_locks := l\<rparr>)
        else (0, call journal (snd (wal_stage cur oid key old new (s\<lparr>tx_locks := l\<rparr>)))))"

definition sys_sls_update :: "tx_env \<Rightarrow> nat \<Rightarrow> SLSRecordRequest \<Rightarrow> tx_state \<Rightarrow> nat \<times> tx_state" where
  "sys_sls_update env cur req s =
     (let name = rq_name req; key = rq_key req; value = rq_value req
      in case find_by_name name s of
        None \<Rightarrow> (1, s)
      | Some obj \<Rightarrow>
          let oid = oe_object_id (object_catalog s obj)
          in if oe_uses_rowstore (object_catalog s obj) then (4, s)
             else let s = call (tier_notify_access oid) s
             in case find_field key (object_records s obj) of
                  None \<Rightarrow> (1, s)
                | Some i \<Rightarrow>
                    let f = or_fields (object_records s obj) i; old = rf_value f; tx = tx_get_active cur s
                    in if constraint_check_update env (object_records s) name key old value \<noteq> 0 then (3, s)
                       else if tx \<noteq> 0 then stage_locked cur tx oid key old value (journal_write name key old value JENT_UB tx) s
                       else let s = call (journal_write name key old value JENT_UB 0) s;
                                s = call (index_on_update name key key old value) s;
                                s = s\<lparr>object_records := set_field obj i (f\<lparr>rf_value := cat_strncpy value RECORD_VAL_LEN\<rparr>) (object_records s)\<rparr>;
                                s = call (journal_write name key '''' value JENT_UP 0) s
                            in (0, call persist_records (mqt_refresh env name s)))"

definition sys_sls_insert :: "tx_env \<Rightarrow> nat \<Rightarrow> SLSRecordRequest \<Rightarrow> tx_state \<Rightarrow> nat \<times> tx_state" where
  "sys_sls_insert env cur req s =
     (let name = rq_name req; key = rq_key req; value = rq_value req
      in case find_by_name name s of
        None \<Rightarrow> (1, s)
      | Some obj \<Rightarrow>
          let oid = oe_object_id (object_catalog s obj)
          in if oe_uses_rowstore (object_catalog s obj) then (4, s)
             else let s = call (tier_notify_access oid) s; r = object_records s obj; tx = tx_get_active cur s
             in if or_field_count r \<ge> RECORD_MAX_FIELDS then (1, s)
                else if find_field key r \<noteq> None then (1, s)
                else if tx \<noteq> 0 then
                  (if constraint_check_insert env (object_records s) name key value \<noteq> 0 then (3, s)
                   else stage_locked cur tx oid key '''' value (journal_write name key '''' value JENT_PT tx) s)
                else case List.find (\<lambda>i. \<not> rf_active (or_fields r i)) [0..<RECORD_MAX_FIELDS] of
                  None \<Rightarrow> (1, s)
                | Some i \<Rightarrow>
                    if constraint_check_insert env (object_records s) name key value \<noteq> 0 then (3, s)
                    else let f = \<lparr>rf_key = cat_strncpy key RECORD_KEY_LEN, rf_value = cat_strncpy value RECORD_VAL_LEN, rf_active = True\<rparr>;
                             rs = set_field obj i f (object_records s);
                             s = s\<lparr>object_records := rs(obj := (rs obj)\<lparr>or_field_count := u32 (or_field_count (rs obj) + 1)\<rparr>)\<rparr>;
                             s = call (journal_write name key '''' value JENT_PT 0) s;
                             s = call (index_on_insert name key key value) s
                         in (0, call persist_records (mqt_refresh env name s)))"

definition sys_sls_delete :: "tx_env \<Rightarrow> nat \<Rightarrow> SLSRecordRequest \<Rightarrow> tx_state \<Rightarrow> nat \<times> tx_state" where
  "sys_sls_delete env cur req s =
     (let name = rq_name req; key = rq_key req
      in case find_by_name name s of
        None \<Rightarrow> (1, s)
      | Some obj \<Rightarrow>
          let e = object_catalog s obj; oid = oe_object_id e
          in if oe_uses_rowstore e then (4, s)
             else if oe_perm_mask e AND FLAG_APPEND_ONLY \<noteq> 0 then (1, s)
             else case find_field key (object_records s obj) of
               None \<Rightarrow> (1, s)
             | Some i \<Rightarrow>
                 let f = or_fields (object_records s obj) i; old = rf_value f; tx = tx_get_active cur s
                 in if tx \<noteq> 0 then stage_locked cur tx oid key old '''' (journal_write name key old '''' JENT_DL tx) s
                    else let rs = set_field obj i (f\<lparr>rf_active := False\<rparr>) (object_records s);
                             s = s\<lparr>object_records := rs(obj := (rs obj)\<lparr>or_field_count := u32 (or_field_count (rs obj) + 0xFFFFFFFF)\<rparr>)\<rparr>;
                             s = call (tier_notify_access oid) s;
                             s = call (index_on_delete name key) s
                         in (0, call persist_records (mqt_refresh env name s)))"

section \<open>Commit, rollback and recovery\<close>

definition object_with_id :: "nat \<Rightarrow> tx_state \<Rightarrow> nat option" where
  "object_with_id oid s =
     List.find (\<lambda>j. oe_active (object_catalog s j) \<and> oe_object_id (object_catalog s j) = oid) [0..<object_catalog_count s]"

definition object_name_of :: "nat \<Rightarrow> tx_state \<Rightarrow> string" where
  "object_name_of oid s = (case object_with_id oid s of Some j \<Rightarrow> oe_name (object_catalog s j) | None \<Rightarrow> '''')"

text \<open>The request that writes \<open>value\<close> to the field an entry names.\<close>

definition entry_request :: "WALEntry \<Rightarrow> string \<Rightarrow> tx_state \<Rightarrow> SLSRecordRequest" where
  "entry_request e value s =
     \<lparr>rq_name = take (OBJECT_NAME_LEN - 1) (object_name_of (w_object_id e) s), rq_key = take (RECORD_KEY_LEN - 1) (cstr (w_key e)),
      rq_value = take (RECORD_VAL_LEN - 1) (cstr value)\<rparr>"

definition set_entry_state :: "nat \<Rightarrow> WALState \<Rightarrow> tx_state \<Rightarrow> tx_state" where
  "set_entry_state i st s = s\<lparr>wal_buffer := (wal_buffer s)(i := (wal_buffer s i)\<lparr>w_state := st\<rparr>)\<rparr>"

definition commit_entry :: "tx_env \<Rightarrow> nat \<Rightarrow> nat \<Rightarrow> tx_state \<Rightarrow> tx_state" where
  "commit_entry env cur i s =
     (if w_state (wal_buffer s i) = WAL_STATE_PENDING
      then let s = set_entry_state i WAL_STATE_COMMITTED s; e = wal_buffer s i
           in snd (sys_sls_update env cur (entry_request e (w_new_value e) s) s)
      else s)"

definition refresh_entry :: "tx_env \<Rightarrow> nat \<Rightarrow> tx_state \<Rightarrow> tx_state" where
  "refresh_entry env i s =
     (if w_state (wal_buffer s i) \<noteq> WAL_STATE_COMMITTED then s
      else case object_with_id (w_object_id (wal_buffer s i)) s of
        Some j \<Rightarrow> mqt_refresh env (oe_name (object_catalog s j)) s
      | None \<Rightarrow> s)"

definition close_ctx :: "nat \<Rightarrow> tx_state \<Rightarrow> tx_state" where
  "close_ctx i s = s\<lparr>tx_contexts := (tx_contexts s)(i := (tx_contexts s i)\<lparr>tc_active := False\<rparr>)\<rparr>"

definition release_locks :: "nat \<Rightarrow> tx_state \<Rightarrow> tx_state" where
  "release_locks tx s = s\<lparr>tx_locks := lock_release_tx tx (tx_locks s)\<rparr>"

definition ctx_range :: "TxContext \<Rightarrow> nat list" where
  "ctx_range c = [tc_wal_start c..<u32 (tc_wal_start c + tc_wal_count c)]"

definition sys_sls_tx_commit :: "tx_env \<Rightarrow> nat \<Rightarrow> nat \<Rightarrow> tx_state \<Rightarrow> nat \<times> tx_state" where
  "sys_sls_tx_commit env cur thread s =
     (case find_ctx thread s of
        None \<Rightarrow> (1, s)
      | Some i \<Rightarrow>
          let c = tx_contexts s i;
              s = call persist_defer_begin (close_ctx i s);
              s = fold (commit_entry env cur) (ctx_range c) s;
              s = release_locks (tc_tx_id c) (call (journal_commit_tx (tc_tx_id c)) s);
              s = fold (refresh_entry env) (ctx_range c) s
          in (0, call persist_defer_end s))"

definition abort_entry :: "nat \<Rightarrow> tx_state \<Rightarrow> tx_state" where
  "abort_entry i s = (if w_state (wal_buffer s i) = WAL_STATE_PENDING then set_entry_state i WAL_STATE_ABORTED s else s)"

definition sys_sls_tx_rollback :: "nat \<Rightarrow> tx_state \<Rightarrow> nat \<times> tx_state" where
  "sys_sls_tx_rollback thread s =
     (case find_ctx thread s of
        None \<Rightarrow> (1, s)
      | Some i \<Rightarrow>
          let c = tx_contexts s i;
              s = fold abort_entry (ctx_range c) s;
              s = release_locks (tc_tx_id c) (call (journal_rollback_tx (tc_tx_id c)) s)
          in (0, close_ctx i s))"

definition sealed :: "WALEntry \<Rightarrow> bool" where
  "sealed e \<longleftrightarrow> crc32_compute (wal_bytes (e\<lparr>w_crc32 := 0\<rparr>)) = w_crc32 e"

definition recover_entry :: "tx_env \<Rightarrow> nat \<Rightarrow> nat \<Rightarrow> tx_state \<Rightarrow> tx_state" where
  "recover_entry env cur i s =
     (let e = wal_buffer s i
      in if w_magic e \<noteq> WAL_MAGIC then s
         else if \<not> sealed e then s
         else case w_state e of
           WAL_STATE_COMMITTED \<Rightarrow> snd (sys_sls_update env cur (entry_request e (w_new_value e) s) s)
         | WAL_STATE_PENDING \<Rightarrow> set_entry_state i WAL_STATE_ABORTED (snd (sys_sls_update env cur (entry_request e (w_old_value e) s) s))
         | WAL_STATE_ABORTED \<Rightarrow> s)"

text \<open>
  The scan reads \<^verbatim>\<open>wal_entry_count\<close> in every round, and an undo may stage a new entry when the calling thread has an open
  transaction; it ends because the log never grows past its capacity.
\<close>

lemma call_frame [simp]:
  "wal_buffer (call c s) = wal_buffer s" "wal_entry_count (call c s) = wal_entry_count s" "wal_next_tx_id (call c s) = wal_next_tx_id s"
  "tx_contexts (call c s) = tx_contexts s" "object_catalog (call c s) = object_catalog s"
  "object_catalog_count (call c s) = object_catalog_count s" "object_records (call c s) = object_records s" "tx_locks (call c s) = tx_locks s"
  by (simp_all add: call_def)

lemma mqt_frame [simp]:
  "wal_buffer (mqt_refresh env n s) = wal_buffer s" "wal_entry_count (mqt_refresh env n s) = wal_entry_count s"
  "wal_next_tx_id (mqt_refresh env n s) = wal_next_tx_id s" "tx_contexts (mqt_refresh env n s) = tx_contexts s"
  "object_catalog (mqt_refresh env n s) = object_catalog s" "object_catalog_count (mqt_refresh env n s) = object_catalog_count s"
  "object_records (mqt_refresh env n s) = mqt_effect env n (object_records s)" "tx_locks (mqt_refresh env n s) = tx_locks s"
  by (simp_all add: mqt_refresh_def)

lemma stage_bound: "wal_entry_count (snd (wal_stage t oid k v w s)) \<le> max WAL_MAX_ENTRIES (wal_entry_count s)"
  by (auto simp: wal_stage_def Let_def limits split: option.split)

lemma stage_locked_bound: "wal_entry_count (snd (stage_locked t tx oid k v w j s)) \<le> max WAL_MAX_ENTRIES (wal_entry_count s)"
  using stage_bound [of t oid k v w] by (auto simp: stage_locked_def split: prod.split) (metis tx_state.select_convs(2) tx_state.surjective tx_state.update_convs(8))

lemma update_bound: "wal_entry_count (snd (sys_sls_update env cur req s)) \<le> max WAL_MAX_ENTRIES (wal_entry_count s)"
proof -
  have "wal_entry_count (snd (stage_locked t tx oid k v w j (call c s))) \<le> max WAL_MAX_ENTRIES (wal_entry_count s)" for t tx oid k v w j c
    using stage_locked_bound [of t tx oid k v w j "call c s"] by simp
  then show ?thesis
    by (simp add: sys_sls_update_def Let_def split: option.split)
qed

lemma recover_bound: "wal_entry_count (recover_entry env cur i s) \<le> max WAL_MAX_ENTRIES (wal_entry_count s)"
  using update_bound by (simp add: recover_entry_def Let_def set_entry_state_def split: WALState.split)

function recover_from :: "tx_env \<Rightarrow> nat \<Rightarrow> nat \<Rightarrow> tx_state \<Rightarrow> tx_state" where
  "recover_from env cur i s = (if i < wal_entry_count s then recover_from env cur (Suc i) (recover_entry env cur i s) else s)"
  by auto
termination
proof (relation "measure (\<lambda>(env, cur, i, s). max WAL_MAX_ENTRIES (wal_entry_count s) - i)", goal_cases)
  case (2 env cur i s)
  with recover_bound [of env cur i s] show ?case
    by auto
qed simp

declare recover_from.simps [simp del]

definition sys_sls_tx_recover :: "tx_env \<Rightarrow> nat \<Rightarrow> tx_state \<Rightarrow> tx_state" where
  "sys_sls_tx_recover env cur s = recover_from env cur 0 s"

end
