(* ===== verification/Transaction_Laws.thy ===== *)
theory Transaction_Laws
  imports Transaction
begin

text \<open>
  The shape of the log and its contexts, kept by every operation; what recovery does with finished entries; and what a
  transaction that runs alone amounts to. The last section shows four ways in which the log loses or misattributes writes.
\<close>

section \<open>Sequences of calls\<close>

datatype tx_op =
    TxBegin nat
  | TxCommit nat nat
  | TxRollback nat
  | TxRecover nat
  | TxUpdate nat SLSRecordRequest
  | TxInsert nat SLSRecordRequest
  | TxDelete nat SLSRecordRequest

fun tx_exec :: "tx_env \<Rightarrow> tx_op \<Rightarrow> tx_state \<Rightarrow> tx_state" where
  "tx_exec env (TxBegin t) s = snd (sys_sls_tx_begin t s)"
| "tx_exec env (TxCommit cur t) s = snd (sys_sls_tx_commit env cur t s)"
| "tx_exec env (TxRollback t) s = snd (sys_sls_tx_rollback t s)"
| "tx_exec env (TxRecover cur) s = sys_sls_tx_recover env cur s"
| "tx_exec env (TxUpdate cur req) s = snd (sys_sls_update env cur req s)"
| "tx_exec env (TxInsert cur req) s = snd (sys_sls_insert env cur req s)"
| "tx_exec env (TxDelete cur req) s = snd (sys_sls_delete env cur req s)"

section \<open>The shape of the log\<close>

definition slot_ok :: "WALEntry \<Rightarrow> bool" where
  "slot_ok e \<longleftrightarrow> length (w_key e) = 48 \<and> length (w_old_value e) = 64 \<and> length (w_new_value e) = 64 \<and> length (w_pad e) = 7"

text \<open>An entry in use carries the checksum of its pending form, whatever its state is now.\<close>

definition entry_ok :: "nat \<Rightarrow> WALEntry \<Rightarrow> bool" where
  "entry_ok i e \<longleftrightarrow> w_magic e = WAL_MAGIC \<and> w_entry_id e = i + 1 \<and> sealed (e\<lparr>w_state := WAL_STATE_PENDING\<rparr>)"

definition ctx_ok :: "nat \<Rightarrow> TxContext \<Rightarrow> bool" where
  "ctx_ok n c \<longleftrightarrow> (tc_active c \<longrightarrow> tc_wal_start c + tc_wal_count c \<le> n)"

definition wal_ok :: "(nat \<Rightarrow> WALEntry) \<Rightarrow> nat \<Rightarrow> (nat \<Rightarrow> TxContext) \<Rightarrow> bool" where
  "wal_ok buf n ctx \<longleftrightarrow> n \<le> WAL_MAX_ENTRIES \<and> (\<forall>i. slot_ok (buf i)) \<and> (\<forall>i < n. entry_ok i (buf i)) \<and>
     (\<forall>i < MAX_ACTIVE_TRANSACTIONS. ctx_ok n (ctx i)) \<and>
     (\<forall>i < MAX_ACTIVE_TRANSACTIONS. \<forall>j < MAX_ACTIVE_TRANSACTIONS. tc_active (ctx i) \<and> tc_active (ctx j) \<and>
        tc_thread_id (ctx i) = tc_thread_id (ctx j) \<longrightarrow> i = j)"

abbreviation wal_wf :: "tx_state \<Rightarrow> bool" where
  "wal_wf s \<equiv> wal_ok (wal_buffer s) (wal_entry_count s) (tx_contexts s)"

lemma find_ctx_Some:
  "find_ctx t s = Some i \<Longrightarrow> i < MAX_ACTIVE_TRANSACTIONS \<and> tc_active (tx_contexts s i) \<and> tc_thread_id (tx_contexts s i) = t"
  by (auto simp: find_ctx_def find_upt_Some)

lemma find_ctx_None:
  "find_ctx t s = None \<longleftrightarrow> (\<forall>i < MAX_ACTIVE_TRANSACTIONS. tc_active (tx_contexts s i) \<longrightarrow> tc_thread_id (tx_contexts s i) \<noteq> t)"
  by (auto simp: find_ctx_def find_None_iff)

lemma strncpy_length: "length s < length d \<or> n \<le> length d \<Longrightarrow> 0 < n \<Longrightarrow> length (tx_strncpy d s n) = length d"
  by (auto simp: tx_strncpy_def Let_def)

lemma fill_ok:
  assumes "slot_ok e" and "n < WAL_MAX_ENTRIES"
  shows "slot_ok (wal_fill e n tx oid key old new) \<and> entry_ok n (wal_fill e n tx oid key old new)"
  using assms by (simp add: slot_ok_def entry_ok_def sealed_def wal_fill_def Let_def strncpy_length limits)

lemma begin_wf: "wal_wf s \<Longrightarrow> wal_wf (snd (sys_sls_tx_begin t s))"
  by (auto simp: sys_sls_tx_begin_def wal_ok_def ctx_ok_def find_ctx_None find_upt_Some split: option.split)

lemma wal_ok_grow:
  assumes ok: "wal_ok buf n ctx" and room: "n < WAL_MAX_ENTRIES" and e: "slot_ok e" "entry_ok n e"
    and i: "i < MAX_ACTIVE_TRANSACTIONS" "tc_active (ctx i)"
  shows "wal_ok (buf(n := e)) (Suc n) (ctx(i := (ctx i)\<lparr>tc_wal_count := Suc (tc_wal_count (ctx i))\<rparr>))"
  unfolding wal_ok_def
proof (intro conjI)
  show "Suc n \<le> WAL_MAX_ENTRIES"
    using room by simp
  show "\<forall>j. slot_ok ((buf(n := e)) j)"
    using ok e by (simp add: wal_ok_def)
  show "\<forall>j < Suc n. entry_ok j ((buf(n := e)) j)"
    using ok e by (simp add: wal_ok_def less_Suc_eq)
next
  have "ctx_ok n (ctx j)" if "j < MAX_ACTIVE_TRANSACTIONS" for j
    using that ok unfolding wal_ok_def by blast
  then show "\<forall>j < MAX_ACTIVE_TRANSACTIONS. ctx_ok (Suc n) ((ctx(i := (ctx i)\<lparr>tc_wal_count := Suc (tc_wal_count (ctx i))\<rparr>)) j)"
    using i by (simp add: ctx_ok_def le_SucI)
next
  have same: "tc_active ((ctx(i := (ctx i)\<lparr>tc_wal_count := Suc (tc_wal_count (ctx i))\<rparr>)) j) = tc_active (ctx j)"
    "tc_thread_id ((ctx(i := (ctx i)\<lparr>tc_wal_count := Suc (tc_wal_count (ctx i))\<rparr>)) j) = tc_thread_id (ctx j)" for j
    by simp_all
  show "\<forall>k < MAX_ACTIVE_TRANSACTIONS. \<forall>j < MAX_ACTIVE_TRANSACTIONS.
      tc_active ((ctx(i := (ctx i)\<lparr>tc_wal_count := Suc (tc_wal_count (ctx i))\<rparr>)) k) \<and>
      tc_active ((ctx(i := (ctx i)\<lparr>tc_wal_count := Suc (tc_wal_count (ctx i))\<rparr>)) j) \<and>
      tc_thread_id ((ctx(i := (ctx i)\<lparr>tc_wal_count := Suc (tc_wal_count (ctx i))\<rparr>)) k) =
      tc_thread_id ((ctx(i := (ctx i)\<lparr>tc_wal_count := Suc (tc_wal_count (ctx i))\<rparr>)) j) \<longrightarrow> k = j"
    unfolding same using ok unfolding wal_ok_def by blast
qed

lemma stage_wf:
  assumes wf: "wal_wf s"
  shows "wal_wf (snd (wal_stage t oid k v w s))"
proof (cases "find_ctx t s")
  case (Some i)
  let ?n = "wal_entry_count s" and ?c = "tx_contexts s i"
  show ?thesis
  proof (cases "?n < WAL_MAX_ENTRIES")
    case True
    have i: "i < MAX_ACTIVE_TRANSACTIONS" "tc_active ?c"
      using find_ctx_Some [OF Some] by simp_all
    then have "tc_wal_count ?c \<le> ?n"
      using wf by (fastforce simp: wal_ok_def ctx_ok_def)
    then have small: "u32 (?n + 1) = Suc ?n" "u32 (tc_wal_count ?c + 1) = Suc (tc_wal_count ?c)"
      using True by (simp_all add: limits)
    have "slot_ok (wal_buffer s ?n)"
      using wf by (simp add: wal_ok_def)
    with fill_ok [OF _ True] have "wal_ok ((wal_buffer s)(?n := wal_fill (wal_buffer s ?n) ?n (tc_tx_id ?c) oid k v w)) (Suc ?n)
        ((tx_contexts s)(i := ?c\<lparr>tc_wal_count := Suc (tc_wal_count ?c)\<rparr>))"
      using wal_ok_grow [OF wf True _ _ i] by blast
    with True Some small show ?thesis
      by (simp add: wal_stage_def Let_def)
  qed (use wf Some in \<open>simp add: wal_stage_def Let_def\<close>)
qed (use wf in \<open>simp add: wal_stage_def\<close>)

lemma stage_locked_wf: "wal_wf s \<Longrightarrow> wal_wf (snd (stage_locked t tx oid k v w j s))"
  using stage_wf by (auto simp: stage_locked_def split: prod.split)

lemma update_wf: "wal_wf s \<Longrightarrow> wal_wf (snd (sys_sls_update env cur req s))"
  using stage_locked_wf [of "call c s" for c] by (simp add: sys_sls_update_def Let_def split: option.split)

lemma insert_wf: "wal_wf s \<Longrightarrow> wal_wf (snd (sys_sls_insert env cur req s))"
  using stage_locked_wf [of "call c s" for c] by (simp add: sys_sls_insert_def Let_def split: option.split)

lemma delete_wf: "wal_wf s \<Longrightarrow> wal_wf (snd (sys_sls_delete env cur req s))"
  using stage_locked_wf by (simp add: sys_sls_delete_def Let_def split: option.split)

lemma state_wf: "wal_wf s \<Longrightarrow> wal_wf (set_entry_state i st s)"
  by (simp add: set_entry_state_def wal_ok_def slot_ok_def entry_ok_def)

lemma close_wf: "wal_wf s \<Longrightarrow> wal_wf (close_ctx i s)"
  by (auto simp: close_ctx_def wal_ok_def ctx_ok_def)

lemma release_wf: "wal_wf (release_locks tx s) \<longleftrightarrow> wal_wf s"
  by (simp add: release_locks_def)

lemma commit_entry_wf: "wal_wf s \<Longrightarrow> wal_wf (commit_entry env cur i s)"
  using update_wf state_wf by (simp add: commit_entry_def Let_def)

lemma refresh_entry_wf: "wal_wf s \<Longrightarrow> wal_wf (refresh_entry env i s)"
  by (simp add: refresh_entry_def split: option.split)

lemma abort_entry_wf: "wal_wf s \<Longrightarrow> wal_wf (abort_entry i s)"
  by (simp add: abort_entry_def state_wf)

lemma fold_wf: "(\<And>x s. wal_wf s \<Longrightarrow> wal_wf (f x s)) \<Longrightarrow> wal_wf s \<Longrightarrow> wal_wf (fold f xs s)"
  by (rule fold_invariant [where Q = "\<lambda>_. True"]) simp_all

lemma commit_wf: "wal_wf s \<Longrightarrow> wal_wf (snd (sys_sls_tx_commit env cur t s))"
  unfolding sys_sls_tx_commit_def Let_def
  by (simp add: fold_wf refresh_entry_wf commit_entry_wf release_wf close_wf split: option.split)

lemma rollback_wf: "wal_wf s \<Longrightarrow> wal_wf (snd (sys_sls_tx_rollback t s))"
  unfolding sys_sls_tx_rollback_def Let_def
  by (simp add: fold_wf abort_entry_wf release_wf close_wf split: option.split)

lemma recover_entry_wf: "wal_wf s \<Longrightarrow> wal_wf (recover_entry env cur i s)"
  by (simp add: recover_entry_def Let_def update_wf state_wf split: WALState.split)

lemma recover_from_wf: "wal_wf s \<Longrightarrow> wal_wf (recover_from env cur i s)"
proof (induction env cur i s rule: recover_from.induct)
  case (1 env cur i s)
  then show ?case
    unfolding recover_from.simps [of env cur i s] by (simp add: recover_entry_wf)
qed

lemma exec_wf: "wal_wf s \<Longrightarrow> wal_wf (tx_exec env op s)"
  by (cases op)
    (simp_all add: begin_wf commit_wf rollback_wf sys_sls_tx_recover_def recover_from_wf update_wf insert_wf delete_wf)

lemma run_wf: "wal_wf s \<Longrightarrow> wal_wf (fold (tx_exec env) ops s)"
  by (rule fold_wf [OF exec_wf])

section \<open>Recovery\<close>

lemma state_sealed:
  assumes "sealed (e\<lparr>w_state := st\<rparr>)" and "sealed (e\<lparr>w_state := st'\<rparr>)"
  shows "st = st'"
proof -
  have "wal_bytes (e\<lparr>w_state := x, w_crc32 := 0\<rparr>) = wal_front (e\<lparr>w_crc32 := 0\<rparr>) @ wal_state_byte x # w_pad e" for x
    by (simp add: wal_bytes_def wal_front_def)
  with assms have "crc32_compute (wal_front (e\<lparr>w_crc32 := 0\<rparr>) @ wal_state_byte st # w_pad e) =
      crc32_compute (wal_front (e\<lparr>w_crc32 := 0\<rparr>) @ wal_state_byte st' # w_pad e)"
    by (simp add: sealed_def)
  then have "wal_state_byte st = wal_state_byte st'"
    by (simp only: crc32_one_byte)
  then show ?thesis
    by (cases st; cases st') simp_all
qed

lemma recover_finished:
  assumes "wal_wf s" and "i < wal_entry_count s" and "w_state (wal_buffer s i) \<noteq> WAL_STATE_PENDING"
  shows "recover_entry env cur i s = s"
proof -
  let ?e = "wal_buffer s i"
  have "sealed (?e\<lparr>w_state := WAL_STATE_PENDING\<rparr>)"
    using assms by (simp add: wal_ok_def entry_ok_def)
  moreover have "?e = ?e\<lparr>w_state := w_state ?e\<rparr>"
    by simp
  ultimately have "\<not> sealed ?e"
    using state_sealed assms(3) by metis
  then show ?thesis
    by (simp add: recover_entry_def Let_def)
qed

lemma recover_from_finished:
  assumes "wal_wf s" and "\<And>i. i < wal_entry_count s \<Longrightarrow> w_state (wal_buffer s i) \<noteq> WAL_STATE_PENDING"
  shows "recover_from env cur i s = s"
  using assms
proof (induction env cur i s rule: recover_from.induct)
  case (1 env cur i s)
  then show ?case
    by (subst recover_from.simps) (simp add: recover_finished)
qed

section \<open>A transaction that runs alone\<close>











lemma tx_active_cong: "tx_contexts s = tx_contexts t \<Longrightarrow> tx_get_active c s = tx_get_active c t"
  by (simp add: tx_get_active_def find_ctx_def cong: option.case_cong)


















section \<open>Writes the log loses\<close>

text \<open>Which fields exist is the same before and after: same keys, same active flags.\<close>

definition same_fields :: "records \<Rightarrow> records \<Rightarrow> bool" where
  "same_fields r r' \<longleftrightarrow> (\<forall>obj i. rf_active (or_fields (r' obj) i) = rf_active (or_fields (r obj) i) \<and>
     rf_key (or_fields (r' obj) i) = rf_key (or_fields (r obj) i))"

lemma same_fields_trans: "same_fields a b \<Longrightarrow> same_fields b c \<Longrightarrow> same_fields a c"
  by (simp add: same_fields_def)

lemma stage_records: "object_records (snd (stage_locked cur tx oid k v w j s)) = object_records s"
  by (simp add: stage_locked_def wal_stage_def Let_def split: prod.split option.split)

lemma update_same_fields:
  assumes "\<And>n r. mqt_effect env n r = r"
  shows "same_fields (object_records s) (object_records (snd (sys_sls_update env cur u s)))"
  using assms by (simp add: sys_sls_update_def Let_def same_fields_def stage_records set_field_def split: option.split)

text \<open>
  A commit neither adds nor removes a field: it replays every entry as an update, also the staged inserts and deletes.
\<close>

lemma commit_same_fields:
  assumes "\<And>n r. mqt_effect env n r = r"
  shows "same_fields (object_records s) (object_records (snd (sys_sls_tx_commit env cur t s)))"
proof -
  have commit: "same_fields (object_records s) (object_records (commit_entry env cur i s))" for i s
    using update_same_fields [OF assms, of "set_entry_state i WAL_STATE_COMMITTED s"]
    by (simp add: commit_entry_def Let_def set_entry_state_def same_fields_def)
  have refresh: "same_fields (object_records s) (object_records (refresh_entry env i s))" for i s
    using assms by (simp add: refresh_entry_def same_fields_def split: option.split)
  have loop: "same_fields (object_records s) (object_records (fold f xs s))"
    if "\<And>i s. same_fields (object_records s) (object_records (f i s))" for f :: "nat \<Rightarrow> tx_state \<Rightarrow> tx_state" and xs s
  proof (induction xs arbitrary: s)
    case (Cons x xs)
    from same_fields_trans [OF that Cons.IH] show ?case
      by simp
  qed (simp add: same_fields_def)
  show ?thesis
  proof (cases "find_ctx t s")
    case (Some i)
    let ?c = "tx_contexts s i" and ?s3 = "call persist_defer_begin (close_ctx i s)"
    let ?s4 = "fold (commit_entry env cur) (ctx_range ?c) ?s3"
    let ?s5 = "release_locks (tc_tx_id ?c) (call (journal_commit_tx (tc_tx_id ?c)) ?s4)"
    let ?s6 = "fold (refresh_entry env) (ctx_range ?c) ?s5"
    have eq: "object_records ?s3 = object_records s" "object_records ?s5 = object_records ?s4"
      by (simp_all add: close_ctx_def release_locks_def)
    have "same_fields (object_records ?s3) (object_records ?s4)"
      by (rule loop [OF commit])
    moreover have "same_fields (object_records ?s5) (object_records ?s6)"
      by (rule loop [OF refresh])
    ultimately have "same_fields (object_records s) (object_records ?s6)"
      unfolding eq by (rule same_fields_trans)
    with Some show ?thesis
      by (simp add: sys_sls_tx_commit_def Let_def)
  qed (simp add: sys_sls_tx_commit_def same_fields_def)
qed

text \<open>Once the log is full an update inside a transaction reports success and is recorded nowhere.\<close>

lemma full_log_drops_update:
  assumes "sys_sls_update env cur u s = (0, s')" and "tx_get_active cur s \<noteq> 0" and "wal_entry_count s \<ge> WAL_MAX_ENTRIES"
  shows "wal_buffer s' = wal_buffer s \<and> wal_entry_count s' = wal_entry_count s \<and> tx_contexts s' = tx_contexts s \<and>
    object_records s' = object_records s"
proof -
  have stage: "snd (wal_stage cur oid k v w x) = x" if "wal_entry_count x = wal_entry_count s" for oid k v w x
    using assms(3) that by (simp add: wal_stage_def Let_def split: option.split)
  obtain oid k v w j c l where "s' = call j (snd (wal_stage cur oid k v w ((call c s)\<lparr>tx_locks := l\<rparr>)))"
    using assms(1,2) tx_active_cong [of "call c s" s cur for c]
    by (auto simp: sys_sls_update_def stage_locked_def Let_def split: option.splits if_splits prod.splits)
  then show ?thesis
    by (simp add: stage)
qed

section \<open>Sample states\<close>

definition blank_entry :: WALEntry where
  "blank_entry = \<lparr>w_magic = 0, w_entry_id = 0, w_crc32 = 0, w_tx_id = 0, w_object_id = 0, w_key = replicate 48 (CHR 0x00),
     w_old_value = replicate 64 (CHR 0x00), w_new_value = replicate 64 (CHR 0x00), w_state = WAL_STATE_PENDING, w_pad = replicate 7 0\<rparr>"

definition idle_ctx :: TxContext where
  "idle_ctx = \<lparr>tc_tx_id = 0, tc_thread_id = 0, tc_wal_start = 0, tc_wal_count = 0, tc_active = False\<rparr>"

definition free_locks :: lock_state where
  "free_locks = \<lparr>lock_table = (\<lambda>_. \<lparr>le_tx_id = 0, le_object_id = 0, le_key = [], le_type = LOCK_SHARED, le_active = False\<rparr>), lock_entry_count = 0\<rparr>"

definition plain_env :: tx_env where
  "plain_env = \<lparr>constraint_check_update = (\<lambda>_ _ _ _ _. 0), constraint_check_insert = (\<lambda>_ _ _ _. 0), mqt_effect = (\<lambda>_ r. r)\<rparr>"

text \<open>One object, \<open>acc\<close>, with the field \<open>bal = 10\<close>; nothing in the log.\<close>

definition tx_boot :: tx_state where
  "tx_boot = \<lparr>wal_buffer = (\<lambda>_. blank_entry), wal_entry_count = 0, wal_next_tx_id = 1, tx_contexts = (\<lambda>_. idle_ctx),
     object_catalog = (\<lambda>_. \<lparr>oe_object_id = 7, oe_name = ''acc'', oe_perm_mask = 0, oe_active = True, oe_uses_rowstore = False\<rparr>),
     object_catalog_count = 1,
     object_records = (\<lambda>_. \<lparr>or_field_count = 1, or_fields = (\<lambda>i. \<lparr>rf_key = ''bal'', rf_value = ''10'', rf_active = i = 0\<rparr>)\<rparr>),
     tx_locks = free_locks, tx_calls = []\<rparr>"

definition set_bal :: SLSRecordRequest where
  "set_bal = \<lparr>rq_name = ''acc'', rq_key = ''bal'', rq_value = ''25''\<rparr>"

lemma boot_sel:
  "wal_buffer tx_boot = (\<lambda>_. blank_entry)" "wal_entry_count tx_boot = 0" "wal_next_tx_id tx_boot = 1" "tx_contexts tx_boot = (\<lambda>_. idle_ctx)"
  "object_catalog tx_boot i = \<lparr>oe_object_id = 7, oe_name = ''acc'', oe_perm_mask = 0, oe_active = True, oe_uses_rowstore = False\<rparr>"
  "object_catalog_count tx_boot = 1" "tx_locks tx_boot = free_locks"
  "object_records tx_boot i = \<lparr>or_field_count = 1, or_fields = (\<lambda>i. \<lparr>rf_key = ''bal'', rf_value = ''10'', rf_active = i = 0\<rparr>)\<rparr>"
  by (simp_all add: tx_boot_def)

lemma blank_slot: "slot_ok blank_entry"
  by (simp add: slot_ok_def blank_entry_def)

lemma boot_wf: "wal_wf tx_boot"
  by (simp add: wal_ok_def ctx_ok_def tx_boot_def idle_ctx_def blank_slot)


text \<open>A log with one entry, committed.\<close>

definition tx_committed :: tx_state where
  "tx_committed = tx_boot\<lparr>wal_entry_count := 1,
     wal_buffer := (\<lambda>_. (wal_fill blank_entry 0 1 7 ''bal'' ''10'' ''25'')\<lparr>w_state := WAL_STATE_COMMITTED\<rparr>)\<rparr>"

lemma committed_wf: "wal_wf tx_committed"
proof -
  have "slot_ok (wal_fill blank_entry 0 1 7 ''bal'' ''10'' ''25'')" "entry_ok 0 (wal_fill blank_entry 0 1 7 ''bal'' ''10'' ''25'')"
    using fill_ok [OF blank_slot, of 0] by (simp_all add: limits)
  then show ?thesis
    by (simp add: tx_committed_def tx_boot_def wal_ok_def slot_ok_def entry_ok_def ctx_ok_def idle_ctx_def limits)
qed


lemma begin_at:
  assumes "find_ctx t s = None" and "i < MAX_ACTIVE_TRANSACTIONS" and "\<not> tc_active (tx_contexts s i)" and "\<forall>j < i. tc_active (tx_contexts s j)"
  shows "snd (sys_sls_tx_begin t s) = s\<lparr>wal_next_tx_id := u64 (wal_next_tx_id s + 1),
    tx_contexts := (tx_contexts s)(i := \<lparr>tc_tx_id = wal_next_tx_id s, tc_thread_id = t, tc_wal_start = wal_entry_count s,
      tc_wal_count = 0, tc_active = True\<rparr>)\<rparr>"
    and "fst (sys_sls_tx_begin t s) = wal_next_tx_id s"
proof -
  have "List.find (\<lambda>i. \<not> tc_active (tx_contexts s i)) [0..<MAX_ACTIVE_TRANSACTIONS] = Some i"
    using assms by (simp add: find_upt_Some)
  with assms(1) show "snd (sys_sls_tx_begin t s) = s\<lparr>wal_next_tx_id := u64 (wal_next_tx_id s + 1),
      tx_contexts := (tx_contexts s)(i := \<lparr>tc_tx_id = wal_next_tx_id s, tc_thread_id = t, tc_wal_start = wal_entry_count s,
        tc_wal_count = 0, tc_active = True\<rparr>)\<rparr>" "fst (sys_sls_tx_begin t s) = wal_next_tx_id s"
    by (simp_all add: sys_sls_tx_begin_def)
qed

lemma find_ctx_at:
  "i < MAX_ACTIVE_TRANSACTIONS \<Longrightarrow> tc_active (tx_contexts s i) \<Longrightarrow> tc_thread_id (tx_contexts s i) = t \<Longrightarrow>
   \<forall>j < i. tc_thread_id (tx_contexts s j) \<noteq> t \<Longrightarrow> find_ctx t s = Some i"
  by (simp add: find_ctx_def find_upt_Some)



text \<open>
  Threads 4 and 5 stage in turn. The range that thread 4 commits holds the entry of thread 5 and misses its own second one.
\<close>

definition two_open :: tx_state where
  "two_open = snd (sys_sls_tx_begin 5 (snd (sys_sls_tx_begin 4 (tx_boot\<lparr>object_catalog_count := 0\<rparr>))))"

definition interleaved :: tx_state where
  "interleaved = snd (wal_stage 4 7 ''c'' '''' ''3'' (snd (wal_stage 5 7 ''b'' '''' ''2'' (snd (wal_stage 4 7 ''a'' '''' ''1'' two_open)))))"

lemma two_open:
  "tx_contexts two_open = (\<lambda>_. idle_ctx)(
     0 := \<lparr>tc_tx_id = 1, tc_thread_id = 4, tc_wal_start = 0, tc_wal_count = 0, tc_active = True\<rparr>,
     1 := \<lparr>tc_tx_id = 2, tc_thread_id = 5, tc_wal_start = 0, tc_wal_count = 0, tc_active = True\<rparr>)"
  "wal_entry_count two_open = 0" "object_catalog_count two_open = 0"
proof -
  let ?s0 = "tx_boot\<lparr>object_catalog_count := 0\<rparr>"
  let ?s1 = "snd (sys_sls_tx_begin 4 ?s0)"
  have s1: "?s1 = ?s0\<lparr>wal_next_tx_id := 2, tx_contexts := (\<lambda>_. idle_ctx)(0 := \<lparr>tc_tx_id = 1, tc_thread_id = 4, tc_wal_start = 0,
      tc_wal_count = 0, tc_active = True\<rparr>)\<rparr>"
    by (subst begin_at [where i = 0]) (simp_all add: find_ctx_None boot_sel idle_ctx_def limits u64_def)
  have two: "two_open = ?s1\<lparr>wal_next_tx_id := 3, tx_contexts := (tx_contexts ?s1)(1 := \<lparr>tc_tx_id = 2, tc_thread_id = 5, tc_wal_start = 0,
      tc_wal_count = 0, tc_active = True\<rparr>)\<rparr>"
    unfolding two_open_def
    by (subst begin_at [where i = 1]) (simp_all add: s1 find_ctx_None boot_sel idle_ctx_def limits u64_def)
  show "tx_contexts two_open = (\<lambda>_. idle_ctx)(
       0 := \<lparr>tc_tx_id = 1, tc_thread_id = 4, tc_wal_start = 0, tc_wal_count = 0, tc_active = True\<rparr>,
       1 := \<lparr>tc_tx_id = 2, tc_thread_id = 5, tc_wal_start = 0, tc_wal_count = 0, tc_active = True\<rparr>)"
    "wal_entry_count two_open = 0" "object_catalog_count two_open = 0"
    unfolding two s1 by (simp_all add: boot_sel)
qed

lemma stage_at:
  assumes "find_ctx t s = Some i" and "wal_entry_count s < WAL_MAX_ENTRIES"
  shows "snd (wal_stage t oid key old new s) = s\<lparr>wal_buffer := (wal_buffer s)(wal_entry_count s :=
      wal_fill (wal_buffer s (wal_entry_count s)) (wal_entry_count s) (tc_tx_id (tx_contexts s i)) oid key old new),
    wal_entry_count := u32 (wal_entry_count s + 1),
    tx_contexts := (tx_contexts s)(i := (tx_contexts s i)\<lparr>tc_wal_count := u32 (tc_wal_count (tx_contexts s i) + 1)\<rparr>)\<rparr>"
  using assms by (simp add: wal_stage_def Let_def)

lemma fill_sel:
  "w_tx_id (wal_fill e n tx oid key old new) = tx" "w_state (wal_fill e n tx oid key old new) = WAL_STATE_PENDING"
  by (simp_all add: wal_fill_def Let_def)

lemma interleaved:
  "w_tx_id (wal_buffer interleaved 0) = 1" "w_tx_id (wal_buffer interleaved 1) = 2" "w_tx_id (wal_buffer interleaved 2) = 1"
  "i < 3 \<Longrightarrow> w_state (wal_buffer interleaved i) = WAL_STATE_PENDING" "object_catalog_count interleaved = 0"
  "tx_contexts interleaved = (\<lambda>_. idle_ctx)(
     0 := \<lparr>tc_tx_id = 1, tc_thread_id = 4, tc_wal_start = 0, tc_wal_count = 2, tc_active = True\<rparr>,
     1 := \<lparr>tc_tx_id = 2, tc_thread_id = 5, tc_wal_start = 0, tc_wal_count = 1, tc_active = True\<rparr>)"
proof -
  define a where "a = snd (wal_stage 4 7 ''a'' [] ''1'' two_open)"
  define b where "b = snd (wal_stage 5 7 ''b'' [] ''2'' a)"
  have "find_ctx 4 two_open = Some 0"
    by (rule find_ctx_at) (simp_all add: two_open limits)
  note a = stage_at [OF this, of 7 "''a''" "[]" "''1''", folded a_def]
  have "find_ctx 5 a = Some 1"
    by (rule find_ctx_at) (simp_all add: a two_open limits)
  note b = stage_at [OF this, of 7 "''b''" "[]" "''2''", folded b_def]
  have "find_ctx 4 b = Some 0"
    by (rule find_ctx_at) (simp_all add: b a two_open limits)
  note c = stage_at [OF this, of 7 "''c''" "[]" "''3''"]
  have i: "interleaved = snd (wal_stage 4 7 ''c'' [] ''3'' b)"
    by (simp add: interleaved_def a_def b_def)
  have n: "wal_entry_count two_open < WAL_MAX_ENTRIES" "wal_entry_count a < WAL_MAX_ENTRIES" "wal_entry_count b < WAL_MAX_ENTRIES"
    by (simp_all add: a b two_open limits)
  note i = trans [OF i c [OF n(3)]]
  note s = b [OF n(2)] a [OF n(1)] two_open fill_sel
  show "w_tx_id (wal_buffer interleaved 0) = 1" "w_tx_id (wal_buffer interleaved 1) = 2" "w_tx_id (wal_buffer interleaved 2) = 1"
    "object_catalog_count interleaved = 0"
    unfolding i by (simp_all add: s limits)
  show "tx_contexts interleaved = (\<lambda>_. idle_ctx)(
     0 := \<lparr>tc_tx_id = 1, tc_thread_id = 4, tc_wal_start = 0, tc_wal_count = 2, tc_active = True\<rparr>,
     1 := \<lparr>tc_tx_id = 2, tc_thread_id = 5, tc_wal_start = 0, tc_wal_count = 1, tc_active = True\<rparr>)"
    unfolding i by (rule ext) (simp add: s limits)
  show "i < 3 \<Longrightarrow> w_state (wal_buffer interleaved i) = WAL_STATE_PENDING"
    unfolding i by (simp add: s limits)
qed

lemma commit_absent:
  assumes "object_catalog_count s = 0"
  shows "commit_entry env cur i s = (if w_state (wal_buffer s i) = WAL_STATE_PENDING then set_entry_state i WAL_STATE_COMMITTED s else s)"
    and "refresh_entry env i s = s"
  using assms
  by (simp_all add: commit_entry_def refresh_entry_def Let_def sys_sls_update_def find_by_name_def object_with_id_def set_entry_state_def)

lemma interleaved_commit:
  "map (\<lambda>i. w_tx_id (wal_buffer interleaved i)) [0, 1, 2] = [1, 2, 1] \<and>
   map (\<lambda>i. w_state (wal_buffer (snd (sys_sls_tx_commit plain_env 4 4 interleaved)) i)) [0, 1, 2] =
     [WAL_STATE_COMMITTED, WAL_STATE_COMMITTED, WAL_STATE_PENDING]"
proof -
  let ?s = "call persist_defer_begin (close_ctx 0 interleaved)"
  have ctx: "find_ctx 4 interleaved = Some 0"
    by (rule find_ctx_at) (simp_all add: interleaved limits)
  have range: "ctx_range (tx_contexts interleaved 0) = [0, 1]"
    by (simp add: ctx_range_def interleaved numeral_2_eq_2)
  have none: "object_catalog_count ?s = 0" "wal_buffer ?s = wal_buffer interleaved"
    by (simp_all add: close_ctx_def interleaved)
  have "fold (commit_entry plain_env 4) [0, 1] ?s = set_entry_state 1 WAL_STATE_COMMITTED (set_entry_state 0 WAL_STATE_COMMITTED ?s)"
    using none interleaved(4) [of 0] interleaved(4) [of 1] by (simp add: commit_absent set_entry_state_def)
  then have "wal_buffer (snd (sys_sls_tx_commit plain_env 4 4 interleaved)) =
      wal_buffer (set_entry_state 1 WAL_STATE_COMMITTED (set_entry_state 0 WAL_STATE_COMMITTED ?s))"
    using none by (simp add: sys_sls_tx_commit_def Let_def ctx range commit_absent release_locks_def set_entry_state_def)
  with interleaved(1-3) interleaved(4) [of 2] none(2) show ?thesis
    by (simp add: set_entry_state_def)
qed

section \<open>Laws\<close>

lemma le_bytes_length: "length (le_bytes n v) = n"
  by (induction n v rule: le_bytes.induct) simp_all

text \<open>
  C33. Every operation keeps the log and its contexts in shape: at most 512 entries, each of the 216 bytes of its C structure,
  numbered by its position and carrying the checksum of its pending form; the range of an open transaction lies within
  the entries in use; and no thread has two open transactions. Recovery is one of the operations.
\<close>

theorem wal_shape:
  assumes "wal_wf s"
  shows "wal_wf (fold (tx_exec env) ops s) \<and> length (wal_bytes (wal_buffer (fold (tx_exec env) ops s) i)) = 216"
proof -
  have "wal_wf (fold (tx_exec env) ops s)"
    by (rule run_wf [OF assms])
  then show ?thesis
    by (simp add: wal_ok_def slot_ok_def wal_bytes_def wal_front_def le_bytes_length)
qed

theorem wal_shape_witness:
  "wal_wf (fold (tx_exec plain_env) [TxBegin 3, TxUpdate 3 set_bal, TxCommit 3 3, TxRecover 3] tx_boot) \<and>
   length (wal_bytes (wal_buffer (fold (tx_exec plain_env) [TxBegin 3, TxUpdate 3 set_bal, TxCommit 3 3, TxRecover 3] tx_boot) 0)) = 216"
  by (rule wal_shape [OF boot_wf])



text \<open>
  C34. Recovery never redoes a committed entry: on a well-formed log whose entries are all committed or aborted, it leaves the
  whole state as it is. The checksum covers the state byte and is not renewed when an entry is committed, so every
  committed entry is taken for a damaged one.
\<close>

theorem recover_skips_committed:
  assumes "wal_wf s" and "\<forall>i < wal_entry_count s. w_state (wal_buffer s i) \<noteq> WAL_STATE_PENDING"
  shows "sys_sls_tx_recover env cur s = s"
  unfolding sys_sls_tx_recover_def by (rule recover_from_finished) (use assms in simp_all)

theorem recover_skips_committed_witness:
  "w_state (wal_buffer tx_committed 0) = WAL_STATE_COMMITTED \<and> sys_sls_tx_recover plain_env 3 tx_committed = tx_committed"
  using recover_skips_committed [OF committed_wf, of plain_env 3] by (simp add: tx_committed_def)

end
