(* ===== verification/Keyed_Table.thy ===== *)
theory Keyed_Table
  imports Cap_Prelude
begin

text \<open>
  The interface of the registries: a fixed table of entries with an active flag, searched from slot 0 for the active
  entry with a given key. A registry is one such table when its search function is this scan; what a search finds
  after an entry is added, replaced or switched off is proved here once for all of them.
\<close>

locale keyed_table =
  fixes find_idx :: "'k \<Rightarrow> 's \<Rightarrow> nat option"
    and tab :: "'s \<Rightarrow> nat \<Rightarrow> 'e"
    and act :: "'e \<Rightarrow> bool"
    and key :: "'e \<Rightarrow> 'k"
    and bound :: "'s \<Rightarrow> nat"
  assumes scan: "find_idx k s = List.find (\<lambda>i. act (tab s i) \<and> key (tab s i) = k) [0..<bound s]"
begin

lemma found:
  "find_idx k s = Some i \<longleftrightarrow>
     i < bound s \<and> act (tab s i) \<and> key (tab s i) = k \<and> (\<forall>j<i. \<not> (act (tab s j) \<and> key (tab s j) = k))"
  unfolding scan find_upt_Some by auto

lemma absent: "find_idx k s = None \<longleftrightarrow> (\<forall>i<bound s. act (tab s i) \<longrightarrow> key (tab s i) \<noteq> k)"
  unfolding scan find_None_iff by auto

lemma same: "tab s' = tab s \<Longrightarrow> bound s' = bound s \<Longrightarrow> find_idx k s' = find_idx k s"
  by (simp add: scan)

lemma add:
  assumes "find_idx (key e) s = None" and "i < bound s" and "\<not> act (tab s i)" and "act e"
    and "tab s' = (tab s)(i := e)" and "bound s' = bound s"
  shows "find_idx k s' = (if k = key e then Some i else find_idx k s)"
proof (cases "k = key e")
  case True
  then show ?thesis
    using assms unfolding absent by (simp add: found)
next
  case False
  then have "(\<lambda>j. act (tab s' j) \<and> key (tab s' j) = k) = (\<lambda>j. act (tab s j) \<and> key (tab s j) = k)"
    using assms(3-5) by (auto simp: fun_eq_iff)
  with False show ?thesis
    by (simp add: scan assms(6))
qed

lemma replace:
  assumes "act e = act (tab s i)" and "key e = key (tab s i)" and "tab s' = (tab s)(i := e)" and "bound s' = bound s"
  shows "find_idx k s' = find_idx k s"
proof -
  have "(\<lambda>j. act (tab s' j) \<and> key (tab s' j) = k) = (\<lambda>j. act (tab s j) \<and> key (tab s j) = k)"
    using assms by (auto simp: fun_eq_iff)
  then show ?thesis
    by (simp add: scan assms(4))
qed

text \<open>At most one active entry has a key.\<close>

definition unique :: "'s \<Rightarrow> bool" where
  "unique s \<longleftrightarrow> (\<forall>i<bound s. \<forall>j<bound s. act (tab s i) \<longrightarrow> act (tab s j) \<longrightarrow> key (tab s i) = key (tab s j) \<longrightarrow> i = j)"

lemma unique_found:
  assumes "unique s" and "i < bound s" and "act (tab s i)" and "key (tab s i) = k"
  shows "find_idx k s = Some i"
  using assms unfolding unique_def found by (metis order.strict_trans order.strict_iff_not)

lemma unique_add:
  assumes "unique s" and "find_idx (key e) s = None" and "tab s' = (tab s)(i := e)" and "bound s' = bound s"
  shows "unique s'"
  using assms unfolding unique_def absent by (simp add: all_conj_distrib) metis

lemma unique_replace:
  assumes "unique s" and "act e \<longrightarrow> act (tab s i) \<and> key e = key (tab s i)" and "tab s' = (tab s)(i := e)"
    and "bound s' = bound s"
  shows "unique s'"
  using assms unfolding unique_def by (simp add: all_conj_distrib) metis

lemma unique_off:
  assumes "unique s" and "find_idx k s = Some i" and "\<not> act e" and "tab s' = (tab s)(i := e)" and "bound s' = bound s"
  shows "find_idx k' s' = (if k' = k then None else find_idx k' s)"
proof (cases "k' = k")
  case True
  have "find_idx k s' = None"
    unfolding absent using assms unfolding unique_def found by simp metis
  with True show ?thesis
    by simp
next
  case False
  then have "(\<lambda>j. act (tab s' j) \<and> key (tab s' j) = k') = (\<lambda>j. act (tab s j) \<and> key (tab s j) = k')"
    using assms(2-4) unfolding found by (auto simp: fun_eq_iff)
  with False show ?thesis
    by (simp add: scan assms(5))
qed

end

end
