(* ===== verification/Access.thy ===== *)
theory Access
  imports Transaction Keyed_Table
begin

text \<open>
  Who may use an object: the catalog entries and roles of \<^verbatim>\<open>src/kernel/object_catalog.c\<close>, the groups of
  \<^verbatim>\<open>src/kernel/group_profile.c\<close>, the authorization lists of \<^verbatim>\<open>src/kernel/authlist.c\<close>, the databases and their grants
  of \<^verbatim>\<open>src/kernel/database.c\<close>, the tenants of \<^verbatim>\<open>src/kernel/tenant.c\<close>, the partitions of \<^verbatim>\<open>src/kernel/partition.c\<close> and
  the audit log of \<^verbatim>\<open>src/kernel/security_audit.c\<close>, on one record with a field for each of their global tables. This
  theory holds the data, the lookups and the access check; the operations that change the tables are in
  \<^verbatim>\<open>Partition_Ops\<close> and \<^verbatim>\<open>Access_Admin\<close>. A table is a function from slots; an array with a count keeps what is behind the count. A string
  argument is not null; where the code tests for null it treats null like the empty string, except
  \<^verbatim>\<open>partition_create\<close>, which refuses null. The files have textually equal copies of the string helpers; the copies of
  \<^verbatim>\<open>object_catalog.c\<close> stand for all of them. Output to the serial port is left out.
\<close>

section \<open>Data\<close>

definition CATALOG_MAX_OBJECTS :: nat where [limits]: "CATALOG_MAX_OBJECTS = 128"
definition ROLE_TABLE_MAX :: nat where [limits]: "ROLE_TABLE_MAX = 64"
definition GROUP_NAME_LEN :: nat where [limits]: "GROUP_NAME_LEN = 32"
definition GROUP_TABLE_MAX :: nat where [limits]: "GROUP_TABLE_MAX = 64"
definition GROUP_MAX_MEMBERS :: nat where [limits]: "GROUP_MAX_MEMBERS = 16"
definition AUTHLIST_NAME_LEN :: nat where [limits]: "AUTHLIST_NAME_LEN = 32"
definition AUTHLIST_MAX :: nat where [limits]: "AUTHLIST_MAX = 16"
definition AUTHLIST_MAX_OBJECTS :: nat where [limits]: "AUTHLIST_MAX_OBJECTS = 8"
definition AUTHLIST_MAX_GRANTEE_UIDS :: nat where [limits]: "AUTHLIST_MAX_GRANTEE_UIDS = 16"
definition AUTHLIST_MAX_GRANTEE_GROUPS :: nat where [limits]: "AUTHLIST_MAX_GRANTEE_GROUPS = 8"
definition DATABASE_NAME_LEN :: nat where [limits]: "DATABASE_NAME_LEN = 32"
definition DATABASE_MAX :: nat where [limits]: "DATABASE_MAX = 256"
definition DATABASE_GRANT_MAX :: nat where [limits]: "DATABASE_GRANT_MAX = 1024"
definition DATABASE_GRANT_MAX_UIDS :: nat where [limits]: "DATABASE_GRANT_MAX_UIDS = 16"
definition DATABASE_GRANT_MAX_GROUPS :: nat where [limits]: "DATABASE_GRANT_MAX_GROUPS = 8"
definition TENANT_NAME_LEN :: nat where [limits]: "TENANT_NAME_LEN = 32"
definition TENANT_MAX :: nat where [limits]: "TENANT_MAX = 256"
definition PARTITION_MAX :: nat where [limits]: "PARTITION_MAX = 256"
definition PARTITION_ASSIGN_MAX :: nat where [limits]: "PARTITION_ASSIGN_MAX = 4096"
definition PARTITION_NAME_LEN :: nat where [limits]: "PARTITION_NAME_LEN = 32"
definition AUDIT_LOG_MAX :: nat where [limits]: "AUDIT_LOG_MAX = 256"
definition AUDIT_ACTION_LEN :: nat where [limits]: "AUDIT_ACTION_LEN = 24"
definition AUDIT_DETAIL_LEN :: nat where [limits]: "AUDIT_DETAIL_LEN = 96"

abbreviation (input) PARTITION_SYSTEM :: nat where "PARTITION_SYSTEM \<equiv> 0"
abbreviation (input) PARTITION_DEFAULT :: nat where "PARTITION_DEFAULT \<equiv> 0"
abbreviation (input) PARTITION_NONE :: nat where "PARTITION_NONE \<equiv> 0xFFFFFFFF"

definition PERM_READ :: "32 word" where "PERM_READ = 1"
definition PERM_WRITE :: "32 word" where "PERM_WRITE = 2"
definition PERM_EXECUTE :: "32 word" where "PERM_EXECUTE = 4"
definition PERM_OWNER :: "32 word" where "PERM_OWNER = 8"

datatype SLSObjectType =
  OBJ_TYPE_SYSTEM_METADATA | OBJ_TYPE_DB_TABLE | OBJ_TYPE_DB_INDEX | OBJ_TYPE_HEAP_BLOB | OBJ_TYPE_SERVICE_PROCESS
| OBJ_TYPE_WEB_APP | OBJ_TYPE_JOURNAL | OBJ_TYPE_PROGRAM | OBJ_TYPE_STREAM | OBJ_TYPE_AGENT | OBJ_TYPE_WORKFLOW

datatype SLSStorageTier = STORAGE_TIER_L1_CACHE | STORAGE_TIER_L2_DRAM | STORAGE_TIER_L3_SSD

datatype SLSRole = ROLE_SYSTEM_KERNEL | ROLE_DB_ADMIN | ROLE_APP_USER | ROLE_GUEST

text \<open>The rest of the fields of a catalog entry, after those that the record operations use.\<close>

record SLSCatalogEntry = SLSObjectEntry +
  oe_type :: SLSObjectType
  oe_base_vaddr :: nat
  oe_size_pages :: nat
  oe_owner_uid :: nat
  oe_storage_tier :: SLSStorageTier
  oe_owner_role :: SLSRole
  oe_partition_id :: nat
  oe_database_id :: nat

record SLSRoleEntry =
  re_uid :: nat
  re_role :: SLSRole
  re_active :: bool

record SLSGroupEntry =
  ge_name :: string
  ge_group_role :: SLSRole
  ge_member_uids :: "nat \<Rightarrow> nat"
  ge_member_count :: nat
  ge_active :: bool
  ge_partition_id :: nat

record SLSAuthListObjectGrant =
  ag_object_name :: string
  ag_perm_mask :: "32 word"
  ag_active :: bool

record SLSAuthListEntry =
  al_name :: string
  al_objects :: "nat \<Rightarrow> SLSAuthListObjectGrant"
  al_object_count :: nat
  al_grantee_uids :: "nat \<Rightarrow> nat"
  al_grantee_uid_count :: nat
  al_grantee_groups :: "nat \<Rightarrow> string"
  al_grantee_group_count :: nat
  al_active :: bool
  al_partition_id :: nat

record SLSDatabaseEntry =
  de_database_id :: nat
  de_name :: string
  de_owner_uid :: nat
  de_active :: bool

record SLSDatabaseGrant =
  dg_database_id :: nat
  dg_perm_mask :: "32 word"
  dg_grantee_uids :: "nat \<Rightarrow> nat"
  dg_grantee_uid_count :: nat
  dg_grantee_groups :: "nat \<Rightarrow> string"
  dg_grantee_group_count :: nat
  dg_active :: bool

record SLSTenantEntry =
  te_tenant_id :: nat
  te_name :: string
  te_partition_id :: nat
  te_database_id :: nat
  te_owner_uid :: nat
  te_active :: bool

record SLSPartitionEntry =
  pe_partition_id :: nat
  pe_name :: string
  pe_active :: bool

record SLSPartitionAssign =
  pa_uid :: nat
  pa_partition_id :: nat
  pa_active :: bool

record SLSPartitionOwner =
  po_partition_id :: nat
  po_node_id :: nat
  po_active :: bool

record SLSAuditEntry =
  ae_id :: nat
  ae_tick :: nat
  ae_uid :: nat
  ae_action :: string
  ae_detail :: string
  ae_granted :: bool

text \<open>
  Calls out of the modelled files, recorded in order. They persist a table, talk to the cluster, or release or move what
  another component keeps for an object or a partition; none of them writes a table below.
\<close>

datatype acall =
  PersistCatalog | PersistPartitions | PersistDatabases | PersistTenants
| VecstoreFreed string | LoaderVfree string | LoaderVfreePartition nat
| KillPartition nat | ReclaimFrames nat | ServiceUnregister nat | BornBounded nat
| Announce nat string nat | Withdraw nat | OwnedSet nat "nat list"
| MigrateIntentBegin | MigrateIntentEnd | LeaseStepDown nat | StreamSend nat nat | StreamRelocate nat nat
| CtxSend nat nat | EnvMigrate nat nat bool

record acc_state =
  entries :: "nat \<Rightarrow> SLSCatalogEntry"
  entry_count :: nat
  field_counts :: "nat \<Rightarrow> nat"
  next_obj_vaddr :: nat
  role_table :: "nat \<Rightarrow> SLSRoleEntry"
  group_table :: "nat \<Rightarrow> SLSGroupEntry"
  group_table_count :: nat
  authlist_table :: "nat \<Rightarrow> SLSAuthListEntry"
  authlist_table_count :: nat
  databases :: "nat \<Rightarrow> SLSDatabaseEntry"
  database_next_id :: nat
  database_grants :: "nat \<Rightarrow> SLSDatabaseGrant"
  database_grant_count :: nat
  tenants :: "nat \<Rightarrow> SLSTenantEntry"
  tenant_next_id :: nat
  partition_table :: "nat \<Rightarrow> SLSPartitionEntry"
  partition_assign_table :: "nat \<Rightarrow> SLSPartitionAssign"
  partition_owner_table :: "nat \<Rightarrow> SLSPartitionOwner"
  partition_paused :: "nat \<Rightarrow> bool"
  security_audit_log_buf :: "nat \<Rightarrow> SLSAuditEntry"
  security_audit_log_count :: nat
  security_audit_next_id :: nat
  kernel_tick_counter :: nat
  cluster_local_node_id :: nat
  cluster_leader_id :: nat
  partition_persist_dirty :: bool
  partition_ownedset_seen :: "nat \<Rightarrow> nat"
  partition_last_reannounce_tick :: nat
  partition_reannounce_periods :: nat
  partition_ownedset_generation :: nat
  acalls :: "acall list"

definition acall :: "acall \<Rightarrow> acc_state \<Rightarrow> acc_state" where
  "acall c s = s\<lparr>acalls := acalls s @ [c]\<rparr>"

section \<open>Lookups\<close>

definition find_entry :: "string \<Rightarrow> acc_state \<Rightarrow> nat option" where
  "find_entry name s =
     List.find (\<lambda>i. oe_active (entries s i) \<and> cat_streq (oe_name (entries s i)) name) [0..<entry_count s]"

definition role_idx :: "nat \<Rightarrow> acc_state \<Rightarrow> nat option" where
  "role_idx uid s = List.find (\<lambda>i. re_active (role_table s i) \<and> re_uid (role_table s i) = uid) [0..<ROLE_TABLE_MAX]"

definition catalog_get_role :: "nat \<Rightarrow> acc_state \<Rightarrow> SLSRole" where
  "catalog_get_role uid s =
     (if uid = 0 then ROLE_SYSTEM_KERNEL
      else case role_idx uid s of Some i \<Rightarrow> re_role (role_table s i) | None \<Rightarrow> ROLE_GUEST)"

definition find_group_idx :: "string \<Rightarrow> acc_state \<Rightarrow> nat option" where
  "find_group_idx name s =
     List.find (\<lambda>i. ge_active (group_table s i) \<and> cat_streq (ge_name (group_table s i)) name) [0..<GROUP_TABLE_MAX]"

definition group_contains_uid :: "string \<Rightarrow> nat \<Rightarrow> acc_state \<Rightarrow> bool" where
  "group_contains_uid name uid s =
     (case find_group_idx name s of
        None \<Rightarrow> False
      | Some idx \<Rightarrow> let g = group_table s idx in list_ex (\<lambda>i. ge_member_uids g i = uid) [0..<ge_member_count g])"

definition group_get_partition_id :: "string \<Rightarrow> acc_state \<Rightarrow> nat option" where
  "group_get_partition_id name s = map_option (\<lambda>idx. ge_partition_id (group_table s idx)) (find_group_idx name s)"

definition find_authlist_idx :: "string \<Rightarrow> acc_state \<Rightarrow> nat option" where
  "find_authlist_idx name s =
     List.find (\<lambda>i. al_active (authlist_table s i) \<and> cat_streq (al_name (authlist_table s i)) name) [0..<AUTHLIST_MAX]"

definition find_object_partition_id :: "string \<Rightarrow> acc_state \<Rightarrow> nat option" where
  "find_object_partition_id obj_name s =
     map_option (\<lambda>i. oe_partition_id (entries s i))
       (List.find (\<lambda>i. oe_active (entries s i) \<and> cat_streq (oe_name (entries s i)) obj_name) [0..<entry_count s])"

definition find_database_idx :: "string \<Rightarrow> acc_state \<Rightarrow> nat option" where
  "find_database_idx name s =
     List.find (\<lambda>i. de_active (databases s i) \<and> cat_streq (de_name (databases s i)) name) [0..<DATABASE_MAX]"

definition database_find_id :: "string \<Rightarrow> acc_state \<Rightarrow> nat" where
  "database_find_id name s = (case find_database_idx name s of None \<Rightarrow> 0 | Some idx \<Rightarrow> de_database_id (databases s idx))"

definition find_grant_idx :: "nat \<Rightarrow> acc_state \<Rightarrow> nat option" where
  "find_grant_idx database_id s =
     List.find (\<lambda>i. dg_active (database_grants s i) \<and> dg_database_id (database_grants s i) = database_id)
       [0..<DATABASE_GRANT_MAX]"

definition find_tenant_idx :: "string \<Rightarrow> acc_state \<Rightarrow> nat option" where
  "find_tenant_idx name s =
     List.find (\<lambda>i. te_active (tenants s i) \<and> cat_streq (te_name (tenants s i)) name) [0..<TENANT_MAX]"

definition tenant_find_id :: "string \<Rightarrow> acc_state \<Rightarrow> nat" where
  "tenant_find_id name s = (case find_tenant_idx name s of None \<Rightarrow> 0 | Some idx \<Rightarrow> te_tenant_id (tenants s idx))"

definition tenant_find_by_partition :: "nat \<Rightarrow> acc_state \<Rightarrow> nat" where
  "tenant_find_by_partition partition_id s =
     (case List.find (\<lambda>i. te_active (tenants s i) \<and> te_partition_id (tenants s i) = partition_id) [0..<TENANT_MAX] of
        Some i \<Rightarrow> te_tenant_id (tenants s i) | None \<Rightarrow> 0)"

definition tenant_find_by_database :: "nat \<Rightarrow> acc_state \<Rightarrow> nat" where
  "tenant_find_by_database database_id s =
     (if database_id = 0 then 0
      else case List.find (\<lambda>i. te_active (tenants s i) \<and> te_database_id (tenants s i) = database_id) [0..<TENANT_MAX] of
        Some i \<Rightarrow> te_tenant_id (tenants s i) | None \<Rightarrow> 0)"

definition assign_idx :: "nat \<Rightarrow> acc_state \<Rightarrow> nat option" where
  "assign_idx uid s =
     List.find (\<lambda>i. pa_active (partition_assign_table s i) \<and> pa_uid (partition_assign_table s i) = uid)
       [0..<PARTITION_ASSIGN_MAX]"

definition partition_get_for_uid :: "nat \<Rightarrow> acc_state \<Rightarrow> nat" where
  "partition_get_for_uid uid s =
     (if uid = 0 then PARTITION_SYSTEM
      else case assign_idx uid s of
        Some i \<Rightarrow> pa_partition_id (partition_assign_table s i) | None \<Rightarrow> PARTITION_DEFAULT)"

definition partition_id_valid :: "nat \<Rightarrow> acc_state \<Rightarrow> bool" where
  "partition_id_valid p s =
     (if p = PARTITION_SYSTEM then True else if p \<ge> PARTITION_MAX then False else pe_active (partition_table s p))"

definition owner_idx :: "nat \<Rightarrow> acc_state \<Rightarrow> nat option" where
  "owner_idx p s =
     List.find (\<lambda>i. po_active (partition_owner_table s i) \<and> po_partition_id (partition_owner_table s i) = p)
       [0..<PARTITION_MAX]"

definition partition_get_owner_node :: "nat \<Rightarrow> acc_state \<Rightarrow> nat" where
  "partition_get_owner_node p s =
     (case owner_idx p s of
        Some i \<Rightarrow> po_node_id (partition_owner_table s i) | None \<Rightarrow> 0)"

definition partition_exists :: "nat \<Rightarrow> acc_state \<Rightarrow> bool" where
  "partition_exists p s = partition_id_valid p s"

definition partition_is_local :: "nat \<Rightarrow> acc_state \<Rightarrow> bool" where
  "partition_is_local p s = (partition_get_owner_node p s = cluster_local_node_id s)"

definition partition_is_paused :: "nat \<Rightarrow> acc_state \<Rightarrow> bool" where
  "partition_is_paused p s = (if p \<ge> PARTITION_MAX then False else partition_paused s p)"

definition tenant_caller_may_administer :: "nat \<Rightarrow> nat \<Rightarrow> acc_state \<Rightarrow> bool" where
  "tenant_caller_may_administer caller_uid partition_id s =
     (let role = catalog_get_role caller_uid s
      in if role = ROLE_SYSTEM_KERNEL then True
         else if partition_id = PARTITION_SYSTEM then role = ROLE_DB_ADMIN
         else let tid = tenant_find_by_partition partition_id s
              in if tid = 0 then False
                 else case List.find (\<lambda>i. te_active (tenants s i) \<and> te_tenant_id (tenants s i) = tid) [0..<TENANT_MAX] of
                   Some i \<Rightarrow> te_owner_uid (tenants s i) = caller_uid | None \<Rightarrow> False)"

section \<open>The lookups as searches of keyed tables\<close>

interpretation ent: keyed_table find_entry entries oe_active oe_name entry_count
  by unfold_locales (simp add: find_entry_def)

interpretation rol: keyed_table role_idx role_table re_active re_uid "\<lambda>_. ROLE_TABLE_MAX"
  by unfold_locales (simp add: role_idx_def)

interpretation grp: keyed_table find_group_idx group_table ge_active ge_name "\<lambda>_. GROUP_TABLE_MAX"
  by unfold_locales (simp add: find_group_idx_def)

interpretation aut: keyed_table find_authlist_idx authlist_table al_active al_name "\<lambda>_. AUTHLIST_MAX"
  by unfold_locales (simp add: find_authlist_idx_def)

interpretation dbs: keyed_table find_database_idx databases de_active de_name "\<lambda>_. DATABASE_MAX"
  by unfold_locales (simp add: find_database_idx_def)

interpretation grt: keyed_table find_grant_idx database_grants dg_active dg_database_id "\<lambda>_. DATABASE_GRANT_MAX"
  by unfold_locales (simp add: find_grant_idx_def)

interpretation ten: keyed_table find_tenant_idx tenants te_active te_name "\<lambda>_. TENANT_MAX"
  by unfold_locales (simp add: find_tenant_idx_def)

interpretation asg: keyed_table assign_idx partition_assign_table pa_active pa_uid "\<lambda>_. PARTITION_ASSIGN_MAX"
  by unfold_locales (simp add: assign_idx_def)

interpretation own: keyed_table owner_idx partition_owner_table po_active po_partition_id "\<lambda>_. PARTITION_MAX"
  by unfold_locales (simp add: owner_idx_def)

section \<open>The access check\<close>

definition security_audit_log :: "nat \<Rightarrow> string \<Rightarrow> string \<Rightarrow> bool \<Rightarrow> acc_state \<Rightarrow> acc_state" where
  "security_audit_log uid action detail granted s =
     (let n = security_audit_log_count s
      in if n \<ge> AUDIT_LOG_MAX then s
         else s\<lparr>security_audit_log_buf := (security_audit_log_buf s)(n :=
                  \<lparr>ae_id = security_audit_next_id s, ae_tick = kernel_tick_counter s, ae_uid = uid,
                   ae_action = cat_strncpy action AUDIT_ACTION_LEN, ae_detail = cat_strncpy detail AUDIT_DETAIL_LEN,
                   ae_granted = granted\<rparr>),
                security_audit_next_id := u64 (security_audit_next_id s + 1),
                security_audit_log_count := n + 1\<rparr>)"

definition catalog_role_grants :: "SLSRole \<Rightarrow> SLSCatalogEntry \<Rightarrow> 32 word \<Rightarrow> bool" where
  "catalog_role_grants role e needed_perm =
     (if role = ROLE_SYSTEM_KERNEL then True
      else if role = ROLE_DB_ADMIN \<and> (oe_type e = OBJ_TYPE_DB_TABLE \<or> oe_type e = OBJ_TYPE_DB_INDEX) then True
      else if role = ROLE_APP_USER \<and> oe_type e = OBJ_TYPE_DB_TABLE \<and> needed_perm AND PERM_READ \<noteq> 0
        then needed_perm AND PERM_WRITE = 0 \<and> needed_perm AND PERM_EXECUTE = 0
      else if role = ROLE_GUEST
        then (oe_type e = OBJ_TYPE_HEAP_BLOB \<or> oe_type e = OBJ_TYPE_STREAM) \<and> needed_perm = PERM_READ
      else role = ROLE_APP_USER \<and> oe_type e = OBJ_TYPE_PROGRAM \<and>
           needed_perm AND (PERM_READ OR PERM_EXECUTE) \<noteq> 0 \<and> needed_perm AND PERM_WRITE = 0)"

definition covers :: "32 word \<Rightarrow> 32 word \<Rightarrow> bool" where
  "covers perm_mask needed_perm = (perm_mask AND needed_perm = needed_perm)"

text \<open>One list of \<^verbatim>\<open>authlist_check_access\<close>.\<close>

definition authlist_grants :: "nat \<Rightarrow> string \<Rightarrow> 32 word \<Rightarrow> SLSAuthListEntry \<Rightarrow> acc_state \<Rightarrow> bool" where
  "authlist_grants uid obj_name needed_perm l s =
     (al_active l \<and>
      list_ex (\<lambda>k. ag_active (al_objects l k) \<and> cat_streq (ag_object_name (al_objects l k)) obj_name \<and>
                   covers (ag_perm_mask (al_objects l k)) needed_perm) [0..<al_object_count l] \<and>
      (list_ex (\<lambda>k. al_grantee_uids l k = uid) [0..<al_grantee_uid_count l] \<or>
       list_ex (\<lambda>k. group_contains_uid (al_grantee_groups l k) uid s) [0..<al_grantee_group_count l]))"

definition authlist_check_access :: "nat \<Rightarrow> string \<Rightarrow> 32 word \<Rightarrow> acc_state \<Rightarrow> bool" where
  "authlist_check_access uid obj_name needed_perm s =
     list_ex (\<lambda>i. authlist_grants uid obj_name needed_perm (authlist_table s i) s) [0..<AUTHLIST_MAX]"

definition database_check_access :: "nat \<Rightarrow> nat \<Rightarrow> 32 word \<Rightarrow> acc_state \<Rightarrow> bool" where
  "database_check_access uid database_id needed_perm s =
     (if database_id = 0 then False
      else case find_grant_idx database_id s of
        None \<Rightarrow> False
      | Some idx \<Rightarrow>
          let g = database_grants s idx
          in if \<not> covers (dg_perm_mask g) needed_perm then False
             else list_ex (\<lambda>i. dg_grantee_uids g i = uid) [0..<dg_grantee_uid_count g] \<or>
                  list_ex (\<lambda>i. group_contains_uid (dg_grantee_groups g i) uid s) [0..<dg_grantee_group_count g])"

text \<open>The groups loop of \<^verbatim>\<open>catalog_check_access\<close>.\<close>

definition groups_grant :: "nat \<Rightarrow> SLSCatalogEntry \<Rightarrow> 32 word \<Rightarrow> acc_state \<Rightarrow> bool" where
  "groups_grant uid e needed_perm s =
     list_ex (\<lambda>gi. ge_active (group_table s gi) \<and> group_contains_uid (ge_name (group_table s gi)) uid s \<and>
                   catalog_role_grants (ge_group_role (group_table s gi)) e needed_perm) [0..<GROUP_TABLE_MAX]"

definition catalog_check_access :: "nat \<Rightarrow> string \<Rightarrow> 32 word \<Rightarrow> acc_state \<Rightarrow> bool \<times> acc_state" where
  "catalog_check_access uid obj_name needed_perm s =
     (let role = catalog_get_role uid s
      in if role = ROLE_SYSTEM_KERNEL then (True, s)
         else case find_entry obj_name s of
           None \<Rightarrow> (False, s)
         | Some idx \<Rightarrow>
             let e = entries s idx
             in if oe_partition_id e \<noteq> partition_get_for_uid uid s then (False, s)
                else if oe_owner_uid e = uid then (True, s)
                else if catalog_role_grants role e needed_perm then (True, s)
                else if groups_grant uid e needed_perm s then (True, s)
                else if authlist_check_access uid obj_name needed_perm s then (True, s)
                else if database_check_access uid (oe_database_id e) needed_perm s then (True, s)
                else if role = ROLE_GUEST then (False, security_audit_log uid ''ACCESS_DENIED'' obj_name False s)
                else if covers (oe_perm_mask e) needed_perm then (True, s)
                else (False, security_audit_log uid ''ACCESS_DENIED'' obj_name False s))"

end
