(* ===== verification/Partition_Ops.thy ===== *)
theory Partition_Ops
  imports Access
begin

text \<open>
  The partitions of \<^verbatim>\<open>src/kernel/partition.c\<close>: creation, assignment of users, ownership by cluster nodes, pausing, cold
  migration and the replication of the ownership rows between nodes. Each call is atomic. What the stream store and the
  environments answer during a migration is an argument. Destruction also frees catalog objects and is in
  \<^verbatim>\<open>Access_Admin\<close>.
\<close>

section \<open>Creation and assignment\<close>

definition CLUSTER_NODE_MAX :: nat where [limits]: "CLUSTER_NODE_MAX = 8"
definition PARTITION_REANNOUNCE_TICKS :: nat where [limits]: "PARTITION_REANNOUNCE_TICKS = 1000"
definition PARTITION_OWNEDSET_EVERY :: nat where [limits]: "PARTITION_OWNEDSET_EVERY = 10"

definition set_partition :: "nat \<Rightarrow> SLSPartitionEntry \<Rightarrow> acc_state \<Rightarrow> acc_state" where
  "set_partition i e s = s\<lparr>partition_table := (partition_table s)(i := e)\<rparr>"

definition set_owner :: "nat \<Rightarrow> SLSPartitionOwner \<Rightarrow> acc_state \<Rightarrow> acc_state" where
  "set_owner i e s = s\<lparr>partition_owner_table := (partition_owner_table s)(i := e)\<rparr>"

definition set_assign :: "nat \<Rightarrow> SLSPartitionAssign \<Rightarrow> acc_state \<Rightarrow> acc_state" where
  "set_assign i e s = s\<lparr>partition_assign_table := (partition_assign_table s)(i := e)\<rparr>"

definition set_paused :: "nat \<Rightarrow> bool \<Rightarrow> acc_state \<Rightarrow> acc_state" where
  "set_paused i b s = s\<lparr>partition_paused := (partition_paused s)(i := b)\<rparr>"

lemmas partition_setters = set_partition_def set_owner_def set_assign_def set_paused_def

definition pq_born_bounded :: "nat \<Rightarrow> acc_state \<Rightarrow> acc_state" where
  "pq_born_bounded p s = (if p = PARTITION_SYSTEM then s else acall (BornBounded p) s)"

definition partition_init :: "acc_state \<Rightarrow> acc_state" where
  "partition_init s =
     (let s = s\<lparr>partition_table := \<lambda>i. if i < PARTITION_MAX then (partition_table s i)\<lparr>pe_active := False\<rparr> else partition_table s i,
                partition_assign_table := \<lambda>i. if i < PARTITION_ASSIGN_MAX then (partition_assign_table s i)\<lparr>pa_active := False\<rparr>
                                              else partition_assign_table s i,
                partition_owner_table := \<lambda>i. if i < PARTITION_MAX then (partition_owner_table s i)\<lparr>po_active := False\<rparr>
                                             else partition_owner_table s i\<rparr>
      in set_owner 0 \<lparr>po_partition_id = PARTITION_SYSTEM, po_node_id = cluster_local_node_id s, po_active = True\<rparr>
           (set_partition 0 \<lparr>pe_partition_id = PARTITION_SYSTEM, pe_name = cat_strncpy ''system'' PARTITION_NAME_LEN,
                             pe_active = True\<rparr> s))"

definition partition_create :: "string \<Rightarrow> acc_state \<Rightarrow> nat \<times> acc_state" where
  "partition_create name s =
     (if length name \<ge> PARTITION_NAME_LEN then (PARTITION_NONE, s)
      else case List.find (\<lambda>i. \<not> pe_active (partition_table s i)) [1..<PARTITION_MAX] of
        None \<Rightarrow> (PARTITION_NONE, s)
      | Some i \<Rightarrow>
          let s = set_partition i \<lparr>pe_partition_id = i, pe_name = cat_strncpy name PARTITION_NAME_LEN, pe_active = True\<rparr> s;
              s = set_paused i False s;
              s = set_owner i \<lparr>po_partition_id = i, po_node_id = cluster_local_node_id s, po_active = True\<rparr> s;
              s = pq_born_bounded i s;
              s = acall PersistPartitions s;
              s = acall (Announce i (pe_name (partition_table s i)) (po_node_id (partition_owner_table s i))) s
          in (i, s))"

definition partition_apply_conn_quota_defaults :: "acc_state \<Rightarrow> acc_state" where
  "partition_apply_conn_quota_defaults s =
     fold (\<lambda>i s. if pe_active (partition_table s i) then pq_born_bounded i s else s) [1..<PARTITION_MAX] s"

definition partition_assign_uid :: "nat \<Rightarrow> nat \<Rightarrow> acc_state \<Rightarrow> nat \<times> acc_state" where
  "partition_assign_uid uid partition_id s =
     (if uid = 0 then (1, s)
      else if \<not> partition_id_valid partition_id s then (1, s)
      else case assign_idx uid s of
        Some i \<Rightarrow>
          (0, acall PersistPartitions
                (set_assign i ((partition_assign_table s i)\<lparr>pa_partition_id := partition_id\<rparr>) s))
      | None \<Rightarrow>
          (case List.find (\<lambda>i. \<not> pa_active (partition_assign_table s i)) [0..<PARTITION_ASSIGN_MAX] of
             Some i \<Rightarrow>
               (0, acall PersistPartitions
                     (set_assign i \<lparr>pa_uid = uid, pa_partition_id = partition_id, pa_active = True\<rparr> s))
           | None \<Rightarrow> (1, s)))"

section \<open>Ownership, pausing and migration\<close>

definition free_owner :: "acc_state \<Rightarrow> nat option" where
  "free_owner s = List.find (\<lambda>i. \<not> po_active (partition_owner_table s i)) [0..<PARTITION_MAX]"

text \<open>Both ends of \<^verbatim>\<open>partition_set_owner_node\<close>: persist, then announce the new owner.\<close>

definition owner_changed :: "nat \<Rightarrow> nat \<Rightarrow> acc_state \<Rightarrow> acc_state" where
  "owner_changed p node s = acall (Announce p (pe_name (partition_table s p)) node) (acall PersistPartitions s)"

definition partition_set_owner_node :: "nat \<Rightarrow> nat \<Rightarrow> acc_state \<Rightarrow> nat \<times> acc_state" where
  "partition_set_owner_node p node s =
     (if \<not> partition_id_valid p s then (1, s)
      else case owner_idx p s of
        Some i \<Rightarrow> (0, owner_changed p node (set_owner i ((partition_owner_table s i)\<lparr>po_node_id := node\<rparr>) s))
      | None \<Rightarrow>
          (case free_owner s of
             Some i \<Rightarrow>
               (0, owner_changed p node (set_owner i \<lparr>po_partition_id = p, po_node_id = node, po_active = True\<rparr> s))
           | None \<Rightarrow> (1, s)))"

definition partition_pause :: "nat \<Rightarrow> acc_state \<Rightarrow> nat \<times> acc_state" where
  "partition_pause p s = (if \<not> partition_id_valid p s then (1, s) else (0, set_paused p True s))"

definition partition_resume :: "nat \<Rightarrow> acc_state \<Rightarrow> nat \<times> acc_state" where
  "partition_resume p s = (if \<not> partition_id_valid p s then (1, s) else (0, set_paused p False s))"

text \<open>
  What the calls of a migration answer: the number of streams and environments the partition has, the numbers the
  destination has confirmed, and the status of the environment step.
\<close>

record migration =
  streams_expected :: int
  streams_relocated :: int
  envs_rc :: int
  envs_expected :: nat
  envs_moved :: nat

text \<open>How a failed migration returns: the pause is taken back unless it was there before.\<close>

definition migrate_abort :: "bool \<Rightarrow> nat \<Rightarrow> acc_state \<Rightarrow> nat \<times> acc_state" where
  "migrate_abort was_paused p s =
     (let s = if was_paused then s else snd (partition_resume p s) in (1, acall MigrateIntentEnd s))"

definition partition_migrate :: "migration \<Rightarrow> nat \<Rightarrow> nat \<Rightarrow> acc_state \<Rightarrow> nat \<times> acc_state" where
  "partition_migrate m p dest s =
     (if p = PARTITION_SYSTEM then (1, s)
      else if \<not> partition_id_valid p s then (1, s)
      else if dest = 0 then (1, s)
      else if dest = partition_get_owner_node p s then (1, s)
      else
        let s = acall MigrateIntentBegin s;
            was_paused = partition_is_paused p s;
            s = snd (partition_pause p s);
            s = acall (LeaseStepDown p) s;
            clustered = cluster_local_node_id s \<noteq> 0;
            s = acall (if clustered then StreamSend p dest else StreamRelocate p dest) s
        in if streams_relocated m < streams_expected m then migrate_abort was_paused p s
           else
             let s = if clustered then acall (CtxSend p dest) s else s;
                 s = if clustered then acall (EnvMigrate p dest was_paused) s else s;
                 rc = if clustered then envs_rc m else 0;
                 expected = if clustered then envs_expected m else 0;
                 moved = if clustered then envs_moved m else 0
             in if rc \<noteq> 0 \<or> moved < expected then migrate_abort was_paused p s
                else (case partition_set_owner_node p dest s of (rc, s) \<Rightarrow>
                  if rc \<noteq> 0 then migrate_abort was_paused p s
                  else let s = if moved > 0 then s else acall (ReclaimFrames p) s
                       in (0, acall MigrateIntentEnd s)))"

section \<open>Replication of ownership rows\<close>

text \<open>
  The conflict rule of \<^verbatim>\<open>partition_sync_upsert\<close>: another owner is accepted from the present owner, and from the leader
  for itself.
\<close>

definition claim_applies :: "nat \<Rightarrow> nat \<Rightarrow> nat \<Rightarrow> acc_state \<Rightarrow> bool" where
  "claim_applies cur owner source s = (source = cur \<or> owner = source \<and> cluster_leader_id s = source)"

definition partition_sync_upsert :: "nat \<Rightarrow> nat \<Rightarrow> string \<Rightarrow> nat \<Rightarrow> acc_state \<Rightarrow> acc_state" where
  "partition_sync_upsert p owner name source s =
     (if p = PARTITION_SYSTEM \<or> p \<ge> PARTITION_MAX then s
      else if name = [] \<or> owner = 0 \<or> source = 0 then s
      else
        let had = partition_exists p s;
            cur = if had then partition_get_owner_node p s else 0
        in if had \<and> cur \<noteq> 0 \<and> cur \<noteq> owner \<and> \<not> claim_applies cur owner source s then s
           else
             let s = if had then s
                     else set_paused p False
                       (set_partition p ((partition_table s p)\<lparr>pe_partition_id := p, pe_active := True\<rparr>) s);
                 s = set_partition p ((partition_table s p)\<lparr>pe_name := cat_strncpy name PARTITION_NAME_LEN\<rparr>) s;
                 s = (case owner_idx p s of
                        Some i \<Rightarrow> set_owner i ((partition_owner_table s i)\<lparr>po_node_id := owner\<rparr>) s
                      | None \<Rightarrow>
                          (case free_owner s of
                             Some i \<Rightarrow> set_owner i \<lparr>po_partition_id = p, po_node_id = owner, po_active = True\<rparr> s
                           | None \<Rightarrow> s))
             in s\<lparr>partition_persist_dirty := True\<rparr>)"

definition drop_owner :: "nat \<Rightarrow> acc_state \<Rightarrow> acc_state" where
  "drop_owner p s =
     (case owner_idx p s of
        Some i \<Rightarrow> set_owner i ((partition_owner_table s i)\<lparr>po_active := False\<rparr>) s
      | None \<Rightarrow> s)"

definition deactivate :: "nat \<Rightarrow> acc_state \<Rightarrow> acc_state" where
  "deactivate p s = set_partition p ((partition_table s p)\<lparr>pe_active := False\<rparr>) s"

definition partition_sync_withdraw :: "nat \<Rightarrow> nat \<Rightarrow> acc_state \<Rightarrow> acc_state" where
  "partition_sync_withdraw p source s =
     (if p = PARTITION_SYSTEM \<or> p \<ge> PARTITION_MAX then s
      else if partition_get_owner_node p s \<noteq> source then s
      else (drop_owner p (set_paused p False (deactivate p s)))\<lparr>partition_persist_dirty := True\<rparr>)"

text \<open>One row of \<^verbatim>\<open>partition_sync_ownedset\<close>: a partition of the source that its set does not name is dropped.\<close>

definition collect_row :: "nat \<Rightarrow> nat list \<Rightarrow> nat \<Rightarrow> acc_state \<Rightarrow> acc_state" where
  "collect_row source ids i s =
     (let r = partition_owner_table s i; p = po_partition_id r
      in if \<not> po_active r then s
         else if po_node_id r \<noteq> source then s
         else if p = PARTITION_SYSTEM \<or> p \<ge> PARTITION_MAX then s
         else if \<not> pe_active (partition_table s p) then s
         else if p \<in> set ids then s
         else (set_paused p False (set_owner i (r\<lparr>po_active := False\<rparr>) (deactivate p s)))\<lparr>partition_persist_dirty := True\<rparr>)"

definition partition_sync_ownedset :: "nat \<Rightarrow> nat \<Rightarrow> nat list \<Rightarrow> acc_state \<Rightarrow> acc_state" where
  "partition_sync_ownedset source generation ids s =
     (if source = 0 then s
      else if source > CLUSTER_NODE_MAX then s
      else if generation \<noteq> 0 \<and> generation = partition_ownedset_seen s source then s
      else fold (collect_row source ids) [0..<PARTITION_MAX]
             (s\<lparr>partition_ownedset_seen := (partition_ownedset_seen s)(source := generation)\<rparr>))"

definition partition_persist_flush :: "acc_state \<Rightarrow> acc_state" where
  "partition_persist_flush s =
     (if \<not> partition_persist_dirty s then s else acall PersistPartitions (s\<lparr>partition_persist_dirty := False\<rparr>))"

text \<open>The partitions that this node owns and announces, in the order of the owner rows.\<close>

definition owned_rows :: "acc_state \<Rightarrow> nat list" where
  "owned_rows s =
     map (\<lambda>i. po_partition_id (partition_owner_table s i))
       (filter (\<lambda>i. let r = partition_owner_table s i; p = po_partition_id r
                    in po_active r \<and> \<not> (p = PARTITION_SYSTEM \<or> p \<ge> PARTITION_MAX) \<and>
                       po_node_id r = cluster_local_node_id s \<and> pe_active (partition_table s p))
          [0..<PARTITION_MAX])"

definition partition_reannounce_tick :: "nat \<Rightarrow> acc_state \<Rightarrow> acc_state" where
  "partition_reannounce_tick now s =
     (if u64 (now + 2 ^ 64 - partition_last_reannounce_tick s) < PARTITION_REANNOUNCE_TICKS then s
      else
        let s = s\<lparr>partition_last_reannounce_tick := now\<rparr>; me = cluster_local_node_id s
        in if me = 0 then s
           else
             let ids = owned_rows s;
                 s = fold (\<lambda>p s. acall (Announce p (pe_name (partition_table s p)) me) s) ids s;
                 n = u32 (partition_reannounce_periods s + 1)
             in if n < PARTITION_OWNEDSET_EVERY then s\<lparr>partition_reannounce_periods := n\<rparr>
                else
                  let g = u32 (partition_ownedset_generation s + 1)
                  in acall (OwnedSet g ids)
                       (s\<lparr>partition_reannounce_periods := 0, partition_ownedset_generation := g\<rparr>))"

end
