(* ===== verification/Access_Admin.thy ===== *)
theory Access_Admin
  imports Partition_Ops
begin

text \<open>
  The operations that change who may use an object: allocation and release of catalog entries, roles and permission masks
  (\<^verbatim>\<open>src/kernel/object_catalog.c\<close>), groups (\<^verbatim>\<open>src/kernel/group_profile.c\<close>), authorization lists
  (\<^verbatim>\<open>src/kernel/authlist.c\<close>), databases and their grants (\<^verbatim>\<open>src/kernel/database.c\<close>), tenants
  (\<^verbatim>\<open>src/kernel/tenant.c\<close>) and the destruction of a partition (\<^verbatim>\<open>src/kernel/partition.c\<close>), with their system calls.
  Where an internal function answers 1 for success and 0 for failure the model answers a truth value. A request of a
  system call is not null; a null request is answered with an error and changes nothing.
\<close>

section \<open>Catalog entries\<close>

definition OBJ_VADDR_BASE :: nat where [limits]: "OBJ_VADDR_BASE = 0x0001000000000000"
definition PAGE_SIZE_BYTES :: nat where [limits]: "PAGE_SIZE_BYTES = 4096"

definition cat_valid_name :: "string \<Rightarrow> bool" where
  "cat_valid_name name = (name \<noteq> [] \<and> list_all (\<lambda>c. \<not> (of_char c < (0x20::nat) \<or> of_char c = (0x20::nat))) name)"

definition fnv1a :: "string \<Rightarrow> 64 word" where
  "fnv1a str = fold (\<lambda>c h. (h XOR of_char c) * 0x00000100000001B3) str 0xcbf29ce484222325"

fun initial_tier :: "SLSObjectType \<Rightarrow> SLSStorageTier" where
  "initial_tier OBJ_TYPE_SYSTEM_METADATA = STORAGE_TIER_L1_CACHE"
| "initial_tier OBJ_TYPE_DB_TABLE = STORAGE_TIER_L2_DRAM"
| "initial_tier OBJ_TYPE_DB_INDEX = STORAGE_TIER_L2_DRAM"
| "initial_tier OBJ_TYPE_PROGRAM = STORAGE_TIER_L2_DRAM"
| "initial_tier OBJ_TYPE_STREAM = STORAGE_TIER_L3_SSD"
| "initial_tier _ = STORAGE_TIER_L3_SSD"

definition entry_end :: "SLSCatalogEntry \<Rightarrow> nat" where
  "entry_end e = u64 (oe_base_vaddr e + oe_size_pages e * PAGE_SIZE_BYTES)"

definition catalog_after_restore :: "acc_state \<Rightarrow> acc_state" where
  "catalog_after_restore s =
     s\<lparr>next_obj_vaddr :=
         fold (\<lambda>i max_end. if \<not> oe_active (entries s i) then max_end
                           else if entry_end (entries s i) > max_end then entry_end (entries s i) else max_end)
           [0..<CATALOG_MAX_OBJECTS] OBJ_VADDR_BASE\<rparr>"

record SLSVallocRequest =
  vr_name :: string
  vr_type :: SLSObjectType
  vr_size_pages :: nat
  vr_owner_uid :: nat
  vr_perm_mask :: "32 word"
  vr_partition_id :: nat
  vr_database_id :: nat

text \<open>The fields \<^verbatim>\<open>sys_sls_valloc\<close> writes into its slot; \<^verbatim>\<open>uses_rowstore\<close> stays as the slot has it.\<close>

definition valloc_entry :: "SLSVallocRequest \<Rightarrow> SLSCatalogEntry \<Rightarrow> acc_state \<Rightarrow> SLSCatalogEntry" where
  "valloc_entry req e s =
     e\<lparr>oe_object_id := unat (fnv1a (vr_name req)), oe_name := cat_strncpy (vr_name req) OBJECT_NAME_LEN,
       oe_type := vr_type req, oe_base_vaddr := next_obj_vaddr s, oe_size_pages := vr_size_pages req,
       oe_owner_uid := vr_owner_uid req, oe_storage_tier := initial_tier (vr_type req),
       oe_owner_role := catalog_get_role (vr_owner_uid req) s,
       oe_perm_mask := (if vr_perm_mask req \<noteq> 0 then vr_perm_mask req else PERM_READ OR PERM_WRITE OR PERM_OWNER),
       oe_partition_id := (if vr_partition_id req \<noteq> 0 then vr_partition_id req
                           else partition_get_for_uid (vr_owner_uid req) s),
       oe_database_id := vr_database_id req, oe_active := True\<rparr>"

definition sys_sls_valloc :: "SLSVallocRequest \<Rightarrow> acc_state \<Rightarrow> nat \<times> acc_state" where
  "sys_sls_valloc req s =
     (if vr_name req = [] \<or> vr_size_pages req = 0 then (0, s)
      else if \<not> cat_valid_name (vr_name req) then (0, s)
      else
        let obj_id = unat (fnv1a (vr_name req))
        in if list_ex (\<lambda>i. oe_active (entries s i) \<and> oe_object_id (entries s i) = obj_id) [0..<entry_count s] then (0, s)
           else if entry_count s \<ge> CATALOG_MAX_OBJECTS then (0, s)
           else
             let slot = entry_count s
             in (obj_id, acall PersistCatalog
                   (s\<lparr>next_obj_vaddr := u64 (next_obj_vaddr s + vr_size_pages req * PAGE_SIZE_BYTES),
                      entries := (entries s)(slot := valloc_entry req (entries s slot) s),
                      field_counts := (field_counts s)(slot := 0),
                      entry_count := slot + 1\<rparr>)))"

definition free_entry :: "nat \<Rightarrow> acc_state \<Rightarrow> acc_state" where
  "free_entry idx s =
     s\<lparr>entries := (entries s)(idx := (entries s idx)\<lparr>oe_active := False\<rparr>), field_counts := (field_counts s)(idx := 0)\<rparr>"

definition sys_sls_vfree :: "string \<Rightarrow> acc_state \<Rightarrow> nat \<times> acc_state" where
  "sys_sls_vfree name s =
     (case find_entry name s of
        None \<Rightarrow> (1, s)
      | Some idx \<Rightarrow>
          (0, acall PersistCatalog (acall (LoaderVfree name) (free_entry idx (acall (VecstoreFreed name) s)))))"

definition catalog_set_database :: "nat \<Rightarrow> string \<Rightarrow> string \<Rightarrow> acc_state \<Rightarrow> nat \<times> acc_state" where
  "catalog_set_database caller_uid obj_name database_name s =
     (case find_entry obj_name s of
        None \<Rightarrow> (1, s)
      | Some idx \<Rightarrow>
          (case catalog_check_access caller_uid obj_name PERM_WRITE s of (ok, s) \<Rightarrow>
             if \<not> ok then (2, s)
             else
               let new_db_id = if database_name \<noteq> [] then database_find_id database_name s else 0
               in if database_name \<noteq> [] \<and> new_db_id = 0 then (3, s)
                  else (0, acall PersistCatalog
                        (s\<lparr>entries := (entries s)(idx := (entries s idx)\<lparr>oe_database_id := new_db_id\<rparr>)\<rparr>))))"

definition vfree_partition_row :: "nat \<Rightarrow> nat \<Rightarrow> nat \<times> acc_state \<Rightarrow> nat \<times> acc_state" where
  "vfree_partition_row partition_id i fs =
     (case fs of (freed, s) \<Rightarrow>
        if \<not> oe_active (entries s i) then (freed, s)
        else if oe_partition_id (entries s i) \<noteq> partition_id then (freed, s)
        else (freed + 1, free_entry i (acall (VecstoreFreed (oe_name (entries s i))) s)))"

definition catalog_vfree_partition :: "nat \<Rightarrow> acc_state \<Rightarrow> nat \<times> acc_state" where
  "catalog_vfree_partition partition_id s =
     (case fold (vfree_partition_row partition_id) [0..<entry_count s] (0, s) of (freed, s) \<Rightarrow>
        let s = acall (LoaderVfreePartition partition_id) s
        in (freed, if freed \<noteq> 0 then acall PersistCatalog s else s))"

fun role_name :: "SLSRole \<Rightarrow> string" where
  "role_name ROLE_SYSTEM_KERNEL = ''SYSTEM_KERNEL''"
| "role_name ROLE_DB_ADMIN = ''DB_ADMIN''"
| "role_name ROLE_APP_USER = ''APP_USER''"
| "role_name ROLE_GUEST = ''GUEST''"

definition set_role :: "nat \<Rightarrow> SLSRoleEntry \<Rightarrow> acc_state \<Rightarrow> acc_state" where
  "set_role i e s =
     acall PersistCatalog (security_audit_log (re_uid e) ''ROLE_CHANGE'' (role_name (re_role e)) True
       (s\<lparr>role_table := (role_table s)(i := e)\<rparr>))"

definition sys_sls_role_set :: "nat \<Rightarrow> SLSRole \<Rightarrow> acc_state \<Rightarrow> nat \<times> acc_state" where
  "sys_sls_role_set uid role s =
     (case role_idx uid s of
        Some i \<Rightarrow> (0, set_role i ((role_table s i)\<lparr>re_role := role\<rparr>) s)
      | None \<Rightarrow>
          (case List.find (\<lambda>i. \<not> re_active (role_table s i)) [0..<ROLE_TABLE_MAX] of
             Some i \<Rightarrow> (0, set_role i \<lparr>re_uid = uid, re_role = role, re_active = True\<rparr> s)
           | None \<Rightarrow> (1, s)))"

definition sys_sls_grant :: "string \<Rightarrow> 32 word \<Rightarrow> bool \<Rightarrow> acc_state \<Rightarrow> nat \<times> acc_state" where
  "sys_sls_grant object_name perm_delta is_grant s =
     (case find_entry object_name s of
        None \<Rightarrow> (1, s)
      | Some idx \<Rightarrow>
          let e = entries s idx;
              m = if is_grant then oe_perm_mask e OR perm_delta else oe_perm_mask e AND NOT perm_delta
          in (0, s\<lparr>entries := (entries s)(idx := e\<lparr>oe_perm_mask := m\<rparr>)\<rparr>))"

section \<open>Groups\<close>

definition set_group :: "nat \<Rightarrow> SLSGroupEntry \<Rightarrow> acc_state \<Rightarrow> acc_state" where
  "set_group i g s = s\<lparr>group_table := (group_table s)(i := g)\<rparr>"

definition group_create :: "nat \<Rightarrow> string \<Rightarrow> SLSRole \<Rightarrow> acc_state \<Rightarrow> bool \<times> acc_state" where
  "group_create caller_uid name role s =
     (if name = [] then (False, s)
      else
        let partition_id = partition_get_for_uid caller_uid s
        in if \<not> tenant_caller_may_administer caller_uid partition_id s then (False, s)
           else if find_group_idx name s \<noteq> None then (False, s)
           else (case List.find (\<lambda>i. \<not> ge_active (group_table s i)) [0..<GROUP_TABLE_MAX] of
             None \<Rightarrow> (False, s)
           | Some i \<Rightarrow>
               let s = set_group i ((group_table s i)\<lparr>ge_name := cat_strncpy name GROUP_NAME_LEN, ge_group_role := role,
                                      ge_member_count := 0, ge_active := True, ge_partition_id := partition_id\<rparr>) s
               in (True, if i + 1 > group_table_count s then s\<lparr>group_table_count := i + 1\<rparr> else s)))"

definition group_add_member :: "nat \<Rightarrow> string \<Rightarrow> nat \<Rightarrow> acc_state \<Rightarrow> bool \<times> acc_state" where
  "group_add_member caller_uid name uid s =
     (case find_group_idx name s of
        None \<Rightarrow> (False, s)
      | Some idx \<Rightarrow>
          let g = group_table s idx
          in if \<not> tenant_caller_may_administer caller_uid (ge_partition_id g) s then (False, s)
             else if partition_get_for_uid uid s \<noteq> ge_partition_id g then (False, s)
             else if list_ex (\<lambda>i. ge_member_uids g i = uid) [0..<ge_member_count g] then (False, s)
             else if ge_member_count g \<ge> GROUP_MAX_MEMBERS then (False, s)
             else (True, set_group idx (g\<lparr>ge_member_uids := (ge_member_uids g)(ge_member_count g := uid),
                                          ge_member_count := ge_member_count g + 1\<rparr>) s))"

section \<open>Authorization lists\<close>

definition set_authlist :: "nat \<Rightarrow> SLSAuthListEntry \<Rightarrow> acc_state \<Rightarrow> acc_state" where
  "set_authlist i l s = s\<lparr>authlist_table := (authlist_table s)(i := l)\<rparr>"

definition authlist_create :: "nat \<Rightarrow> string \<Rightarrow> acc_state \<Rightarrow> bool \<times> acc_state" where
  "authlist_create caller_uid name s =
     (if name = [] then (False, s)
      else
        let partition_id = partition_get_for_uid caller_uid s
        in if \<not> tenant_caller_may_administer caller_uid partition_id s then (False, s)
           else if find_authlist_idx name s \<noteq> None then (False, s)
           else (case List.find (\<lambda>i. \<not> al_active (authlist_table s i)) [0..<AUTHLIST_MAX] of
             None \<Rightarrow> (False, s)
           | Some i \<Rightarrow>
               let s = set_authlist i ((authlist_table s i)\<lparr>al_name := cat_strncpy name AUTHLIST_NAME_LEN,
                          al_object_count := 0, al_grantee_uid_count := 0, al_grantee_group_count := 0,
                          al_active := True, al_partition_id := partition_id\<rparr>) s
               in (True, if i + 1 > authlist_table_count s then s\<lparr>authlist_table_count := i + 1\<rparr> else s)))"

definition authlist_grant_object :: "nat \<Rightarrow> string \<Rightarrow> string \<Rightarrow> 32 word \<Rightarrow> acc_state \<Rightarrow> bool \<times> acc_state" where
  "authlist_grant_object caller_uid list_name object_name perm_mask s =
     (case find_authlist_idx list_name s of
        None \<Rightarrow> (False, s)
      | Some idx \<Rightarrow>
          let l = authlist_table s idx
          in if \<not> tenant_caller_may_administer caller_uid (al_partition_id l) s then (False, s)
             else (case find_object_partition_id object_name s of
               None \<Rightarrow> (False, s)
             | Some obj_partition_id \<Rightarrow>
                 if obj_partition_id \<noteq> al_partition_id l then (False, s)
                 else (case List.find (\<lambda>i. ag_active (al_objects l i) \<and> cat_streq (ag_object_name (al_objects l i)) object_name)
                              [0..<al_object_count l] of
                   Some i \<Rightarrow>
                     (True, set_authlist idx
                        (l\<lparr>al_objects := (al_objects l)(i := (al_objects l i)\<lparr>ag_perm_mask := perm_mask\<rparr>)\<rparr>) s)
                 | None \<Rightarrow>
                     if al_object_count l \<ge> AUTHLIST_MAX_OBJECTS then (False, s)
                     else (True, set_authlist idx
                        (l\<lparr>al_objects := (al_objects l)(al_object_count l :=
                             \<lparr>ag_object_name = cat_strncpy object_name OBJECT_NAME_LEN, ag_perm_mask = perm_mask,
                              ag_active = True\<rparr>),
                           al_object_count := al_object_count l + 1\<rparr>) s))))"

definition authlist_grant_uid :: "nat \<Rightarrow> string \<Rightarrow> nat \<Rightarrow> acc_state \<Rightarrow> bool \<times> acc_state" where
  "authlist_grant_uid caller_uid list_name uid s =
     (case find_authlist_idx list_name s of
        None \<Rightarrow> (False, s)
      | Some idx \<Rightarrow>
          let l = authlist_table s idx
          in if \<not> tenant_caller_may_administer caller_uid (al_partition_id l) s then (False, s)
             else if partition_get_for_uid uid s \<noteq> al_partition_id l then (False, s)
             else if list_ex (\<lambda>i. al_grantee_uids l i = uid) [0..<al_grantee_uid_count l] then (False, s)
             else if al_grantee_uid_count l \<ge> AUTHLIST_MAX_GRANTEE_UIDS then (False, s)
             else (True, set_authlist idx
                    (l\<lparr>al_grantee_uids := (al_grantee_uids l)(al_grantee_uid_count l := uid),
                       al_grantee_uid_count := al_grantee_uid_count l + 1\<rparr>) s))"

definition authlist_grant_group :: "nat \<Rightarrow> string \<Rightarrow> string \<Rightarrow> acc_state \<Rightarrow> bool \<times> acc_state" where
  "authlist_grant_group caller_uid list_name group_name s =
     (case find_authlist_idx list_name s of
        None \<Rightarrow> (False, s)
      | Some idx \<Rightarrow>
          let l = authlist_table s idx
          in if \<not> tenant_caller_may_administer caller_uid (al_partition_id l) s then (False, s)
             else (case group_get_partition_id group_name s of
               None \<Rightarrow> (False, s)
             | Some group_partition_id \<Rightarrow>
                 if group_partition_id \<noteq> al_partition_id l then (False, s)
                 else if list_ex (\<lambda>i. cat_streq (al_grantee_groups l i) group_name) [0..<al_grantee_group_count l]
                   then (False, s)
                 else if al_grantee_group_count l \<ge> AUTHLIST_MAX_GRANTEE_GROUPS then (False, s)
                 else (True, set_authlist idx
                        (l\<lparr>al_grantee_groups := (al_grantee_groups l)(al_grantee_group_count l :=
                             cat_strncpy group_name GROUP_NAME_LEN),
                           al_grantee_group_count := al_grantee_group_count l + 1\<rparr>) s)))"

section \<open>Databases\<close>

definition database_create :: "nat \<Rightarrow> string \<Rightarrow> acc_state \<Rightarrow> nat \<times> acc_state" where
  "database_create caller_uid name s =
     (if name = [] then (1, s)
      else if length name \<ge> DATABASE_NAME_LEN then (1, s)
      else if find_database_idx name s \<noteq> None then (1, s)
      else case List.find (\<lambda>i. \<not> de_active (databases s i)) [0..<DATABASE_MAX] of
        None \<Rightarrow> (1, s)
      | Some free_slot \<Rightarrow>
          (0, acall PersistDatabases
                (s\<lparr>databases := (databases s)(free_slot :=
                     \<lparr>de_database_id = database_next_id s, de_name = cat_strncpy name DATABASE_NAME_LEN,
                      de_owner_uid = caller_uid, de_active = True\<rparr>),
                   database_next_id := u32 (database_next_id s + 1)\<rparr>)))"

definition database_drop :: "nat \<Rightarrow> string \<Rightarrow> acc_state \<Rightarrow> nat \<times> acc_state" where
  "database_drop caller_uid name s =
     (case find_database_idx name s of
        None \<Rightarrow> (1, s)
      | Some idx \<Rightarrow>
          let d = databases s idx
          in if de_owner_uid d \<noteq> caller_uid \<and> catalog_get_role caller_uid s \<noteq> ROLE_SYSTEM_KERNEL then (2, s)
             else if list_ex (\<lambda>i. oe_active (entries s i) \<and> oe_database_id (entries s i) = de_database_id d)
                       [0..<entry_count s] then (3, s)
             else (0, acall PersistDatabases (s\<lparr>databases := (databases s)(idx := d\<lparr>de_active := False\<rparr>)\<rparr>)))"

definition set_dbgrant :: "nat \<Rightarrow> SLSDatabaseGrant \<Rightarrow> acc_state \<Rightarrow> acc_state" where
  "set_dbgrant i g s = s\<lparr>database_grants := (database_grants s)(i := g)\<rparr>"

definition find_or_create_grant :: "nat \<Rightarrow> acc_state \<Rightarrow> nat option \<times> acc_state" where
  "find_or_create_grant database_id s =
     (case find_grant_idx database_id s of
        Some idx \<Rightarrow> (Some idx, s)
      | None \<Rightarrow>
          (case List.find (\<lambda>i. \<not> dg_active (database_grants s i)) [0..<DATABASE_GRANT_MAX] of
             None \<Rightarrow> (None, s)
           | Some i \<Rightarrow>
               let s = set_dbgrant i ((database_grants s i)\<lparr>dg_database_id := database_id, dg_perm_mask := 0,
                          dg_grantee_uid_count := 0, dg_grantee_group_count := 0, dg_active := True\<rparr>) s
               in (Some i, if i + 1 > database_grant_count s then s\<lparr>database_grant_count := i + 1\<rparr> else s)))"

definition database_grant_uid :: "string \<Rightarrow> nat \<Rightarrow> 32 word \<Rightarrow> acc_state \<Rightarrow> nat \<times> acc_state" where
  "database_grant_uid db_name uid perm_mask s =
     (case find_database_idx db_name s of
        None \<Rightarrow> (1, s)
      | Some db_idx \<Rightarrow>
          (case find_or_create_grant (de_database_id (databases s db_idx)) s of
             (None, s) \<Rightarrow> (2, s)
           | (Some gi, s) \<Rightarrow>
               let g = (database_grants s gi)\<lparr>dg_perm_mask := perm_mask\<rparr>;
                   s = set_dbgrant gi g s
               in if list_ex (\<lambda>i. dg_grantee_uids g i = uid) [0..<dg_grantee_uid_count g]
                    then (0, acall PersistDatabases s)
                  else if dg_grantee_uid_count g \<ge> DATABASE_GRANT_MAX_UIDS then (2, s)
                  else (0, acall PersistDatabases (set_dbgrant gi
                         (g\<lparr>dg_grantee_uids := (dg_grantee_uids g)(dg_grantee_uid_count g := uid),
                            dg_grantee_uid_count := dg_grantee_uid_count g + 1\<rparr>) s))))"

definition database_grant_group :: "string \<Rightarrow> string \<Rightarrow> 32 word \<Rightarrow> acc_state \<Rightarrow> nat \<times> acc_state" where
  "database_grant_group db_name group_name perm_mask s =
     (case find_database_idx db_name s of
        None \<Rightarrow> (1, s)
      | Some db_idx \<Rightarrow>
          (case find_or_create_grant (de_database_id (databases s db_idx)) s of
             (None, s) \<Rightarrow> (2, s)
           | (Some gi, s) \<Rightarrow>
               let g = (database_grants s gi)\<lparr>dg_perm_mask := perm_mask\<rparr>;
                   s = set_dbgrant gi g s
               in if list_ex (\<lambda>i. cat_streq (dg_grantee_groups g i) group_name) [0..<dg_grantee_group_count g]
                    then (0, acall PersistDatabases s)
                  else if dg_grantee_group_count g \<ge> DATABASE_GRANT_MAX_GROUPS then (2, s)
                  else (0, acall PersistDatabases (set_dbgrant gi
                         (g\<lparr>dg_grantee_groups := (dg_grantee_groups g)(dg_grantee_group_count g :=
                              cat_strncpy group_name GROUP_NAME_LEN),
                            dg_grantee_group_count := dg_grantee_group_count g + 1,
                            dg_perm_mask := dg_perm_mask g OR perm_mask\<rparr>) s))))"

definition db_revoke_finish :: "nat \<Rightarrow> acc_state \<Rightarrow> acc_state" where
  "db_revoke_finish gi s =
     (let g = database_grants s gi
      in acall PersistDatabases
           (if dg_grantee_uid_count g = 0 \<and> dg_grantee_group_count g = 0 then set_dbgrant gi (g\<lparr>dg_active := False\<rparr>) s
            else s))"

text \<open>
  The loop that closes the gap at \<open>i\<close> in an array of \<open>n\<close> used cells. The cells of an array of names hold terminated
  strings that fit, so copying one with \<^verbatim>\<open>db_strncpy\<close> is an assignment.
\<close>

definition shift_down :: "nat \<Rightarrow> nat \<Rightarrow> (nat \<Rightarrow> 'a) \<Rightarrow> nat \<Rightarrow> 'a" where
  "shift_down i n a = fold (\<lambda>k a. a(k := a (k + 1))) [i..<n - 1] a"

definition database_revoke_uid :: "string \<Rightarrow> nat \<Rightarrow> acc_state \<Rightarrow> nat \<times> acc_state" where
  "database_revoke_uid db_name uid s =
     (case find_database_idx db_name s of
        None \<Rightarrow> (1, s)
      | Some db_idx \<Rightarrow>
          (case find_grant_idx (de_database_id (databases s db_idx)) s of
             None \<Rightarrow> (2, s)
           | Some gi \<Rightarrow>
               let g = database_grants s gi; n = dg_grantee_uid_count g
               in (case List.find (\<lambda>i. dg_grantee_uids g i = uid) [0..<n] of
                     None \<Rightarrow> (2, s)
                   | Some i \<Rightarrow>
                       (0, db_revoke_finish gi (set_dbgrant gi
                             (g\<lparr>dg_grantee_uids := shift_down i n (dg_grantee_uids g), dg_grantee_uid_count := n - 1\<rparr>) s)))))"

definition database_revoke_group :: "string \<Rightarrow> string \<Rightarrow> acc_state \<Rightarrow> nat \<times> acc_state" where
  "database_revoke_group db_name group_name s =
     (case find_database_idx db_name s of
        None \<Rightarrow> (1, s)
      | Some db_idx \<Rightarrow>
          (case find_grant_idx (de_database_id (databases s db_idx)) s of
             None \<Rightarrow> (2, s)
           | Some gi \<Rightarrow>
               let g = database_grants s gi; n = dg_grantee_group_count g
               in (case List.find (\<lambda>i. cat_streq (dg_grantee_groups g i) group_name) [0..<n] of
                     None \<Rightarrow> (2, s)
                   | Some i \<Rightarrow>
                       (0, db_revoke_finish gi (set_dbgrant gi
                             (g\<lparr>dg_grantee_groups := shift_down i n (dg_grantee_groups g),
                                dg_grantee_group_count := n - 1\<rparr>) s)))))"

section \<open>Partitions and tenants\<close>

definition partition_destroy :: "nat \<Rightarrow> acc_state \<Rightarrow> nat \<times> acc_state" where
  "partition_destroy p s =
     (if p = PARTITION_SYSTEM then (1, s)
      else if \<not> partition_id_valid p s then (1, s)
      else
        let s = acall (KillPartition p) s;
            s = snd (catalog_vfree_partition p s);
            s = acall (ServiceUnregister p) (acall (ReclaimFrames p) s);
            s = s\<lparr>partition_assign_table := \<lambda>i.
                    if i < PARTITION_ASSIGN_MAX \<and> pa_active (partition_assign_table s i) \<and>
                       pa_partition_id (partition_assign_table s i) = p
                    then (partition_assign_table s i)\<lparr>pa_active := False\<rparr> else partition_assign_table s i\<rparr>;
            s = set_paused p False (deactivate p s);
            s = drop_owner p s
        in (0, acall (Withdraw p) (acall PersistPartitions s)))"

definition tenant_create :: "nat \<Rightarrow> string \<Rightarrow> acc_state \<Rightarrow> (nat \<times> nat option) \<times> acc_state" where
  "tenant_create caller_uid name s =
     (if name = [] then ((1, None), s)
      else if length name \<ge> TENANT_NAME_LEN then ((1, None), s)
      else if find_tenant_idx name s \<noteq> None then ((1, None), s)
      else case List.find (\<lambda>i. \<not> te_active (tenants s i)) [0..<TENANT_MAX] of
        None \<Rightarrow> ((1, None), s)
      | Some free_slot \<Rightarrow>
          (case partition_create name s of (partition_id, s) \<Rightarrow>
             if partition_id = PARTITION_NONE then ((2, None), s)
             else (case database_create caller_uid name s of (db_rc, s) \<Rightarrow>
               if db_rc \<noteq> 0 then ((3, None), snd (partition_destroy partition_id s))
               else
                 let database_id = database_find_id name s;
                     s = if caller_uid \<noteq> 0 then snd (partition_assign_uid caller_uid partition_id s) else s;
                     tid = tenant_next_id s
                 in ((0, Some tid), acall PersistTenants
                      (s\<lparr>tenants := (tenants s)(free_slot :=
                           \<lparr>te_tenant_id = tid, te_name = cat_strncpy name TENANT_NAME_LEN,
                            te_partition_id = partition_id, te_database_id = database_id,
                            te_owner_uid = caller_uid, te_active = True\<rparr>),
                         tenant_next_id := u32 (tid + 1)\<rparr>)))))"

section \<open>System calls\<close>

definition rc_of_bool :: "bool \<times> acc_state \<Rightarrow> nat \<times> acc_state" where
  "rc_of_bool r = (if fst r then 0 else 1, snd r)"

definition rc_collapse :: "nat \<times> acc_state \<Rightarrow> nat \<times> acc_state" where
  "rc_collapse r = (if fst r = 0 then 0 else 1, snd r)"

definition sys_sls_object_set_database :: "nat \<Rightarrow> string \<Rightarrow> string \<Rightarrow> acc_state \<Rightarrow> nat \<times> acc_state" where
  "sys_sls_object_set_database caller_uid object_name database_name s = catalog_set_database caller_uid object_name database_name s"

definition sys_sls_group_create :: "nat \<Rightarrow> string \<Rightarrow> SLSRole \<Rightarrow> acc_state \<Rightarrow> nat \<times> acc_state" where
  "sys_sls_group_create caller_uid name role s = rc_of_bool (group_create caller_uid name role s)"

definition sys_sls_group_add_member :: "nat \<Rightarrow> string \<Rightarrow> nat \<Rightarrow> acc_state \<Rightarrow> nat \<times> acc_state" where
  "sys_sls_group_add_member caller_uid name uid s = rc_of_bool (group_add_member caller_uid name uid s)"

definition sys_sls_authlist_create :: "nat \<Rightarrow> string \<Rightarrow> acc_state \<Rightarrow> nat \<times> acc_state" where
  "sys_sls_authlist_create caller_uid name s = rc_of_bool (authlist_create caller_uid name s)"

record SLSAuthListGrantRequest =
  lr_list_name :: string
  lr_kind :: nat
  lr_object_name :: string
  lr_perm_mask :: "32 word"
  lr_grantee_uid :: nat
  lr_grantee_group :: string
  lr_caller_uid :: nat

definition sys_sls_authlist_grant :: "SLSAuthListGrantRequest \<Rightarrow> acc_state \<Rightarrow> nat \<times> acc_state" where
  "sys_sls_authlist_grant req s =
     (if lr_kind req = 0
        then rc_of_bool (authlist_grant_object (lr_caller_uid req) (lr_list_name req) (lr_object_name req) (lr_perm_mask req) s)
      else if lr_kind req = 1
        then rc_of_bool (authlist_grant_uid (lr_caller_uid req) (lr_list_name req) (lr_grantee_uid req) s)
      else if lr_kind req = 2
        then rc_of_bool (authlist_grant_group (lr_caller_uid req) (lr_list_name req) (lr_grantee_group req) s)
      else (1, s))"

definition sys_sls_authlist_check :: "nat \<Rightarrow> string \<Rightarrow> 32 word \<Rightarrow> acc_state \<Rightarrow> nat" where
  "sys_sls_authlist_check uid object_name needed_perm s = (if authlist_check_access uid object_name needed_perm s then 1 else 0)"

definition sys_sls_database_create :: "nat \<Rightarrow> string \<Rightarrow> acc_state \<Rightarrow> nat \<times> acc_state" where
  "sys_sls_database_create caller_uid name s = rc_collapse (database_create caller_uid name s)"

definition sys_sls_database_drop :: "nat \<Rightarrow> string \<Rightarrow> acc_state \<Rightarrow> nat \<times> acc_state" where
  "sys_sls_database_drop caller_uid name s = rc_collapse (database_drop caller_uid name s)"

definition sys_sls_database_grant_uid :: "string \<Rightarrow> nat \<Rightarrow> 32 word \<Rightarrow> acc_state \<Rightarrow> nat \<times> acc_state" where
  "sys_sls_database_grant_uid db_name uid perm_mask s = rc_collapse (database_grant_uid db_name uid perm_mask s)"

definition sys_sls_database_grant_group :: "string \<Rightarrow> string \<Rightarrow> 32 word \<Rightarrow> acc_state \<Rightarrow> nat \<times> acc_state" where
  "sys_sls_database_grant_group db_name group_name perm_mask s = rc_collapse (database_grant_group db_name group_name perm_mask s)"

definition sys_sls_database_revoke_uid :: "string \<Rightarrow> nat \<Rightarrow> acc_state \<Rightarrow> nat \<times> acc_state" where
  "sys_sls_database_revoke_uid db_name uid s = rc_collapse (database_revoke_uid db_name uid s)"

definition sys_sls_database_revoke_group :: "string \<Rightarrow> string \<Rightarrow> acc_state \<Rightarrow> nat \<times> acc_state" where
  "sys_sls_database_revoke_group db_name group_name s = rc_collapse (database_revoke_group db_name group_name s)"

definition sys_sls_database_check :: "nat \<Rightarrow> string \<Rightarrow> 32 word \<Rightarrow> acc_state \<Rightarrow> nat" where
  "sys_sls_database_check uid db_name needed_perm s =
     (if database_check_access uid (database_find_id db_name s) needed_perm s then 1 else 0)"

definition sys_sls_tenant_create :: "nat \<Rightarrow> string \<Rightarrow> acc_state \<Rightarrow> nat \<times> acc_state" where
  "sys_sls_tenant_create caller_uid name s =
     (case tenant_create caller_uid name s of ((rc, tid), s) \<Rightarrow> (if rc = 0 then case tid of Some t \<Rightarrow> t | None \<Rightarrow> 0 else 0, s))"

definition sys_sls_partition_create :: "string \<Rightarrow> acc_state \<Rightarrow> nat \<times> acc_state" where
  "sys_sls_partition_create name s = partition_create name s"

definition sys_sls_partition_assign :: "nat \<Rightarrow> nat \<Rightarrow> acc_state \<Rightarrow> nat \<times> acc_state" where
  "sys_sls_partition_assign uid partition_id s = partition_assign_uid uid partition_id s"

definition sys_sls_partition_destroy :: "nat \<Rightarrow> acc_state \<Rightarrow> nat \<times> acc_state" where
  "sys_sls_partition_destroy partition_id s = partition_destroy partition_id s"

definition sys_sls_partition_pause :: "nat \<Rightarrow> acc_state \<Rightarrow> nat \<times> acc_state" where
  "sys_sls_partition_pause partition_id s = partition_pause partition_id s"

definition sys_sls_partition_resume :: "nat \<Rightarrow> acc_state \<Rightarrow> nat \<times> acc_state" where
  "sys_sls_partition_resume partition_id s = partition_resume partition_id s"

definition sys_sls_partition_migrate :: "migration \<Rightarrow> nat \<Rightarrow> nat \<Rightarrow> acc_state \<Rightarrow> nat \<times> acc_state" where
  "sys_sls_partition_migrate m partition_id dest_node_id s = partition_migrate m partition_id dest_node_id s"

end
