(* ===== verification/Access_Laws.thy ===== *)
theory Access_Laws
  imports Access_Admin
begin

text \<open>
  What the access check guarantees: it answers what a set of declarative rules says, and the groups and authorization
  lists that the administrators of one partition make never change what the users of another partition may do.
\<close>

section \<open>The rules\<close>

lemma list_ex_upt [simp]: "list_ex P [0..<n] \<longleftrightarrow> (\<exists>i<n. P i)"
  by (auto simp: list_ex_iff)

lemma ex_snoc: "(\<exists>i<Suc n. (a(n := x)) i = v) \<longleftrightarrow> x = v \<or> (\<exists>i<n. a i = v)"
  by (auto simp: less_Suc_eq)

text \<open>
  The ways to be allowed \<open>perm\<close> on the object \<open>obj\<close>. Except for the kernel role every rule asks for an object in the
  partition of the user.
\<close>

definition visible :: "nat \<Rightarrow> string \<Rightarrow> acc_state \<Rightarrow> SLSCatalogEntry \<Rightarrow> bool" where
  "visible uid obj s e \<longleftrightarrow>
     (\<exists>i. find_entry obj s = Some i \<and> e = entries s i) \<and> oe_partition_id e = partition_get_for_uid uid s"


lemma check_iff:
  "fst (catalog_check_access uid obj perm s) \<longleftrightarrow>
     catalog_get_role uid s = ROLE_SYSTEM_KERNEL \<or>
     (\<exists>e. visible uid obj s e \<and>
       (oe_owner_uid e = uid \<or> catalog_role_grants (catalog_get_role uid s) e perm \<or> groups_grant uid e perm s \<or>
        authlist_check_access uid obj perm s \<or> database_check_access uid (oe_database_id e) perm s \<or>
        catalog_get_role uid s \<noteq> ROLE_GUEST \<and> covers (oe_perm_mask e) perm))"
  by (auto simp: catalog_check_access_def Let_def visible_def split: option.splits)


section \<open>Administration stays within the partition\<close>

datatype rbac_op =
  GroupCreate nat string SLSRole | GroupAdd nat string nat | ListCreate nat string
| ListObject nat string string "32 word" | ListUid nat string nat | ListGroup nat string string

fun rbac_step :: "rbac_op \<Rightarrow> acc_state \<Rightarrow> acc_state" where
  "rbac_step (GroupCreate c n r) s = snd (group_create c n r s)"
| "rbac_step (GroupAdd c n u) s = snd (group_add_member c n u s)"
| "rbac_step (ListCreate c n) s = snd (authlist_create c n s)"
| "rbac_step (ListObject c n ob m) s = snd (authlist_grant_object c n ob m s)"
| "rbac_step (ListUid c n u) s = snd (authlist_grant_uid c n u s)"
| "rbac_step (ListGroup c n g) s = snd (authlist_grant_group c n g s)"

fun rbac_caller :: "rbac_op \<Rightarrow> nat" where
  "rbac_caller (GroupCreate c n r) = c"
| "rbac_caller (GroupAdd c n u) = c"
| "rbac_caller (ListCreate c n) = c"
| "rbac_caller (ListObject c n ob m) = c"
| "rbac_caller (ListUid c n u) = c"
| "rbac_caller (ListGroup c n g) = c"

text \<open>The names fit the arrays of the requests.\<close>

fun rbac_fits :: "rbac_op \<Rightarrow> bool" where
  "rbac_fits (GroupCreate c n r) = (length n < GROUP_NAME_LEN)"
| "rbac_fits (GroupAdd c n u) = (length n < GROUP_NAME_LEN)"
| "rbac_fits (ListCreate c n) = (length n < AUTHLIST_NAME_LEN)"
| "rbac_fits (ListObject c n ob m) = (length n < AUTHLIST_NAME_LEN \<and> length ob < OBJECT_NAME_LEN)"
| "rbac_fits (ListUid c n u) = (length n < AUTHLIST_NAME_LEN)"
| "rbac_fits (ListGroup c n g) = (length n < AUTHLIST_NAME_LEN \<and> length g < GROUP_NAME_LEN)"

lemma cat_strncpy_fits [simp]: "length str < n \<Longrightarrow> cat_strncpy str n = str"
  by (simp add: cat_strncpy_def)

text \<open>The members of a group are users of its partition.\<close>

definition at_home :: "acc_state \<Rightarrow> bool" where
  "at_home s \<longleftrightarrow> (\<forall>gi<GROUP_TABLE_MAX. ge_active (group_table s gi) \<longrightarrow>
     (\<forall>k<ge_member_count (group_table s gi).
        partition_get_for_uid (ge_member_uids (group_table s gi) k) s = ge_partition_id (group_table s gi)))"

text \<open>What a change of the groups and the lists leaves alone.\<close>

definition same_base :: "acc_state \<Rightarrow> acc_state \<Rightarrow> bool" where
  "same_base s s' \<longleftrightarrow> entries s' = entries s \<and> entry_count s' = entry_count s \<and> role_table s' = role_table s \<and>
     tenants s' = tenants s \<and> partition_assign_table s' = partition_assign_table s \<and>
     database_grants s' = database_grants s"

lemma same_base_lookups:
  assumes "same_base s s'"
  shows "find_entry n s' = find_entry n s" "catalog_get_role u s' = catalog_get_role u s"
    "partition_get_for_uid u s' = partition_get_for_uid u s" "find_grant_idx d s' = find_grant_idx d s"
    "tenant_caller_may_administer c p s' = tenant_caller_may_administer c p s"
  using assms
  by (simp_all add: same_base_def find_entry_def catalog_get_role_def role_idx_def partition_get_for_uid_def assign_idx_def
      find_grant_idx_def tenant_caller_may_administer_def tenant_find_by_partition_def cong: option.case_cong)

lemma rbac_same_base: "same_base s (rbac_step op s)"
  by (cases op)
    (auto simp: same_base_def group_create_def group_add_member_def authlist_create_def authlist_grant_object_def
      authlist_grant_uid_def authlist_grant_group_def set_group_def set_authlist_def Let_def split: option.split)

lemma check_cong:
  assumes base: "same_base s s'"
    and contains: "\<And>n. group_contains_uid n uid s' = group_contains_uid n uid s"
    and groups: "\<And>e. groups_grant uid e perm s' = groups_grant uid e perm s"
    and lists: "\<And>e. visible uid obj s e \<Longrightarrow> authlist_check_access uid obj perm s' = authlist_check_access uid obj perm s"
  shows "fst (catalog_check_access uid obj perm s') = fst (catalog_check_access uid obj perm s)"
proof -
  have vis: "visible uid obj s' e = visible uid obj s e" for e
    using base by (simp add: visible_def same_base_lookups [OF base]) (simp add: same_base_def)
  have db: "database_check_access uid d perm s' = database_check_access uid d perm s" for d
    using base by (simp add: database_check_access_def same_base_lookups [OF base] contains cong: option.case_cong)
      (simp add: same_base_def cong: option.case_cong)
  show ?thesis
    unfolding check_iff vis db groups same_base_lookups [OF base] using lists by blast
qed


lemma group_create_cases:
  obtains "snd (group_create c n r s) = s"
  | i where "tenant_caller_may_administer c (partition_get_for_uid c s) s" "find_group_idx n s = None"
      "i < GROUP_TABLE_MAX" "\<not> ge_active (group_table s i)"
      "group_table (snd (group_create c n r s)) = (group_table s)(i := (group_table s i)\<lparr>ge_name := cat_strncpy n GROUP_NAME_LEN,
         ge_group_role := r, ge_member_count := 0, ge_active := True, ge_partition_id := partition_get_for_uid c s\<rparr>)"
      "authlist_table (snd (group_create c n r s)) = authlist_table s"
proof (cases "n \<noteq> [] \<and> tenant_caller_may_administer c (partition_get_for_uid c s) s \<and> find_group_idx n s = None")
  case True
  then show thesis
    using that by (cases "List.find (\<lambda>i. \<not> ge_active (group_table s i)) [0..<GROUP_TABLE_MAX]")
      (auto simp: group_create_def find_upt_Some set_group_def Let_def)
next
  case False
  then show thesis
    using that(1) by (auto simp: group_create_def Let_def)
qed

lemma group_add_cases:
  obtains "snd (group_add_member c n u s) = s"
  | idx where "find_group_idx n s = Some idx" "tenant_caller_may_administer c (ge_partition_id (group_table s idx)) s"
      "partition_get_for_uid u s = ge_partition_id (group_table s idx)"
      "snd (group_add_member c n u s) = set_group idx ((group_table s idx)\<lparr>
         ge_member_uids := (ge_member_uids (group_table s idx))(ge_member_count (group_table s idx) := u),
         ge_member_count := ge_member_count (group_table s idx) + 1\<rparr>) s"
  using that by (cases "snd (group_add_member c n u s) = s")
    (auto simp: group_add_member_def Let_def simp del: list_ex_upt split: option.splits if_split_asm)

lemma group_create_contains:
  assumes "length n < GROUP_NAME_LEN"
  shows "group_contains_uid m u (snd (group_create c n r s)) = group_contains_uid m u s"
proof (cases rule: group_create_cases [of c n r s])
  case 1
  then show ?thesis by simp
next
  case (2 i)
  have "find_group_idx m (snd (group_create c n r s)) = (if m = n then Some i else find_group_idx m s)"
    using 2 assms by (subst grp.add [OF _ 2(3,4) _ 2(5)]) simp_all
  moreover have "find_group_idx m s \<noteq> Some i"
    using 2(4) by (auto simp: grp.found)
  ultimately show ?thesis
    using 2(2) by (auto simp: group_contains_uid_def 2(5) Let_def split: option.split)
qed

lemma group_add_contains:
  assumes "u \<noteq> v"
  shows "group_contains_uid m v (snd (group_add_member c n u s)) = group_contains_uid m v s"
proof (cases rule: group_add_cases [of c n u s])
  case 1
  then show ?thesis by simp
next
  case (2 idx)
  let ?s = "snd (group_add_member c n u s)"
  have "find_group_idx m ?s = find_group_idx m s"
    unfolding 2(4) by (rule grp.replace [where i = idx]) (simp_all add: set_group_def)
  moreover have "(\<exists>i<ge_member_count (group_table ?s j). ge_member_uids (group_table ?s j) i = v) \<longleftrightarrow>
      (\<exists>i<ge_member_count (group_table s j). ge_member_uids (group_table s j) i = v)" for j
    using assms by (cases "j = idx") (simp_all add: 2(4) set_group_def ex_snoc fun_upd_same fun_upd_other del: fun_upd_apply)
  ultimately show ?thesis
    by (simp add: group_contains_uid_def Let_def split: option.split)
qed

text \<open>A user who is in none of the new places gets nothing from a step that only touches the groups.\<close>

lemma group_step_check:
  assumes "length n < GROUP_NAME_LEN"
  shows "fst (catalog_check_access uid obj perm (snd (group_create c n r s))) = fst (catalog_check_access uid obj perm s)"
proof (rule check_cong)
  let ?s = "snd (group_create c n r s)"
  note contains = group_create_contains [OF assms, of _ _ c r s]
  show "same_base s ?s"
    using rbac_same_base [of s "GroupCreate c n r"] by simp
  show "group_contains_uid m uid ?s = group_contains_uid m uid s" for m
    by (rule contains)
  show "groups_grant uid e perm ?s = groups_grant uid e perm s" for e
  proof (cases rule: group_create_cases [of c n r s])
    case (2 i)
    from 2(2) have "\<not> group_contains_uid n uid s"
      by (simp add: group_contains_uid_def)
    then show ?thesis
      using assms 2(4) by (auto simp: groups_grant_def contains 2(5))
  qed simp
  show "authlist_check_access uid obj perm ?s = authlist_check_access uid obj perm s"
    by (cases rule: group_create_cases [of c n r s])
      (simp_all add: authlist_check_access_def authlist_grants_def contains)
qed

lemma group_add_check:
  assumes "u \<noteq> uid"
  shows "fst (catalog_check_access uid obj perm (snd (group_add_member c n u s))) = fst (catalog_check_access uid obj perm s)"
proof (rule check_cong)
  let ?s = "snd (group_add_member c n u s)"
  note contains = group_add_contains [OF assms, of _ c n s]
  show "same_base s ?s"
    using rbac_same_base [of s "GroupAdd c n u"] by simp
  show "group_contains_uid m uid ?s = group_contains_uid m uid s" for m
    by (rule contains)
  have fields: "ge_active (group_table ?s i) = ge_active (group_table s i)" "ge_name (group_table ?s i) = ge_name (group_table s i)"
    "ge_group_role (group_table ?s i) = ge_group_role (group_table s i)" "authlist_table ?s = authlist_table s" for i
    by (cases rule: group_add_cases [of c n u s]; simp add: set_group_def)+
  show "groups_grant uid e perm ?s = groups_grant uid e perm s" for e
    by (simp add: groups_grant_def contains fields)
  show "authlist_check_access uid obj perm ?s = authlist_check_access uid obj perm s"
    by (simp add: authlist_check_access_def authlist_grants_def contains fields)
qed


text \<open>The operations on lists write at most one list.\<close>

lemma list_step_check:
  assumes base: "same_base s s'" and tab: "authlist_table s' = (authlist_table s)(idx := l)" and grp: "group_table s' = group_table s"
    and grants: "\<And>e. visible uid obj s e \<Longrightarrow> authlist_grants uid obj perm l s = authlist_grants uid obj perm (authlist_table s idx) s"
  shows "fst (catalog_check_access uid obj perm s') = fst (catalog_check_access uid obj perm s)"
proof (rule check_cong [OF base])
  show contains: "group_contains_uid m uid s' = group_contains_uid m uid s" for m
    by (simp add: grp group_contains_uid_def find_group_idx_def split: option.split)
  show "groups_grant uid e perm s' = groups_grant uid e perm s" for e
    by (simp add: groups_grant_def contains grp)
  have "authlist_grants uid obj perm k s' = authlist_grants uid obj perm k s" for k
    by (simp add: authlist_grants_def contains)
  then have "authlist_grants uid obj perm (authlist_table s' i) s' = authlist_grants uid obj perm (authlist_table s i) s"
    if "visible uid obj s e" for e i
    using grants [OF that] by (simp add: tab)
  then show "authlist_check_access uid obj perm s' = authlist_check_access uid obj perm s" if "visible uid obj s e" for e
    using that by (simp add: authlist_check_access_def)
qed

lemma list_create_check:
  "fst (catalog_check_access uid obj perm (snd (authlist_create c n s))) = fst (catalog_check_access uid obj perm s)"
proof (cases "snd (authlist_create c n s) = s")
  case False
  then obtain i where i: "\<not> al_active (authlist_table s i)"
    and s': "authlist_table (snd (authlist_create c n s)) = (authlist_table s)(i := (authlist_table s i)\<lparr>
        al_name := cat_strncpy n AUTHLIST_NAME_LEN, al_object_count := 0, al_grantee_uid_count := 0,
        al_grantee_group_count := 0, al_active := True, al_partition_id := partition_get_for_uid c s\<rparr>)"
    and "group_table (snd (authlist_create c n s)) = group_table s"
    by (cases "n \<noteq> [] \<and> tenant_caller_may_administer c (partition_get_for_uid c s) s \<and> find_authlist_idx n s = None";
        cases "List.find (\<lambda>i. \<not> al_active (authlist_table s i)) [0..<AUTHLIST_MAX]")
      (auto simp: authlist_create_def Let_def set_authlist_def find_upt_Some)
  then show ?thesis
    using rbac_same_base [of s "ListCreate c n"] by (intro list_step_check [OF _ s']) (simp_all add: authlist_grants_def)
qed simp

lemma list_uid_check:
  assumes "\<not> tenant_caller_may_administer c (partition_get_for_uid uid s) s"
  shows "fst (catalog_check_access uid obj perm (snd (authlist_grant_uid c n u s))) = fst (catalog_check_access uid obj perm s)"
proof (cases "snd (authlist_grant_uid c n u s) = s")
  case False
  let ?l = "\<lambda>i. (authlist_table s i)\<lparr>al_grantee_uids := (al_grantee_uids (authlist_table s i))(al_grantee_uid_count (authlist_table s i) := u),
        al_grantee_uid_count := al_grantee_uid_count (authlist_table s i) + 1\<rparr>"
  from False obtain i where adm: "tenant_caller_may_administer c (partition_get_for_uid u s) s"
    and s': "snd (authlist_grant_uid c n u s) = set_authlist i (?l i) s"
    by (cases "find_authlist_idx n s")
      (auto simp: authlist_grant_uid_def Let_def simp del: list_ex_upt split: if_split_asm)
  from adm assms have "u \<noteq> uid"
    by auto
  then show ?thesis
    using rbac_same_base [of s "ListUid c n u"] unfolding s'
    by (intro list_step_check [where idx = i and l = "?l i"])
      (simp_all add: s' set_authlist_def authlist_grants_def cong: conj_cong)
qed simp

text \<open>The list \<open>l'\<close> is \<open>l\<close> with a grant on \<open>ob\<close> added or changed.\<close>

definition regrants :: "string \<Rightarrow> SLSAuthListEntry \<Rightarrow> SLSAuthListEntry \<Rightarrow> bool" where
  "regrants ob l l' \<longleftrightarrow>
     (\<exists>k g. k \<le> al_object_count l \<and> ag_object_name g = ob \<and> al_objects l' = (al_objects l)(k := g) \<and>
        (if k < al_object_count l then ag_object_name (al_objects l k) = ob \<and> al_object_count l' = al_object_count l
         else al_object_count l' = al_object_count l + 1)) \<and>
     al_active l' = al_active l \<and> al_grantee_uids l' = al_grantee_uids l \<and>
     al_grantee_uid_count l' = al_grantee_uid_count l \<and> al_grantee_groups l' = al_grantee_groups l \<and>
     al_grantee_group_count l' = al_grantee_group_count l"

lemma regrants_other:
  assumes "regrants ob l l'" and "obj \<noteq> ob"
  shows "authlist_grants uid obj perm l' s = authlist_grants uid obj perm l s"
proof -
  from assms(1) obtain k g where k: "k \<le> al_object_count l" "ag_object_name g = ob" "al_objects l' = (al_objects l)(k := g)"
    "if k < al_object_count l then ag_object_name (al_objects l k) = ob \<and> al_object_count l' = al_object_count l
     else al_object_count l' = al_object_count l + 1"
    unfolding regrants_def by blast
  then have "(\<exists>j<al_object_count l'. ag_active (al_objects l' j) \<and> ag_object_name (al_objects l' j) = obj \<and>
        covers (ag_perm_mask (al_objects l' j)) perm) \<longleftrightarrow>
      (\<exists>j<al_object_count l. ag_active (al_objects l j) \<and> ag_object_name (al_objects l j) = obj \<and>
        covers (ag_perm_mask (al_objects l j)) perm)"
    using assms(2) by (cases "k < al_object_count l") (auto simp: less_Suc_eq cong: conj_cong dest: less_not_refl3)
  then show ?thesis
    using assms(1) by (simp add: authlist_grants_def regrants_def)
qed

lemma list_object_cases:
  assumes "length ob < OBJECT_NAME_LEN"
  obtains "snd (authlist_grant_object c n ob m s) = s"
  | i l where "tenant_caller_may_administer c (al_partition_id (authlist_table s i)) s"
      "find_object_partition_id ob s = Some (al_partition_id (authlist_table s i))"
      "snd (authlist_grant_object c n ob m s) = set_authlist i l s" "regrants ob (authlist_table s i) l"
proof (cases "snd (authlist_grant_object c n ob m s) = s")
  case False
  then obtain i where i: "find_authlist_idx n s = Some i"
      and adm: "tenant_caller_may_administer c (al_partition_id (authlist_table s i)) s"
      and ob: "find_object_partition_id ob s = Some (al_partition_id (authlist_table s i))"
    by (auto simp: authlist_grant_object_def Let_def simp del: list_ex_upt split: option.splits if_split_asm)
  let ?l = "authlist_table s i"
  consider k where "List.find (\<lambda>k. ag_active (al_objects ?l k) \<and> ag_object_name (al_objects ?l k) = ob) [0..<al_object_count ?l] = Some k"
    | "List.find (\<lambda>k. ag_active (al_objects ?l k) \<and> ag_object_name (al_objects ?l k) = ob) [0..<al_object_count ?l] = None"
    by (cases "List.find (\<lambda>k. ag_active (al_objects ?l k) \<and> ag_object_name (al_objects ?l k) = ob) [0..<al_object_count ?l]") auto
  then show thesis
  proof cases
    case 1
    show thesis
    proof (rule that(2) [OF adm ob])
      show "snd (authlist_grant_object c n ob m s) =
          set_authlist i (?l\<lparr>al_objects := (al_objects ?l)(k := (al_objects ?l k)\<lparr>ag_perm_mask := m\<rparr>)\<rparr>) s"
        using i adm ob 1 by (simp add: authlist_grant_object_def Let_def)
      show "regrants ob ?l (?l\<lparr>al_objects := (al_objects ?l)(k := (al_objects ?l k)\<lparr>ag_perm_mask := m\<rparr>)\<rparr>)"
        using 1 unfolding find_upt_Some regrants_def
        by (auto intro!: exI [of _ k] exI [of _ "(al_objects ?l k)\<lparr>ag_perm_mask := m\<rparr>"])
    qed
  next
    case 2
    let ?g = "\<lparr>ag_object_name = ob, ag_perm_mask = m, ag_active = True\<rparr>"
    show thesis
    proof (rule that(2) [OF adm ob])
      show "snd (authlist_grant_object c n ob m s) =
          set_authlist i (?l\<lparr>al_objects := (al_objects ?l)(al_object_count ?l := ?g), al_object_count := al_object_count ?l + 1\<rparr>) s"
        using i adm ob 2 False assms by (auto simp: authlist_grant_object_def Let_def split: if_split_asm)
      show "regrants ob ?l (?l\<lparr>al_objects := (al_objects ?l)(al_object_count ?l := ?g), al_object_count := al_object_count ?l + 1\<rparr>)"
        unfolding regrants_def by (auto intro!: exI [of _ "al_object_count ?l"] exI [of _ ?g])
    qed
  qed
qed (rule that)

lemma list_object_check:
  assumes "\<not> tenant_caller_may_administer c (partition_get_for_uid uid s) s" and "length ob < OBJECT_NAME_LEN"
  shows "fst (catalog_check_access uid obj perm (snd (authlist_grant_object c n ob m s))) = fst (catalog_check_access uid obj perm s)"
proof (cases rule: list_object_cases [OF assms(2), of c n m s])
  case (2 i l)
  have "obj \<noteq> ob" if "visible uid obj s e" for e
    using that 2(1,2) assms(1) by (auto simp: visible_def find_object_partition_id_def find_entry_def)
  then show ?thesis
    using rbac_same_base [of s "ListObject c n ob m"] regrants_other [OF 2(4)]
    by (intro list_step_check [where idx = i and l = l]) (auto simp: 2(3) set_authlist_def)
qed simp

lemma list_group_check:
  assumes "\<not> tenant_caller_may_administer c (partition_get_for_uid uid s) s" and "at_home s"
    and "length g < GROUP_NAME_LEN"
  shows "fst (catalog_check_access uid obj perm (snd (authlist_grant_group c n g s))) = fst (catalog_check_access uid obj perm s)"
proof (cases "snd (authlist_grant_group c n g s) = s")
  case False
  let ?l = "\<lambda>i. (authlist_table s i)\<lparr>al_grantee_groups := (al_grantee_groups (authlist_table s i))(al_grantee_group_count (authlist_table s i) := g),
        al_grantee_group_count := al_grantee_group_count (authlist_table s i) + 1\<rparr>"
  from False assms(3) obtain i p where adm: "tenant_caller_may_administer c p s"
    and g: "group_get_partition_id g s = Some p"
    and s': "snd (authlist_grant_group c n g s) = set_authlist i (?l i) s"
    by (auto simp: authlist_grant_group_def Let_def simp del: list_ex_upt split: option.splits if_split_asm)
  from g obtain gi where gi: "find_group_idx g s = Some gi" "ge_partition_id (group_table s gi) = p"
    by (auto simp: group_get_partition_id_def)
  from adm assms(1) have "p \<noteq> partition_get_for_uid uid s"
    by auto
  moreover from gi(1) have "gi < GROUP_TABLE_MAX" "ge_active (group_table s gi)"
    by (simp_all add: grp.found)
  ultimately have "\<not> group_contains_uid g uid s"
    using gi assms(2) by (auto simp: group_contains_uid_def at_home_def Let_def)
  then show ?thesis
    using rbac_same_base [of s "ListGroup c n g"] unfolding s'
    by (intro list_step_check [where idx = i and l = "?l i"])
      (simp_all add: s' set_authlist_def authlist_grants_def cong: conj_cong)
qed simp

lemma rbac_step_check:
  assumes "\<not> tenant_caller_may_administer (rbac_caller op) (partition_get_for_uid uid s) s" and "at_home s" and "rbac_fits op"
  shows "fst (catalog_check_access uid obj perm (rbac_step op s)) = fst (catalog_check_access uid obj perm s)"
proof (cases op)
  case (GroupAdd c n u)
  show ?thesis
  proof (cases "u = uid")
    case True
    then have "rbac_step op s = s"
      using assms(1) by (cases rule: group_add_cases [of c n u s]) (auto simp: GroupAdd)
    then show ?thesis by simp
  qed (simp add: GroupAdd group_add_check)
qed (use assms in \<open>simp_all add: group_step_check list_create_check list_object_check list_uid_check list_group_check\<close>)

lemma list_groups:
  "group_table (snd (authlist_create c n s)) = group_table s"
  "group_table (snd (authlist_grant_object c n ob m s)) = group_table s"
  "group_table (snd (authlist_grant_uid c n u s)) = group_table s"
  "group_table (snd (authlist_grant_group c n g s)) = group_table s"
  by (auto simp: authlist_create_def authlist_grant_object_def authlist_grant_uid_def authlist_grant_group_def
      set_authlist_def Let_def split: option.split)

lemma at_home_step:
  assumes "at_home s"
  shows "at_home (rbac_step op s)"
proof -
  note home = assms [unfolded at_home_def, rule_format]
  note pt = same_base_lookups(3) [OF rbac_same_base]
  show ?thesis
  proof (cases op)
    case (GroupCreate c n r)
    then show ?thesis
      by (cases rule: group_create_cases [of c n r s]) (auto simp: assms at_home_def home pt [of _ op s, unfolded GroupCreate, simplified])
  next
    case (GroupAdd c n u)
    show ?thesis
    proof (cases rule: group_add_cases [of c n u s])
      case (2 idx)
      from 2(1) have "idx < GROUP_TABLE_MAX" "ge_active (group_table s idx)"
        by (simp_all add: grp.found)
      then show ?thesis
        using home 2(3) unfolding at_home_def pt by (auto simp: GroupAdd 2(4) set_group_def less_Suc_eq)
    qed (simp add: GroupAdd assms)
  qed (use assms in \<open>unfold at_home_def pt, simp_all add: list_groups\<close>)
qed

text \<open>
  C38. Whatever callers who may not administer the partition of a user do to groups and authorization lists, in whatever
  order, every access check of the user answers as before, as long as the members of each group are users of its
  partition.
\<close>

theorem rbac_confined:
  assumes "at_home s" and "\<forall>op\<in>set ops. rbac_fits op"
    and "\<forall>op\<in>set ops. \<not> tenant_caller_may_administer (rbac_caller op) (partition_get_for_uid uid s) s"
  shows "fst (catalog_check_access uid obj perm (fold rbac_step ops s)) = fst (catalog_check_access uid obj perm s)"
  using assms
proof (induction ops arbitrary: s)
  case (Cons op ops)
  note look = same_base_lookups [OF rbac_same_base [of s op]]
  have "fst (catalog_check_access uid obj perm (fold rbac_step ops (rbac_step op s))) =
      fst (catalog_check_access uid obj perm (rbac_step op s))"
    using Cons.prems at_home_step by (intro Cons.IH) (simp_all add: look)
  also have "\<dots> = fst (catalog_check_access uid obj perm s)"
    using Cons.prems by (intro rbac_step_check) simp_all
  finally show ?case
    by simp
qed simp

section \<open>Two tenants\<close>

text \<open>
  A state with two tenants: user 7 owns the first, in partition 1; user 8 owns the second, in partition 2, where user 9
  works and where the table \<^verbatim>\<open>doc\<close> is.
\<close>

definition no_acc :: acc_state where
  "no_acc = \<lparr>
     entries = \<lambda>_. \<lparr>oe_object_id = 0, oe_name = [], oe_perm_mask = 0, oe_active = False, oe_uses_rowstore = False,
       oe_type = OBJ_TYPE_SYSTEM_METADATA, oe_base_vaddr = 0, oe_size_pages = 0, oe_owner_uid = 0,
       oe_storage_tier = STORAGE_TIER_L1_CACHE, oe_owner_role = ROLE_SYSTEM_KERNEL, oe_partition_id = 0, oe_database_id = 0\<rparr>,
     entry_count = 0, field_counts = \<lambda>_. 0, next_obj_vaddr = OBJ_VADDR_BASE,
     role_table = \<lambda>_. \<lparr>re_uid = 0, re_role = ROLE_SYSTEM_KERNEL, re_active = False\<rparr>,
     group_table = \<lambda>_. \<lparr>ge_name = [], ge_group_role = ROLE_SYSTEM_KERNEL, ge_member_uids = \<lambda>_. 0, ge_member_count = 0,
       ge_active = False, ge_partition_id = 0\<rparr>, group_table_count = 0,
     authlist_table = \<lambda>_. \<lparr>al_name = [], al_objects = \<lambda>_. \<lparr>ag_object_name = [], ag_perm_mask = 0, ag_active = False\<rparr>,
       al_object_count = 0, al_grantee_uids = \<lambda>_. 0, al_grantee_uid_count = 0, al_grantee_groups = \<lambda>_. [],
       al_grantee_group_count = 0, al_active = False, al_partition_id = 0\<rparr>, authlist_table_count = 0,
     databases = \<lambda>_. \<lparr>de_database_id = 0, de_name = [], de_owner_uid = 0, de_active = False\<rparr>, database_next_id = 1,
     database_grants = \<lambda>_. \<lparr>dg_database_id = 0, dg_perm_mask = 0, dg_grantee_uids = \<lambda>_. 0, dg_grantee_uid_count = 0,
       dg_grantee_groups = \<lambda>_. [], dg_grantee_group_count = 0, dg_active = False\<rparr>, database_grant_count = 0,
     tenants = \<lambda>_. \<lparr>te_tenant_id = 0, te_name = [], te_partition_id = 0, te_database_id = 0, te_owner_uid = 0,
       te_active = False\<rparr>, tenant_next_id = 1,
     partition_table = \<lambda>_. \<lparr>pe_partition_id = 0, pe_name = [], pe_active = False\<rparr>,
     partition_assign_table = \<lambda>_. \<lparr>pa_uid = 0, pa_partition_id = 0, pa_active = False\<rparr>,
     partition_owner_table = \<lambda>_. \<lparr>po_partition_id = 0, po_node_id = 0, po_active = False\<rparr>,
     partition_paused = \<lambda>_. False,
     security_audit_log_buf = \<lambda>_. \<lparr>ae_id = 0, ae_tick = 0, ae_uid = 0, ae_action = [], ae_detail = [], ae_granted = False\<rparr>,
     security_audit_log_count = 0, security_audit_next_id = 1, kernel_tick_counter = 0, cluster_local_node_id = 0,
     cluster_leader_id = 0, partition_persist_dirty = False, partition_ownedset_seen = \<lambda>_. 0,
     partition_last_reannounce_tick = 0, partition_reannounce_periods = 0, partition_ownedset_generation = 0, acalls = []\<rparr>"

definition two_tenants :: acc_state where
  "two_tenants = no_acc\<lparr>
     tenants := (tenants no_acc)
       (0 := \<lparr>te_tenant_id = 1, te_name = ''first'', te_partition_id = 1, te_database_id = 1, te_owner_uid = 7, te_active = True\<rparr>,
        1 := \<lparr>te_tenant_id = 2, te_name = ''second'', te_partition_id = 2, te_database_id = 2, te_owner_uid = 8, te_active = True\<rparr>),
     partition_assign_table := (partition_assign_table no_acc)
       (0 := \<lparr>pa_uid = 7, pa_partition_id = 1, pa_active = True\<rparr>, 1 := \<lparr>pa_uid = 8, pa_partition_id = 2, pa_active = True\<rparr>,
        2 := \<lparr>pa_uid = 9, pa_partition_id = 2, pa_active = True\<rparr>),
     entries := (entries no_acc)(0 := (entries no_acc 0)\<lparr>oe_name := ''doc'', oe_type := OBJ_TYPE_DB_TABLE, oe_active := True,
       oe_owner_uid := 8, oe_partition_id := 2\<rparr>),
     entry_count := 1,
     partition_table := (partition_table no_acc)
       (0 := \<lparr>pe_partition_id = 0, pe_name = ''system'', pe_active = True\<rparr>, 1 := \<lparr>pe_partition_id = 1, pe_name = ''first'', pe_active = True\<rparr>,
        2 := \<lparr>pe_partition_id = 2, pe_name = ''second'', pe_active = True\<rparr>)\<rparr>"

lemma two_tenants_sel:
  "tenants two_tenants 0 = \<lparr>te_tenant_id = 1, te_name = ''first'', te_partition_id = 1, te_database_id = 1, te_owner_uid = 7, te_active = True\<rparr>"
  "tenants two_tenants (Suc 0) = \<lparr>te_tenant_id = 2, te_name = ''second'', te_partition_id = 2, te_database_id = 2, te_owner_uid = 8, te_active = True\<rparr>"
  "partition_assign_table two_tenants 0 = \<lparr>pa_uid = 7, pa_partition_id = 1, pa_active = True\<rparr>"
  "partition_assign_table two_tenants (Suc 0) = \<lparr>pa_uid = 8, pa_partition_id = 2, pa_active = True\<rparr>"
  "partition_assign_table two_tenants (Suc (Suc 0)) = \<lparr>pa_uid = 9, pa_partition_id = 2, pa_active = True\<rparr>"
  "\<not> ge_active (group_table two_tenants i)" "\<not> re_active (role_table two_tenants i)"
  by (simp_all add: two_tenants_def no_acc_def numeral_2_eq_2)

lemma two_tenants_lookups:
  "partition_get_for_uid 9 two_tenants = 2" "catalog_get_role 7 two_tenants = ROLE_GUEST"
  "\<not> tenant_caller_may_administer 7 2 two_tenants" "at_home two_tenants"
proof -
  show "partition_get_for_uid 9 two_tenants = 2"
    by (simp add: partition_get_for_uid_def assign_idx_def find_upt_step two_tenants_sel limits)
  have "role_idx 7 two_tenants = None"
    by (simp add: rol.absent two_tenants_sel)
  then show role: "catalog_get_role 7 two_tenants = ROLE_GUEST"
    by (simp add: catalog_get_role_def)
  show "\<not> tenant_caller_may_administer 7 2 two_tenants"
    by (simp add: tenant_caller_may_administer_def role tenant_find_by_partition_def find_upt_step two_tenants_sel limits)
  show "at_home two_tenants"
    by (simp add: at_home_def two_tenants_sel)
qed

theorem rbac_confined_witness:
  "fst (catalog_check_access 9 ''doc'' 2
     (fold rbac_step [GroupCreate 7 ''all'' ROLE_SYSTEM_KERNEL, GroupAdd 7 ''all'' 9, ListCreate 7 ''list'', ListUid 7 ''list'' 9]
       two_tenants)) = fst (catalog_check_access 9 ''doc'' 2 two_tenants)"
  by (rule rbac_confined) (simp_all add: two_tenants_lookups limits)

section \<open>Groups and tenants that outlive their partition\<close>

text \<open>A successful assignment moves one user and changes no other table.\<close>

lemma assign_uid_ok:
  assumes "partition_assign_uid uid q s = (0, s')"
  shows "\<exists>j e. s' = acall PersistPartitions (set_assign j e s)"
    and "partition_get_for_uid v s' = (if v = uid then q else partition_get_for_uid v s)"
proof -
  from assms have uid: "uid \<noteq> 0"
    by (auto simp: partition_assign_uid_def split: if_split_asm)
  consider j where "assign_idx uid s = Some j"
      "s' = acall PersistPartitions (set_assign j ((partition_assign_table s j)\<lparr>pa_partition_id := q\<rparr>) s)"
    | j where "assign_idx uid s = None" "j < PARTITION_ASSIGN_MAX" "\<not> pa_active (partition_assign_table s j)"
      "s' = acall PersistPartitions (set_assign j \<lparr>pa_uid = uid, pa_partition_id = q, pa_active = True\<rparr> s)"
    using assms by (auto simp: partition_assign_uid_def find_upt_Some split: if_split_asm option.splits)
  then have "(\<exists>j e. s' = acall PersistPartitions (set_assign j e s)) \<and>
      partition_get_for_uid v s' = (if v = uid then q else partition_get_for_uid v s)"
  proof cases
    case 1
    have tab: "partition_assign_table s' = (partition_assign_table s)(j := (partition_assign_table s j)\<lparr>pa_partition_id := q\<rparr>)"
      by (simp add: 1(2) acall_def set_assign_def)
    have "assign_idx v s' = assign_idx v s"
      by (rule asg.replace [OF _ _ tab]) simp_all
    moreover have "assign_idx v s = Some j \<longleftrightarrow> v = uid"
      using 1(1) by (auto simp: asg.found)
    ultimately have "partition_get_for_uid v s' = (if v = uid then q else partition_get_for_uid v s)"
      using uid by (cases "assign_idx v s") (auto simp: partition_get_for_uid_def tab)
    with 1(2) show ?thesis by blast
  next
    case 2
    have tab: "partition_assign_table s' = (partition_assign_table s)(j := \<lparr>pa_uid = uid, pa_partition_id = q, pa_active = True\<rparr>)"
      by (simp add: 2(4) acall_def set_assign_def)
    have "assign_idx v s' = (if v = uid then Some j else assign_idx v s)"
      using 2(1-3) by (subst asg.add [OF _ _ _ _ tab]) simp_all
    moreover have "assign_idx v s \<noteq> Some j"
      using 2(3) by (auto simp: asg.found)
    ultimately have "partition_get_for_uid v s' = (if v = uid then q else partition_get_for_uid v s)"
      using uid by (cases "assign_idx v s") (auto simp: partition_get_for_uid_def tab)
    with 2(4) show ?thesis by blast
  qed
  then show "\<exists>j e. s' = acall PersistPartitions (set_assign j e s)"
    and "partition_get_for_uid v s' = (if v = uid then q else partition_get_for_uid v s)"
    by blast+
qed

text \<open>
  The partition of a group is compared with the partition of a user only when the user is added. A user who is moved to
  another partition keeps the role of the group there: through a group with the kernel role every object of the new
  partition is open to them, for every permission.
\<close>

theorem group_follows_user:
  assumes "gi < GROUP_TABLE_MAX" and "ge_active (group_table s gi)" and "ge_group_role (group_table s gi) = ROLE_SYSTEM_KERNEL"
    and "group_contains_uid (ge_name (group_table s gi)) uid s"
    and "partition_assign_uid uid q s = (0, s')" and "find_entry obj s = Some i" and "oe_partition_id (entries s i) = q"
  shows "fst (catalog_check_access uid obj perm s')"
proof -
  obtain j e where s': "s' = acall PersistPartitions (set_assign j e s)"
    using assign_uid_ok(1) [OF assms(5)] by blast
  have same: "group_table s' = group_table s" "entries s' = entries s" "find_entry obj s' = find_entry obj s"
    "group_contains_uid n uid s' = group_contains_uid n uid s" for n
    by (simp_all add: s' acall_def set_assign_def find_entry_def group_contains_uid_def find_group_idx_def split: option.split)
  have "visible uid obj s' (entries s i)"
    using assms(6,7) by (simp add: visible_def same assign_uid_ok(2) [OF assms(5)])
  moreover have "groups_grant uid (entries s i) perm s'"
    using assms(1-4) by (auto simp: groups_grant_def same catalog_role_grants_def)
  ultimately show ?thesis
    unfolding check_iff by blast
qed

text \<open>The tables that an operation on partitions leaves alone.\<close>

definition rest :: "acc_state \<Rightarrow> acc_state \<Rightarrow> bool" where
  "rest s s' \<longleftrightarrow> tenants s' = tenants s \<and> tenant_next_id s' = tenant_next_id s \<and> role_table s' = role_table s"

lemma vfree_rest: "rest s (snd (fold (vfree_partition_row p) xs (n, s)))"
proof -
  have "rest (snd fs) (snd (fold (vfree_partition_row p) xs fs))" for fs
    by (induction xs arbitrary: fs)
      (simp_all add: rest_def vfree_partition_row_def free_entry_def acall_def split: prod.split)
  from this [of "(n, s)"] show ?thesis by simp
qed

lemma destroy_rest: "rest s (snd (partition_destroy p s))"
  using vfree_rest [of "acall (KillPartition p) s" p "[0..<entry_count s]" 0]
  by (auto simp: partition_destroy_def catalog_vfree_partition_def rest_def drop_owner_def deactivate_def partition_setters
      acall_def Let_def split: prod.splits option.split)

lemma create_rest:
  "rest s (snd (partition_create n s))" "rest s (snd (database_create u n s))" "rest s (snd (partition_assign_uid u p s))"
  by (auto simp: partition_create_def database_create_def partition_assign_uid_def pq_born_bounded_def rest_def
      partition_setters acall_def Let_def split: option.split)

lemma create_tenants:
  "(\<exists>t e. t < TENANT_MAX \<and> \<not> te_active (tenants s t) \<and> tenants (snd (tenant_create u n s)) = (tenants s)(t := e)) \<or>
   tenants (snd (tenant_create u n s)) = tenants s"
  "role_table (snd (tenant_create u n s)) = role_table s"
proof -
  obtain p s1 where p: "partition_create n s = (p, s1)"
    by fastforce
  obtain r s2 where d: "database_create u n s1 = (r, s2)"
    by fastforce
  have "rest s s1" "rest s1 s2"
    using create_rest(1) [of s n] create_rest(2) [of s1 u n] by (simp_all add: p d)
  then have r: "rest s s2" "rest s (snd (partition_destroy p s2))" "rest s (snd (partition_assign_uid u p s2))" "rest s s1"
    using destroy_rest [of s2 p] create_rest(3) [of s2 u p] by (simp_all add: rest_def)
  let ?s = "snd (tenant_create u n s)"
  show "(\<exists>t e. t < TENANT_MAX \<and> \<not> te_active (tenants s t) \<and> tenants ?s = (tenants s)(t := e)) \<or> tenants ?s = tenants s"
  proof (cases "List.find (\<lambda>i. \<not> te_active (tenants s i)) [0..<TENANT_MAX]")
    case (Some t)
    then have "t < TENANT_MAX" "\<not> te_active (tenants s t)"
      by (simp_all add: find_upt_Some)
    moreover have "tenants ?s = tenants s \<or> (\<exists>e. tenants ?s = (tenants s)(t := e))"
      using r by (auto simp: tenant_create_def Some p d rest_def acall_def Let_def)
    ultimately show ?thesis by blast
  qed (simp add: tenant_create_def)
  show "role_table ?s = role_table s"
    using r by (auto simp: tenant_create_def p d rest_def acall_def Let_def split: option.split)
qed

text \<open>
  C40. Destroying a partition leaves the tenant record, and a partition number is given out again. Whoever creates the next
  tenant, the number leads to the old record: apart from callers with the kernel role, the owner of the destroyed tenant
  administers the partition and nobody else does.
\<close>

theorem destroyed_tenant_administers:
  assumes "i < TENANT_MAX" and "te_tenant_id (tenants s i) \<noteq> 0" and "te_partition_id (tenants s i) = p" and "p \<noteq> PARTITION_SYSTEM"
    and "\<forall>j\<le>i. te_active (tenants s j)"
    and "\<forall>j<i. te_partition_id (tenants s j) \<noteq> p \<and> te_tenant_id (tenants s j) \<noteq> te_tenant_id (tenants s i)"
  shows "tenant_caller_may_administer v p (snd (tenant_create u n (snd (partition_destroy p s)))) \<longleftrightarrow>
     v = te_owner_uid (tenants s i) \<or> catalog_get_role v s = ROLE_SYSTEM_KERNEL"
proof -
  let ?s = "snd (tenant_create u n (snd (partition_destroy p s)))"
  have same: "tenants ?s j = tenants s j" if "j \<le> i" for j
    using create_tenants(1) [of "snd (partition_destroy p s)" u n] assms(5) that by (auto simp: destroy_rest [unfolded rest_def])
  have "List.find (\<lambda>j. te_active (tenants ?s j) \<and> te_partition_id (tenants ?s j) = p) [0..<TENANT_MAX] = Some i"
    unfolding find_upt_Some using assms same by auto
  then have tid: "tenant_find_by_partition p ?s = te_tenant_id (tenants s i)"
    by (simp add: tenant_find_by_partition_def same)
  have "List.find (\<lambda>j. te_active (tenants ?s j) \<and> te_tenant_id (tenants ?s j) = te_tenant_id (tenants s i)) [0..<TENANT_MAX] = Some i"
    unfolding find_upt_Some using assms same by auto
  moreover have "catalog_get_role v ?s = catalog_get_role v s"
    by (simp add: catalog_get_role_def role_idx_def create_tenants destroy_rest [unfolded rest_def] split: option.split)
  ultimately show ?thesis
    using assms(2,4) by (auto simp: tenant_caller_may_administer_def tid same Let_def)
qed

lemma role_10: "catalog_get_role 10 two_tenants = ROLE_GUEST"
proof -
  have "role_idx 10 two_tenants = None"
    by (simp add: rol.absent two_tenants_sel)
  then show ?thesis
    by (simp add: catalog_get_role_def)
qed

theorem destroyed_tenant_administers_witness:
  "tenant_caller_may_administer 7 1 (snd (tenant_create 10 ''new'' (snd (partition_destroy 1 two_tenants)))) \<and>
   \<not> tenant_caller_may_administer 10 1 (snd (tenant_create 10 ''new'' (snd (partition_destroy 1 two_tenants))))"
  using destroyed_tenant_administers [of 0 two_tenants 1 7 10 "''new''"]
    destroyed_tenant_administers [of 0 two_tenants 1 10 10 "''new''"]
  by (simp add: two_tenants_sel limits role_10)

text \<open>The number of a destroyed partition is the next one given out when the numbers below it are in use.\<close>

lemma vfree_partition_table: "partition_table (snd (fold (vfree_partition_row p) xs fs)) = partition_table (snd fs)"
  by (induction xs arbitrary: fs) (simp_all add: vfree_partition_row_def free_entry_def acall_def split: prod.split)

lemma destroy_partition_table:
  assumes "p \<noteq> PARTITION_SYSTEM" and "partition_id_valid p s"
  shows "partition_table (snd (partition_destroy p s)) = (partition_table s)(p := (partition_table s p)\<lparr>pe_active := False\<rparr>)"
proof -
  obtain n s1 where fold: "fold (vfree_partition_row p) [0..<entry_count s] (0, acall (KillPartition p) s) = (n, s1)"
    by fastforce
  then have "partition_table s1 = partition_table s"
    using vfree_partition_table [of p "[0..<entry_count s]" "(0, acall (KillPartition p) s)"] by (simp add: acall_def)
  with fold show ?thesis
    using assms by (simp add: partition_destroy_def catalog_vfree_partition_def drop_owner_def deactivate_def partition_setters
        acall_def Let_def split: option.split)
qed

lemma destroyed_number_reused:
  assumes "p \<noteq> PARTITION_SYSTEM" and "partition_id_valid p s" and "\<forall>j. 0 < j \<and> j < p \<longrightarrow> pe_active (partition_table s j)"
    and "length n < PARTITION_NAME_LEN"
  shows "fst (partition_create n (snd (partition_destroy p s))) = p"
proof -
  have p: "0 < p" "p < PARTITION_MAX"
    using assms(1,2) by (auto simp: partition_id_valid_def split: if_split_asm)
  then have "List.find (\<lambda>i. \<not> pe_active (partition_table (snd (partition_destroy p s)) i)) [1..<PARTITION_MAX] = Some p"
    using assms(3) unfolding destroy_partition_table [OF assms(1,2)] find_Some_iff
    by (intro exI [of _ "p - 1"]) auto
  then show ?thesis
    using assms(4) by (simp add: partition_create_def Let_def)
qed

end
