(* ===== verification/Spec2Isabelle.thy ===== *)
theory Spec2Isabelle
  imports Chan_Laws Cap_Run Cap_Take Cap_Window Mvcc_Laws Mvcc_Index Ipc_Laws Transaction_Laws Access_Laws
begin

text \<open>
  Verification of the AeroSLS kernel: capabilities, channels, ports, row versions, record transactions and access control.

  AeroSLS is a single-level-store operating system kernel in C. This development models six parts of it. The first
  is the seed capability layer, through which processes get memory, channels and interrupts. The second is the
  older port-based message passing. Three are the concurrency control of the database inside the kernel:
  row versions with their constraints, row locks, and record transactions with a write-ahead log. The last is the access
  control over the objects of the catalog: roles, groups, authorization lists, databases, tenants and partitions.

  \<^bold>\<open>Conventions.\<close> A C struct is a record, an enumeration a datatype, the static variables of a file one state record. A
  function is a definition of the same name that takes the state and returns its result with the new state. Fixed
  arrays are total functions on indices. Unsigned integers are naturals cut by \<open>u8\<close>, \<open>u16\<close>, \<open>u32\<close>, \<open>u64\<close>, or words
  where single bits matter. A C string is the list of its characters before the terminator. Error codes are
  constructors or the numbers of the code. What the code calls elsewhere is a field of an environment record, an
  argument, or an entry of a call log. Each operation is one atomic step, as the code runs it under its locks; only
  the lock-free payload pool is modelled at the level of its loads and compare-and-swaps.

  \<^bold>\<open>Shared theories.\<close> \<open>Cap_Prelude\<close> holds the casts, searches over index ranges, the collections \<open>limits\<close>, \<open>word_fields\<close>
  and \<open>frame\<close>, and the interface \<open>index_freelist\<close> of a free list threaded through an array; table slots, holder nodes
  and payload buffers interpret it. \<open>Bounded_Queue\<close> holds the interface \<open>bounded_fifo\<close>; the channel rings and the port
  queues interpret it. \<open>Keyed_Table\<close> holds the interface \<open>keyed_table\<close> of a table searched for an active entry with a key;
  the nine registries of \<open>Access\<close> interpret it.

  \<^bold>\<open>Capability layer\<close> (\<^verbatim>\<open>src/kernel/cap.c\<close>, \<^verbatim>\<open>src/kernel/cap.h\<close>, \<^verbatim>\<open>src/kernel/chan.c\<close>).
  \<^item> Words and state: \<open>Cap_Word\<close> (bit layout, minting, forgery check, revocation stamp), \<open>Cap_State\<close> (all structs).
  \<^item> Resources: \<open>Cap_Table\<close> (tables and slots), \<open>Cap_Holder\<close> and \<open>Cap_Refs\<close> (objects, holder lists, reference counts),
    \<open>Cap_Arena\<close> (frames), \<open>Cap_Payload\<close> (buffers).
  \<^item> Operations: \<open>Cap_Create\<close>, \<open>Cap_Pair\<close>, \<open>Cap_Chan\<close> (creation), \<open>Cap_Send\<close>, \<open>Cap_Recv\<close>, \<open>Cap_Msg\<close> (messages), \<open>Cap_Map\<close>
    (mappings), \<open>Cap_Revoke\<close> (release, revocation, teardown), \<open>Chan_Transport\<close>, \<open>Chan_Irq\<close>, \<open>Cap_Tramp\<close>, \<open>Cap_Sidecar\<close> and
    \<open>Cap_Syscall\<close> (the interfaces for drivers and sidecars).
  \<^item> Refinement: \<open>holders_rep\<close> and \<open>refs_rep\<close> (\<open>Cap_Refs\<close>) relate the linked nodes to lists and reference counts;
    \<open>cap_at\<close> (\<open>Cap_Space\<close>) is the abstract capability space of a process; \<open>cap_inv\<close> (\<open>Cap_Inv\<close>) is the invariant.
  \<^item> Contracts of the operations over the space: \<open>Cap_Ring\<close>, \<open>Cap_Drop\<close>, \<open>Cap_Tear\<close>, \<open>Cap_Sever\<close>, \<open>Cap_Batch\<close>, \<open>Cap_Take\<close>,
    \<open>Cap_Window\<close>, \<open>Cap_Dead\<close>. \<open>Cap_Step\<close> makes them the steps of one machine, \<open>Cap_Run\<close> gives sample states.
  \<^item> Properties: \<open>Cap_Laws\<close> and \<open>Chan_Laws\<close>. The invariant holds in every reachable state; no capability is forged;
    revocation is final; sending and receiving move a capability unchanged and once; messages are queues; teardown,
    draining, mapping, waiting, deadlines, interrupts and the registry do what they promise.

  \<^bold>\<open>Ports\<close> (\<^verbatim>\<open>src/kernel/ipc.c\<close>). \<open>Ipc\<close> has the operations, \<open>Ipc_Laws\<close> the sequences of calls over them: every queue
  is first-in first-out, and a bound user port is isolated from other partitions in both directions.

  \<^bold>\<open>Row versions\<close> (\<^verbatim>\<open>src/kernel/mvcc.c\<close>, \<^verbatim>\<open>src/kernel/row_constraint.c\<close>). \<open>Mvcc\<close> has the operations and the constraint
  checks they call. \<open>Mvcc_Inv\<close> has the invariant on versions of one row, \<open>Mvcc_Laws\<close> snapshot isolation over runs,
  \<open>Mvcc_Index\<close> the hash index as a finite map.

  \<^bold>\<open>Row locks\<close> (\<^verbatim>\<open>src/kernel/lock_mgr.c\<close>). \<open>Lock_Mgr\<close> has the table and mutual exclusion of exclusive locks, with the
  run that breaks it through a shared one.

  \<^bold>\<open>Record transactions\<close> (\<^verbatim>\<open>src/kernel/transaction.c\<close> and the record operations of \<^verbatim>\<open>src/kernel/object_catalog.c\<close>).
  \<open>Crc32\<close> shows that the table-driven checksum equals the bitwise one of the sidecars and sees every change of one byte.
  \<open>Transaction\<close> has the log, commit, rollback, recovery and the record operations, which take locks from \<open>Lock_Mgr\<close>.
  \<open>Transaction_Laws\<close> shows that every operation keeps the log in shape, that a transaction alone amounts to its updates
  executed at commit, and that recovery never redoes a committed entry; further lemmas there show how staged inserts,
  interleaved transactions and a full log lose writes.

  \<^bold>\<open>Access control\<close> (\<^verbatim>\<open>src/kernel/object_catalog.c\<close>, \<^verbatim>\<open>src/kernel/group_profile.c\<close>, \<^verbatim>\<open>src/kernel/authlist.c\<close>,
  \<^verbatim>\<open>src/kernel/database.c\<close>, \<^verbatim>\<open>src/kernel/tenant.c\<close>, \<^verbatim>\<open>src/kernel/partition.c\<close>, \<^verbatim>\<open>src/kernel/security_audit.c\<close>). \<open>Access\<close> has the
  tables, the lookups and the access check, \<open>Partition_Ops\<close> the operations on partitions with migration and replication,
  \<open>Access_Admin\<close> the other operations that change the tables. \<open>Access_Laws\<close> shows that the check answers what declarative
  rules say and that the administrators of one partition cannot change the access of the users of another; further
  theorems there show what survives the destruction of a partition and the move of a user.

  \<^bold>\<open>Bounds and fuel.\<close> The loops of \<^verbatim>\<open>src/kernel/cap.c\<close> that follow holder chains run on fuel \<open>CAP_HOLDER_MAX\<close>; the chains are distinct
  nodes of a pool of that size, so it is enough. Draining a queue runs on fuel \<open>CHAN_QUEUE_DEPTH\<close>, the capacity of the ring,
  and is shown to end empty. Cascading deletes nest at most \<open>ROW_CASCADE_MAX_DEPTH\<close> deep, which is the guard of the code.
  The recovery scan re-reads the number of entries; it ends because the log never exceeds \<open>WAL_MAX_ENTRIES\<close>. The laws on
  row versions assume that the 64-bit counters have room (\<open>mv_room\<close>).

  \<^bold>\<open>Not modelled.\<close>
  \<^item> Creation of sidecars, the scheduler, the loader, boot and page tables: they work on physical memory and
    registers. The capability layer's calls to them are recorded hooks.
  \<^item> \<^verbatim>\<open>k_linux_forward\<close> and \<^verbatim>\<open>k_linux_deliver\<close> of \<^verbatim>\<open>src/kernel/chan.c\<close>: process table and user memory.
  \<^item> Persistence, checkpoints, the row store's pages and the journals: block-device writes; the calls are parameters or
    recorded.
  \<^item> Registration of constraints, schemas in the catalog, login tokens, storage quotas, materialised tables, the SQL front
    end and the vector store: left for later work.
  \<^item> Network, drivers, code translators, user programs and generated files: hardware, vendored or generated code.
  \<^item> Weak memory and preemption inside an operation, except in the payload pool.
\<close>

end
